(* ===== verification/Slot_Prelude.thy ===== *)
theory Slot_Prelude
  imports Main "HOL-Library.Word"
begin

text \<open>
  Shared vocabulary of the SlotFS development: the machine types of the C code, the
  conversions the code performs silently between them, byte memories, and the generic
  lemmas the component theories use.

  \<^item> \<open>size_t\<close>, \<open>uint64_t\<close> and \<open>relptr_t\<close> values are natural numbers; where the code can
    wrap, the operation is written with \<open>size_add\<close>, \<open>size_sub\<close> or \<open>size_mul\<close>, which
    reduce modulo \<open>2 ^ 64\<close>.
  \<^item> \<open>index_t\<close> (\<open>int64_t\<close>) and \<open>int\<close> values are integers. A C function of return type
    \<open>int\<close> that returns an \<open>unsigned long\<close> truncates: \<open>c_int\<close>. Storing an \<open>int\<close> in a
    \<open>size_t\<close> sign extends: \<open>to_size\<close>.
  \<^item> Memory reached through a base pointer is a function from the byte offset to the byte
    (type \<open>bytes\<close>): an access past the end of an array then reads or writes the
    neighbouring bytes, as the C code does.
\<close>

unbundle bit_operations_syntax

named_theorems slot_simps \<open>equations of the model used by the component proofs\<close>
named_theorems slot_wf \<open>preservation of well-formedness invariants\<close>

subsection \<open>Machine integers\<close>

type_synonym byte = "8 word"
type_synonym bytes = "nat \<Rightarrow> byte"
type_synonym index_t = int
type_synonym relptr_t = nat

definition c_int :: "nat \<Rightarrow> int" where
  "c_int n = (int n + 2 ^ 31) mod 2 ^ 32 - 2 ^ 31"

definition to_size :: "int \<Rightarrow> nat" where
  "to_size i = nat (i mod 2 ^ 64)"

definition size_add :: "nat \<Rightarrow> nat \<Rightarrow> nat" where
  "size_add a b = (a + b) mod 2 ^ 64"

definition size_sub :: "nat \<Rightarrow> nat \<Rightarrow> nat" where
  "size_sub a b = nat ((int a - int b) mod 2 ^ 64)"

definition size_mul :: "nat \<Rightarrow> nat \<Rightarrow> nat" where
  "size_mul a b = (a * b) mod 2 ^ 64"

lemma c_int_small [simp]: "n < 2 ^ 31 \<Longrightarrow> c_int n = int n"
  by (simp add: c_int_def)

lemma to_size_int [simp]: "n < 2 ^ 64 \<Longrightarrow> to_size (int n) = n"
  by (simp add: to_size_def)

lemma to_size_c_int [simp]: "n < 2 ^ 31 \<Longrightarrow> to_size (c_int n) = n"
  by simp

lemma size_add_small [simp]: "a + b < 2 ^ 64 \<Longrightarrow> size_add a b = a + b"
  by (simp add: size_add_def)

lemma size_mul_small [simp]: "a * b < 2 ^ 64 \<Longrightarrow> size_mul a b = a * b"
  by (simp add: size_mul_def)

lemma size_sub_le [simp]: "b \<le> a \<Longrightarrow> a < 2 ^ 64 \<Longrightarrow> size_sub a b = a - b"
  by (simp add: size_sub_def flip: of_nat_diff)

lemma size_sub_wrap: "a < b \<Longrightarrow> b \<le> 2 ^ 64 \<Longrightarrow> size_sub a b = 2 ^ 64 - (b - a)"
proof -
  assume "a < b" "b \<le> 2 ^ 64"
  then have "(int a - int b) mod 2 ^ 64 = int a - int b + 2 ^ 64"
    by (subst mod_add_self2 [symmetric], subst mod_pos_pos_trivial) auto
  with \<open>a < b\<close> \<open>b \<le> 2 ^ 64\<close> show ?thesis
    by (simp add: size_sub_def)
qed

lemma size_sub_bound: "size_sub a b < 2 ^ 64"
  by (simp add: size_sub_def nat_less_iff)

lemma size_add_bound: "size_add a b < 2 ^ 64"
  by (simp add: size_add_def)

subsection \<open>Counting\<close>

lemma card_less_Suc_filter:
  "card {i. i < Suc n \<and> P i} = card {i. i < n \<and> P i} + (if P n then 1 else 0)"
proof -
  have "{i. i < Suc n \<and> P i} = (if P n then insert n {i. i < n \<and> P i} else {i. i < n \<and> P i})"
    by (auto simp: less_Suc_eq)
  then show ?thesis
    by simp
qed

lemma card_insert_below:
  fixes n :: nat
  assumes "n < b" and "\<not> P n"
  shows "card {i. i < b \<and> (i = n \<or> P i)} = Suc (card {i. i < b \<and> P i})"
proof -
  have "{i. i < b \<and> (i = n \<or> P i)} = insert n {i. i < b \<and> P i}"
    using assms by auto
  then show ?thesis
    using assms by simp
qed

lemma card_remove_below:
  fixes n :: nat
  assumes "n < b" and "P n"
  shows "Suc (card {i. i < b \<and> i \<noteq> n \<and> P i}) = card {i. i < b \<and> P i}"
proof -
  have "{i. i < b \<and> P i} = insert n {i. i < b \<and> i \<noteq> n \<and> P i}"
    using assms by auto
  then show ?thesis
    by simp
qed

lemma card_zero_below: "card {i. i < b \<and> P i} = 0 \<Longrightarrow> i < b \<Longrightarrow> \<not> P (i::nat)"
  by (auto simp: card_eq_0_iff)

end
