(* ===== verification/Bitops.thy ===== *)
theory Bitops
  imports Slot_Prelude
begin

text \<open>
  The bitmap primitives of \<open>slotfs/bitops.h\<close> and \<open>count_bits\<close> of \<open>slotfs/slotfs.h\<close>, over a
  byte memory. Bit \<open>n\<close> of a bitmap is bit \<open>n mod 8\<close> of byte \<open>n div 8\<close> (\<open>bit_at\<close>).

  The lemmas give the exact set of bits each primitive reads or changes. They show that
  \<open>set_bit_range\<close> and \<open>clear_bit_range\<close> leave the last \<open>range_lost nr len\<close> bits of the
  range untouched (the pointer is not advanced past the bytes \<open>memset\<close> has filled), and that
  \<open>next_set_bit\<close> only ever sees set bits at multiples of 8 (it compares the masked byte
  with 1).
\<close>

subsection \<open>Single bits\<close>

definition bit_at :: "bytes \<Rightarrow> nat \<Rightarrow> bool" where
  "bit_at bmp n \<longleftrightarrow> bit (bmp (n div 8)) (n mod 8)"

definition set_bit :: "nat \<Rightarrow> bytes \<Rightarrow> bytes" where
  "set_bit nr bmp = bmp(nr div 8 := bmp (nr div 8) OR push_bit (nr mod 8) 1)"

definition clear_bit :: "nat \<Rightarrow> bytes \<Rightarrow> bytes" where
  "clear_bit nr bmp = bmp(nr div 8 := bmp (nr div 8) AND NOT (push_bit (nr mod 8) 1))"

definition check_bit :: "nat \<Rightarrow> bytes \<Rightarrow> int" where
  "check_bit nr bmp = uint (bmp (nr div 8) AND push_bit (nr mod 8) 1)"

subsection \<open>Ranges\<close>

definition c_memset :: "bytes \<Rightarrow> nat \<Rightarrow> byte \<Rightarrow> nat \<Rightarrow> bytes" where
  "c_memset m dest v n = (\<lambda>k. if dest \<le> k \<and> k < dest + n then v else m k)"

definition set_bit_range :: "nat \<Rightarrow> bytes \<Rightarrow> nat \<Rightarrow> bytes" where
  "set_bit_range nr addr len =
    (let start_byte = nr div 8;
         start_bit = nr mod 8;
         (bitmap, start_byte, len) =
           (if start_bit \<noteq> 0 then
              let remaining_bits_in_byte = 8 - start_bit;
                  bits_to_set = (if len < remaining_bits_in_byte then len
                                 else remaining_bits_in_byte)
              in (addr(start_byte := addr start_byte OR push_bit start_bit (mask bits_to_set)),
                  start_byte + 1, len - bits_to_set)
            else (addr, start_byte, len));
         bitmap = c_memset bitmap start_byte 0xff (len div 8);
         len = len mod 8
     in if len > 0 then bitmap(start_byte := bitmap start_byte OR mask len)
        else bitmap)"

definition clear_bit_range :: "nat \<Rightarrow> bytes \<Rightarrow> nat \<Rightarrow> bytes" where
  "clear_bit_range nr addr len =
    (let start_byte = nr div 8;
         start_bit = nr mod 8;
         (bmp, start_byte, len) =
           (if start_bit \<noteq> 0 then
              let remaining_bits_in_byte = 8 - start_bit;
                  bits_to_clear = (if len < remaining_bits_in_byte then len
                                   else remaining_bits_in_byte)
              in (addr(start_byte := addr start_byte AND
                         NOT (push_bit start_bit (mask bits_to_clear))),
                  start_byte + 1, len - bits_to_clear)
            else (addr, start_byte, len));
         bmp = c_memset bmp start_byte 0 (len div 8);
         len = len mod 8
     in if len > 0 then bmp(start_byte := bmp start_byte AND NOT (mask len))
        else bmp)"

subsection \<open>Searches\<close>

text \<open>The \<open>for\<close> loops return \<open>i\<close> at the first hit and \<open>sz\<close> otherwise; the result goes
  through the \<open>int\<close> return type.\<close>

function next_zero_bit_from :: "bytes \<Rightarrow> nat \<Rightarrow> nat \<Rightarrow> nat" where
  "next_zero_bit_from bmp sz i =
    (if i < sz then
       if bmp (i div 8) AND push_bit (i mod 8) 1 = 0 then i
       else next_zero_bit_from bmp sz (i + 1)
     else sz)"
  by pat_completeness auto
termination
  by (relation "measure (\<lambda>(bmp, sz, i). sz - i)") auto

definition next_zero_bit :: "bytes \<Rightarrow> nat \<Rightarrow> nat \<Rightarrow> int" where
  "next_zero_bit addr sz offset = c_int (next_zero_bit_from addr sz offset)"

function next_set_bit_from :: "bytes \<Rightarrow> nat \<Rightarrow> nat \<Rightarrow> nat" where
  "next_set_bit_from bmp sz i =
    (if i < sz then
       if bmp (i div 8) AND push_bit (i mod 8) 1 = 1 then i
       else next_set_bit_from bmp sz (i + 1)
     else sz)"
  by pat_completeness auto
termination
  by (relation "measure (\<lambda>(bmp, sz, i). sz - i)") auto

definition next_set_bit :: "bytes \<Rightarrow> nat \<Rightarrow> nat \<Rightarrow> int" where
  "next_set_bit addr sz offset = c_int (next_set_bit_from addr sz offset)"

subsection \<open>Population count\<close>

text \<open>\<open>__builtin_popcountll\<close> and \<open>__builtin_popcount\<close> of the compiler, on the value read; the
  reads are little endian.\<close>

fun popcount :: "nat \<Rightarrow> nat" where
  "popcount n = (if n = 0 then 0 else n mod 2 + popcount (n div 2))"

declare popcount.simps [simp del]

primrec load_le :: "bytes \<Rightarrow> nat \<Rightarrow> nat \<Rightarrow> nat" where
  "load_le m p 0 = 0"
| "load_le m p (Suc n) = unat (m p) + 256 * load_le m (p + 1) n"

function count_bits64 :: "bytes \<Rightarrow> nat \<Rightarrow> nat \<Rightarrow> nat \<Rightarrow> nat \<times> nat \<times> nat" where
  "count_bits64 m ptr len bit_count =
    (if len > 8 then count_bits64 m (ptr + 8) (len - 8) (bit_count + popcount (load_le m ptr 8))
     else (ptr, len, bit_count))"
  by pat_completeness auto
termination
  by (relation "measure (\<lambda>(m, ptr, len, c). len)") auto

function count_bits32 :: "bytes \<Rightarrow> nat \<Rightarrow> nat \<Rightarrow> nat \<Rightarrow> nat \<times> nat \<times> nat" where
  "count_bits32 m ptr len bit_count =
    (if len \<ge> 4 then count_bits32 m (ptr + 4) (len - 4) (bit_count + popcount (load_le m ptr 4))
     else (ptr, len, bit_count))"
  by pat_completeness auto
termination
  by (relation "measure (\<lambda>(m, ptr, len, c). len)") auto

fun count_bits8 :: "bytes \<Rightarrow> nat \<Rightarrow> nat \<Rightarrow> nat \<Rightarrow> nat" where
  "count_bits8 m ptr 0 bit_count = bit_count"
| "count_bits8 m ptr (Suc len) bit_count =
     count_bits8 m (ptr + 1) len (bit_count + popcount (unat (m ptr)))"

definition count_bits :: "bytes \<Rightarrow> nat \<Rightarrow> nat" where
  "count_bits bitmap len =
    (let (ptr, len, bit_count) = count_bits64 bitmap 0 len 0;
         (ptr, len, bit_count) = count_bits32 bitmap ptr len bit_count
     in count_bits8 bitmap ptr len bit_count)"

subsection \<open>Vocabulary of the specifications\<close>

text \<open>The number of bits at the end of the range that the range operations skip.\<close>

definition range_lost :: "nat \<Rightarrow> nat \<Rightarrow> nat" where
  "range_lost nr len =
    (let head = (if nr mod 8 = 0 then 0 else min len (8 - nr mod 8));
         rest = len - head
     in if rest \<ge> 8 then rest mod 8 else 0)"

text \<open>The number of set bits in an interval.\<close>

definition ones_between :: "bytes \<Rightarrow> nat \<Rightarrow> nat \<Rightarrow> nat" where
  "ones_between b lo hi = card {i. lo \<le> i \<and> i < hi \<and> bit_at b i}"

declare next_zero_bit_from.simps [simp del] next_set_bit_from.simps [simp del]
  count_bits64.simps [simp del] count_bits32.simps [simp del]

subsection \<open>What the primitives do to the bits\<close>

lemma byte_bit_eq_iff: "n div 8 = m div 8 \<Longrightarrow> n mod 8 = m mod (8::nat) \<Longrightarrow> n = m"
  by (metis div_mod_decomp)

lemma bit_push_one_byte: "bit (push_bit k 1 :: byte) j \<longleftrightarrow> j = k \<and> k < 8"
  by (auto simp: bit_simps)

lemma bit_at_set_bit [simp]: "bit_at (set_bit n b) m \<longleftrightarrow> m = n \<or> bit_at b m"
  by (auto simp: bit_at_def set_bit_def bit_simps bit_push_one_byte dest: byte_bit_eq_iff)

lemma bit_at_clear_bit [simp]: "bit_at (clear_bit n b) m \<longleftrightarrow> m \<noteq> n \<and> bit_at b m"
  by (auto simp: bit_at_def clear_bit_def bit_simps bit_push_one_byte dest: byte_bit_eq_iff)

lemma bit_pow_byte: "bit (2 ^ k :: byte) j \<longleftrightarrow> j = k \<and> k < 8"
  by (auto simp: bit_simps)

lemma and_pow_eq_0: "k < 8 \<Longrightarrow> (w::byte) AND 2 ^ k = 0 \<longleftrightarrow> \<not> bit w k"
  by (auto intro!: bit_word_eqI simp: bit_and_iff bit_pow_byte dest!: arg_cong [of _ 0 "\<lambda>w. bit w k"])

lemma masked_bit_zero: "b (i div 8) AND 2 ^ (i mod 8) = 0 \<longleftrightarrow> \<not> bit_at b i"
  by (simp add: and_pow_eq_0 bit_at_def)

lemma masked_bit_one: "b (i div 8) AND 2 ^ (i mod 8) = 1 \<longleftrightarrow> i mod 8 = 0 \<and> bit_at b i"
proof
  assume h: "b (i div 8) AND 2 ^ (i mod 8) = 1"
  then have "bit (b (i div 8) AND 2 ^ (i mod 8)) 0"
    by simp
  then have "i mod 8 = 0"
    by (simp only: bit_and_iff bit_pow_byte)
  moreover from h have "bit_at b i"
    using masked_bit_zero [of b i] by auto
  ultimately show "i mod 8 = 0 \<and> bit_at b i" by simp
next
  assume h: "i mod 8 = 0 \<and> bit_at b i"
  then have "bit (b (i div 8)) 0"
    unfolding bit_at_def by metis
  with h show "b (i div 8) AND 2 ^ (i mod 8) = 1"
    by (auto intro!: bit_word_eqI simp: bit_and_iff bit_1_iff)
qed

lemma check_bit_iff: "check_bit n b \<noteq> 0 \<longleftrightarrow> bit_at b n"
  by (simp add: check_bit_def uint_0_iff masked_bit_zero)

text \<open>A run of \<open>k\<close> bits inside one byte.\<close>

lemma byte_run_iff:
  "s + n \<le> 8 \<Longrightarrow> (m div 8 = q \<and> s \<le> m mod 8 \<and> m mod 8 < s + n) \<longleftrightarrow>
    (8 * q + s \<le> m \<and> m < 8 * q + s + (n::nat))"
proof -
  assume "s + n \<le> 8"
  moreover obtain a r where "m = 8 * a + r" "r < 8"
    by (metis mod_less_divisor mult_div_mod_eq zero_less_numeral)
  ultimately show ?thesis
    by (cases a q rule: linorder_cases) auto
qed

lemma bit_at_or_run:
  assumes "s + n \<le> 8"
  shows "bit_at (b(q := b q OR push_bit s (mask n))) m \<longleftrightarrow>
    bit_at b m \<or> (8 * q + s \<le> m \<and> m < 8 * q + s + n)"
proof -
  have "bit_at (b(q := b q OR push_bit s (mask n))) m \<longleftrightarrow>
      bit_at b m \<or> (m div 8 = q \<and> s \<le> m mod 8 \<and> m mod 8 < s + n)"
    by (auto simp: bit_at_def bit_simps)
  then show ?thesis
    using byte_run_iff [OF assms] by simp
qed

lemma bit_at_and_not_run:
  assumes "s + n \<le> 8"
  shows "bit_at (b(q := b q AND NOT (push_bit s (mask n)))) m \<longleftrightarrow>
    bit_at b m \<and> \<not> (8 * q + s \<le> m \<and> m < 8 * q + s + n)"
proof -
  have "bit_at (b(q := b q AND NOT (push_bit s (mask n)))) m \<longleftrightarrow>
      bit_at b m \<and> \<not> (m div 8 = q \<and> s \<le> m mod 8 \<and> m mod 8 < s + n)"
    by (auto simp: bit_at_def bit_simps)
  then show ?thesis
    using byte_run_iff [OF assms] by simp
qed

lemma bytes_run_iff: "(s \<le> m div 8 \<and> m div 8 < s + k) \<longleftrightarrow> (8 * s \<le> m \<and> m < 8 * s + 8 * (k::nat))"
  by (auto simp: less_eq_div_iff_mult_less_eq div_less_iff_less_mult)

lemma bit_0xff: "bit (0xff :: byte) (n mod 8)"
proof -
  have "n mod 8 \<in> {0, 1, 2, 3, 4, 5, 6, 7}"
    by auto
  then show ?thesis
    by auto
qed

lemma bit_at_memset_ones:
  "bit_at (c_memset b s 0xff k) m \<longleftrightarrow> bit_at b m \<or> (8 * s \<le> m \<and> m < 8 * s + 8 * k)"
  using bytes_run_iff [of s m k] bit_0xff [of m] by (auto simp: bit_at_def c_memset_def)

lemma bit_at_memset_zero:
  "bit_at (c_memset b s 0 k) m \<longleftrightarrow> bit_at b m \<and> \<not> (8 * s \<le> m \<and> m < 8 * s + 8 * k)"
  using bytes_run_iff [of s m k] by (auto simp: bit_at_def c_memset_def)


subsubsection \<open>The range operations\<close>

lemma mod8_half: "8 \<le> L \<Longrightarrow> L mod 8 + L mod 8 < (L::nat)"
proof -
  assume "8 \<le> L"
  then have "8 \<le> 8 * (L div 8)"
    by (simp add: div_greater_zero_iff Suc_le_eq)
  moreover have "L mod 8 < 8" "L = 8 * (L div 8) + L mod 8"
    by simp_all
  ultimately show ?thesis
    by linarith
qed

lemma range_lost_le: "range_lost nr len \<le> len"
proof -
  have "(len - h) mod 8 \<le> len" for h
    by (rule le_trans [OF mod_less_eq_dividend diff_le_self])
  then show ?thesis
    by (simp only: range_lost_def Let_def split: if_split) simp
qed

lemma range_lost_short: "len \<le> 8 \<Longrightarrow> range_lost nr len = 0"
  by (auto simp: range_lost_def Let_def)

lemma range_lost_aligned: "8 dvd nr \<Longrightarrow> 8 dvd len \<Longrightarrow> range_lost nr len = 0"
  by (auto simp: range_lost_def Let_def)

text \<open>The aligned tail of both operations: \<open>memset\<close>, then the partial byte.\<close>

lemma bit_at_set_tail:
  "bit_at (let bm = c_memset b s 0xff (L div 8) in
      if L mod 8 > 0 then bm(s := bm s OR mask (L mod 8)) else bm) m \<longleftrightarrow>
    bit_at b m \<or> (8 * s \<le> m \<and> m < 8 * s + (if L \<ge> 8 then L - L mod 8 else L))"
proof -
  have d: "8 * (L div 8) = L - L mod 8"
    by (simp add: minus_mod_eq_mult_div)
  show ?thesis
    using bit_at_or_run [of 0 "L mod 8" "c_memset b s 0xff (L div 8)" s m] d mod8_half [of L]
    by (auto simp: Let_def bit_at_memset_ones)
qed

lemma bit_at_clear_tail:
  "bit_at (let bm = c_memset b s 0 (L div 8) in
      if L mod 8 > 0 then bm(s := bm s AND NOT (mask (L mod 8))) else bm) m \<longleftrightarrow>
    bit_at b m \<and> \<not> (8 * s \<le> m \<and> m < 8 * s + (if L \<ge> 8 then L - L mod 8 else L))"
proof -
  have d: "8 * (L div 8) = L - L mod 8"
    by (simp add: minus_mod_eq_mult_div)
  show ?thesis
    using bit_at_and_not_run [of 0 "L mod 8" "c_memset b s 0 (L div 8)" s m] d mod8_half [of L]
    by (auto simp: Let_def bit_at_memset_zero)
qed

lemma bit_at_set_bit_range:
  "bit_at (set_bit_range nr b len) m \<longleftrightarrow>
    bit_at b m \<or> (nr \<le> m \<and> m < nr + len - range_lost nr len)"
proof (cases "nr mod 8 = 0")
  case True
  then have "8 * (nr div 8) = nr" by (simp add: mod_eq_0_iff_dvd)
  with True bit_at_set_tail [of b "nr div 8" len m] show ?thesis
    by (auto simp: set_bit_range_def range_lost_def Let_def)
next
  case False
  define n where "n = (if len < 8 - nr mod 8 then len else 8 - nr mod 8)"
  define c where "c = b(nr div 8 := b (nr div 8) OR push_bit (nr mod 8) (mask n))"
  have nr: "8 * (nr div 8) + nr mod 8 = nr" by simp
  have n: "nr mod 8 + n \<le> 8" "n \<le> len" "n = min len (8 - nr mod 8)"
    using mod_less_divisor [of 8 nr] by (auto simp: n_def min_def)
  have head: "bit_at c k \<longleftrightarrow> bit_at b k \<or> (nr \<le> k \<and> k < nr + n)" for k
    using bit_at_or_run [OF n(1), of b "nr div 8" k] nr by (simp add: c_def)
  have run: "8 * (nr div 8 + 1) = nr + n" if "n < len"
  proof -
    from that have "nr mod 8 + n = 8" by (auto simp: n_def split: if_splits)
    then have "8 * (nr div 8 + 1) = 8 * (nr div 8) + (nr mod 8 + n)" by simp
    then show ?thesis by (simp only: add.assoc [symmetric] nr)
  qed
  have eq: "set_bit_range nr b len =
      (let bm = c_memset c (nr div 8 + 1) 0xff ((len - n) div 8) in
        if (len - n) mod 8 > 0 then bm(nr div 8 + 1 := bm (nr div 8 + 1) OR mask ((len - n) mod 8))
        else bm)"
    using False by (simp add: set_bit_range_def Let_def n_def c_def)
  have lost: "range_lost nr len = (if len - n \<ge> 8 then (len - n) mod 8 else 0)"
    using False by (simp add: range_lost_def Let_def n(3))
  show ?thesis
    unfolding eq bit_at_set_tail head lost
    using run n(2) by (cases "n = len") auto
qed

lemma bit_at_clear_bit_range:
  "bit_at (clear_bit_range nr b len) m \<longleftrightarrow>
    bit_at b m \<and> \<not> (nr \<le> m \<and> m < nr + len - range_lost nr len)"
proof (cases "nr mod 8 = 0")
  case True
  then have "8 * (nr div 8) = nr" by (simp add: mod_eq_0_iff_dvd)
  with True bit_at_clear_tail [of b "nr div 8" len m] show ?thesis
    by (auto simp: clear_bit_range_def range_lost_def Let_def)
next
  case False
  define n where "n = (if len < 8 - nr mod 8 then len else 8 - nr mod 8)"
  define c where "c = b(nr div 8 := b (nr div 8) AND NOT (push_bit (nr mod 8) (mask n)))"
  have nr: "8 * (nr div 8) + nr mod 8 = nr" by simp
  have n: "nr mod 8 + n \<le> 8" "n \<le> len" "n = min len (8 - nr mod 8)"
    using mod_less_divisor [of 8 nr] by (auto simp: n_def min_def)
  have head: "bit_at c k \<longleftrightarrow> bit_at b k \<and> \<not> (nr \<le> k \<and> k < nr + n)" for k
    using bit_at_and_not_run [OF n(1), of b "nr div 8" k] nr by (simp add: c_def)
  have run: "8 * (nr div 8 + 1) = nr + n" if "n < len"
  proof -
    from that have "nr mod 8 + n = 8" by (auto simp: n_def split: if_splits)
    then have "8 * (nr div 8 + 1) = 8 * (nr div 8) + (nr mod 8 + n)" by simp
    then show ?thesis by (simp only: add.assoc [symmetric] nr)
  qed
  have eq: "clear_bit_range nr b len =
      (let bm = c_memset c (nr div 8 + 1) 0 ((len - n) div 8) in
        if (len - n) mod 8 > 0
        then bm(nr div 8 + 1 := bm (nr div 8 + 1) AND NOT (mask ((len - n) mod 8)))
        else bm)"
    using False by (simp add: clear_bit_range_def Let_def n_def c_def)
  have lost: "range_lost nr len = (if len - n \<ge> 8 then (len - n) mod 8 else 0)"
    using False by (simp add: range_lost_def Let_def n(3))
  show ?thesis
    unfolding eq bit_at_clear_tail head lost
    using run n(2) by (cases "n = len") auto
qed

subsubsection \<open>The searches\<close>

lemma next_zero_bit_from_bounds:
  "i \<le> sz \<Longrightarrow> i \<le> next_zero_bit_from b sz i \<and> next_zero_bit_from b sz i \<le> sz"
proof (induction b sz i rule: next_zero_bit_from.induct)
  case (1 b sz i)
  then show ?case
    unfolding next_zero_bit_from.simps [of b sz i] by auto
qed

lemma next_zero_bit_from_hit:
  "next_zero_bit_from b sz i < sz \<Longrightarrow> \<not> bit_at b (next_zero_bit_from b sz i)"
proof (induction b sz i rule: next_zero_bit_from.induct)
  case (1 b sz i)
  then show ?case
    unfolding next_zero_bit_from.simps [of b sz i] by (auto simp: masked_bit_zero)
qed

lemma next_zero_bit_from_skipped:
  "i \<le> k \<Longrightarrow> k < next_zero_bit_from b sz i \<Longrightarrow> bit_at b k"
proof (induction b sz i rule: next_zero_bit_from.induct)
  case (1 b sz i)
  then show ?case
    unfolding next_zero_bit_from.simps [of b sz i]
    by (cases "i = k") (auto simp: masked_bit_zero split: if_splits)
qed

lemma next_set_bit_from_bounds:
  "i \<le> sz \<Longrightarrow> i \<le> next_set_bit_from b sz i \<and> next_set_bit_from b sz i \<le> sz"
proof (induction b sz i rule: next_set_bit_from.induct)
  case (1 b sz i)
  then show ?case
    unfolding next_set_bit_from.simps [of b sz i] by auto
qed

lemma next_set_bit_from_hit:
  "next_set_bit_from b sz i < sz \<Longrightarrow>
    next_set_bit_from b sz i mod 8 = 0 \<and> bit_at b (next_set_bit_from b sz i)"
proof (induction b sz i rule: next_set_bit_from.induct)
  case (1 b sz i)
  then show ?case
    unfolding next_set_bit_from.simps [of b sz i] by (auto simp: masked_bit_one)
qed

lemma next_set_bit_from_skipped:
  "i \<le> k \<Longrightarrow> k < next_set_bit_from b sz i \<Longrightarrow> \<not> (k mod 8 = 0 \<and> bit_at b k)"
proof (induction b sz i rule: next_set_bit_from.induct)
  case (1 b sz i)
  then show ?case
    unfolding next_set_bit_from.simps [of b sz i]
    by (cases "i = k") (auto simp: masked_bit_one split: if_splits)
qed

lemma next_zero_bit_from_above: "sz \<le> i \<Longrightarrow> next_zero_bit_from b sz i = sz"
  by (simp add: next_zero_bit_from.simps)

lemma next_zero_bit_eq_size:
  "next_zero_bit_from b sz i = sz \<longleftrightarrow> (\<forall>k. i \<le> k \<and> k < sz \<longrightarrow> bit_at b k)"
  (is "?L \<longleftrightarrow> ?R")
proof
  assume ?L
  then show ?R using next_zero_bit_from_skipped [of i _ b sz] by auto
next
  assume R: ?R
  show ?L
  proof (cases "i \<le> sz")
    case True
    with R next_zero_bit_from_bounds [of i sz b] next_zero_bit_from_hit [of b sz i] show ?thesis
      by (meson le_neq_implies_less)
  next
    case False
    then show ?thesis by (simp add: next_zero_bit_from_above)
  qed
qed

subsubsection \<open>The population count\<close>

lemma ones_between_split:
  assumes "lo \<le> mid" "mid \<le> hi"
  shows "ones_between b lo hi = ones_between b lo mid + ones_between b mid hi"
proof -
  let ?A = "{i. lo \<le> i \<and> i < mid \<and> bit_at b i}" and ?B = "{i. mid \<le> i \<and> i < hi \<and> bit_at b i}"
  have "?A \<subseteq> {..<mid}" "?B \<subseteq> {..<hi}" "?A \<inter> ?B = {}"
    by auto
  moreover from this have "finite ?A" "finite ?B"
    using finite_subset by blast+
  ultimately have "card (?A \<union> ?B) = card ?A + card ?B"
    by (simp add: card_Un_disjoint)
  moreover have "{i. lo \<le> i \<and> i < hi \<and> bit_at b i} = ?A \<union> ?B"
    using assms by auto
  ultimately show ?thesis
    by (simp add: ones_between_def)
qed

lemma popcount_card: "finite {i. bit n i} \<and> popcount n = card {i. bit n i}"
proof (induction n rule: popcount.induct)
  case (1 n)
  show ?case
  proof (cases "n = 0")
    case True
    then show ?thesis by (simp add: popcount.simps)
  next
    case False
    let ?S = "{i. bit (n div 2) i}"
    have set: "{i. bit n i} = (if odd n then insert 0 (Suc ` ?S) else Suc ` ?S)"
    proof (rule set_eqI)
      fix i
      show "i \<in> {i. bit n i} \<longleftrightarrow> i \<in> (if odd n then insert 0 (Suc ` ?S) else Suc ` ?S)"
        by (cases i) (simp_all add: bit_0 bit_Suc image_iff)
    qed
    from False 1 have "finite ?S" "popcount (n div 2) = card ?S" by auto
    with False show ?thesis
      by (simp add: set popcount.simps [of n] card_image odd_iff_mod_2_eq_one)
  qed
qed

lemma bit_small_nat: "a < 2 ^ k \<Longrightarrow> bit (a::nat) n \<Longrightarrow> n < k"
  by (metis bit_take_bit_iff take_bit_nat_eq_self)

lemma bit_load_step:
  assumes "a < 256"
  shows "bit (a + 256 * (l::nat)) i \<longleftrightarrow> (if i < 8 then bit a i else bit l (i - 8))"
proof -
  have "a + push_bit 8 l = a OR push_bit 8 l"
  proof (rule disjunctive_add)
    fix n
    show "\<not> bit a n \<or> \<not> bit (push_bit 8 l) n"
      using assms bit_small_nat [of a 8 n] by (cases "n < 8") (auto simp: bit_push_bit_iff)
  qed
  moreover have "a + 256 * l = a + push_bit 8 l"
    by (simp add: push_bit_eq_mult)
  ultimately show ?thesis
    using assms bit_small_nat [of a 8 i] by (auto simp: bit_or_iff bit_push_bit_iff)
qed

lemma bit_load_le: "bit (load_le m p n) i \<longleftrightarrow> i < 8 * n \<and> bit (m (p + i div 8)) (i mod 8)"
proof (induction n arbitrary: p i)
  case 0
  then show ?case by simp
next
  case (Suc n)
  have small: "unat (m p) < 256"
    using unsigned_less [of "m p"] by simp
  show ?case
  proof (cases "i < 8")
    case True
    then show ?thesis
      by (simp add: bit_load_step [OF small] bit_unsigned_iff)
  next
    case False
    then have "i div 8 = Suc ((i - 8) div 8)" "i mod 8 = (i - 8) mod 8"
      by (simp_all add: div_if le_mod_geq)
    with False show ?thesis
      by (auto simp: bit_load_step [OF small] Suc.IH)
  qed
qed

lemma popcount_load_le: "popcount (load_le m p n) = ones_between m (8 * p) (8 * (p + n))"
proof -
  have "bit_at m (8 * p + i) = bit (m (p + i div 8)) (i mod 8)" for i
    by (simp add: bit_at_def)
  then have "{i. 8 * p \<le> i \<and> i < 8 * (p + n) \<and> bit_at m i} =
      (\<lambda>i. 8 * p + i) ` {i. bit (load_le m p n) i}"
    by (auto simp: bit_load_le image_iff algebra_simps dest: le_Suc_ex)
  then show ?thesis
    by (simp add: ones_between_def popcount_card card_image)
qed

lemma popcount_byte: "popcount (unat (m p)) = ones_between m (8 * p) (8 * (p + 1))"
  using popcount_load_le [of m p 1] by simp

lemma count_bits64_inv:
  "count_bits64 m p len c = (p', len', c') \<Longrightarrow>
    p' + len' = p + len \<and>
    c' + ones_between m (8 * p') (8 * (p + len)) = c + ones_between m (8 * p) (8 * (p + len))"
proof (induction m p len c rule: count_bits64.induct)
  case (1 m p len c)
  show ?case
  proof (cases "len > 8")
    case True
    with "1.prems" have rec: "count_bits64 m (p + 8) (len - 8) (c + popcount (load_le m p 8)) = (p', len', c')"
      by (simp add: count_bits64.simps [of m p len c])
    show ?thesis
      using "1.IH" [OF True rec] True ones_between_split [of "8 * p" "8 * (p + 8)" "8 * (p + len)" m]
      by (simp add: popcount_load_le)
  next
    case False
    with "1.prems" show ?thesis by (simp add: count_bits64.simps [of m p len c])
  qed
qed

lemma count_bits32_inv:
  "count_bits32 m p len c = (p', len', c') \<Longrightarrow>
    p' + len' = p + len \<and>
    c' + ones_between m (8 * p') (8 * (p + len)) = c + ones_between m (8 * p) (8 * (p + len))"
proof (induction m p len c rule: count_bits32.induct)
  case (1 m p len c)
  show ?case
  proof (cases "len \<ge> 4")
    case True
    with "1.prems" have rec: "count_bits32 m (p + 4) (len - 4) (c + popcount (load_le m p 4)) = (p', len', c')"
      by (simp add: count_bits32.simps [of m p len c])
    show ?thesis
      using "1.IH" [OF True rec] True ones_between_split [of "8 * p" "8 * (p + 4)" "8 * (p + len)" m]
      by (simp add: popcount_load_le)
  next
    case False
    with "1.prems" show ?thesis by (simp add: count_bits32.simps [of m p len c])
  qed
qed

lemma count_bits8_eq: "count_bits8 m p len c = c + ones_between m (8 * p) (8 * (p + len))"
proof (induction m p len c rule: count_bits8.induct)
  case (1 m p c)
  then show ?case by (simp add: ones_between_def)
next
  case (2 m p len c)
  then show ?case
    using ones_between_split [of "8 * p" "8 * (p + 1)" "8 * (p + Suc len)" m]
    by (simp add: popcount_byte)
qed

lemma count_bits_ones: "count_bits m len = card {i. i < 8 * len \<and> bit_at m i}"
proof -
  obtain p1 l1 c1 where 1: "count_bits64 m 0 len 0 = (p1, l1, c1)"
    using prod_cases3 by blast
  obtain p2 l2 c2 where 2: "count_bits32 m p1 l1 c1 = (p2, l2, c2)"
    using prod_cases3 by blast
  have e: "p1 + l1 = len" "8 * p2 + 8 * l2 = 8 * len"
    using count_bits64_inv [OF 1] count_bits32_inv [OF 2] by simp_all
  then have "count_bits m len = ones_between m 0 (8 * len)"
    using count_bits64_inv [OF 1] count_bits32_inv [OF 2]
    by (simp only: count_bits_def 1 2 count_bits8_eq Let_def prod.case add_mult_distrib2 e) simp
  then show ?thesis
    by (simp add: ones_between_def)
qed

subsection \<open>Unfolding the scans over \<open>bit_at\<close>\<close>

lemma bit_at_zero [simp]: "\<not> bit_at (\<lambda>_. 0) k"
  by (simp add: bit_at_def)

lemma next_zero_bit_from_rec:
  "next_zero_bit_from b sz i =
    (if i < sz then if bit_at b i then next_zero_bit_from b sz (i + 1) else i else sz)"
  using masked_bit_zero [of b i] by (simp add: next_zero_bit_from.simps [of b sz i])

lemma next_set_bit_from_rec:
  "next_set_bit_from b sz i =
    (if i < sz then if i mod 8 = 0 \<and> bit_at b i then i else next_set_bit_from b sz (i + 1) else sz)"
  using masked_bit_one [of b i] by (simp add: next_set_bit_from.simps [of b sz i])

subsection \<open>Properties\<close>

text \<open>C28: \<open>set_bit_range\<close> sets exactly the bits from \<open>nr\<close> on, except the last \<open>range_lost\<close> of the
  requested ones, and changes no other bit; nothing is lost for up to eight bits or for a
  range aligned to bytes.\<close>

theorem set_bit_range_exact:
  "(bit_at (set_bit_range nr b len) m \<longleftrightarrow>
     bit_at b m \<or> (nr \<le> m \<and> m < nr + len - range_lost nr len)) \<and>
   (len \<le> 8 \<or> 8 dvd nr \<and> 8 dvd len \<longrightarrow> range_lost nr len = 0)"
  by (auto simp: bit_at_set_bit_range range_lost_short range_lost_aligned)

theorem set_bit_range_exact_witness:
  "bit_at (set_bit_range 8 (\<lambda>_. 0) 16) 23 \<and> \<not> bit_at (set_bit_range 8 (\<lambda>_. 0) 16) 24"
  using set_bit_range_exact [of 8 "\<lambda>_. 0" 16 23] set_bit_range_exact [of 8 "\<lambda>_. 0" 16 24]
  by simp

text \<open>\<open>set_bit_range\<close> over twelve bits from bit 0 leaves bit 11 clear: the byte pointer is not
  advanced past the bytes filled by \<open>memset\<close>, so the partial last byte is never written.\<close>

theorem set_bit_range_loses_tail:
  "\<not> bit_at (set_bit_range 0 (\<lambda>_. 0) 12) 11 \<and> \<not> bit_at (set_bit_range 0 (\<lambda>_. 0) 12) 8 \<and>
   bit_at (set_bit_range 0 (\<lambda>_. 0) 12) 7"
  by (simp add: bit_at_set_bit_range range_lost_def)

text \<open>\<open>next_zero_bit\<close> returns the first clear bit at or after the offset, and the size when
  there is none, for every bitmap of less than \<open>2 ^ 31\<close> bits.\<close>

theorem next_zero_bit_least:
  assumes "off \<le> sz" "sz < 2 ^ 31" "next_zero_bit b sz off = r"
  shows "int off \<le> r \<and> r \<le> int sz \<and> (r < int sz \<longrightarrow> \<not> bit_at b (nat r)) \<and>
    (\<forall>k. off \<le> k \<and> int k < r \<longrightarrow> bit_at b k)"
proof -
  have r: "r = int (next_zero_bit_from b sz off)"
    using assms next_zero_bit_from_bounds [OF assms(1), of b]
    by (simp add: next_zero_bit_def)
  show ?thesis
    unfolding r
    using next_zero_bit_from_bounds [OF assms(1), of b] next_zero_bit_from_hit [of b sz off]
      next_zero_bit_from_skipped [of off _ b sz]
    by auto
qed

theorem next_zero_bit_least_witness:
  "next_zero_bit (set_bit 3 (\<lambda>_. 0)) 16 3 = 4 \<and> \<not> bit_at (set_bit 3 (\<lambda>_. 0)) 4"
proof -
  have e: "next_zero_bit (set_bit 3 (\<lambda>_. 0)) 16 3 = 4"
    by (simp add: next_zero_bit_def next_zero_bit_from_rec)
  show ?thesis
    using e next_zero_bit_least [OF _ _ e] by simp
qed

text \<open>C29: \<open>count_bits\<close>, which counts by 64-bit words, then 32-bit words, then bytes, returns the
  number of set bits of the memory block.\<close>

theorem count_bits_correct: "count_bits m len = card {i. i < 8 * len \<and> bit_at m i}"
  by (rule count_bits_ones)

end
