(* ===== verification/Slot_Alloc.thy ===== *)
theory Slot_Alloc
  imports Bitops
begin

text \<open>
  The slot allocator of \<open>slotfs/slot.c\<close>: arrays of DRAM bitmaps, one array per slot type,
  searched round robin from the bitmap of the calling CPU.

  A bitmap is the record \<open>dram_bitmap\<close> (its spinlock is left out: every operation holds it
  around the part modelled, so the operations are atomic here). The value of
  \<open>sched_getcpu()\<close> and the global \<open>map_num\<close> are arguments. The \<open>do ... while\<close> loops visit
  the bitmaps \<open>start, start + 1, ...\<close> modulo \<open>map_num\<close>, each once, until one yields a slot:
  \<open>probe_order\<close> is that sequence.

  \<open>wf_bitmap\<close> ties the counter \<open>remain\<close> to the bits; \<open>used_slots\<close> is the abstract view, the
  set of allocated slot numbers, over which the locale \<open>slot_allocator\<close> states what the
  rest of the file system relies on.
\<close>

subsection \<open>Data\<close>

record dram_bitmap =
  dram :: bytes
  pm :: relptr_t
  bit_offset :: nat
  bit_num :: nat
  remain :: nat
  hint :: nat

datatype slot_type = SLOT_INODE | SLOT_DIR | SLOT_FILE | SLOT_DATA

type_synonym slot_maps = "slot_type \<Rightarrow> dram_bitmap list"

definition MAP_NUM :: nat where
  "MAP_NUM = 1"

definition probe_order :: "nat \<Rightarrow> nat \<Rightarrow> nat list" where
  "probe_order map_num start = map (\<lambda>i. (start + i) mod map_num) [0..<map_num]"

subsection \<open>Allocating one slot\<close>

definition slot_alloc_one :: "dram_bitmap \<Rightarrow> (index_t \<times> dram_bitmap) option" where
  "slot_alloc_one bitmap =
    (if remain bitmap > 0 then
       let bit = to_size (next_zero_bit (dram bitmap) (bit_num bitmap) (hint bitmap));
           bit = (if bit \<ge> bit_num bitmap
                  then to_size (next_zero_bit (dram bitmap) (hint bitmap) 0) else bit)
       in if bit < bit_num bitmap
          then Some (int (bit + bit_offset bitmap),
                     bitmap\<lparr>dram := set_bit bit (dram bitmap), hint := bit + 1,
                            remain := size_sub (remain bitmap) 1\<rparr>)
          else None
     else None)"

primrec slot_alloc_loop :: "nat list \<Rightarrow> dram_bitmap list \<Rightarrow> index_t \<times> dram_bitmap list" where
  "slot_alloc_loop [] bitmaps = (-1, bitmaps)"
| "slot_alloc_loop (current # rest) bitmaps =
    (case slot_alloc_one (bitmaps ! current) of
       Some (index, bitmap) \<Rightarrow> (index, bitmaps[current := bitmap])
     | None \<Rightarrow> slot_alloc_loop rest bitmaps)"

definition do_slot_alloc :: "nat \<Rightarrow> nat \<Rightarrow> dram_bitmap list \<Rightarrow> index_t \<times> dram_bitmap list" where
  "do_slot_alloc cpu map_num bitmaps =
    slot_alloc_loop (probe_order map_num (cpu mod map_num)) bitmaps"

subsection \<open>Best-effort allocation\<close>

definition SEARCH_ROUND :: nat where
  "SEARCH_ROUND = 10"

text \<open>One of the two chunk loops: chunks of \<open>w\<close> bits, at most \<open>SEARCH_ROUND + 1\<close> of them;
  the result is the number of the first chunk that is all zero.\<close>

function be_chunk_loop :: "bytes \<Rightarrow> nat \<Rightarrow> nat \<Rightarrow> nat \<Rightarrow> nat \<Rightarrow> nat option" where
  "be_chunk_loop mem w bitnum i round =
    (if i < bitnum div w then
       if round > SEARCH_ROUND then None
       else if load_le mem (i * (w div 8)) (w div 8) = 0 then Some i
       else be_chunk_loop mem w bitnum (i + 1) (round + 1)
     else None)"
  by pat_completeness auto
termination
  by (relation "measure (\<lambda>(mem, w, bitnum, i, round). bitnum div w - i)") auto

declare be_chunk_loop.simps [simp del]

definition be_take :: "dram_bitmap \<Rightarrow> nat \<Rightarrow> index_t \<times> dram_bitmap" where
  "be_take bitmap nr =
    (int (nr + bit_offset bitmap),
     bitmap\<lparr>dram := set_bit nr (dram bitmap), hint := nr + 1,
            remain := size_sub (remain bitmap) 1\<rparr>)"

definition slot_be_one :: "dram_bitmap \<Rightarrow> (index_t \<times> dram_bitmap) option" where
  "slot_be_one bitmap =
    (if remain bitmap > 0 then
       case be_chunk_loop (dram bitmap) 64 (bit_num bitmap) 0 0 of
         Some i \<Rightarrow> Some (be_take bitmap (i * 64))
       | None \<Rightarrow>
         (case be_chunk_loop (dram bitmap) 16 (bit_num bitmap) 0 0 of
            Some i \<Rightarrow> Some (be_take bitmap (i * 16))
          | None \<Rightarrow>
            (let bit = to_size (next_zero_bit (dram bitmap) (bit_num bitmap) (hint bitmap));
                 bit = (if bit \<ge> bit_num bitmap
                        then to_size (next_zero_bit (dram bitmap) (hint bitmap) 0) else bit)
             in if bit < bit_num bitmap then Some (be_take bitmap bit) else None))
     else None)"

primrec slot_be_loop :: "nat list \<Rightarrow> dram_bitmap list \<Rightarrow> index_t \<times> dram_bitmap list" where
  "slot_be_loop [] bitmaps = (-1, bitmaps)"
| "slot_be_loop (current # rest) bitmaps =
    (case slot_be_one (bitmaps ! current) of
       Some (index, bitmap) \<Rightarrow> (index, bitmaps[current := bitmap])
     | None \<Rightarrow> slot_be_loop rest bitmaps)"

definition slot_be_alloc :: "nat \<Rightarrow> nat \<Rightarrow> dram_bitmap list \<Rightarrow> index_t \<times> dram_bitmap list" where
  "slot_be_alloc cpu map_num bitmaps =
    slot_be_loop (probe_order map_num (cpu mod map_num)) bitmaps"

text \<open>The result is the slot, the new \<open>*offset\<close> and the bitmaps.\<close>

definition slot_try_cache_alloc ::
    "dram_bitmap list \<Rightarrow> index_t \<Rightarrow> int \<Rightarrow> index_t \<times> int \<times> dram_bitmap list" where
  "slot_try_cache_alloc bitmaps cache offset =
    (if cache = 0 \<and> offset = 0 then (-1, offset, bitmaps)
     else
       let chunk_size = (if 64 dvd cache then 64 else if 16 dvd cache then 16 else 1)
       in if to_size offset \<ge> chunk_size then (-1, offset, bitmaps)
          else
            let bit_idx = cache + offset;
                bitmap_size = bit_num (bitmaps ! 0);
                bitmap_index = to_size bit_idx div bitmap_size;
                bit = to_size bit_idx mod bitmap_size;
                bitmap = bitmaps ! bitmap_index;
                bitmap = (if check_bit bit (dram bitmap) = 0
                          then bitmap\<lparr>dram := set_bit bit (dram bitmap),
                                      remain := size_sub (remain bitmap) 1\<rparr>
                          else bitmap)
            in (bit_idx, offset + 1, bitmaps[bitmap_index := bitmap]))"

subsection \<open>Freeing one slot\<close>

definition do_slot_free :: "nat \<Rightarrow> dram_bitmap list \<Rightarrow> index_t \<Rightarrow> dram_bitmap list" where
  "do_slot_free map_num bitmaps index =
    (let bitmap_size = bit_num (bitmaps ! 0);
         bitmap_index = to_size index div bitmap_size;
         bit = to_size index mod bitmap_size
     in if bitmap_index < map_num then
          let bitmap = bitmaps ! bitmap_index
          in bitmaps[bitmap_index :=
               bitmap\<lparr>dram := clear_bit bit (dram bitmap), remain := size_add (remain bitmap) 1\<rparr>]
        else bitmaps)"

subsection \<open>Ranges\<close>

definition slot_range_one :: "dram_bitmap \<Rightarrow> nat \<Rightarrow> (index_t \<times> nat \<times> dram_bitmap) option" where
  "slot_range_one bitmap count =
    (if remain bitmap > 0 then
       let bitnum = bit_num bitmap;
           hnt = hint bitmap;
           range_start = to_size (next_zero_bit (dram bitmap) bitnum hnt);
           range_start = (if range_start \<ge> bitnum
                          then to_size (next_zero_bit (dram bitmap) hnt 0) else range_start);
           range_end = to_size (next_set_bit (dram bitmap)
             (size_add range_start
               (if count > size_sub bitnum range_start then size_sub bitnum range_start
                else count)) range_start);
           found_count = size_sub range_end range_start
       in if found_count = 0 then None
          else Some (int (range_start + bit_offset bitmap), found_count,
                     bitmap\<lparr>dram := set_bit_range range_start (dram bitmap) found_count,
                            hint := range_end,
                            remain := size_sub (remain bitmap) found_count\<rparr>)
     else None)"

text \<open>The result is the first slot of the range, the new \<open>*count\<close> and the bitmaps.\<close>

primrec slot_range_loop ::
    "nat list \<Rightarrow> nat \<Rightarrow> dram_bitmap list \<Rightarrow> index_t \<times> nat \<times> dram_bitmap list" where
  "slot_range_loop [] count bitmaps = (-1, 0, bitmaps)"
| "slot_range_loop (current # rest) count bitmaps =
    (case slot_range_one (bitmaps ! current) count of
       Some (index, found, bitmap) \<Rightarrow> (index, found, bitmaps[current := bitmap])
     | None \<Rightarrow> slot_range_loop rest count bitmaps)"

definition do_slot_alloc_range ::
    "nat \<Rightarrow> nat \<Rightarrow> dram_bitmap list \<Rightarrow> nat \<Rightarrow> index_t \<times> nat \<times> dram_bitmap list" where
  "do_slot_alloc_range cpu map_num bitmaps count =
    slot_range_loop (probe_order map_num (cpu mod map_num)) count bitmaps"

definition do_slot_free_range :: "dram_bitmap list \<Rightarrow> index_t \<Rightarrow> nat \<Rightarrow> dram_bitmap list" where
  "do_slot_free_range bitmaps index count =
    (let bitmap_size = bit_num (bitmaps ! 0);
         bitmap_index = to_size index div bitmap_size;
         bit = to_size index mod bitmap_size;
         bitmap = bitmaps ! bitmap_index
     in bitmaps[bitmap_index :=
          bitmap\<lparr>dram := clear_bit_range bit (dram bitmap) count,
                 remain := size_add (remain bitmap) count\<rparr>])"

subsection \<open>The slot types\<close>

definition slot_inode_alloc :: "nat \<Rightarrow> slot_maps \<Rightarrow> index_t \<times> slot_maps" where
  "slot_inode_alloc cpu maps =
    (let (index, bitmaps) = do_slot_alloc cpu MAP_NUM (maps SLOT_INODE)
     in (index, maps(SLOT_INODE := bitmaps)))"

definition slot_data_alloc :: "nat \<Rightarrow> slot_maps \<Rightarrow> nat \<Rightarrow> index_t \<times> nat \<times> slot_maps" where
  "slot_data_alloc cpu maps count =
    (let (index, count, bitmaps) = do_slot_alloc_range cpu MAP_NUM (maps SLOT_DATA) count
     in (index, count, maps(SLOT_DATA := bitmaps)))"

definition slot_data_free :: "slot_maps \<Rightarrow> index_t \<Rightarrow> nat \<Rightarrow> slot_maps" where
  "slot_data_free maps index count =
    maps(SLOT_DATA := do_slot_free_range (maps SLOT_DATA) index count)"

definition slot_inode_free :: "slot_maps \<Rightarrow> index_t \<Rightarrow> slot_maps" where
  "slot_inode_free maps index =
    maps(SLOT_INODE := do_slot_free MAP_NUM (maps SLOT_INODE) index)"

definition slot_dirent_alloc :: "nat \<Rightarrow> slot_maps \<Rightarrow> index_t \<times> slot_maps" where
  "slot_dirent_alloc cpu maps =
    (let (index, bitmaps) = do_slot_alloc cpu MAP_NUM (maps SLOT_DIR)
     in (index, maps(SLOT_DIR := bitmaps)))"

definition slot_dirent_free :: "slot_maps \<Rightarrow> index_t \<Rightarrow> slot_maps" where
  "slot_dirent_free maps index =
    maps(SLOT_DIR := do_slot_free MAP_NUM (maps SLOT_DIR) index)"

definition slot_firent_alloc :: "nat \<Rightarrow> slot_maps \<Rightarrow> index_t \<times> slot_maps" where
  "slot_firent_alloc cpu maps =
    (let (index, bitmaps) = do_slot_alloc cpu MAP_NUM (maps SLOT_FILE)
     in (index, maps(SLOT_FILE := bitmaps)))"

definition slot_firent_free :: "slot_maps \<Rightarrow> index_t \<Rightarrow> slot_maps" where
  "slot_firent_free maps index =
    maps(SLOT_FILE := do_slot_free MAP_NUM (maps SLOT_FILE) index)"

subsection \<open>Invariant and abstract view\<close>

definition wf_bitmap :: "dram_bitmap \<Rightarrow> bool" where
  "wf_bitmap b \<longleftrightarrow> bit_num b < 2 ^ 31 \<and> hint b \<le> bit_num b \<and>
     remain b = card {i. i < bit_num b \<and> \<not> bit_at (dram b) i}"

text \<open>Bitmap \<open>j\<close> of an array covers the slots from \<open>j * bit_num (bs ! 0)\<close> on: all bitmaps but
  the last have the size of the first, which \<open>do_slot_free\<close> relies on.\<close>

definition wf_maps :: "nat \<Rightarrow> dram_bitmap list \<Rightarrow> bool" where
  "wf_maps n bs \<longleftrightarrow> length bs = n \<and> 0 < n \<and> 0 < bit_num (bs ! 0) \<and>
     n * bit_num (bs ! 0) < 2 ^ 63 \<and>
     (\<forall>j < n. wf_bitmap (bs ! j) \<and> bit_offset (bs ! j) = j * bit_num (bs ! 0) \<and>
        bit_num (bs ! j) \<le> bit_num (bs ! 0))"

definition bitmap_slots :: "dram_bitmap \<Rightarrow> nat set" where
  "bitmap_slots b = {bit_offset b + k | k. k < bit_num b \<and> bit_at (dram b) k}"

definition used_slots :: "dram_bitmap list \<Rightarrow> nat set" where
  "used_slots bs = (\<Union>j < length bs. bitmap_slots (bs ! j))"

definition all_slots :: "dram_bitmap list \<Rightarrow> nat set" where
  "all_slots bs =
    (\<Union>j < length bs. {bit_offset (bs ! j) ..< bit_offset (bs ! j) + bit_num (bs ! j)})"

subsection \<open>One bitmap\<close>

lemma next_zero_bit_small:
  "sz < 2 ^ 31 \<Longrightarrow> i \<le> sz \<Longrightarrow> to_size (next_zero_bit b sz i) = next_zero_bit_from b sz i"
  using next_zero_bit_from_bounds [of i sz b] by (simp add: next_zero_bit_def)

lemma next_set_bit_small:
  "sz < 2 ^ 31 \<Longrightarrow> i \<le> sz \<Longrightarrow> to_size (next_set_bit b sz i) = next_set_bit_from b sz i"
  using next_set_bit_from_bounds [of i sz b] by (simp add: next_set_bit_def)

lemma wf_bitmap_remain_bound: "wf_bitmap b \<Longrightarrow> remain b \<le> bit_num b"
proof -
  have "{i. i < bit_num b \<and> \<not> bit_at (dram b) i} \<subseteq> {..<bit_num b}" by auto
  then have "card {i. i < bit_num b \<and> \<not> bit_at (dram b) i} \<le> bit_num b"
    using card_mono [of "{..<bit_num b}"] by fastforce
  then show "wf_bitmap b \<Longrightarrow> remain b \<le> bit_num b"
    by (simp add: wf_bitmap_def)
qed

lemma wf_bitmap_remain_zero:
  "wf_bitmap b \<Longrightarrow> remain b = 0 \<longleftrightarrow> (\<forall>k < bit_num b. bit_at (dram b) k)"
  by (auto simp: wf_bitmap_def card_eq_0_iff)

text \<open>The two searches of a bitmap with a free slot end on a free slot.\<close>

text \<open>Allocating \<open>k\<close> slots one after the other.\<close>

primrec alloc_seq :: "('m \<Rightarrow> index_t \<times> 'm) \<Rightarrow> nat \<Rightarrow> 'm \<Rightarrow> (index_t list \<times> 'm) option" where
  "alloc_seq alloc 0 m = Some ([], m)"
| "alloc_seq alloc (Suc k) m =
    (let (i, m1) = alloc m
     in if i = -1 then None
        else case alloc_seq alloc k m1 of None \<Rightarrow> None | Some (js, m2) \<Rightarrow> Some (i # js, m2))"

definition free_bit :: "dram_bitmap \<Rightarrow> nat" where
  "free_bit b =
    (let k = next_zero_bit_from (dram b) (bit_num b) (hint b)
     in if k \<ge> bit_num b then next_zero_bit_from (dram b) (hint b) 0 else k)"

lemma free_bit_free:
  assumes "wf_bitmap b" "0 < remain b"
  shows "free_bit b < bit_num b \<and> \<not> bit_at (dram b) (free_bit b)"
proof -
  let ?k = "next_zero_bit_from (dram b) (bit_num b) (hint b)"
  have h: "hint b \<le> bit_num b"
    using assms(1) by (simp add: wf_bitmap_def)
  show ?thesis
  proof (cases "?k < bit_num b")
    case True
    then show ?thesis
      by (simp add: free_bit_def next_zero_bit_from_hit)
  next
    case False
    then have "?k = bit_num b"
      using next_zero_bit_from_bounds [OF h] by (simp add: le_antisym)
    then have high: "\<forall>k. hint b \<le> k \<and> k < bit_num b \<longrightarrow> bit_at (dram b) k"
      by (simp add: next_zero_bit_eq_size)
    from assms obtain z where "z < bit_num b" "\<not> bit_at (dram b) z"
      using wf_bitmap_remain_zero [of b] by auto
    with high have "z < hint b" "\<not> bit_at (dram b) z"
      by (auto simp: not_le [symmetric])
    then have "next_zero_bit_from (dram b) (hint b) 0 \<noteq> hint b"
      by (auto simp: next_zero_bit_eq_size)
    then have "next_zero_bit_from (dram b) (hint b) 0 < hint b"
      using next_zero_bit_from_bounds [of 0 "hint b" "dram b"] by simp
    with h False show ?thesis
      using next_zero_bit_from_hit [of "dram b" "hint b" 0] by (simp add: free_bit_def)
  qed
qed

lemma slot_alloc_one_eq:
  assumes "wf_bitmap b"
  shows "slot_alloc_one b =
    (if remain b = 0 then None
     else Some (int (free_bit b + bit_offset b),
                b\<lparr>dram := set_bit (free_bit b) (dram b), hint := free_bit b + 1,
                  remain := remain b - 1\<rparr>))"
proof (cases "remain b = 0")
  case True
  then show ?thesis by (simp add: slot_alloc_one_def)
next
  case False
  have b: "bit_num b < 2 ^ 31" "hint b \<le> bit_num b" "hint b < 2 ^ 31" "remain b < 2 ^ 64"
    using assms wf_bitmap_remain_bound [OF assms] by (auto simp: wf_bitmap_def)
  have "free_bit b < bit_num b"
    using free_bit_free [OF assms] False by simp
  with False b show ?thesis
    by (auto simp: slot_alloc_one_def next_zero_bit_small free_bit_def Let_def split: if_splits)
qed

lemma wf_bitmap_set:
  assumes "wf_bitmap b" "k < bit_num b" "\<not> bit_at (dram b) k"
  shows "wf_bitmap (b\<lparr>dram := set_bit k (dram b), hint := k + 1, remain := remain b - 1\<rparr>)"
  using assms card_remove_below [of k "bit_num b" "\<lambda>i. \<not> bit_at (dram b) i"]
  by (simp add: wf_bitmap_def)

lemma wf_bitmap_clear:
  assumes "wf_bitmap b" "k < bit_num b" "bit_at (dram b) k"
  shows "wf_bitmap (b\<lparr>dram := clear_bit k (dram b), remain := remain b + 1\<rparr>)"
  using assms card_insert_below [of k "bit_num b" "\<lambda>i. \<not> bit_at (dram b) i"]
  by (simp add: wf_bitmap_def)

lemma bitmap_slots_set:
  "k < bit_num b \<Longrightarrow>
    bitmap_slots (b\<lparr>dram := set_bit k (dram b), hint := h, remain := r\<rparr>) =
    insert (bit_offset b + k) (bitmap_slots b)"
  by (auto simp: bitmap_slots_def)

lemma bitmap_slots_clear:
  "bitmap_slots (b\<lparr>dram := clear_bit k (dram b), remain := r\<rparr>) =
    bitmap_slots b - {bit_offset b + k}"
  by (auto simp: bitmap_slots_def)

subsection \<open>Arrays of bitmaps\<close>

lemma probe_order_set: "0 < n \<Longrightarrow> set (probe_order n s) = {..<n}"
proof -
  assume n: "0 < n"
  have "\<exists>i < n. c = (s + i) mod n" if "c < n" for c
  proof (intro exI conjI)
    let ?i = "(c + (n - s mod n)) mod n"
    show "?i < n" using n by simp
    have "(s + ?i) mod n = (s mod n + (c + (n - s mod n))) mod n"
      by (simp add: mod_simps)
    also have "s mod n + (c + (n - s mod n)) = n + c"
      using mod_less_divisor [OF n, of s] by linarith
    finally show "c = (s + ?i) mod n"
      using that by simp
  qed
  with n show ?thesis
    by (fastforce simp: probe_order_def)
qed

text \<open>\<open>probe_order\<close> is the sequence of values of the loop variable: it starts at \<open>start\<close>, each value
  is the successor modulo \<open>map_num\<close> of the one before, and the successor of the last value is
  \<open>start\<close>, where the loop ends.\<close>

lemma probe_order_cursor:
  assumes "start < n"
  shows "probe_order n start ! 0 = start" "length (probe_order n start) = n"
    and "\<And>i. Suc i < n \<Longrightarrow> probe_order n start ! Suc i = (probe_order n start ! i + 1) mod n"
    and "(last (probe_order n start) + 1) mod n = start"
proof -
  show "probe_order n start ! 0 = start" "length (probe_order n start) = n"
    using assms by (simp_all add: probe_order_def)
  show "probe_order n start ! Suc i = (probe_order n start ! i + 1) mod n" if "Suc i < n" for i
    using that by (simp add: probe_order_def mod_Suc_eq)
  have "last (probe_order n start) = (start + (n - 1)) mod n"
    using assms by (simp add: probe_order_def last_map)
  then show "(last (probe_order n start) + 1) mod n = start"
    using assms by (simp add: mod_Suc_eq)
qed

lemma slot_alloc_loop_cases:
  assumes "slot_alloc_loop order bs = (i, bs')"
  shows "(i = -1 \<and> bs' = bs \<and> (\<forall>c \<in> set order. slot_alloc_one (bs ! c) = None)) \<or>
    (\<exists>c \<in> set order. \<exists>b. slot_alloc_one (bs ! c) = Some (i, b) \<and> bs' = bs[c := b])"
  using assms
  by (induction order) (auto split: option.splits)

lemma used_slots_update:
  assumes "c < length bs"
  shows "used_slots (bs[c := b]) =
    (\<Union>j \<in> {..<length bs} - {c}. bitmap_slots (bs ! j)) \<union> bitmap_slots b"
  using assms by (auto simp: used_slots_def nth_list_update split: if_splits)

lemma used_slots_split:
  "c < length bs \<Longrightarrow> used_slots bs =
    (\<Union>j \<in> {..<length bs} - {c}. bitmap_slots (bs ! j)) \<union> bitmap_slots (bs ! c)"
  by (auto simp: used_slots_def)

lemma wf_maps_update:
  assumes "wf_maps n bs" "c < n" "wf_bitmap b"
    and "bit_num b = bit_num (bs ! c)" "bit_offset b = bit_offset (bs ! c)"
  shows "wf_maps n (bs[c := b])"
proof -
  have "bit_num (bs[c := b] ! j) = bit_num (bs ! j)"
    "bit_offset (bs[c := b] ! j) = bit_offset (bs ! j)" for j
    using assms by (cases "j = c"; simp add: wf_maps_def)+
  with assms show ?thesis
    by (simp add: wf_maps_def nth_list_update)
qed

lemma wf_maps_slot:
  assumes "wf_maps n bs" "c < n" "k < bit_num (bs ! c)"
  shows "(bit_offset (bs ! c) + k) div bit_num (bs ! 0) = c"
    and "(bit_offset (bs ! c) + k) mod bit_num (bs ! 0) = k"
    and "bit_offset (bs ! c) + k < 2 ^ 63"
proof -
  have b: "bit_offset (bs ! c) = c * bit_num (bs ! 0)" "k < bit_num (bs ! 0)"
    "n * bit_num (bs ! 0) < 2 ^ 63"
    using assms by (auto simp: wf_maps_def intro: less_le_trans)
  then show "(bit_offset (bs ! c) + k) div bit_num (bs ! 0) = c"
    "(bit_offset (bs ! c) + k) mod bit_num (bs ! 0) = k"
    by auto
  have "c * bit_num (bs ! 0) + k < Suc c * bit_num (bs ! 0)"
    using b by simp
  also have "\<dots> \<le> n * bit_num (bs ! 0)"
    using assms(2) by (intro mult_le_mono1) simp
  finally show "bit_offset (bs ! c) + k < 2 ^ 63"
    using b by simp
qed

lemma wf_maps_slot_other:
  assumes "wf_maps n bs" "c < n" "k < bit_num (bs ! c)" "j < n" "j \<noteq> c"
  shows "bit_offset (bs ! c) + k \<notin> bitmap_slots (bs ! j)"
proof
  assume "bit_offset (bs ! c) + k \<in> bitmap_slots (bs ! j)"
  then obtain k' where "k' < bit_num (bs ! j)" "bit_offset (bs ! c) + k = bit_offset (bs ! j) + k'"
    by (auto simp: bitmap_slots_def)
  with wf_maps_slot(1) [OF assms(1-3)] wf_maps_slot(1) [OF assms(1,4), of k'] assms(5)
  show False by simp
qed

subsection \<open>The allocator as a set of slots\<close>

lemma do_slot_alloc_cases:
  assumes "wf_maps n bs" "do_slot_alloc cpu n bs = (i, bs')"
  obtains (full) "i = -1" "bs' = bs" "\<And>c. c < n \<Longrightarrow> remain (bs ! c) = 0"
  | (slot) c k where "c < n" "k < bit_num (bs ! c)" "\<not> bit_at (dram (bs ! c)) k"
      "i = int (bit_offset (bs ! c) + k)"
      "bs' = bs[c := (bs ! c)\<lparr>dram := set_bit k (dram (bs ! c)), hint := k + 1,
                                remain := remain (bs ! c) - 1\<rparr>]"
proof -
  have n: "0 < n" and wf: "\<And>c. c < n \<Longrightarrow> wf_bitmap (bs ! c)"
    using assms(1) by (auto simp: wf_maps_def)
  have ord: "set (probe_order n (cpu mod n)) = {..<n}"
    using n by (rule probe_order_set)
  from slot_alloc_loop_cases [OF assms(2) [unfolded do_slot_alloc_def]] show thesis
  proof (elim disjE conjE bexE exE)
    assume "i = -1" "bs' = bs" "\<forall>c \<in> set (probe_order n (cpu mod n)). slot_alloc_one (bs ! c) = None"
    then show thesis
      using full ord wf by (auto simp: slot_alloc_one_eq split: if_splits)
  next
    fix c b
    assume c: "c \<in> set (probe_order n (cpu mod n))" "slot_alloc_one (bs ! c) = Some (i, b)"
      "bs' = bs[c := b]"
    then have "c < n" "0 < remain (bs ! c)"
      using ord wf [of c] by (auto simp: slot_alloc_one_eq split: if_splits)
    with c show thesis
      using wf [of c] free_bit_free [of "bs ! c"] slot [of c "free_bit (bs ! c)"]
      by (simp add: slot_alloc_one_eq add.commute)
  qed
qed

lemma used_full:
  assumes "wf_maps n bs" "\<And>c. c < n \<Longrightarrow> remain (bs ! c) = 0"
  shows "used_slots bs = all_slots bs"
proof -
  have "bitmap_slots (bs ! c) = {bit_offset (bs ! c) ..< bit_offset (bs ! c) + bit_num (bs ! c)}"
    if "c < n" for c
  proof -
    have "\<forall>k < bit_num (bs ! c). bit_at (dram (bs ! c)) k"
      using assms that wf_bitmap_remain_zero [of "bs ! c"] by (simp add: wf_maps_def)
    then show ?thesis
      by (auto simp: bitmap_slots_def) (metis le_Suc_ex nat_add_left_cancel_less)
  qed
  then show ?thesis
    using assms(1) by (simp add: used_slots_def all_slots_def wf_maps_def)
qed

lemma all_slots_update:
  "c < length bs \<Longrightarrow> bit_num b = bit_num (bs ! c) \<Longrightarrow> bit_offset b = bit_offset (bs ! c) \<Longrightarrow>
    all_slots (bs[c := b]) = all_slots bs"
  by (auto simp: all_slots_def nth_list_update split: if_splits)

lemma wf_maps_unused:
  assumes wf: "wf_maps n bs" and c: "c < n" and k: "k < bit_num (bs ! c)" "\<not> bit_at (dram (bs ! c)) k"
  shows "bit_offset (bs ! c) + k \<notin> used_slots bs"
proof
  have len: "length bs = n"
    using wf by (simp add: wf_maps_def)
  assume "bit_offset (bs ! c) + k \<in> used_slots bs"
  then obtain j where "j < n" "bit_offset (bs ! c) + k \<in> bitmap_slots (bs ! j)"
    using len by (auto simp: used_slots_def)
  moreover from this have "j = c"
    using wf_maps_slot_other [OF wf c k(1)] by blast
  ultimately show False
    using k by (simp add: bitmap_slots_def)
qed

lemma take_fresh:
  assumes wf: "wf_maps n bs" and slot: "c < n" "k < bit_num (bs ! c)" "\<not> bit_at (dram (bs ! c)) k"
    and i: "i = int (bit_offset (bs ! c) + k)"
    and bs': "bs' = bs[c := (bs ! c)\<lparr>dram := set_bit k (dram (bs ! c)), hint := k + 1,
                                    remain := remain (bs ! c) - 1\<rparr>]"
  shows "0 \<le> i \<and> nat i \<in> all_slots bs \<and> nat i \<notin> used_slots bs \<and>
    used_slots bs' = insert (nat i) (used_slots bs) \<and> all_slots bs' = all_slots bs \<and> wf_maps n bs'"
proof -
  have len: "length bs = n" and wfb: "wf_bitmap (bs ! c)"
    using wf slot by (auto simp: wf_maps_def)
  have notin: "bit_offset (bs ! c) + k \<notin> used_slots bs"
    using slot by (intro wf_maps_unused [OF wf])
  moreover have "bit_offset (bs ! c) + k \<in> all_slots bs"
    using slot len by (auto simp: all_slots_def intro!: bexI [of _ c])
  moreover have "used_slots bs' = insert (bit_offset (bs ! c) + k) (used_slots bs)"
    using slot len used_slots_split [of c bs]
    by (simp add: bs' used_slots_update bitmap_slots_set)
  moreover have "all_slots bs' = all_slots bs"
    using slot len by (simp add: bs' all_slots_update)
  moreover have "wf_maps n bs'"
    unfolding bs' using slot by (intro wf_maps_update wf wf_bitmap_set wfb) simp_all
  ultimately show ?thesis
    by (simp add: i nat_int_add)
qed

lemma do_slot_alloc_fresh:
  assumes "wf_maps n bs" "do_slot_alloc cpu n bs = (i, bs')" "i \<noteq> -1"
  shows "0 \<le> i \<and> nat i \<in> all_slots bs \<and> nat i \<notin> used_slots bs \<and>
    used_slots bs' = insert (nat i) (used_slots bs) \<and> all_slots bs' = all_slots bs \<and> wf_maps n bs'"
  using assms(1,2)
proof (cases rule: do_slot_alloc_cases)
  case full
  with assms(3) show ?thesis by simp
next
  case (slot c k)
  then show ?thesis
    by (intro take_fresh [OF assms(1)])
qed

lemma do_slot_alloc_full:
  assumes "wf_maps n bs" "do_slot_alloc cpu n bs = (-1, bs')"
  shows "bs' = bs \<and> used_slots bs = all_slots bs"
  using assms
proof (cases rule: do_slot_alloc_cases)
  case full
  with used_full [OF assms(1)] show ?thesis by simp
next
  case (slot c k)
  then show ?thesis by simp
qed

lemma do_slot_free_used:
  assumes "wf_maps n bs" "0 \<le> i" "nat i \<in> used_slots bs"
  shows "used_slots (do_slot_free n bs i) = used_slots bs - {nat i} \<and>
    all_slots (do_slot_free n bs i) = all_slots bs \<and> wf_maps n (do_slot_free n bs i)"
proof -
  have len: "length bs = n"
    using assms(1) by (simp add: wf_maps_def)
  from assms(3) len obtain c k where ck: "c < n" "k < bit_num (bs ! c)" "bit_at (dram (bs ! c)) k"
    "nat i = bit_offset (bs ! c) + k"
    by (auto simp: used_slots_def bitmap_slots_def)
  note slot = wf_maps_slot [OF assms(1) ck(1,2)]
  have ti: "to_size i = bit_offset (bs ! c) + k"
    using slot(3) ck(4) assms(2) by (simp add: to_size_def)
  have wfb: "wf_bitmap (bs ! c)"
    using assms(1) ck by (simp add: wf_maps_def)
  have rem: "size_add (remain (bs ! c)) 1 = remain (bs ! c) + 1"
    using wf_bitmap_remain_bound [OF wfb] wfb by (simp add: wf_bitmap_def)
  let ?b = "(bs ! c)\<lparr>dram := clear_bit k (dram (bs ! c)), remain := remain (bs ! c) + 1\<rparr>"
  have eq: "do_slot_free n bs i = bs[c := ?b]"
    using ck slot rem by (simp add: do_slot_free_def ti Let_def)
  have "used_slots (bs[c := ?b]) = used_slots bs - {bit_offset (bs ! c) + k}"
    using ck len used_slots_split [of c bs] wf_maps_slot_other [OF assms(1) ck(1,2)]
    by (auto simp: used_slots_update bitmap_slots_clear)
  moreover have "wf_maps n (bs[c := ?b])"
    using ck by (intro wf_maps_update assms(1) wf_bitmap_clear wfb) simp_all
  ultimately show ?thesis
    using ck len by (simp add: eq all_slots_update)
qed

subsection \<open>Best-effort allocation\<close>

lemma be_chunk_loop_free:
  assumes "be_chunk_loop mem w bitnum i rnd = Some j" "w = 64 \<or> w = 16"
  shows "j * w < bitnum \<and> \<not> bit_at mem (j * w)"
  using assms
proof (induction mem w bitnum i rnd rule: be_chunk_loop.induct)
  case (1 mem w bitnum i rnd)
  show ?case
  proof (cases "i < bitnum div w \<and> rnd \<le> SEARCH_ROUND \<and> load_le mem (i * (w div 8)) (w div 8) = 0")
    case True
    then have "j = i"
      using "1.prems"(1) unfolding be_chunk_loop.simps [of mem w bitnum i rnd] by simp
    moreover have "i * w < bitnum"
      using True "1.prems"(2) by auto
    moreover have "\<not> bit (load_le mem (i * (w div 8)) (w div 8)) 0"
      using True by simp
    then have "\<not> bit (mem (i * (w div 8))) 0"
      using "1.prems"(2) unfolding bit_load_le by auto
    then have "\<not> bit_at mem (8 * (i * (w div 8)))"
      by (simp add: bit_at_def)
    moreover have "8 * (i * (w div 8)) = i * w"
      using "1.prems"(2) by auto
    ultimately show ?thesis
      by simp
  next
    case False
    then show ?thesis
      using 1 unfolding be_chunk_loop.simps [of mem w bitnum i rnd]
      by (auto split: if_splits)
  qed
qed

lemma slot_be_one_cases:
  assumes wf: "wf_bitmap b"
  shows "(remain b = 0 \<and> slot_be_one b = None) \<or>
    (0 < remain b \<and> (\<exists>k. k < bit_num b \<and> \<not> bit_at (dram b) k \<and>
      slot_be_one b = Some (int (bit_offset b + k),
        b\<lparr>dram := set_bit k (dram b), hint := k + 1, remain := remain b - 1\<rparr>)))"
proof (cases "remain b = 0")
  case True
  then show ?thesis by (simp add: slot_be_one_def)
next
  case False
  have rem: "size_sub (remain b) 1 = remain b - 1"
    using False wf_bitmap_remain_bound [OF wf] wf by (simp add: wf_bitmap_def)
  have hint: "hint b \<le> bit_num b" "hint b < 2 ^ 31" "bit_num b < 2 ^ 31"
    using wf by (auto simp: wf_bitmap_def)
  have fb: "free_bit b < bit_num b" "\<not> bit_at (dram b) (free_bit b)"
    using free_bit_free [OF wf] False by auto
  let ?Q = "\<lambda>k. k < bit_num b \<and> \<not> bit_at (dram b) k \<and> slot_be_one b = Some (int (bit_offset b + k),
        b\<lparr>dram := set_bit k (dram b), hint := k + 1, remain := remain b - 1\<rparr>)"
  have "\<exists>k. ?Q k"
  proof (cases "be_chunk_loop (dram b) 64 (bit_num b) 0 0")
    case (Some i)
    then have "?Q (i * 64)"
      using False be_chunk_loop_free [OF Some] rem by (simp add: slot_be_one_def be_take_def add.commute)
    then show ?thesis ..
  next
    case none64: None
    show ?thesis
    proof (cases "be_chunk_loop (dram b) 16 (bit_num b) 0 0")
      case (Some i)
      then have "?Q (i * 16)"
        using False none64 be_chunk_loop_free [OF Some] rem
        by (simp add: slot_be_one_def be_take_def add.commute)
      then show ?thesis ..
    next
      case None
      then have "?Q (free_bit b)"
        using False none64 rem fb hint
        by (auto simp: slot_be_one_def be_take_def next_zero_bit_small free_bit_def Let_def
            add.commute split: if_splits)
      then show ?thesis ..
    qed
  qed
  with False show ?thesis by simp
qed

lemma slot_be_loop_cases:
  assumes "slot_be_loop order bs = (i, bs')"
  shows "(i = -1 \<and> bs' = bs \<and> (\<forall>c \<in> set order. slot_be_one (bs ! c) = None)) \<or>
    (\<exists>c \<in> set order. \<exists>b. slot_be_one (bs ! c) = Some (i, b) \<and> bs' = bs[c := b])"
  using assms
  by (induction order) (auto split: option.splits)

lemma slot_be_alloc_cases:
  assumes "wf_maps n bs" "slot_be_alloc cpu n bs = (i, bs')"
  obtains (full) "i = -1" "bs' = bs" "\<And>c. c < n \<Longrightarrow> remain (bs ! c) = 0"
  | (slot) c k where "c < n" "k < bit_num (bs ! c)" "\<not> bit_at (dram (bs ! c)) k"
      "i = int (bit_offset (bs ! c) + k)"
      "bs' = bs[c := (bs ! c)\<lparr>dram := set_bit k (dram (bs ! c)), hint := k + 1,
                                remain := remain (bs ! c) - 1\<rparr>]"
proof -
  have n: "0 < n" and wf: "\<And>c. c < n \<Longrightarrow> wf_bitmap (bs ! c)"
    using assms(1) by (auto simp: wf_maps_def)
  have ord: "set (probe_order n (cpu mod n)) = {..<n}"
    using n by (rule probe_order_set)
  from slot_be_loop_cases [OF assms(2) [unfolded slot_be_alloc_def]] show thesis
  proof (elim disjE conjE bexE exE)
    assume "i = -1" "bs' = bs" "\<forall>c \<in> set (probe_order n (cpu mod n)). slot_be_one (bs ! c) = None"
    then show thesis
      using full ord slot_be_one_cases [OF wf] by fastforce
  next
    fix c b
    assume c: "c \<in> set (probe_order n (cpu mod n))" "slot_be_one (bs ! c) = Some (i, b)"
      "bs' = bs[c := b]"
    then have "c < n"
      using ord by simp
    with c show thesis
      using slot_be_one_cases [OF wf [OF \<open>c < n\<close>]] slot [of c] by auto
  qed
qed

lemma slot_be_alloc_fresh:
  assumes "wf_maps n bs" "slot_be_alloc cpu n bs = (i, bs')" "i \<noteq> -1"
  shows "0 \<le> i \<and> nat i \<in> all_slots bs \<and> nat i \<notin> used_slots bs \<and>
    used_slots bs' = insert (nat i) (used_slots bs) \<and> all_slots bs' = all_slots bs \<and> wf_maps n bs'"
  using assms(1,2)
proof (cases rule: slot_be_alloc_cases)
  case full
  with assms(3) show ?thesis by simp
next
  case (slot c k)
  then show ?thesis
    by (intro take_fresh [OF assms(1)])
qed

lemma slot_be_alloc_full:
  assumes "wf_maps n bs" "slot_be_alloc cpu n bs = (-1, bs')"
  shows "bs' = bs \<and> used_slots bs = all_slots bs"
  using assms
proof (cases rule: slot_be_alloc_cases)
  case full
  with used_full [OF assms(1)] show ?thesis by simp
next
  case (slot c k)
  then show ?thesis by simp
qed

subsection \<open>Ranges of slots\<close>

definition range_len :: "dram_bitmap \<Rightarrow> nat \<Rightarrow> nat" where
  "range_len b count =
    next_set_bit_from (dram b) (free_bit b + min count (bit_num b - free_bit b)) (free_bit b)
      - free_bit b"

lemma range_len_facts:
  assumes "wf_bitmap b" "0 < remain b" "0 < count"
  shows "0 < range_len b count" "range_len b count \<le> count"
    "free_bit b + range_len b count \<le> bit_num b"
    "\<And>k. free_bit b \<le> k \<Longrightarrow> k < free_bit b + range_len b count \<Longrightarrow> 8 dvd k \<Longrightarrow> \<not> bit_at (dram b) k"
    "next_set_bit_from (dram b) (free_bit b + min count (bit_num b - free_bit b)) (free_bit b) =
      free_bit b + range_len b count"
proof -
  let ?f = "free_bit b" and ?sz = "free_bit b + min count (bit_num b - free_bit b)"
  let ?e = "next_set_bit_from (dram b) ?sz ?f"
  have f: "?f < bit_num b" "\<not> bit_at (dram b) ?f"
    using free_bit_free [OF assms(1,2)] by auto
  have e: "?f \<le> ?e" "?e \<le> ?sz"
    using next_set_bit_from_bounds [of ?f ?sz "dram b"] by auto
  have "?e \<noteq> ?f"
    using next_set_bit_from_hit [of "dram b" ?sz ?f] f assms(3) by auto
  moreover have "?sz \<le> ?f + count" "?sz \<le> bit_num b"
    using f by auto
  ultimately show "0 < range_len b count" "range_len b count \<le> count" "?f + range_len b count \<le> bit_num b"
    "?e = ?f + range_len b count"
    using e unfolding range_len_def by linarith+
  then show "\<not> bit_at (dram b) k" if "?f \<le> k" "k < ?f + range_len b count" "8 dvd k" for k
    using that next_set_bit_from_skipped [of ?f k "dram b" ?sz] by auto
qed

lemma slot_range_one_eq:
  assumes "wf_bitmap b"
  shows "slot_range_one b count =
    (if remain b = 0 \<or> count = 0 then None
     else Some (int (free_bit b + bit_offset b), range_len b count,
                b\<lparr>dram := set_bit_range (free_bit b) (dram b) (range_len b count),
                  hint := free_bit b + range_len b count,
                  remain := size_sub (remain b) (range_len b count)\<rparr>))"
proof (cases "remain b = 0")
  case True
  then show ?thesis by (simp add: slot_range_one_def)
next
  case False
  let ?f = "free_bit b"
  have b: "bit_num b < 2 ^ 31" "hint b \<le> bit_num b" "hint b < 2 ^ 31"
    using assms by (auto simp: wf_bitmap_def)
  have f: "?f < bit_num b"
    using free_bit_free [OF assms] False by simp
  have start: "(let k = to_size (next_zero_bit (dram b) (bit_num b) (hint b))
      in if k \<ge> bit_num b then to_size (next_zero_bit (dram b) (hint b) 0) else k) = ?f"
    using b by (simp add: next_zero_bit_small free_bit_def Let_def)
  have sz: "size_add ?f (if count > size_sub (bit_num b) ?f then size_sub (bit_num b) ?f else count) =
      ?f + min count (bit_num b - ?f)"
    using b f by (simp add: min_def)
  have le: "?f + min count (bit_num b - ?f) < 2 ^ 31"
    using b f by simp
  show ?thesis
  proof (cases "count = 0")
    case True
    then show ?thesis
      using b f start sz le
      by (simp add: slot_range_one_def Let_def next_set_bit_small next_set_bit_from.simps)
  next
    case count: False
    note r = range_len_facts [OF assms, of count]
    have fin: "to_size (next_set_bit (dram b) (?f + min count (bit_num b - ?f)) ?f) =
        ?f + range_len b count"
      using le r(5) False count by (simp add: next_set_bit_small)
    have found: "size_sub (?f + range_len b count) ?f = range_len b count"
      using r(3) False count b by simp
    from False count show ?thesis
      unfolding slot_range_one_def Let_def
      unfolding start [unfolded Let_def] sz fin found using r(1) by simp
  qed
qed

lemma bitmap_slots_set_range:
  assumes "f + r \<le> bit_num b"
  shows "bitmap_slots (b\<lparr>dram := set_bit_range f (dram b) r, hint := h, remain := m\<rparr>) =
    bitmap_slots b \<union> {bit_offset b + f ..< bit_offset b + f + (r - range_lost f r)}"
    (is "?L = ?R")
proof -
  have "\<exists>j. k = bit_offset b + j \<and> j < bit_num b \<and> f \<le> j \<and> j < f + r - range_lost f r"
    if "bit_offset b + f \<le> k" "k < bit_offset b + f + (r - range_lost f r)" for k
    using that assms range_lost_le [of f r] by (intro exI [of _ "k - bit_offset b"]) auto
  then show ?thesis
    using assms range_lost_le [of f r]
    by (fastforce simp: bitmap_slots_def bit_at_set_bit_range)
qed

lemma wf_bitmap_set_range:
  assumes "wf_bitmap b" "f + r \<le> bit_num b" "range_lost f r = 0"
    and free: "\<And>k. f \<le> k \<Longrightarrow> k < f + r \<Longrightarrow> \<not> bit_at (dram b) k"
  shows "wf_bitmap (b\<lparr>dram := set_bit_range f (dram b) r, hint := f + r,
                       remain := size_sub (remain b) r\<rparr>)"
proof -
  let ?Z = "{i. i < bit_num b \<and> \<not> bit_at (dram b) i}"
  have "{f..<f + r} \<subseteq> ?Z"
    using assms by auto
  moreover have "{i. i < bit_num b \<and> \<not> (bit_at (dram b) i \<or> f \<le> i \<and> i < f + r)} = ?Z - {f..<f + r}"
    by auto
  moreover have "finite ?Z" by simp
  ultimately have "card {i. i < bit_num b \<and> \<not> (bit_at (dram b) i \<or> f \<le> i \<and> i < f + r)} = card ?Z - r"
    "r \<le> card ?Z"
    using card_Diff_subset [of "{f..<f + r}" ?Z] card_mono [of ?Z "{f..<f + r}"] by auto
  moreover have "remain b < 2 ^ 64" "remain b = card ?Z"
    using assms(1) wf_bitmap_remain_bound [OF assms(1)] by (auto simp: wf_bitmap_def)
  ultimately show ?thesis
    using assms by (simp add: wf_bitmap_def bit_at_set_bit_range)
qed

lemma slot_range_loop_cases:
  assumes "slot_range_loop order count bs = (i, found, bs')"
  shows "(i = -1 \<and> found = 0 \<and> bs' = bs \<and> (\<forall>c \<in> set order. slot_range_one (bs ! c) count = None)) \<or>
    (\<exists>c \<in> set order. \<exists>b. slot_range_one (bs ! c) count = Some (i, found, b) \<and> bs' = bs[c := b])"
  using assms
  by (induction order) (auto split: option.splits)

definition slot_range :: "index_t \<Rightarrow> nat \<Rightarrow> nat set" where
  "slot_range i m = {nat i ..< nat i + m}"

lemma do_slot_alloc_range_cases:
  assumes wf: "wf_maps n bs" and r: "do_slot_alloc_range cpu n bs count = (i, found, bs')"
  obtains (none) "i = -1" "found = 0" "bs' = bs" "count = 0 \<or> (\<forall>c<n. remain (bs ! c) = 0)"
  | (range) c where "c < n" "0 < count" "0 < remain (bs ! c)"
      "i = int (bit_offset (bs ! c) + free_bit (bs ! c))" "found = range_len (bs ! c) count"
      "bs' = bs[c := (bs ! c)\<lparr>dram := set_bit_range (free_bit (bs ! c)) (dram (bs ! c)) found,
                  hint := free_bit (bs ! c) + found,
                  remain := size_sub (remain (bs ! c)) found\<rparr>]"
proof -
  have ord: "set (probe_order n (cpu mod n)) = {..<n}"
    using wf by (intro probe_order_set) (simp add: wf_maps_def)
  have wfb: "wf_bitmap (bs ! c)" if "c < n" for c
    using wf that by (simp add: wf_maps_def)
  from slot_range_loop_cases [OF r [unfolded do_slot_alloc_range_def]] show thesis
  proof (elim disjE conjE bexE exE)
    assume "i = -1" "found = 0" "bs' = bs"
      "\<forall>c \<in> set (probe_order n (cpu mod n)). slot_range_one (bs ! c) count = None"
    then show thesis
      using none ord wfb by (auto simp: slot_range_one_eq split: if_splits)
  next
    fix c b
    assume c: "c \<in> set (probe_order n (cpu mod n))"
      "slot_range_one (bs ! c) count = Some (i, found, b)" "bs' = bs[c := b]"
    then have "c < n" "0 < remain (bs ! c)" "0 < count"
      using ord wfb [of c] by (auto simp: slot_range_one_eq split: if_splits)
    with c show thesis
      using wfb [of c] range [of c] by (auto simp: slot_range_one_eq add.commute)
  qed
qed

text \<open>What \<open>do_slot_alloc_range\<close> does in every case: the returned range lies inside one bitmap,
  starts at a free slot, holds no used slot at a multiple of eight, and all but the last
  \<open>range_lost\<close> of its slots become used.\<close>

lemma do_slot_alloc_range_exact:
  assumes wf: "wf_maps n bs" and r: "do_slot_alloc_range cpu n bs count = (i, found, bs')"
    and i: "i \<noteq> -1"
  shows "0 \<le> i \<and> 0 < found \<and> found \<le> count \<and> slot_range i found \<subseteq> all_slots bs \<and>
    nat i \<notin> used_slots bs \<and> all_slots bs' = all_slots bs \<and>
    (\<exists>c < n. \<exists>f. nat i = bit_offset (bs ! c) + f \<and>
       used_slots bs' = used_slots bs \<union> slot_range i (found - range_lost f found) \<and>
       (range_lost f found = 0 \<and> slot_range i found \<inter> used_slots bs = {} \<longrightarrow> wf_maps n bs'))"
  using wf r
proof (cases rule: do_slot_alloc_range_cases)
  case none
  with i show ?thesis by simp
next
  case (range c)
  let ?b = "bs ! c" and ?f = "free_bit (bs ! c)"
  have len: "length bs = n" and wfb: "wf_bitmap ?b"
    using wf range by (auto simp: wf_maps_def)
  note rl = range_len_facts [OF wfb range(3,2), folded range(5)]
  note f = free_bit_free [OF wfb range(3)]
  have i: "nat i = bit_offset ?b + ?f" "0 \<le> i"
    using range(4) by auto
  have "slot_range i found \<subseteq> all_slots bs"
    using i rl(3) range(1) len
    by (fastforce simp: slot_range_def all_slots_def intro!: bexI [of _ c])
  moreover have "nat i \<notin> used_slots bs"
    using i f wf_maps_unused [OF wf range(1)] by simp
  moreover have "all_slots bs' = all_slots bs"
    using range len by (simp add: all_slots_update)
  moreover have "used_slots bs' = used_slots bs \<union> slot_range i (found - range_lost ?f found)"
    using range len used_slots_split [of c bs] rl(3) i
    by (auto simp: used_slots_update bitmap_slots_set_range slot_range_def)
  moreover have "wf_maps n bs'"
    if "range_lost ?f found = 0" and u: "slot_range i found \<inter> used_slots bs = {}"
  proof -
    have "\<not> bit_at (dram ?b) k" if "?f \<le> k" "k < ?f + found" for k
    proof
      assume "bit_at (dram ?b) k"
      then have "bit_offset ?b + k \<in> used_slots bs"
        using that rl(3) range(1) len
        by (auto simp: used_slots_def bitmap_slots_def intro!: bexI [of _ c])
      moreover have "bit_offset ?b + k \<in> slot_range i found"
        using that i by (simp add: slot_range_def)
      ultimately show False using u by auto
    qed
    then show ?thesis
      unfolding range(6) using that(1) rl(3) range(1)
      by (intro wf_maps_update wf wf_bitmap_set_range wfb) simp_all
  qed
  ultimately show ?thesis
    using rl(1,2) i range(1) by (intro conjI exI [of _ c] exI [of _ ?f]) auto
qed

lemma wf_bitmap_clear_range:
  assumes "wf_bitmap b" "f + r \<le> bit_num b" "range_lost f r = 0"
    and used: "\<And>k. f \<le> k \<Longrightarrow> k < f + r \<Longrightarrow> bit_at (dram b) k"
  shows "wf_bitmap (b\<lparr>dram := clear_bit_range f (dram b) r, remain := size_add (remain b) r\<rparr>)"
proof -
  let ?Z = "{i. i < bit_num b \<and> \<not> bit_at (dram b) i}"
  have "{i. i < bit_num b \<and> \<not> (bit_at (dram b) i \<and> \<not> (f \<le> i \<and> i < f + r))} = ?Z \<union> {f..<f + r}"
    using assms by auto
  moreover have "?Z \<inter> {f..<f + r} = {}"
    using used by auto
  ultimately have c: "card {i. i < bit_num b \<and> \<not> (bit_at (dram b) i \<and> \<not> (f \<le> i \<and> i < f + r))} =
      card ?Z + r"
    by (simp add: card_Un_disjoint)
  have "card {i. i < bit_num b \<and> \<not> (bit_at (dram b) i \<and> \<not> (f \<le> i \<and> i < f + r))} \<le> card {..<bit_num b}"
    by (intro card_mono) auto
  with c have "card ?Z + r < 2 ^ 64"
    using assms(1) by (simp add: wf_bitmap_def)
  with c show ?thesis
    using assms by (simp add: wf_bitmap_def bit_at_clear_bit_range)
qed

lemma bitmap_slots_clear_range:
  assumes "range_lost f r = 0"
  shows "bitmap_slots (b\<lparr>dram := clear_bit_range f (dram b) r, remain := m\<rparr>) =
    bitmap_slots b - {bit_offset b + f ..< bit_offset b + f + r}"
  using assms by (auto simp: bitmap_slots_def bit_at_clear_bit_range)

lemma do_slot_free_range_used:
  assumes wf: "wf_maps n bs" and c: "c < n" and f: "f + r \<le> bit_num (bs ! c)" "0 < r"
    and lost: "range_lost f r = 0"
    and used: "{bit_offset (bs ! c) + f ..< bit_offset (bs ! c) + f + r} \<subseteq> used_slots bs"
  shows "used_slots (do_slot_free_range bs (int (bit_offset (bs ! c) + f)) r) =
      used_slots bs - {bit_offset (bs ! c) + f ..< bit_offset (bs ! c) + f + r} \<and>
    all_slots (do_slot_free_range bs (int (bit_offset (bs ! c) + f)) r) = all_slots bs \<and>
    wf_maps n (do_slot_free_range bs (int (bit_offset (bs ! c) + f)) r)"
proof -
  have len: "length bs = n" and wfb: "wf_bitmap (bs ! c)"
    using wf c by (auto simp: wf_maps_def)
  have fb: "f < bit_num (bs ! c)"
    using f by simp
  note slot = wf_maps_slot [OF wf c fb]
  let ?b = "(bs ! c)\<lparr>dram := clear_bit_range f (dram (bs ! c)) r, remain := size_add (remain (bs ! c)) r\<rparr>"
  have eq: "do_slot_free_range bs (int (bit_offset (bs ! c) + f)) r = bs[c := ?b]"
    using slot unfolding do_slot_free_range_def Let_def by (simp add: to_size_def nat_int_add)
  have bits: "bit_at (dram (bs ! c)) k" if "f \<le> k" "k < f + r" for k
  proof -
    have "bit_offset (bs ! c) + k \<in> used_slots bs"
      using that used by auto
    then show ?thesis
      using that f wf_maps_unused [OF wf c, of k] by auto
  qed
  have oth: "bit_offset (bs ! c) + k \<notin> bitmap_slots (bs ! j)" if "j < n" "j \<noteq> c" "f \<le> k" "k < f + r" for j k
    using wf_maps_slot_other [OF wf c _ that(1), of k] that f by auto
  have "x \<notin> bitmap_slots (bs ! j)"
    if "j < n" "j \<noteq> c" "x \<in> {bit_offset (bs ! c) + f ..< bit_offset (bs ! c) + f + r}" for j x
  proof -
    have "f \<le> x - bit_offset (bs ! c)" "x - bit_offset (bs ! c) < f + r"
      "bit_offset (bs ! c) + (x - bit_offset (bs ! c)) = x"
      using that(3) by auto
    then show ?thesis
      using oth [OF that(1,2), of "x - bit_offset (bs ! c)"] by simp
  qed
  then have "(\<Union>j \<in> {..<length bs} - {c}. bitmap_slots (bs ! j)) \<inter>
      {bit_offset (bs ! c) + f ..< bit_offset (bs ! c) + f + r} = {}"
    using len by blast
  then have "used_slots (bs[c := ?b]) = used_slots bs - {bit_offset (bs ! c) + f ..< bit_offset (bs ! c) + f + r}"
    using c len used_slots_split [of c bs] lost
    by (simp add: used_slots_update bitmap_slots_clear_range Un_Diff Diff_triv)
  moreover have "wf_maps n (bs[c := ?b])"
    using c lost f bits by (intro wf_maps_update wf wf_bitmap_clear_range wfb) simp_all
  ultimately show ?thesis
    unfolding eq using c len by (simp add: all_slots_update)
qed

subsection \<open>The interface\<close>

text \<open>What the rest of the file system relies on: an allocator hands out slots that are in
  its universe and not in use, fails only when every slot is in use, and takes a used slot
  back.\<close>

locale slot_allocator =
  fixes inv :: "'m \<Rightarrow> bool"
    and used :: "'m \<Rightarrow> nat set"
    and universe :: "'m \<Rightarrow> nat set"
    and alloc :: "'m \<Rightarrow> index_t \<times> 'm"
    and free :: "'m \<Rightarrow> index_t \<Rightarrow> 'm"
  assumes alloc_fresh: "inv m \<Longrightarrow> alloc m = (i, m') \<Longrightarrow> i \<noteq> -1 \<Longrightarrow>
      0 \<le> i \<and> nat i \<in> universe m \<and> nat i \<notin> used m \<and> used m' = insert (nat i) (used m) \<and>
      universe m' = universe m \<and> inv m'"
    and alloc_full: "inv m \<Longrightarrow> alloc m = (-1, m') \<Longrightarrow> m' = m \<and> used m = universe m"
    and free_used: "inv m \<Longrightarrow> 0 \<le> i \<Longrightarrow> nat i \<in> used m \<Longrightarrow>
      used (free m i) = used m - {nat i} \<and> universe (free m i) = universe m \<and> inv (free m i)"
begin

lemma alloc_free_used:
  assumes "inv m" "alloc m = (i, m')" "i \<noteq> -1"
  shows "used (free m' i) = used m \<and> inv (free m' i)"
proof -
  note a = alloc_fresh [OF assms]
  then have "used (free m' i) = used m' - {nat i} \<and> inv (free m' i)"
    using free_used [of m' i] by simp
  with a show ?thesis by auto
qed

lemma alloc_succeeds_iff:
  assumes "inv m" "used m \<subseteq> universe m"
  shows "fst (alloc m) \<noteq> -1 \<longleftrightarrow> used m \<noteq> universe m"
  using alloc_fresh [OF assms(1)] alloc_full [OF assms(1)] assms(2)
  by (cases "alloc m") auto

lemma alloc_seq_fresh:
  assumes "inv m" "alloc_seq alloc k m = Some (is, m')"
  shows "length is = k \<and> distinct is \<and> (\<forall>i \<in> set is. 0 \<le> i) \<and>
    nat ` set is \<inter> used m = {} \<and> nat ` set is \<subseteq> universe m \<and>
    used m' = used m \<union> nat ` set is \<and> universe m' = universe m \<and> inv m'"
  using assms
proof (induction k arbitrary: m "is")
  case 0
  then show ?case by simp
next
  case (Suc k)
  from Suc.prems(2) obtain i m1 js where s: "alloc m = (i, m1)" "i \<noteq> -1"
    "alloc_seq alloc k m1 = Some (js, m')" "is = i # js"
    by (auto split: prod.splits if_splits option.splits)
  note a = alloc_fresh [OF Suc.prems(1) s(1,2)]
  from Suc.IH [OF _ s(3)] a have "i \<notin> set js" by blast
  with Suc.IH [OF _ s(3)] a show ?case
    unfolding s(4) by auto
qed

lemma alloc_seq_complete:
  assumes "inv m" "finite (universe m)" "used m \<subseteq> universe m" "k \<le> card (universe m - used m)"
  shows "\<exists>is m'. alloc_seq alloc k m = Some (is, m')"
  using assms
proof (induction k arbitrary: m)
  case 0
  then show ?case by simp
next
  case (Suc k)
  obtain i m1 where m1: "alloc m = (i, m1)" by fastforce
  have "used m \<noteq> universe m"
    using Suc.prems(4) by auto
  then have i: "i \<noteq> -1"
    using alloc_full [OF Suc.prems(1)] m1 by auto
  note a = alloc_fresh [OF Suc.prems(1) m1 i]
  have "universe m1 - used m1 = (universe m - used m) - {nat i}"
    using a by auto
  then have "k \<le> card (universe m1 - used m1)"
    using Suc.prems(2,4) a by simp
  then have "\<exists>is m'. alloc_seq alloc k m1 = Some (is, m')"
    using Suc.IH [of m1] Suc.prems(2,3) a by auto
  then show ?case
    using m1 i by auto
qed

end

interpretation sa: slot_allocator "wf_maps n" used_slots all_slots "do_slot_alloc cpu n" "do_slot_free n"
  for n cpu
  using do_slot_alloc_fresh do_slot_alloc_full do_slot_free_used
  by unfold_locales blast+

text \<open>The best-effort search implements the same contract.\<close>

interpretation sbe: slot_allocator "wf_maps n" used_slots all_slots "slot_be_alloc cpu n" "do_slot_free n"
  for n cpu
  using slot_be_alloc_fresh slot_be_alloc_full do_slot_free_used
  by unfold_locales blast+

subsection \<open>Properties\<close>

text \<open>A bitmap with no slot in use.\<close>

definition empty_bitmap :: "nat \<Rightarrow> nat \<Rightarrow> dram_bitmap" where
  "empty_bitmap off num =
    \<lparr>dram = \<lambda>_. 0, pm = 0, bit_offset = off, bit_num = num, remain = num, hint = 0\<rparr>"

lemma wf_empty_bitmap: "num < 2 ^ 31 \<Longrightarrow> wf_bitmap (empty_bitmap off num)"
  by (simp add: wf_bitmap_def empty_bitmap_def bit_at_def)

lemma wf_maps_empty:
  "0 < num \<Longrightarrow> num < 2 ^ 31 \<Longrightarrow> wf_maps 2 [empty_bitmap 0 num, empty_bitmap num num]"
  using wf_empty_bitmap [of num]
  by (auto simp: wf_maps_def less_2_cases_iff empty_bitmap_def)

lemma used_slots_empty: "used_slots [empty_bitmap 0 num, empty_bitmap num num] = {}"
  by (auto simp: used_slots_def bitmap_slots_def empty_bitmap_def bit_at_def lessThan_Suc)

lemma all_slots_empty: "all_slots [empty_bitmap 0 num, empty_bitmap num num] = {..<2 * num}"
  by (auto simp: all_slots_def empty_bitmap_def lessThan_Suc)

lemma all_slots_finite: "finite (all_slots bs)"
  by (simp add: all_slots_def)

lemma used_slots_subset: "used_slots bs \<subseteq> all_slots bs"
  by (auto simp: used_slots_def all_slots_def bitmap_slots_def intro!: bexI)

lemma alloc_empty_eval:
  "do_slot_alloc 5 2 [empty_bitmap 0 16, empty_bitmap 16 16] =
    (16, [empty_bitmap 0 16, (empty_bitmap 16 16)\<lparr>dram := set_bit 0 (\<lambda>_. 0), hint := 1, remain := 15\<rparr>])"
  by (simp add: do_slot_alloc_def probe_order_def upt_rec slot_alloc_one_eq wf_empty_bitmap)
    (simp add: empty_bitmap_def free_bit_def next_zero_bit_from_rec)

lemma alloc_range_empty_eval:
  "do_slot_alloc_range 0 2 [empty_bitmap 0 16, empty_bitmap 16 16] 5 =
    (0, 5, [(empty_bitmap 0 16)\<lparr>dram := set_bit_range 0 (\<lambda>_. 0) 5, hint := 5, remain := 11\<rparr>, empty_bitmap 16 16])"
  by (simp add: do_slot_alloc_range_def probe_order_def upt_rec slot_range_one_eq wf_empty_bitmap)
    (simp add: empty_bitmap_def free_bit_def range_len_def next_zero_bit_from_rec next_set_bit_from_rec)

text \<open>C15: \<open>do_slot_alloc\<close> on well-formed bitmaps either returns \<open>-1\<close>, changes nothing and every
  slot was in use, or returns a slot of the device that was free, which is then the only slot
  that became used, and leaves the bitmaps well-formed (the counter \<open>remain\<close> again counts
  the free slots).\<close>

theorem do_slot_alloc_correct:
  assumes "wf_maps n bs" "do_slot_alloc cpu n bs = (i, bs')"
  shows "(i = -1 \<and> bs' = bs \<and> used_slots bs = all_slots bs) \<or>
    (0 \<le> i \<and> nat i \<in> all_slots bs - used_slots bs \<and> used_slots bs' = insert (nat i) (used_slots bs) \<and>
     all_slots bs' = all_slots bs \<and> wf_maps n bs')"
  using sa.alloc_fresh [OF assms] sa.alloc_full [of n bs cpu bs'] assms by (cases "i = -1") auto

theorem do_slot_alloc_correct_witness:
  "wf_maps 2 (snd (do_slot_alloc 5 2 [empty_bitmap 0 16, empty_bitmap 16 16])) \<and>
    fst (do_slot_alloc 5 2 [empty_bitmap 0 16, empty_bitmap 16 16]) = 16"
  using do_slot_alloc_correct [OF wf_maps_empty alloc_empty_eval]
  by (simp add: alloc_empty_eval)

text \<open>C25: as many single-slot allocations as there are free slots all succeed, and they return
  pairwise distinct slots, none of which was in use before.\<close>

theorem alloc_seq_distinct:
  assumes "wf_maps n bs" "k \<le> card (all_slots bs - used_slots bs)"
  shows "\<exists>is bs'. alloc_seq (do_slot_alloc cpu n) k bs = Some (is, bs') \<and> length is = k \<and>
    distinct is \<and> nat ` set is \<subseteq> all_slots bs - used_slots bs \<and>
    used_slots bs' = used_slots bs \<union> nat ` set is \<and> wf_maps n bs'"
proof -
  obtain "is" bs' where s: "alloc_seq (do_slot_alloc cpu n) k bs = Some (is, bs')"
    using sa.alloc_seq_complete [OF assms(1) all_slots_finite used_slots_subset assms(2)] by blast
  show ?thesis
    using sa.alloc_seq_fresh [OF assms(1) s] s by auto
qed

theorem alloc_seq_distinct_witness:
  "\<exists>is bs'. alloc_seq (do_slot_alloc 0 2) 32 [empty_bitmap 0 16, empty_bitmap 16 16] = Some (is, bs') \<and>
    distinct is"
  using alloc_seq_distinct [OF wf_maps_empty, of 16 32 0]
  by (auto simp: all_slots_empty used_slots_empty)

text \<open>Freeing a used slot makes exactly that slot free again, so an allocation followed by
  the free of its slot restores the set of used slots; the bitmaps stay well-formed.\<close>

theorem do_slot_free_correct:
  assumes "wf_maps n bs" "0 \<le> i" "nat i \<in> used_slots bs"
  shows "used_slots (do_slot_free n bs i) = used_slots bs - {nat i} \<and>
    all_slots (do_slot_free n bs i) = all_slots bs \<and> wf_maps n (do_slot_free n bs i)"
  by (rule sa.free_used [OF assms])

theorem do_slot_free_correct_witness:
  "used_slots (do_slot_free 2 (snd (do_slot_alloc 5 2 [empty_bitmap 0 16, empty_bitmap 16 16])) 16) = {}"
proof -
  let ?bs = "[empty_bitmap 0 16, empty_bitmap 16 16]"
  from do_slot_alloc_fresh [OF wf_maps_empty alloc_empty_eval]
  have "wf_maps 2 (snd (do_slot_alloc 5 2 ?bs)) \<and> used_slots (snd (do_slot_alloc 5 2 ?bs)) = {16}"
    by (simp add: used_slots_empty alloc_empty_eval)
  then show ?thesis
    using do_slot_free_correct [of 2 "snd (do_slot_alloc 5 2 ?bs)" 16] by simp
qed

text \<open>C26: what \<open>do_slot_alloc_range\<close> guarantees when it returns a range: between one and \<open>count\<close>
  slots inside one bitmap, the first of them free; all slots of the range but the last
  \<open>range_lost\<close> become used, and when nothing is lost and no slot of the range was in use the
  bitmaps stay well-formed.\<close>

theorem do_slot_alloc_range_correct:
  assumes "wf_maps n bs" "do_slot_alloc_range cpu n bs count = (i, found, bs')" "i \<noteq> -1"
  shows "0 \<le> i \<and> 0 < found \<and> found \<le> count \<and> slot_range i found \<subseteq> all_slots bs \<and>
    nat i \<notin> used_slots bs \<and> all_slots bs' = all_slots bs \<and>
    (\<exists>c < n. \<exists>f. nat i = bit_offset (bs ! c) + f \<and>
       used_slots bs' = used_slots bs \<union> slot_range i (found - range_lost f found) \<and>
       (range_lost f found = 0 \<and> slot_range i found \<inter> used_slots bs = {} \<longrightarrow> wf_maps n bs'))"
  by (rule do_slot_alloc_range_exact [OF assms])

theorem do_slot_alloc_range_correct_witness:
  "slot_range 0 5 \<subseteq> all_slots [empty_bitmap 0 16, empty_bitmap 16 16] \<and>
   fst (do_slot_alloc_range 0 2 [empty_bitmap 0 16, empty_bitmap 16 16] 5) = 0"
  using do_slot_alloc_range_correct [OF wf_maps_empty alloc_range_empty_eval]
  by (simp add: alloc_range_empty_eval)

text \<open>C27: \<open>do_slot_alloc_range\<close> can hand out a slot that is in use. In a bitmap of 16 slots of
  which only slot 4 is used, a request for six slots returns slots 0 to 5, because
  \<open>next_set_bit\<close> recognises a set bit only at a multiple of eight.\<close>

theorem alloc_range_hands_out_used_slot:
  "\<exists>bs bs'. wf_maps 1 bs \<and> 4 \<in> used_slots bs \<and> do_slot_alloc_range 0 1 bs 6 = (0, 6, bs') \<and>
     4 \<in> slot_range 0 6"
proof -
  let ?b = "(empty_bitmap 0 16)\<lparr>dram := set_bit 4 (\<lambda>_. 0), remain := 15\<rparr>"
  have "{i. i < 16 \<and> i \<noteq> 4} = {..<16} - {4 :: nat}"
    by auto
  then have wf: "wf_bitmap ?b"
    by (simp add: wf_bitmap_def empty_bitmap_def)
  have "wf_maps 1 [?b]" "4 \<in> used_slots [?b]"
    using wf
    by (simp_all add: wf_maps_def used_slots_def bitmap_slots_def empty_bitmap_def lessThan_Suc)
  moreover have "\<exists>bs'. do_slot_alloc_range 0 1 [?b] 6 = (0, 6, bs')"
    using wf
    by (simp add: do_slot_alloc_range_def probe_order_def slot_range_one_eq)
      (simp add: empty_bitmap_def free_bit_def range_len_def next_zero_bit_from_rec
        next_set_bit_from_rec)
  ultimately show ?thesis
    by (auto simp: slot_range_def)
qed

text \<open>The best-effort search \<open>slot_be_alloc\<close> implements the same contract as \<open>do_slot_alloc\<close>:
  its 64-bit and 16-bit probes only return slots whose bit is clear.\<close>

theorem slot_be_alloc_correct:
  assumes "wf_maps n bs" "slot_be_alloc cpu n bs = (i, bs')"
  shows "(i = -1 \<and> bs' = bs \<and> used_slots bs = all_slots bs) \<or>
    (0 \<le> i \<and> nat i \<in> all_slots bs - used_slots bs \<and> used_slots bs' = insert (nat i) (used_slots bs) \<and>
     all_slots bs' = all_slots bs \<and> wf_maps n bs')"
  using sbe.alloc_fresh [OF assms] sbe.alloc_full [of n bs cpu bs'] assms by (cases "i = -1") auto

theorem slot_be_alloc_correct_witness:
  "nat (fst (slot_be_alloc 0 2 [empty_bitmap 0 16, empty_bitmap 16 16])) \<notin> used_slots [empty_bitmap 0 16, empty_bitmap 16 16]"
  using slot_be_alloc_correct [OF wf_maps_empty, of 16 0, OF _ _ prod.collapse [symmetric]]
  by (auto simp: used_slots_empty)

end
