(* ===== verification/Arena.thy ===== *)
theory Arena
  imports Slot_Prelude
begin

text \<open>
  The fixed-size object allocator of \<open>slotfs/arena.c\<close>, from which the B-tree nodes, the DRAM
  inodes and the directory and file entries are taken.

  The free list is threaded through the objects: the first word of a free object is the
  address of the next one. The words of the region are the store \<open>words\<close>; address \<open>0\<close> is
  \<open>NULL\<close>. The spinlock makes each operation atomic and the debug-only counter \<open>used\<close> is
  compiled out (\<open>SLOTFS_DEBUG\<close> is not defined).

  \<open>flist\<close> is the list of free objects. \<open>pool_alloc\<close> and \<open>pool_free\<close> are the same operations on
  that list; \<open>arena_alloc_refines\<close> and \<open>arena_free_refines\<close> show that the pointer code
  implements them, and the theories above use the pool. The locale \<open>object_pool\<close> states the
  contract of both.
\<close>

subsection \<open>Data and operations\<close>

type_synonym words = "nat \<Rightarrow> nat"

record arena_t =
  arena_mem :: nat
  arena_size :: nat
  item_size :: nat
  free_list :: nat
  arena_type :: int

definition ALIGN :: "nat \<Rightarrow> nat \<Rightarrow> nat" where
  "ALIGN x a = unat ((word_of_nat x + word_of_nat a - 1) AND NOT (word_of_nat a - 1) :: 64 word)"

function arena_link :: "nat \<Rightarrow> nat \<Rightarrow> nat \<Rightarrow> nat \<Rightarrow> words \<times> nat \<Rightarrow> words \<times> nat" where
  "arena_link i n mem isz (w, fl) =
    (if i < n then
       let item = mem + i * isz
       in arena_link (i + 1) n mem isz (w(item := fl), item)
     else (w, fl))"
  by pat_completeness auto
termination
  by (relation "measure (\<lambda>(i, n, mem, isz, s). n - i)") auto

declare arena_link.simps [simp del]

text \<open>The result is the arena, the words of the region and the new \<open>arena_number\<close>.\<close>

definition arena_init :: "nat \<Rightarrow> words \<Rightarrow> nat \<Rightarrow> nat \<Rightarrow> nat \<Rightarrow> arena_t \<times> words \<times> nat" where
  "arena_init arena_number w mem msize isz =
    (let (w, fl) = arena_link 0 (msize div isz) mem isz (w, 0)
     in (\<lparr>arena_mem = mem, arena_size = ALIGN msize 8, item_size = ALIGN isz 8,
          free_list = fl, arena_type = int arena_number\<rparr>, w, arena_number + 1))"

definition arena_alloc :: "arena_t \<times> words \<Rightarrow> nat \<times> arena_t \<times> words" where
  "arena_alloc aw =
    (let (a, w) = aw
     in if free_list a = 0 then (0, a, w)
        else (free_list a, a\<lparr>free_list := w (free_list a)\<rparr>, w))"

definition arena_free :: "arena_t \<times> words \<Rightarrow> nat \<Rightarrow> arena_t \<times> words" where
  "arena_free aw ptr =
    (let (a, w) = aw; w = w(ptr := free_list a)
     in (a\<lparr>free_list := ptr\<rparr>, w))"

subsection \<open>The free list\<close>

primrec flist :: "words \<Rightarrow> nat \<Rightarrow> nat list \<Rightarrow> bool" where
  "flist w p [] \<longleftrightarrow> p = 0"
| "flist w p (x # xs) \<longleftrightarrow> p = x \<and> x \<noteq> 0 \<and> flist w (w x) xs"

definition pool_alloc :: "nat list \<Rightarrow> nat \<times> nat list" where
  "pool_alloc fl = (case fl of [] \<Rightarrow> (0, []) | p # ps \<Rightarrow> (p, ps))"

definition pool_free :: "nat list \<Rightarrow> nat \<Rightarrow> nat list" where
  "pool_free fl p = p # fl"

definition arena_items :: "nat \<Rightarrow> nat \<Rightarrow> nat \<Rightarrow> nat list" where
  "arena_items mem msize isz = rev (map (\<lambda>i. mem + i * isz) [0..<msize div isz])"

lemma flist_update: "x \<notin> set xs \<Longrightarrow> flist (w(x := v)) p xs = flist w p xs"
  by (induction xs arbitrary: p) auto

lemma flist_unique: "flist w p xs \<Longrightarrow> flist w p ys \<Longrightarrow> xs = ys"
proof (induction xs arbitrary: p ys)
  case Nil
  then show ?case by (cases ys) auto
next
  case (Cons x xs)
  then show ?case by (cases ys) auto
qed

lemma arena_link_list:
  assumes "0 < mem" "0 < isz" "i \<le> n" "flist w fl (rev (map (\<lambda>i. mem + i * isz) [0..<i]))"
    "arena_link i n mem isz (w, fl) = (w', fl')"
  shows "flist w' fl' (rev (map (\<lambda>i. mem + i * isz) [0..<n]))"
  using assms
proof (induction "n - i" arbitrary: i w fl)
  case 0
  then show ?case by (simp add: arena_link.simps [of i])
next
  case (Suc k)
  let ?item = "mem + i * isz"
  have lt: "i < n"
    using Suc.hyps(2) by simp
  have "?item \<notin> set (rev (map (\<lambda>i. mem + i * isz) [0..<i]))"
    using Suc.prems(2) by auto
  then have "flist (w(?item := fl)) ?item (rev (map (\<lambda>i. mem + i * isz) [0..<i + 1]))"
    using Suc.prems(1,4) by (simp add: flist_update)
  moreover have "arena_link (i + 1) n mem isz (w(?item := fl), ?item) = (w', fl')"
    using Suc.prems(5) lt unfolding arena_link.simps [of i n mem isz w fl] by (simp add: Let_def)
  ultimately show ?case
    using Suc.hyps Suc.prems(1,2) by (intro Suc.hyps(1) [of "i + 1"]) auto
qed

lemma arena_init_free:
  assumes "0 < mem" "0 < isz" "arena_init k w mem sz isz = (a, w', k')"
  shows "flist w' (free_list a) (arena_items mem sz isz) \<and> arena_mem a = mem \<and> k' = k + 1"
proof -
  obtain w1 fl where l: "arena_link 0 (sz div isz) mem isz (w, 0) = (w1, fl)"
    by fastforce
  from arena_link_list [OF assms(1,2) _ _ l] have "flist w1 fl (arena_items mem sz isz)"
    by (simp add: arena_items_def)
  with assms(3) l show ?thesis
    by (auto simp: arena_init_def)
qed

lemma arena_items_distinct: "0 < isz \<Longrightarrow> distinct (arena_items mem sz isz)"
  by (auto simp: arena_items_def distinct_map inj_on_def)

text \<open>The objects lie inside the region and do not overlap.\<close>

lemma arena_items_inside:
  assumes "0 < isz" "p \<in> set (arena_items mem sz isz)"
  shows "mem \<le> p \<and> p + isz \<le> mem + sz"
proof -
  from assms obtain i where i: "p = mem + i * isz" "i < sz div isz"
    by (auto simp: arena_items_def)
  then have "(i + 1) * isz \<le> sz div isz * isz"
    by (intro mult_le_mono1) simp
  also have "\<dots> \<le> sz"
    by simp
  finally show ?thesis
    using i by simp
qed

lemma arena_items_apart:
  assumes "p \<in> set (arena_items mem sz isz)" "q \<in> set (arena_items mem sz isz)" "p < q"
  shows "p + isz \<le> q"
proof -
  from assms obtain i j where ij: "p = mem + i * isz" "q = mem + j * isz"
    by (auto simp: arena_items_def)
  with assms(3) have "i < j"
    by simp
  then have "(i + 1) * isz \<le> j * isz"
    by (intro mult_le_mono1) simp
  with ij show ?thesis by simp
qed

subsection \<open>Refinement to the pool\<close>

lemma arena_alloc_refines:
  assumes "flist w (free_list a) xs" "arena_alloc (a, w) = (p, a', w')"
  shows "\<exists>xs'. pool_alloc xs = (p, xs') \<and> flist w' (free_list a') xs'"
  using assms by (cases xs) (auto simp: arena_alloc_def pool_alloc_def)

lemma arena_free_refines:
  assumes "flist w (free_list a) xs" "p \<noteq> 0" "p \<notin> set xs" "arena_free (a, w) p = (a', w')"
  shows "flist w' (free_list a') (pool_free xs p)"
  using assms by (auto simp: arena_free_def pool_free_def flist_update Let_def)

subsection \<open>The interface\<close>

locale object_pool =
  fixes inv :: "'s \<Rightarrow> bool"
    and avail :: "'s \<Rightarrow> nat set"
    and alloc :: "'s \<Rightarrow> nat \<times> 's"
    and release :: "'s \<Rightarrow> nat \<Rightarrow> 's"
  assumes alloc_null: "inv s \<Longrightarrow> alloc s = (0, s') \<Longrightarrow> s' = s \<and> avail s = {}"
    and alloc_some: "inv s \<Longrightarrow> alloc s = (p, s') \<Longrightarrow> p \<noteq> 0 \<Longrightarrow>
      p \<in> avail s \<and> avail s' = avail s - {p} \<and> inv s'"
    and release_avail: "inv s \<Longrightarrow> p \<noteq> 0 \<Longrightarrow> p \<notin> avail s \<Longrightarrow>
      avail (release s p) = insert p (avail s) \<and> inv (release s p)"
    and zero_not_avail: "inv s \<Longrightarrow> 0 \<notin> avail s"
begin

lemma alloc_release:
  assumes "inv s" "alloc s = (p, s')" "p \<noteq> 0"
  shows "avail (release s' p) = avail s \<and> inv (release s' p)"
  using alloc_some [OF assms] release_avail [of s' p] assms(3) by auto

text \<open>An object handed out is not handed out again before it is released.\<close>

lemma alloc_alloc_distinct:
  assumes "inv s" "alloc s = (p, s1)" "p \<noteq> 0" "alloc s1 = (q, s2)"
  shows "p \<noteq> q"
proof
  assume "p = q"
  with assms have "q \<in> avail s1"
    using alloc_some [of s1 q s2] alloc_some [of s p s1] by auto
  with alloc_some [OF assms(1-3)] \<open>p = q\<close> show False by auto
qed

end

definition pool_inv :: "nat list \<Rightarrow> bool" where
  "pool_inv fl \<longleftrightarrow> distinct fl \<and> 0 \<notin> set fl"

interpretation pool: object_pool pool_inv set pool_alloc pool_free
  by unfold_locales (auto simp: pool_inv_def pool_alloc_def pool_free_def split: list.splits)

definition arena_inv :: "arena_t \<times> words \<Rightarrow> bool" where
  "arena_inv aw \<longleftrightarrow> (\<exists>xs. flist (snd aw) (free_list (fst aw)) xs \<and> distinct xs)"

definition arena_avail :: "arena_t \<times> words \<Rightarrow> nat set" where
  "arena_avail aw = {p. \<exists>xs. flist (snd aw) (free_list (fst aw)) xs \<and> p \<in> set xs}"

lemma flist_nonzero: "flist w p xs \<Longrightarrow> 0 \<notin> set xs"
  by (induction xs arbitrary: p) auto

lemma arena_avail_flist:
  assumes "flist w (free_list a) xs"
  shows "arena_avail (a, w) = set xs"
proof -
  have "(\<exists>ys. flist w (free_list a) ys \<and> p \<in> set ys) \<longleftrightarrow> p \<in> set xs" for p
    using assms flist_unique [OF assms] by blast
  then show ?thesis
    by (simp add: arena_avail_def)
qed

lemma arena_alloc_some:
  assumes "arena_inv s" "arena_alloc s = (p, s')" "p \<noteq> 0"
  shows "p \<in> arena_avail s \<and> arena_avail s' = arena_avail s - {p} \<and> arena_inv s'"
proof -
  obtain a w a' w' where aw: "s = (a, w)" "s' = (a', w')" by fastforce
  with assms(1) obtain xs where xs: "flist w (free_list a) xs" "distinct xs"
    by (auto simp: arena_inv_def)
  from arena_alloc_refines [OF xs(1)] assms(2) obtain xs' where
    xs': "pool_alloc xs = (p, xs')" "flist w' (free_list a') xs'"
    unfolding aw by blast
  have "pool_inv xs"
    using xs flist_nonzero by (simp add: pool_inv_def)
  from pool.alloc_some [OF this xs'(1) assms(3)] show ?thesis
    unfolding aw arena_avail_flist [OF xs(1)] arena_avail_flist [OF xs'(2)]
    using xs'(2) by (auto simp: arena_inv_def pool_inv_def)
qed

lemma arena_free_avail:
  assumes "arena_inv s" "p \<noteq> 0" "p \<notin> arena_avail s"
  shows "arena_avail (arena_free s p) = insert p (arena_avail s) \<and> arena_inv (arena_free s p)"
proof -
  obtain a w where aw: "s = (a, w)" by fastforce
  with assms(1) obtain xs where xs: "flist w (free_list a) xs" "distinct xs"
    by (auto simp: arena_inv_def)
  obtain a' w' where f: "arena_free (a, w) p = (a', w')" by fastforce
  have np: "p \<notin> set xs"
    using assms(3) unfolding aw arena_avail_flist [OF xs(1)] .
  from arena_free_refines [OF xs(1) assms(2) np f] have l: "flist w' (free_list a') (p # xs)"
    by (simp add: pool_free_def)
  have "arena_inv (a', w')"
    unfolding arena_inv_def using l xs(2) np by (intro exI [of _ "p # xs"]) simp
  then show ?thesis
    unfolding aw f arena_avail_flist [OF l] arena_avail_flist [OF xs(1)] by simp
qed

lemma arena_alloc_null:
  assumes "arena_inv s" "arena_alloc s = (0, s')"
  shows "s' = s \<and> arena_avail s = {}"
proof -
  obtain a w where aw: "s = (a, w)" by fastforce
  with assms(1) obtain xs where xs: "flist w (free_list a) xs"
    by (auto simp: arena_inv_def)
  with assms(2) aw have "xs = [] \<and> s' = s"
    by (cases xs) (auto simp: arena_alloc_def)
  then show ?thesis
    using arena_avail_flist [OF xs] by (simp add: aw)
qed

lemma arena_zero: "arena_inv s \<Longrightarrow> 0 \<notin> arena_avail s"
  using flist_nonzero by (auto simp: arena_avail_def)

interpretation ar: object_pool arena_inv arena_avail arena_alloc arena_free
  by unfold_locales (blast intro: arena_alloc_null arena_alloc_some arena_free_avail
      dest: arena_zero arena_alloc_null arena_alloc_some arena_free_avail)+

subsection \<open>Properties\<close>

text \<open>After \<open>arena_init\<close> the arena holds \<open>size / item_size\<close> free objects, all inside the
  region and no two of them overlapping.\<close>

theorem arena_init_correct:
  assumes "0 < mem" "0 < isz" "arena_init k w mem sz isz = (a, w', k')"
  shows "arena_inv (a, w') \<and> card (arena_avail (a, w')) = sz div isz \<and>
    (\<forall>p \<in> arena_avail (a, w'). mem \<le> p \<and> p + isz \<le> mem + sz) \<and>
    (\<forall>p \<in> arena_avail (a, w'). \<forall>q \<in> arena_avail (a, w'). p < q \<longrightarrow> p + isz \<le> q)"
proof -
  have l: "flist w' (free_list a) (arena_items mem sz isz)"
    using arena_init_free [OF assms] by blast
  have d: "distinct (arena_items mem sz isz)"
    by (rule arena_items_distinct [OF assms(2)])
  then have "card (set (arena_items mem sz isz)) = sz div isz"
    by (simp add: distinct_card) (simp add: arena_items_def)
  moreover have "arena_inv (a, w')"
    unfolding arena_inv_def using l d by auto
  ultimately show ?thesis
    unfolding arena_avail_flist [OF l]
    using arena_items_inside [OF assms(2)] arena_items_apart by blast
qed

lemma arena_init_eval:
  "arena_init 0 (\<lambda>_. 0) 4096 100 40 =
    (\<lparr>arena_mem = 4096, arena_size = ALIGN 100 8, item_size = ALIGN 40 8, free_list = 4136,
      arena_type = 0\<rparr>, (\<lambda>_. 0)(4096 := 0, 4136 := 4096), 1)"
  by (simp add: arena_init_def arena_link.simps)

theorem arena_init_correct_witness:
  "\<exists>a w. arena_init 0 (\<lambda>_. 0) 4096 100 40 = (a, w, 1) \<and> card (arena_avail (a, w)) = 2"
  using arena_init_correct [OF _ _ arena_init_eval] arena_init_eval by auto

text \<open>C22: \<open>arena_alloc\<close> returns \<open>NULL\<close> only when no object is free, and otherwise an object
  that was free and is free no longer; releasing it restores the set of free objects.\<close>

theorem arena_alloc_free_correct:
  assumes "arena_inv s" "arena_alloc s = (p, s')"
  shows "(p = 0 \<and> s' = s \<and> arena_avail s = {}) \<or>
    (p \<in> arena_avail s \<and> arena_avail s' = arena_avail s - {p} \<and> arena_inv s' \<and>
     arena_avail (arena_free s' p) = arena_avail s \<and> arena_inv (arena_free s' p))"
  using ar.alloc_null [of s s'] ar.alloc_some [OF assms] ar.alloc_release [OF assms] assms
  by (cases "p = 0") auto

theorem arena_alloc_free_correct_witness:
  "\<exists>a w p s'. arena_init 0 (\<lambda>_. 0) 4096 100 40 = (a, w, 1) \<and> arena_alloc (a, w) = (p, s') \<and>
     arena_avail s' = arena_avail (a, w) - {4136}"
proof -
  let ?a = "\<lparr>arena_mem = 4096, arena_size = ALIGN 100 8, item_size = ALIGN 40 8, free_list = 4136,
      arena_type = 0\<rparr>" and ?w = "(\<lambda>_. 0 :: nat)(4096 := 0, 4136 := 4096)"
  have inv: "arena_inv (?a, ?w)"
    by (auto simp: arena_inv_def intro!: exI [of _ "[4136, 4096]"])
  have al: "arena_alloc (?a, ?w) = (4136, ?a\<lparr>free_list := 4096\<rparr>, ?w)"
    by (simp add: arena_alloc_def)
  from arena_alloc_free_correct [OF inv al] show ?thesis
    using arena_init_eval al by auto
qed

end
