(* ===== verification/Btree.thy ===== *)
theory Btree
  imports Arena
begin

text \<open>
  The radix tree of \<open>slotfs/btree.c\<close> that maps the block numbers of a file to its entries.

  Nodes live in a store indexed by address (\<open>bnodes\<close>); \<open>bpool\<close> is the list of free nodes of
  the arena behind \<open>btree_malloc\<close> and \<open>btree_free\<close>. A result \<open>None\<close> stands for a memory error of
  the source: an index outside the \<open>children\<close> array, a division by an entry of \<open>max_keys\<close>
  that has wrapped to zero, or the use of the node that \<open>btree_malloc\<close> failed to return in
  \<open>btree_expand\<close>. The loops that follow child and parent pointers are partial functions, as
  nothing bounds them in an arbitrary store.

  \<open>btree_node_create\<close> computes \<open>start\<close> of a leaf from \<open>max_keys[-1]\<close>, the word before the
  table: that word is \<open>bstray\<close>. No other function reads \<open>start\<close>.
\<close>

subsection \<open>Data\<close>

definition BRANCH_NUM :: nat where
  "BRANCH_NUM = 256"

definition MAX_LEVELS :: nat where
  "MAX_LEVELS = 10"

definition ENOMEM :: int where
  "ENOMEM = 12"

record btree_node =
  bn_parent :: nat
  bn_height :: nat
  bn_branch_index :: nat
  bn_start :: nat
  children :: "nat \<Rightarrow> nat"

record btree_heap =
  bnodes :: "nat \<Rightarrow> btree_node"
  bpool :: "nat list"
  bstray :: nat

record btree_t =
  bt_root :: nat
  bt_height :: nat

record btree_ptr =
  bp_node :: nat
  bp_index :: nat
  bp_key :: nat

definition zero_node :: btree_node where
  "zero_node = \<lparr>bn_parent = 0, bn_height = 0, bn_branch_index = 0, bn_start = 0, children = \<lambda>_. 0\<rparr>"

primrec init_max_keys_loop :: "nat \<Rightarrow> nat \<Rightarrow> nat list" where
  "init_max_keys_loop 0 max_key = []"
| "init_max_keys_loop (Suc n) max_key = max_key # init_max_keys_loop n (size_mul max_key BRANCH_NUM)"

definition max_keys :: "nat list" where
  "max_keys = init_max_keys_loop MAX_LEVELS BRANCH_NUM"

definition max_key_at :: "btree_heap \<Rightarrow> nat \<Rightarrow> nat" where
  "max_key_at h i = (if i < MAX_LEVELS then max_keys ! i else bstray h)"

definition upd_node :: "btree_heap \<Rightarrow> nat \<Rightarrow> (btree_node \<Rightarrow> btree_node) \<Rightarrow> btree_heap" where
  "upd_node h p f = h\<lparr>bnodes := (bnodes h)(p := f (bnodes h p))\<rparr>"

definition set_child :: "btree_heap \<Rightarrow> nat \<Rightarrow> nat \<Rightarrow> nat \<Rightarrow> btree_heap" where
  "set_child h p i v = upd_node h p (\<lambda>n. n\<lparr>children := (children n)(i := v)\<rparr>)"

subsection \<open>Operations\<close>

definition btree_node_create :: "btree_heap \<Rightarrow> nat \<Rightarrow> nat \<Rightarrow> nat \<times> btree_heap" where
  "btree_node_create h parent branch =
    (let (node, pool) = pool_alloc (bpool h)
     in if node = 0 then (0, h)
        else
          let h = h\<lparr>bpool := pool, bnodes := (bnodes h)(node := zero_node)\<rparr>;
              height = (if parent \<noteq> 0 then size_sub (bn_height (bnodes h parent)) 1 else 0);
              h = upd_node h node (\<lambda>n. n\<lparr>bn_parent := parent, bn_height := height\<rparr>)
          in if parent \<noteq> 0 then
               let h = upd_node h node (\<lambda>n. n\<lparr>bn_branch_index := branch\<rparr>);
                   h = set_child h parent branch node;
                   h = upd_node h node (\<lambda>n. n\<lparr>bn_start :=
                     size_add (bn_start (bnodes h parent))
                       (size_mul branch (max_key_at h (size_sub height 1)))\<rparr>)
               in (node, h)
             else (node, h))"

text \<open>The argument of \<open>btree_create\<close> is never \<open>NULL\<close> in this file system; a failure leaves the
  root \<open>NULL\<close>.\<close>

definition btree_create :: "btree_heap \<Rightarrow> btree_t \<times> btree_heap" where
  "btree_create h = (let (root, h) = btree_node_create h 0 0 in (\<lparr>bt_root = root, bt_height = 0\<rparr>, h))"

text \<open>The descent of \<open>btree_pos\<close>: return code, leaf and index (leaf \<open>0\<close> for a missing one).\<close>

partial_function (option) btree_pos_loop ::
    "btree_heap \<Rightarrow> nat \<Rightarrow> nat \<Rightarrow> bool \<Rightarrow> (int \<times> nat \<times> nat \<times> btree_heap) option" where
  [code]: "btree_pos_loop h node key create =
    (if bn_height (bnodes h node) > 0 then
       let mk = max_key_at h (bn_height (bnodes h node) - 1)
       in if mk = 0 then None
          else
            let branch = key div mk; key = key mod mk
            in if branch \<ge> BRANCH_NUM then None
               else if children (bnodes h node) branch = 0 then
                 if \<not> create then Some (0, 0, 0, h)
                 else
                   let (new_node, h) = btree_node_create h node branch
                   in if new_node = 0 then Some (- ENOMEM, 0, 0, h)
                      else btree_pos_loop h (children (bnodes h node) branch) key create
               else btree_pos_loop h (children (bnodes h node) branch) key create
     else Some (0, node, key, h))"

definition btree_pos ::
    "btree_heap \<Rightarrow> btree_t \<Rightarrow> nat \<Rightarrow> bool \<Rightarrow> (int \<times> nat \<times> nat \<times> btree_heap) option" where
  "btree_pos h tree key create = btree_pos_loop h (bt_root tree) key create"

text \<open>The two loops of \<open>btree_next\<close>: up to the first ancestor with a right sibling slot, then
  down along the leftmost children.\<close>

partial_function (option) btree_next_up :: "btree_heap \<Rightarrow> nat \<Rightarrow> nat \<Rightarrow> (nat \<times> nat) option" where
  [code]: "btree_next_up h node parent_index =
    (if bn_parent (bnodes h node) \<noteq> 0 then
       let parent_index = bn_branch_index (bnodes h node);
           node = bn_parent (bnodes h node)
       in if parent_index + 1 < BRANCH_NUM then Some (node, parent_index)
          else btree_next_up h node parent_index
     else Some (node, parent_index))"

partial_function (option) btree_next_down ::
    "btree_heap \<Rightarrow> nat \<Rightarrow> nat \<Rightarrow> bool \<Rightarrow> (int \<times> nat \<times> btree_heap) option" where
  [code]: "btree_next_down h node branch create =
    (if bn_height (bnodes h node) > 0 then
       if branch \<ge> BRANCH_NUM then None
       else if children (bnodes h node) branch = 0 then
         if \<not> create then Some (0, 0, h)
         else
           let (new_node, h) = btree_node_create h node branch
           in if new_node = 0 then Some (- ENOMEM, 0, h)
              else btree_next_down h (children (bnodes h node) branch) 0 create
       else btree_next_down h (children (bnodes h node) branch) 0 create
     else Some (0, node, h))"

text \<open>The result is the return code, the new \<open>iter->node\<close> and \<open>iter->index\<close>, and the store.\<close>

definition btree_next ::
    "btree_heap \<Rightarrow> nat \<Rightarrow> nat \<Rightarrow> bool \<Rightarrow> (int \<times> nat \<times> nat \<times> btree_heap) option" where
  "btree_next h node index create =
    (if index + 1 < BRANCH_NUM then
       if \<not> create \<and> children (bnodes h node) (index + 1) = 0 then Some (0, 0, index, h)
       else Some (0, node, index + 1, h)
     else
       case btree_next_up h node (bn_branch_index (bnodes h node)) of
         None \<Rightarrow> None
       | Some (node, parent_index) \<Rightarrow>
           if bn_parent (bnodes h node) = 0 \<and> parent_index + 1 = BRANCH_NUM then Some (0, 0, index, h)
           else
             case btree_next_down h node (parent_index + 1) create of
               None \<Rightarrow> None
             | Some (ret, leaf, h) \<Rightarrow> if leaf = 0 then Some (ret, 0, index, h) else Some (ret, leaf, 0, h))"

partial_function (option) btree_destroy_node :: "btree_heap \<Rightarrow> nat \<Rightarrow> nat \<Rightarrow> btree_heap option" where
  [code]: "btree_destroy_node h node i =
    (if bn_height (bnodes h node) = 0 then Some (h\<lparr>bpool := pool_free (bpool h) node\<rparr>)
     else if i < BRANCH_NUM then
       if children (bnodes h node) i \<noteq> 0 then
         Option.bind (btree_destroy_node h (children (bnodes h node) i) 0)
           (\<lambda>h. btree_destroy_node h node (i + 1))
       else btree_destroy_node h node (i + 1)
     else Some (h\<lparr>bpool := pool_free (bpool h) node\<rparr>))"

definition btree_destroy :: "btree_heap \<Rightarrow> btree_t \<Rightarrow> btree_heap option" where
  "btree_destroy h tree = btree_destroy_node h (bt_root tree) 0"

definition btree_expand :: "btree_heap \<Rightarrow> btree_t \<Rightarrow> (btree_t \<times> btree_heap) option" where
  "btree_expand h tree =
    (let (new_root, h) = btree_node_create h 0 0
     in if new_root = 0 then None
        else
          let h = set_child h new_root 0 (bt_root tree);
              h = upd_node h (bt_root tree) (\<lambda>n. n\<lparr>bn_parent := new_root\<rparr>);
              tree = tree\<lparr>bt_root := new_root, bt_height := bt_height tree + 1\<rparr>;
              h = upd_node h new_root (\<lambda>n. n\<lparr>bn_height := bt_height tree, bn_branch_index := 0,
                bn_start := 0\<rparr>)
          in Some (tree, h))"

partial_function (option) btree_grow :: "btree_heap \<Rightarrow> btree_t \<Rightarrow> nat \<Rightarrow> (btree_t \<times> btree_heap) option" where
  [code]: "btree_grow h tree key =
    (if key \<ge> max_key_at h (bt_height tree) then
       Option.bind (btree_expand h tree) (\<lambda>(tree, h). btree_grow h tree key)
     else Some (tree, h))"

definition btree_set :: "btree_heap \<Rightarrow> btree_t \<Rightarrow> nat \<Rightarrow> nat \<Rightarrow> (int \<times> btree_t \<times> btree_heap) option" where
  "btree_set h tree key ptr =
    (case btree_grow h tree key of
       None \<Rightarrow> None
     | Some (tree, h) \<Rightarrow>
         (case btree_pos h tree key True of
            None \<Rightarrow> None
          | Some (ret, node, index, h) \<Rightarrow>
              if ret \<noteq> 0 then Some (ret, tree, h)
              else if index \<ge> BRANCH_NUM then None
              else Some (0, tree, set_child h node index ptr)))"

text \<open>The body of the \<open>do ... while\<close> loop of \<open>btree_set_range_callback\<close>. The callback gets the
  old pointer, the key converted to \<open>int\<close> and the state it works on.\<close>

type_synonym 's bt_callback = "nat \<Rightarrow> int \<Rightarrow> 's \<Rightarrow> int \<times> 's"

definition bt_call :: "'s bt_callback option \<Rightarrow> nat \<Rightarrow> nat \<Rightarrow> 's \<Rightarrow> int \<times> 's" where
  "bt_call cb old start ctx =
    (if old \<noteq> 0 then case cb of Some f \<Rightarrow> f old (c_int start) ctx | None \<Rightarrow> (0, ctx) else (0, ctx))"

partial_function (option) btree_range_loop ::
    "'s bt_callback option \<Rightarrow> btree_heap \<Rightarrow> nat \<Rightarrow> nat \<Rightarrow> nat \<Rightarrow> nat \<Rightarrow> nat \<Rightarrow> 's \<Rightarrow>
      (int \<times> btree_heap \<times> 's) option" where
  [code]: "btree_range_loop cb h node index start fin ptr ctx =
    (if index \<ge> BRANCH_NUM then None else
     let (stop, ctx) = bt_call cb (children (bnodes h node) index) start ctx
     in if stop \<noteq> 0 then Some (-1, h, ctx)
        else
          let h = set_child h node index ptr; start = start + 1
          in Option.bind (btree_next h node index True) (\<lambda>(ret, node, index, h).
               if ret \<noteq> 0 then Some (ret, h, ctx)
               else if start < fin then
                 if node = 0 then None else btree_range_loop cb h node index start fin ptr ctx
               else Some (0, h, ctx)))"

definition btree_set_range_callback ::
    "'s bt_callback option \<Rightarrow> btree_heap \<Rightarrow> btree_t \<Rightarrow> nat \<Rightarrow> nat \<Rightarrow> nat \<Rightarrow> 's \<Rightarrow>
      (int \<times> btree_t \<times> btree_heap \<times> 's) option" where
  "btree_set_range_callback cb h tree start fin ptr ctx =
    (if start \<ge> fin then Some (-1, tree, h, ctx)
     else
       case btree_grow h tree fin of
         None \<Rightarrow> None
       | Some (tree, h) \<Rightarrow>
           (case btree_pos h tree start True of
              None \<Rightarrow> None
            | Some (ret, node, index, h) \<Rightarrow>
                if ret \<noteq> 0 then Some (ret, tree, h, ctx)
                else
                  case btree_range_loop cb h node index start fin ptr ctx of
                    None \<Rightarrow> None
                  | Some (ret, h, ctx) \<Rightarrow> Some (ret, tree, h, ctx)))"

definition btree_set_range ::
    "btree_heap \<Rightarrow> btree_t \<Rightarrow> nat \<Rightarrow> nat \<Rightarrow> nat \<Rightarrow> (int \<times> btree_t \<times> btree_heap) option" where
  "btree_set_range h tree start fin ptr =
    map_option (\<lambda>(ret, tree, h, _). (ret, tree, h))
      (btree_set_range_callback (None :: unit bt_callback option) h tree start fin ptr ())"

partial_function (option) btree_get_loop :: "btree_heap \<Rightarrow> nat \<Rightarrow> nat \<Rightarrow> nat option" where
  [code]: "btree_get_loop h node key =
    (if bn_height (bnodes h node) > 0 then
       let mk = max_key_at h (bn_height (bnodes h node) - 1)
       in if mk = 0 then None
          else
            let branch = key div mk; key = key mod mk
            in if branch \<ge> BRANCH_NUM then None
               else if children (bnodes h node) branch = 0 then Some 0
               else btree_get_loop h (children (bnodes h node) branch) key
     else if key \<ge> BRANCH_NUM then None else Some (children (bnodes h node) key))"

definition btree_get :: "btree_heap \<Rightarrow> btree_t \<Rightarrow> nat \<Rightarrow> nat option" where
  "btree_get h tree key = btree_get_loop h (bt_root tree) key"

text \<open>The variants with a position cache. The result of \<open>btree_get_ptr_hint\<close> is the node and index
  whose cell is pointed to (\<open>None\<close> for \<open>NULL\<close>), the new hint and the store.\<close>

definition btree_get_ptr_hint ::
    "btree_heap \<Rightarrow> btree_t \<Rightarrow> nat \<Rightarrow> btree_ptr \<Rightarrow> ((nat \<times> nat) option \<times> btree_ptr \<times> btree_heap) option" where
  "btree_get_ptr_hint h tree key hint =
    (let at_pos = (\<lambda>r. case r of
           None \<Rightarrow> None
         | Some (ret, node, index, h) \<Rightarrow>
             if ret \<noteq> 0 \<or> node = 0 then Some (None, hint, h)
             else Some (Some (node, index),
                        hint\<lparr>bp_node := node, bp_index := index, bp_key := key\<rparr>, h))
     in if bp_node hint = 0 then at_pos (btree_pos h tree key True)
        else if bp_key hint = key then Some (Some (bp_node hint, bp_index hint), hint, h)
        else if key = bp_key hint + 1 then at_pos (btree_next h (bp_node hint) (bp_index hint) True)
        else at_pos (btree_pos h tree key True))"

definition btree_get_hint ::
    "btree_heap \<Rightarrow> btree_t \<Rightarrow> nat \<Rightarrow> btree_ptr \<Rightarrow> (nat \<times> btree_ptr \<times> btree_heap) option" where
  "btree_get_hint h tree key hint =
    (case btree_get_ptr_hint h tree key hint of
       None \<Rightarrow> None
     | Some (None, hint, h) \<Rightarrow> Some (0, hint, h)
     | Some (Some (node, index), hint, h) \<Rightarrow>
         if index \<ge> BRANCH_NUM then None else Some (children (bnodes h node) index, hint, h))"

partial_function (option) btree_range_hint_loop ::
    "(nat \<Rightarrow> 's \<Rightarrow> int \<times> 's) option \<Rightarrow> btree_heap \<Rightarrow> btree_ptr \<Rightarrow> btree_ptr \<Rightarrow> nat \<Rightarrow> nat \<Rightarrow> nat \<Rightarrow> 's \<Rightarrow>
      (int \<times> btree_ptr \<times> btree_heap \<times> 's) option" where
  [code]: "btree_range_hint_loop cb h hint pos start fin ptr ctx =
    (if bp_index pos \<ge> BRANCH_NUM then None else
     let old = children (bnodes h (bp_node pos)) (bp_index pos);
         (stop, ctx) = (if old \<noteq> 0 then case cb of Some f \<Rightarrow> f old ctx | None \<Rightarrow> (0, ctx) else (0, ctx))
     in if stop \<noteq> 0 then Some (-1, hint, h, ctx)
        else
          let h = set_child h (bp_node pos) (bp_index pos) ptr; start = start + 1; hint = pos
          in Option.bind (btree_next h (bp_node pos) (bp_index pos) True) (\<lambda>(ret, node, index, h).
               let pos = pos\<lparr>bp_node := node, bp_index := index\<rparr>
               in if ret \<noteq> 0 then Some (ret, hint, h, ctx)
                  else if start < fin then
                    if node = 0 then None else btree_range_hint_loop cb h hint pos start fin ptr ctx
                  else Some (0, hint, h, ctx)))"

definition btree_set_range_hint_callbak ::
    "(nat \<Rightarrow> 's \<Rightarrow> int \<times> 's) option \<Rightarrow> btree_heap \<Rightarrow> btree_t \<Rightarrow> nat \<Rightarrow> nat \<Rightarrow> nat \<Rightarrow> btree_ptr \<Rightarrow> 's \<Rightarrow>
      (int \<times> btree_t \<times> btree_ptr \<times> btree_heap \<times> 's) option" where
  "btree_set_range_hint_callbak cb h tree start fin ptr hint ctx =
    (if start \<ge> fin then Some (-1, tree, hint, h, ctx)
     else
       case btree_grow h tree fin of
         None \<Rightarrow> None
       | Some (tree, h) \<Rightarrow>
           (case btree_get_ptr_hint h tree start hint of
              None \<Rightarrow> None
            | Some (None, hint, h) \<Rightarrow> Some (-1, tree, hint, h, ctx)
            | Some (Some _, hint, h) \<Rightarrow>
                (case btree_range_hint_loop cb h hint hint start fin ptr ctx of
                   None \<Rightarrow> None
                 | Some (ret, hint, h, ctx) \<Rightarrow> Some (ret, tree, hint, h, ctx))))"

subsection \<open>The tree in the store\<close>

text \<open>\<open>down h root d q\<close> follows the base-256 digits of \<open>q\<close> for \<open>d\<close> levels. In a tree of height
  \<open>H\<close>, level \<open>H\<close> are the leaves and level \<open>Suc H\<close> are the stored pointers, so \<open>bt_cont\<close>, the
  content of the tree, is one level more.\<close>

primrec down :: "btree_heap \<Rightarrow> nat \<Rightarrow> nat \<Rightarrow> nat \<Rightarrow> nat" where
  "down h root 0 q = (if q = 0 then root else 0)"
| "down h root (Suc d) q =
    (if down h root d (q div 256) = 0 then 0
     else children (bnodes h (down h root d (q div 256))) (q mod 256))"

definition bt_cont :: "btree_heap \<Rightarrow> btree_t \<Rightarrow> nat \<Rightarrow> nat" where
  "bt_cont h t key = down h (bt_root t) (Suc (bt_height t)) key"

definition wf_bt :: "btree_heap \<Rightarrow> nat \<Rightarrow> nat \<Rightarrow> nat set \<Rightarrow> bool" where
  "wf_bt h root H N \<longleftrightarrow> H \<le> 6 \<and> pool_inv (bpool h) \<and> N \<inter> set (bpool h) = {} \<and> 0 \<notin> N \<and> root \<in> N \<and>
     bn_height (bnodes h root) = H \<and> bn_parent (bnodes h root) = 0 \<and>
     bn_branch_index (bnodes h root) = 0 \<and>
     (\<forall>x \<in> N. \<forall>i < 256. 0 < bn_height (bnodes h x) \<longrightarrow> children (bnodes h x) i \<noteq> 0 \<longrightarrow>
        children (bnodes h x) i \<in> N \<and> bn_parent (bnodes h (children (bnodes h x) i)) = x \<and>
        bn_branch_index (bnodes h (children (bnodes h x) i)) = i \<and>
        bn_height (bnodes h x) = Suc (bn_height (bnodes h (children (bnodes h x) i))))"

lemma down_above: "256 ^ d \<le> q \<Longrightarrow> down h root d q = 0"
proof (induction d arbitrary: q)
  case (Suc d)
  then have "256 ^ d \<le> q div 256"
    by (simp add: less_eq_div_iff_mult_less_eq mult.commute)
  with Suc.IH show ?case by simp
qed simp

lemma down_zero_below:
  "down h root d q = 0 \<Longrightarrow> r < 256 ^ e \<Longrightarrow> down h root (d + e) (q * 256 ^ e + r) = 0"
proof (induction e arbitrary: r)
  case (Suc e)
  have "(q * 256 ^ Suc e + r) div 256 = q * 256 ^ e + r div 256"
    by (simp add: mult.assoc [symmetric] mult.commute)
  moreover have "r div 256 < 256 ^ e"
    using Suc.prems(2) by (simp add: div_less_iff_less_mult mult.commute)
  ultimately show ?case
    using Suc.IH [OF Suc.prems(1), of "r div 256"] by simp
qed simp

lemma wf_bt_child:
  "wf_bt h root H N \<Longrightarrow> x \<in> N \<Longrightarrow> i < 256 \<Longrightarrow> 0 < bn_height (bnodes h x) \<Longrightarrow>
    children (bnodes h x) i = c \<Longrightarrow> c \<noteq> 0 \<Longrightarrow>
    c \<in> N \<and> bn_parent (bnodes h c) = x \<and> bn_branch_index (bnodes h c) = i \<and>
    bn_height (bnodes h x) = Suc (bn_height (bnodes h c))"
  unfolding wf_bt_def by blast

lemma down_node:
  assumes wf: "wf_bt h root H N"
  shows "d \<le> H \<Longrightarrow> down h root d q = x \<Longrightarrow> x \<noteq> 0 \<Longrightarrow> x \<in> N \<and> bn_height (bnodes h x) = H - d"
proof (induction d arbitrary: q x)
  case 0
  with wf show ?case by (auto simp: wf_bt_def split: if_splits)
next
  case (Suc d)
  let ?y = "down h root d (q div 256)"
  from Suc.prems have y: "?y \<noteq> 0" "children (bnodes h ?y) (q mod 256) = x"
    by (auto split: if_splits)
  from Suc.IH [OF _ refl y(1)] Suc.prems have "?y \<in> N" "bn_height (bnodes h ?y) = H - d"
    by simp_all
  with wf_bt_child [OF wf _ _ _ y(2)] Suc.prems(1,3) show ?case
    by auto
qed

lemma down_parent:
  assumes wf: "wf_bt h root H N" and "Suc d \<le> H" "down h root (Suc d) q = x" "x \<noteq> 0"
  shows "bn_parent (bnodes h x) = down h root d (q div 256) \<and> bn_branch_index (bnodes h x) = q mod 256 \<and>
    down h root d (q div 256) \<noteq> 0"
proof -
  let ?y = "down h root d (q div 256)"
  from assms have y: "?y \<noteq> 0" "children (bnodes h ?y) (q mod 256) = x"
    by (auto split: if_splits)
  from down_node [OF wf _ refl y(1)] assms(2) have "?y \<in> N" "bn_height (bnodes h ?y) = H - d"
    by simp_all
  with wf_bt_child [OF wf _ _ _ y(2)] assms(2,4) y(1) show ?thesis
    by simp
qed

lemma down_inj:
  assumes wf: "wf_bt h root H N"
  shows "d \<le> H \<Longrightarrow> e \<le> H \<Longrightarrow> down h root d q = x \<Longrightarrow> down h root e p = x \<Longrightarrow> x \<noteq> 0 \<Longrightarrow> d = e \<and> q = p"
proof (induction d arbitrary: e q p x)
  case 0
  have "H - 0 = H - e"
    using down_node [OF wf 0(1,3,5)] down_node [OF wf 0(2,4,5)] by simp
  then have "e = 0"
    using 0(2) by simp
  with 0 show ?case by (auto split: if_splits)
next
  case (Suc d)
  have "H - Suc d = H - e"
    using down_node [OF wf Suc.prems(1,3,5)] down_node [OF wf Suc.prems(2,4,5)] by simp
  then have e: "e = Suc d"
    using Suc.prems(1,2) by simp
  note P = down_parent [OF wf Suc.prems(1,3,5)] down_parent [OF wf Suc.prems(2,4,5) [unfolded e]]
  have "q div 256 = p div 256" "q mod 256 = p mod 256"
    using Suc.IH [of d "q div 256" "bn_parent (bnodes h x)" "p div 256"] Suc.prems(1) P by simp_all
  then have "q = p"
    by (metis div_mod_decomp)
  with e show ?case by simp
qed

lemma max_keys_eq:
  "max_keys = [256 ^ 1, 256 ^ 2, 256 ^ 3, 256 ^ 4, 256 ^ 5, 256 ^ 6, 256 ^ 7, 0, 0, 0]"
proof -
  have ten: "(10 :: nat) = Suc (Suc (Suc (Suc (Suc (Suc (Suc (Suc (Suc (Suc 0)))))))))"
    by simp
  show ?thesis
    unfolding max_keys_def MAX_LEVELS_def ten by (simp add: BRANCH_NUM_def size_mul_def)
qed

lemma max_key_at_small:
  assumes "i < 7"
  shows "max_key_at h i = 256 ^ (i + 1)"
proof -
  have "i \<in> {0, 1, 2, 3, 4, 5, 6}"
    using assms by auto
  then show ?thesis
    by (auto simp: max_key_at_def max_keys_eq MAX_LEVELS_def)
qed

lemma digit_iff: "i < 256 \<Longrightarrow> p = q * 256 + i \<longleftrightarrow> p div 256 = q \<and> p mod 256 = (i :: nat)"
  using div_mod_decomp [of p 256] by auto

subsection \<open>Writing a leaf\<close>

lemma bnodes_set_child:
  "bnodes (set_child h x i v) y =
    (if y = x then (bnodes h x)\<lparr>children := (children (bnodes h x))(i := v)\<rparr> else bnodes h y)"
  by (simp add: set_child_def upd_node_def)

lemma set_child_fields [simp]:
  "bpool (set_child h x i v) = bpool h" "bstray (set_child h x i v) = bstray h"
  "bn_parent (bnodes (set_child h x i v) y) = bn_parent (bnodes h y)"
  "bn_height (bnodes (set_child h x i v) y) = bn_height (bnodes h y)"
  "bn_branch_index (bnodes (set_child h x i v) y) = bn_branch_index (bnodes h y)"
  by (simp_all add: set_child_def upd_node_def)

lemma wf_bt_set_leaf:
  assumes "wf_bt h root H N" "x \<in> N" "bn_height (bnodes h x) = 0"
  shows "wf_bt (set_child h x i v) root H N"
proof -
  have "children (bnodes (set_child h x i v) y) j = children (bnodes h y) j"
    if "0 < bn_height (bnodes h y)" for y j
    using that assms(3) by (auto simp: bnodes_set_child)
  then show ?thesis
    using assms(1) unfolding wf_bt_def by simp
qed

lemma down_set_leaf:
  assumes wf: "wf_bt h root H N" and x: "down h root H q = x" "x \<noteq> 0" and i: "i < 256"
  shows "d \<le> H \<Longrightarrow> down (set_child h x i v) root d p = down h root d p"
    and "down (set_child h x i v) root (Suc H) p = (if p = q * 256 + i then v else down h root (Suc H) p)"
proof -
  have xh: "bn_height (bnodes h x) = 0"
    using down_node [OF wf _ x] by simp
  show low: "down (set_child h x i v) root d p = down h root d p" if "d \<le> H" for d p
    using that
  proof (induction d arbitrary: p)
    case (Suc d)
    let ?y = "down h root d (p div 256)"
    have "?y \<noteq> x" if "?y \<noteq> 0"
      using down_node [OF wf _ refl that] Suc.prems xh by auto
    with Suc show ?case
      by (simp add: bnodes_set_child)
  qed simp
  have "down h root H (p div 256) = x \<longleftrightarrow> p div 256 = q"
    using down_inj [OF wf _ _ _ x(1,2), of H "p div 256"] x(1) by auto
  moreover have "p = q * 256 + i \<longleftrightarrow> p div 256 = q \<and> p mod 256 = i"
    by (rule digit_iff [OF i])
  ultimately show "down (set_child h x i v) root (Suc H) p =
      (if p = q * 256 + i then v else down h root (Suc H) p)"
    using low [of H "p div 256"] x by (auto simp: bnodes_set_child)
qed

subsection \<open>Creating a node\<close>

text \<open>\<open>bt_ext\<close>: the store grew by nodes of the pool, but the tree has the same content and every
  node that was reachable still is, at the same place.\<close>

definition bt_ext :: "nat \<Rightarrow> nat \<Rightarrow> btree_heap \<Rightarrow> nat set \<Rightarrow> btree_heap \<Rightarrow> nat set \<Rightarrow> bool" where
  "bt_ext root H h N h' N' \<longleftrightarrow> wf_bt h' root H N' \<and> N \<subseteq> N' \<and>
     N' \<union> set (bpool h') = N \<union> set (bpool h) \<and> length (bpool h') \<le> length (bpool h) \<and>
     (\<forall>x. x \<notin> N \<union> set (bpool h) \<longrightarrow> bnodes h' x = bnodes h x) \<and>
     (\<forall>d q. d \<le> H \<longrightarrow> down h root d q \<noteq> 0 \<longrightarrow> down h' root d q = down h root d q) \<and>
     (\<forall>key. down h' root (Suc H) key = down h root (Suc H) key)"

lemma bt_ext_refl: "wf_bt h root H N \<Longrightarrow> bt_ext root H h N h N"
  by (simp add: bt_ext_def)

lemma bt_ext_trans:
  assumes "bt_ext root H h N h1 N1" "bt_ext root H h1 N1 h2 N2"
  shows "bt_ext root H h N h2 N2"
proof -
  note 1 = assms(1) [unfolded bt_ext_def] and 2 = assms(2) [unfolded bt_ext_def]
  have "N \<subseteq> N2" "N2 \<union> set (bpool h2) = N \<union> set (bpool h)" "length (bpool h2) \<le> length (bpool h)"
    using 1 2 by auto
  moreover have "bnodes h2 x = bnodes h x" if "x \<notin> N \<union> set (bpool h)" for x
    using 1 2 that by metis
  moreover have "down h2 root d q = down h root d q" if "d \<le> H" "down h root d q \<noteq> 0" for d q
    using 1 2 that by metis
  ultimately show ?thesis
    using 1 2 by (simp add: bt_ext_def)
qed

lemma btree_node_create_eq:
  assumes "bpool h = c # ps" "c \<noteq> 0" "y \<noteq> 0" "c \<noteq> y"
  shows "\<exists>st. btree_node_create h y b =
    (c, h\<lparr>bpool := ps, bnodes := (bnodes h)
        (c := \<lparr>bn_parent = y, bn_height = size_sub (bn_height (bnodes h y)) 1, bn_branch_index = b,
               bn_start = st, children = \<lambda>_. 0\<rparr>,
         y := (bnodes h y)\<lparr>children := (children (bnodes h y))(b := c)\<rparr>)\<rparr>)"
  using assms
  by (intro exI) (auto simp: btree_node_create_def pool_alloc_def Let_def upd_node_def set_child_def
      zero_node_def fun_upd_twist)

lemma size_sub_Suc: "n < 2 ^ 64 \<Longrightarrow> size_sub (Suc n) 1 = n"
  by (cases "Suc n = 2 ^ 64") (simp_all add: size_sub_def)

lemma btree_node_create_wf:
  assumes wf: "wf_bt h root H N" and y: "y \<in> N" "bn_height (bnodes h y) = Suc n" "n \<le> 6"
    and b: "b < 256" "children (bnodes h y) b = 0" and pool: "bpool h = c # ps"
    and cr: "btree_node_create h y b = (c', h')"
  shows "c' = c \<and> bpool h' = ps \<and> wf_bt h' root H (insert c N) \<and>
    children (bnodes h' y) = (children (bnodes h y))(b := c) \<and> children (bnodes h' c) = (\<lambda>_. 0) \<and>
    (\<forall>x. x \<noteq> c \<longrightarrow> x \<noteq> y \<longrightarrow> bnodes h' x = bnodes h x) \<and> c \<notin> N \<and> c \<noteq> 0 \<and>
    bn_height (bnodes h' c) = n \<and> bn_height (bnodes h' y) = Suc n"
proof -
  have c: "c \<noteq> 0" "c \<notin> N" "c \<noteq> y" "y \<noteq> 0" and ps: "pool_inv ps" "c \<notin> set ps" "N \<inter> set ps = {}"
    using wf pool y by (auto simp: wf_bt_def pool_inv_def)
  obtain st where cr': "btree_node_create h y b =
    (c, h\<lparr>bpool := ps, bnodes := (bnodes h)
        (c := \<lparr>bn_parent = y, bn_height = size_sub (bn_height (bnodes h y)) 1, bn_branch_index = b,
               bn_start = st, children = \<lambda>_. 0\<rparr>,
         y := (bnodes h y)\<lparr>children := (children (bnodes h y))(b := c)\<rparr>)\<rparr>)"
    using btree_node_create_eq [OF pool c(1,4,3)] by blast
  have n: "size_sub (Suc n) 1 = n"
    using y(3) by (intro size_sub_Suc) simp
  have h': "bpool h' = ps" "bnodes h' = (bnodes h)
        (c := \<lparr>bn_parent = y, bn_height = n, bn_branch_index = b, bn_start = st, children = \<lambda>_. 0\<rparr>,
         y := (bnodes h y)\<lparr>children := (children (bnodes h y))(b := c)\<rparr>)" "c' = c"
    using cr cr' y(2) n by auto
  have base: "H \<le> 6" "0 \<notin> N" "root \<in> N" "bn_height (bnodes h root) = H" "bn_parent (bnodes h root) = 0"
    "bn_branch_index (bnodes h root) = 0"
    using wf by (simp_all add: wf_bt_def)
  have fields: "bn_parent (bnodes h' z) = bn_parent (bnodes h z)"
      "bn_height (bnodes h' z) = bn_height (bnodes h z)"
      "bn_branch_index (bnodes h' z) = bn_branch_index (bnodes h z)" if "z \<noteq> c" for z
    using that by (simp_all add: h')
  have "wf_bt h' root H (insert c N)"
    unfolding wf_bt_def
  proof (intro conjI ballI allI impI)
    fix x i
    assume x: "x \<in> insert c N" "i < 256" "0 < bn_height (bnodes h' x)" "children (bnodes h' x) i \<noteq> 0"
    have xc: "x \<noteq> c" "x \<in> N"
      using x c by (auto simp: h')
    have "children (bnodes h' x) i \<in> insert c N \<and>
        bn_parent (bnodes h' (children (bnodes h' x) i)) = x \<and>
        bn_branch_index (bnodes h' (children (bnodes h' x) i)) = i \<and>
        bn_height (bnodes h' x) = Suc (bn_height (bnodes h' (children (bnodes h' x) i)))"
    proof (cases "x = y \<and> i = b")
      case True
      then show ?thesis
        using c y(2) by (simp add: h')
    next
      case False
      then have same: "children (bnodes h' x) i = children (bnodes h x) i"
        using xc by (auto simp: h')
      have "0 < bn_height (bnodes h x)" "children (bnodes h x) i \<noteq> 0"
        using x(3,4) xc fields [of x] by (simp_all add: same)
      from wf_bt_child [OF wf xc(2) x(2) this(1) refl this(2)]
      have k: "children (bnodes h x) i \<in> N" "bn_parent (bnodes h (children (bnodes h x) i)) = x"
        "bn_branch_index (bnodes h (children (bnodes h x) i)) = i"
        "bn_height (bnodes h x) = Suc (bn_height (bnodes h (children (bnodes h x) i)))"
        by simp_all
      then have "children (bnodes h x) i \<noteq> c"
        using c by auto
      then show ?thesis
        unfolding same using k fields [of "children (bnodes h x) i"] fields [OF xc(1)] by simp
    qed
    then show "children (bnodes h' x) i \<in> insert c N"
      "bn_parent (bnodes h' (children (bnodes h' x) i)) = x"
      "bn_branch_index (bnodes h' (children (bnodes h' x) i)) = i"
      "bn_height (bnodes h' x) = Suc (bn_height (bnodes h' (children (bnodes h' x) i)))"
      by simp_all
  qed (use base ps c y in \<open>auto simp: h'\<close>)
  then show ?thesis
    using h' c y by simp
qed

lemma down_create:
  assumes wf: "wf_bt h root H N" and y: "down h root dy p = y" "y \<noteq> 0" "dy < H"
    and b: "b < 256" "children (bnodes h y) b = 0" and c: "c \<notin> N" "c \<noteq> 0"
    and h': "children (bnodes h' y) = (children (bnodes h y))(b := c)" "children (bnodes h' c) = (\<lambda>_. 0)"
      "\<forall>x. x \<noteq> c \<longrightarrow> x \<noteq> y \<longrightarrow> bnodes h' x = bnodes h x"
  shows "d \<le> Suc H \<Longrightarrow> down h' root d q = (if d = Suc dy \<and> q = p * 256 + b then c else down h root d q)"
proof (induction d arbitrary: q)
  case (Suc d)
  let ?x = "down h root d (q div 256)"
  have "?x = y \<longleftrightarrow> d = dy \<and> q div 256 = p"
    using down_inj [OF wf, of d dy "q div 256" y p] Suc.prems y by (cases "?x = 0") auto
  moreover have "?x \<noteq> 0 \<Longrightarrow> ?x \<noteq> c"
    using down_node [OF wf _ refl] Suc.prems c(1) by auto
  moreover have "d = Suc dy \<Longrightarrow> q div 256 = p * 256 + b \<Longrightarrow> ?x = 0"
    using y b digit_iff [of b "q div 256" p] by auto
  moreover have "down h' root d (q div 256) =
      (if d = Suc dy \<and> q div 256 = p * 256 + b then c else ?x)"
    using Suc by simp
  ultimately show ?case
    using c h' y b digit_iff [of b q p] by (auto split: if_splits)
qed simp

lemma btree_node_create_ext:
  assumes wf: "wf_bt h root H N" and y: "down h root d p = y" "y \<noteq> 0" "d < H"
    and b: "b < 256" "children (bnodes h y) b = 0" and pool: "bpool h = c # ps"
    and cr: "btree_node_create h y b = (c', h')"
  shows "bt_ext root H h N h' (insert c N) \<and> c' = c \<and> c \<noteq> 0 \<and> children (bnodes h' y) b = c \<and>
    down h' root (Suc d) (p * 256 + b) = c \<and> down h' root d p = y \<and> bpool h' = ps"
proof -
  have yN: "y \<in> N" "bn_height (bnodes h y) = H - d"
    using down_node [OF wf _ y(1,2)] y(3) by auto
  then have yh: "bn_height (bnodes h y) = Suc (H - Suc d)"
    using y(3) by simp
  have "H \<le> 6"
    using wf by (simp add: wf_bt_def)
  then have C: "c' = c" "bpool h' = ps" "wf_bt h' root H (insert c N)"
    "children (bnodes h' y) = (children (bnodes h y))(b := c)" "children (bnodes h' c) = (\<lambda>_. 0)"
    "\<forall>x. x \<noteq> c \<longrightarrow> x \<noteq> y \<longrightarrow> bnodes h' x = bnodes h x" "c \<notin> N" "c \<noteq> 0"
    using btree_node_create_wf [OF wf yN(1) yh _ b pool cr] by auto
  note D = down_create [OF wf y b C(7,8,4,5,6)]
  have old: "down h root (Suc d) (p * 256 + b) = 0"
    using y b by simp
  have keep: "down h' root e q = down h root e q" if "e \<le> H" "down h root e q \<noteq> 0" for e q
    using D [of e q] old that by auto
  have cont: "down h' root (Suc H) key = down h root (Suc H) key" for key
    using D [of "Suc H" key] y(3) by simp
  have "bt_ext root H h N h' (insert c N)"
    unfolding bt_ext_def using C yN keep cont pool by auto
  moreover have "down h' root (Suc d) (p * 256 + b) = c"
    using D [of "Suc d" "p * 256 + b"] y(3) by simp
  moreover have "down h' root d p = y"
    using keep [of d p] y by auto
  ultimately show ?thesis
    using C by simp
qed

subsection \<open>Finding a position\<close>

lemma prefix_step:
  assumes "key < 256 ^ Suc (Suc n)"
  shows "(p * 256 + key div 256 ^ Suc n) * 256 ^ n + (key mod 256 ^ Suc n) div 256 =
    p * 256 ^ Suc n + key div (256 :: nat)"
proof -
  have "key div 256 = (key div 256 ^ Suc n * 256 ^ Suc n + key mod 256 ^ Suc n) div 256"
    by (simp only: div_mult_mod_eq)
  also have "\<dots> = key div 256 ^ Suc n * 256 ^ n + (key mod 256 ^ Suc n) div 256"
    by (simp add: mult.left_commute [of _ 256] del: div_mult_mod_eq mod_mult_self2)
  finally show ?thesis
    by (simp add: algebra_simps)
qed

text \<open>What a search with creation delivers: the leaf with prefix \<open>q\<close> and index \<open>i\<close>, or
  \<open>-ENOMEM\<close> with the pool used up; the content of the tree is the same in both cases. At most
  \<open>n\<close> nodes are taken.\<close>

definition pos_post ::
    "nat \<Rightarrow> nat \<Rightarrow> btree_heap \<Rightarrow> nat set \<Rightarrow> nat \<Rightarrow> nat \<Rightarrow> nat \<Rightarrow> (int \<times> nat \<times> nat \<times> btree_heap) option \<Rightarrow> bool" where
  "pos_post root H h N n q i r \<longleftrightarrow>
    (\<exists>ret leaf idx h' N'. r = Some (ret, leaf, idx, h') \<and> bt_ext root H h N h' N' \<and>
       (ret = 0 \<and> leaf = down h' root H q \<and> leaf \<noteq> 0 \<and> idx = i \<or>
        ret = - ENOMEM \<and> leaf = 0 \<and> bpool h' = []) \<and>
       (n \<le> length (bpool h) \<longrightarrow> ret = 0) \<and> length (bpool h) \<le> length (bpool h') + n)"

lemma pos_post_more:
  assumes "bt_ext root H h N h1 N1" "length (bpool h) \<le> length (bpool h1) + k"
    "pos_post root H h1 N1 n q i r"
  shows "pos_post root H h N (k + n) q i r"
  using assms bt_ext_trans [OF assms(1)] unfolding pos_post_def by fastforce

lemma pos_loop_step:
  assumes "bn_height (bnodes h y) = Suc n" "n < 7" "key < 256 ^ Suc (Suc n)"
  shows "children (bnodes h y) (key div 256 ^ Suc n) \<noteq> 0 \<Longrightarrow> btree_pos_loop h y key True =
      btree_pos_loop h (children (bnodes h y) (key div 256 ^ Suc n)) (key mod 256 ^ Suc n) True"
    and "children (bnodes h y) (key div 256 ^ Suc n) = 0 \<Longrightarrow>
      btree_node_create h y (key div 256 ^ Suc n) = (c, h1) \<Longrightarrow> btree_pos_loop h y key True =
      (if c = 0 then Some (- ENOMEM, 0, 0, h1)
       else btree_pos_loop h1 (children (bnodes h1 y) (key div 256 ^ Suc n)) (key mod 256 ^ Suc n) True)"
proof -
  have "max_key_at h n = 256 ^ Suc n" "key div 256 ^ Suc n < 256"
    using assms(2,3) by (simp_all add: max_key_at_small div_less_iff_less_mult mult.commute)
  with assms(1) show "children (bnodes h y) (key div 256 ^ Suc n) \<noteq> 0 \<Longrightarrow> btree_pos_loop h y key True =
      btree_pos_loop h (children (bnodes h y) (key div 256 ^ Suc n)) (key mod 256 ^ Suc n) True"
    "children (bnodes h y) (key div 256 ^ Suc n) = 0 \<Longrightarrow>
      btree_node_create h y (key div 256 ^ Suc n) = (c, h1) \<Longrightarrow> btree_pos_loop h y key True =
      (if c = 0 then Some (- ENOMEM, 0, 0, h1)
       else btree_pos_loop h1 (children (bnodes h1 y) (key div 256 ^ Suc n)) (key mod 256 ^ Suc n) True)"
    by (simp_all add: btree_pos_loop.simps [of h y] BRANCH_NUM_def Let_def del: power_Suc)
qed

lemma btree_pos_loop_create:
  assumes "wf_bt h root H N" "down h root d p = y" "y \<noteq> 0" "d + n = H" "key < 256 ^ Suc n"
  shows "pos_post root H h N n (p * 256 ^ n + key div 256) (key mod 256) (btree_pos_loop h y key True)"
  using assms
proof (induction n arbitrary: h N d p y key)
  case 0
  then have "bn_height (bnodes h y) = 0"
    using down_node [of h root H N d p y] by simp
  then have "btree_pos_loop h y key True = Some (0, y, key, h)"
    by (simp add: btree_pos_loop.simps)
  with 0 bt_ext_refl [OF 0(1)] show ?case
    unfolding pos_post_def by auto
next
  case (Suc n)
  note wf = Suc.prems(1) and y = Suc.prems(2,3)
  have H: "d < H" "n < 7" and yh: "bn_height (bnodes h y) = Suc n"
    using wf Suc.prems(4) down_node [OF wf _ y] by (auto simp: wf_bt_def)
  let ?b = "key div 256 ^ Suc n" and ?key = "key mod 256 ^ Suc n"
  have b: "?b < 256"
    using Suc.prems(5) by (simp add: div_less_iff_less_mult mult.commute)
  have key: "?key < 256 ^ Suc n" "?key mod 256 = key mod 256"
    by (simp_all add: mod_mod_cancel)
  note pre = prefix_step [OF Suc.prems(5), of p]
  note step = pos_loop_step [OF yh H(2) Suc.prems(5)]
  show ?case
  proof (cases "children (bnodes h y) ?b = 0")
    case False
    have "down h root (Suc d) (p * 256 + ?b) = children (bnodes h y) ?b"
      using y b by simp
    from Suc.IH [OF wf this False _ key(1)] Suc.prems(4) show ?thesis
      unfolding step(1) [OF False] pre key(2)
      using pos_post_more [OF bt_ext_refl [OF wf], of 1] by simp
  next
    case True
    show ?thesis
    proof (cases "bpool h")
      case Nil
      then have "btree_node_create h y ?b = (0, h)"
        by (simp add: btree_node_create_def pool_alloc_def)
      with step(2) [OF True this] Nil bt_ext_refl [OF wf] show ?thesis
        by (auto simp: pos_post_def)
    next
      case (Cons c ps)
      obtain c' h1 where cr: "btree_node_create h y ?b = (c', h1)" by fastforce
      note C = btree_node_create_ext [OF wf y H(1) b True Cons cr]
      then have wf1: "wf_bt h1 root H (insert c N)" and c: "c \<noteq> 0"
        and dc: "down h1 root (Suc d) (p * 256 + ?b) = c"
        by (auto simp: bt_ext_def)
      from Suc.IH [OF wf1 dc c _ key(1)] Suc.prems(4)
      have "pos_post root H h1 (insert c N) n (p * 256 ^ Suc n + key div 256) (key mod 256)
          (btree_pos_loop h y key True)"
        unfolding step(2) [OF True cr] pre key(2) using C by simp
      then show ?thesis
        using pos_post_more [of root H h N h1 "insert c N" 1] C Cons by simp
    qed
  qed
qed

subsection \<open>Reading\<close>

lemma btree_get_loop_down:
  assumes "wf_bt h root H N" "down h root d p = y" "y \<noteq> 0" "d + n = H" "key < 256 ^ Suc n"
  shows "btree_get_loop h y key = Some (down h root (Suc H) (p * 256 ^ Suc n + key))"
  using assms
proof (induction n arbitrary: d p y key)
  case 0
  then have "bn_height (bnodes h y) = 0"
    using down_node [of h root H N d p y] by simp
  with 0 show ?case
    by (simp add: btree_get_loop.simps BRANCH_NUM_def)
next
  case (Suc n)
  note wf = Suc.prems(1) and y = Suc.prems(2,3)
  have H: "d < H" "n < 7" and yh: "bn_height (bnodes h y) = Suc n"
    using wf Suc.prems(4) down_node [OF wf _ y] by (auto simp: wf_bt_def)
  let ?b = "key div 256 ^ Suc n" and ?key = "key mod 256 ^ Suc n"
  have b: "?b < 256"
    using Suc.prems(5) by (simp add: div_less_iff_less_mult mult.commute)
  have mk: "max_key_at h n = 256 ^ Suc n"
    using H by (simp add: max_key_at_small)
  have c: "down h root (Suc d) (p * 256 + ?b) = children (bnodes h y) ?b"
    using y b by simp
  have split: "p * 256 ^ Suc (Suc n) + key = (p * 256 + ?b) * 256 ^ Suc n + ?key"
    using div_mult_mod_eq [of key "256 ^ Suc n"] by (simp add: algebra_simps)
  have key: "?key < 256 ^ Suc n" by simp
  show ?case
  proof (cases "children (bnodes h y) ?b = 0")
    case True
    have "down h root (Suc d + Suc n) ((p * 256 + ?b) * 256 ^ Suc n + ?key) = 0"
      by (rule down_zero_below [OF _ key]) (use c True in simp)
    moreover have "btree_get_loop h y key = Some 0"
      using yh mk b True by (simp add: btree_get_loop.simps BRANCH_NUM_def Let_def del: power_Suc)
    ultimately show ?thesis
      unfolding split using Suc.prems(4) by (simp del: down.simps power_Suc)
  next
    case False
    have "btree_get_loop h y key = btree_get_loop h (children (bnodes h y) ?b) ?key"
      using yh mk b False by (simp add: btree_get_loop.simps [of h y] BRANCH_NUM_def Let_def del: power_Suc)
    with Suc.IH [OF wf c False _ key] Suc.prems(4) show ?thesis
      unfolding split by simp
  qed
qed

lemma btree_get_cont:
  assumes "wf_bt h (bt_root t) (bt_height t) N" "key < 256 ^ Suc (bt_height t)"
  shows "btree_get h t key = Some (bt_cont h t key)"
proof -
  have "bt_root t \<noteq> 0"
    using assms(1) by (auto simp: wf_bt_def)
  with btree_get_loop_down [OF assms(1), of 0 0 "bt_root t" "bt_height t" key] assms(2) show ?thesis
    by (simp add: btree_get_def bt_cont_def)
qed

subsection \<open>The next position\<close>

lemma btree_next_up_down:
  assumes wf: "wf_bt h root H N"
  shows "d \<le> H \<Longrightarrow> down h root d q = x \<Longrightarrow> x \<noteq> 0 \<Longrightarrow> Suc q < 256 ^ d \<Longrightarrow>
    \<exists>node b e p. btree_next_up h x pi = Some (node, b) \<and> down h root e p = node \<and> node \<noteq> 0 \<and>
      e < d \<and> Suc b < 256 \<and> Suc q = (p * 256 + Suc b) * 256 ^ (d - Suc e)"
proof (induction d arbitrary: q x pi)
  case 0
  then show ?case by simp
next
  case (Suc d)
  let ?y = "down h root d (q div 256)"
  have P: "bn_parent (bnodes h x) = ?y" "bn_branch_index (bnodes h x) = q mod 256" "?y \<noteq> 0"
    using down_parent [OF wf Suc.prems(1-3)] by auto
  show ?case
  proof (cases "q mod 256 + 1 < 256")
    case True
    then have "btree_next_up h x pi = Some (?y, q mod 256)"
      using P by (simp add: btree_next_up.simps [of h x] BRANCH_NUM_def)
    moreover have "Suc q = q div 256 * 256 + Suc (q mod 256)"
      using div_mult_mod_eq [of q 256] by simp
    ultimately show ?thesis
      using P True by (intro exI [of _ ?y] exI [of _ "q mod 256"] exI [of _ d] exI [of _ "q div 256"]) simp
  next
    case False
    then have q: "q mod 256 = 255"
      using mod_less_divisor [of 256 q] by simp
    then have Sq: "Suc q = Suc (q div 256) * 256"
      using div_mult_mod_eq [of q 256] by simp
    then have lt: "Suc (q div 256) < 256 ^ d"
      using Suc.prems(4) by (simp add: mult.commute)
    have "btree_next_up h x pi = btree_next_up h ?y (q mod 256)"
      using P False by (simp add: btree_next_up.simps [of h x] BRANCH_NUM_def)
    with Suc.IH [OF _ refl P(3) lt, of "q mod 256"] Suc.prems(1)
    obtain node b e p where r: "btree_next_up h x pi = Some (node, b)" "down h root e p = node" "node \<noteq> 0"
      "e < d" "Suc b < 256" "Suc (q div 256) = (p * 256 + Suc b) * 256 ^ (d - Suc e)"
      by auto
    have "256 ^ (d - e) = 256 * (256 :: nat) ^ (d - Suc e)"
      using r(4) by (metis Suc_diff_Suc power_Suc)
    with r Sq show ?thesis
      by (intro exI [of _ node] exI [of _ b] exI [of _ e] exI [of _ p]) simp
  qed
qed

lemma btree_next_down_pos:
  assumes "wf_bt h root H N" "down h root d p = y" "y \<noteq> 0" "d + m = H" "b < 256" "m = 0 \<Longrightarrow> b = 0"
  shows "btree_next_down h y b True =
    map_option (\<lambda>(ret, leaf, idx, h'). (ret, leaf, h')) (btree_pos_loop h y (b * 256 ^ m) True)"
  using assms
proof (induction m arbitrary: h N d p y b)
  case 0
  then have "bn_height (bnodes h y) = 0"
    using down_node [of h root H N d p y] by simp
  then show ?case
    by (simp add: btree_next_down.simps btree_pos_loop.simps)
next
  case (Suc n)
  note wf = Suc.prems(1) and y = Suc.prems(2,3)
  have H: "d < H" "n < 7" and yh: "bn_height (bnodes h y) = Suc n"
    using wf Suc.prems(4) down_node [OF wf _ y] by (auto simp: wf_bt_def)
  let ?key = "b * 256 ^ Suc n"
  have key: "?key < 256 ^ Suc (Suc n)" "?key div 256 ^ Suc n = b" "?key mod 256 ^ Suc n = 0"
    using Suc.prems(5) by simp_all
  note step = pos_loop_step [OF yh H(2) key(1), unfolded key(2,3)]
  obtain c h1 where cr: "btree_node_create h y b = (c, h1)" by fastforce
  show ?case
  proof (cases "children (bnodes h y) b = 0")
    case False
    have "down h root (Suc d) (p * 256 + b) = children (bnodes h y) b"
      using y Suc.prems(5) by simp
    with Suc.IH [OF wf this False, of 0] Suc.prems(4,5) False yh step(1) show ?thesis
      by (simp add: btree_next_down.simps [of h y] BRANCH_NUM_def)
  next
    case True
    show ?thesis
    proof (cases "c = 0")
      case True
      with step(2) [OF \<open>children (bnodes h y) b = 0\<close> cr] \<open>children (bnodes h y) b = 0\<close> show ?thesis
        using yh cr Suc.prems(5) by (simp add: btree_next_down.simps [of h y] BRANCH_NUM_def)
    next
      case False
      then obtain ps where ps: "bpool h = c # ps"
        using cr by (cases "bpool h") (auto simp: btree_node_create_def pool_alloc_def Let_def split: if_splits)
      note C = btree_node_create_ext [OF wf y H(1) Suc.prems(5) \<open>children (bnodes h y) b = 0\<close> ps cr]
      then have wf1: "wf_bt h1 root H (insert c N)" and dc: "down h1 root (Suc d) (p * 256 + b) = c"
        by (auto simp: bt_ext_def)
      from Suc.IH [OF wf1 dc False, of 0] Suc.prems(4,5) C yh cr False
        step(2) [OF \<open>children (bnodes h y) b = 0\<close> cr] \<open>children (bnodes h y) b = 0\<close>
      show ?thesis
        by (simp add: btree_next_down.simps [of h y] BRANCH_NUM_def)
    qed
  qed
qed

text \<open>\<open>btree_next\<close> moves from the position of a key to that of its successor.\<close>

lemma btree_next_pos:
  assumes wf: "wf_bt h root H N" and x: "down h root H (key div 256) = x" "x \<noteq> 0"
    and key: "Suc key < 256 ^ Suc H"
  shows "\<exists>ret leaf idx h' N'. btree_next h x (key mod 256) True = Some (ret, leaf, idx, h') \<and>
    bt_ext root H h N h' N' \<and>
    (ret = 0 \<and> leaf = down h' root H (Suc key div 256) \<and> leaf \<noteq> 0 \<and> idx = Suc key mod 256 \<or>
     ret = - ENOMEM \<and> leaf = 0 \<and> bpool h' = []) \<and>
    (H \<le> length (bpool h) \<longrightarrow> ret = 0) \<and> length (bpool h) \<le> length (bpool h') + H"
proof (cases "key mod 256 + 1 < 256")
  case True
  then have "Suc key div 256 = key div 256" "Suc key mod 256 = Suc (key mod 256)"
    by (simp_all add: div_Suc mod_Suc)
  with True x bt_ext_refl [OF wf] show ?thesis
    by (auto simp: btree_next_def BRANCH_NUM_def)
next
  case False
  then have m: "key mod 256 = 255"
    using mod_less_divisor [of 256 key] by simp
  let ?q = "key div 256"
  have Sk: "Suc key = Suc ?q * 256"
    using div_mult_mod_eq [of key 256] m by simp
  then have lt: "Suc ?q < 256 ^ H"
    using key by (simp add: mult.commute)
  from btree_next_up_down [OF wf _ x lt] obtain node b e p where
    u: "btree_next_up h x (bn_branch_index (bnodes h x)) = Some (node, b)" "down h root e p = node"
      "node \<noteq> 0" "e < H" "Suc b < 256" "Suc ?q = (p * 256 + Suc b) * 256 ^ (H - Suc e)"
    by blast
  obtain m where mH: "H - e = Suc m" "H - Suc e = m" "e + Suc m = H"
    using u(4) by (metis Suc_diff_Suc add_diff_inverse_nat less_imp_not_less diff_Suc_Suc)
  have bk: "Suc b * 256 ^ Suc m < 256 ^ Suc (Suc m)"
    using u(5) by simp
  have pre: "p * 256 ^ Suc m + (Suc b * 256 ^ Suc m) div 256 = Suc ?q"
    using u(6) by (simp add: mH algebra_simps)
  from btree_pos_loop_create [OF wf u(2,3) mH(3) bk]
  obtain ret leaf idx h' N' where
    P: "btree_pos_loop h node (Suc b * 256 ^ Suc m) True = Some (ret, leaf, idx, h')"
      "bt_ext root H h N h' N'"
      "ret = 0 \<and> leaf = down h' root H (Suc ?q) \<and> leaf \<noteq> 0 \<or> ret = - ENOMEM \<and> leaf = 0 \<and> bpool h' = []"
      "Suc m \<le> length (bpool h) \<longrightarrow> ret = 0" "length (bpool h) \<le> length (bpool h') + Suc m"
    unfolding pos_post_def pre by blast
  have "btree_next_down h node (Suc b) True = Some (ret, leaf, h')"
    using btree_next_down_pos [OF wf u(2,3) mH(3), of "Suc b"] u(5) P(1) by simp
  then have "btree_next h x (key mod 256) True =
      (if leaf = 0 then Some (ret, 0, key mod 256, h') else Some (ret, leaf, 0, h'))"
    using u(1,5) False by (simp add: btree_next_def BRANCH_NUM_def)
  moreover have "Suc key div 256 = Suc ?q" "Suc key mod 256 = 0"
    unfolding Sk by simp_all
  ultimately show ?thesis
    using P(2-5) mH by auto
qed

subsection \<open>Growing the tree\<close>

text \<open>The store after \<open>btree_expand\<close> with the new root \<open>c\<close>.\<close>

definition new_root :: "btree_heap \<Rightarrow> btree_t \<Rightarrow> nat \<Rightarrow> nat list \<Rightarrow> btree_heap" where
  "new_root h t c ps = h\<lparr>bpool := ps, bnodes := (bnodes h)
    (c := zero_node\<lparr>bn_height := Suc (bt_height t), children := (\<lambda>_. 0)(0 := bt_root t)\<rparr>,
     bt_root t := (bnodes h (bt_root t))\<lparr>bn_parent := c\<rparr>)\<rparr>"

lemma new_root_pool [simp]: "bpool (new_root h t c ps) = ps"
  by (simp add: new_root_def)

lemma new_root_nodes:
  assumes "bt_root t \<noteq> c"
  shows "bnodes (new_root h t c ps) c =
      zero_node\<lparr>bn_height := Suc (bt_height t), children := (\<lambda>_. 0)(0 := bt_root t)\<rparr>"
    "bnodes (new_root h t c ps) (bt_root t) = (bnodes h (bt_root t))\<lparr>bn_parent := c\<rparr>"
    "\<And>x. x \<noteq> c \<Longrightarrow> x \<noteq> bt_root t \<Longrightarrow> bnodes (new_root h t c ps) x = bnodes h x"
    "\<And>x. x \<noteq> c \<Longrightarrow> children (bnodes (new_root h t c ps) x) = children (bnodes h x)"
    "\<And>x. x \<noteq> c \<Longrightarrow> bn_height (bnodes (new_root h t c ps) x) = bn_height (bnodes h x)"
    "\<And>x. x \<noteq> c \<Longrightarrow> bn_branch_index (bnodes (new_root h t c ps) x) = bn_branch_index (bnodes h x)"
  using assms by (auto simp: new_root_def)

lemma btree_expand_new_root:
  assumes "bt_root t \<noteq> c" "c \<noteq> 0" "bpool h = c # ps"
  shows "btree_expand h t = Some (\<lparr>bt_root = c, bt_height = Suc (bt_height t)\<rparr>, new_root h t c ps)"
  using assms
  by (cases t) (simp add: btree_expand_def btree_node_create_def pool_alloc_def Let_def upd_node_def
      set_child_def zero_node_def new_root_def fun_upd_twist)

lemma wf_bt_base:
  assumes "wf_bt h root H N"
  shows "root \<in> N" "root \<noteq> 0" "0 \<notin> N" "bn_height (bnodes h root) = H" "bn_parent (bnodes h root) = 0"
    "bn_branch_index (bnodes h root) = 0" "pool_inv (bpool h)" "N \<inter> set (bpool h) = {}" "H \<le> 6"
  using assms by (auto simp: wf_bt_def)

lemma wf_bt_new_root:
  assumes wf: "wf_bt h (bt_root t) (bt_height t) N" and H: "bt_height t < 6" and pool: "bpool h = c # ps"
  shows "wf_bt (new_root h t c ps) c (Suc (bt_height t)) (insert c N)"
proof -
  let ?h = "new_root h t c ps" and ?r = "bt_root t"
  note base = wf_bt_base [OF wf]
  have c: "c \<notin> N" "c \<noteq> 0" "pool_inv ps" "N \<inter> set ps = {}" "c \<notin> set ps" "?r \<noteq> c"
    using base pool by (auto simp: pool_inv_def)
  note nd = new_root_nodes [OF c(6), where h = h and ps = ps]
  have step: "children (bnodes ?h x) i \<in> insert c N \<and> bn_parent (bnodes ?h (children (bnodes ?h x) i)) = x \<and>
      bn_branch_index (bnodes ?h (children (bnodes ?h x) i)) = i \<and>
      bn_height (bnodes ?h x) = Suc (bn_height (bnodes ?h (children (bnodes ?h x) i)))"
    if x: "x \<in> insert c N" "i < 256" "0 < bn_height (bnodes ?h x)" "children (bnodes ?h x) i \<noteq> 0" for x i
  proof (cases "x = c")
    case True
    then have "i = 0" "children (bnodes ?h x) i = ?r"
      using x(4) by (auto simp: nd(1) split: if_splits)
    then show ?thesis
      using base nd(5,6) [OF c(6)] by (simp add: True nd(1,2))
  next
    case False
    then have xN: "x \<in> N" "0 < bn_height (bnodes h x)" "children (bnodes h x) i \<noteq> 0"
      using x nd(4,5) by auto
    note k = wf_bt_child [OF wf xN(1) x(2) xN(2) refl xN(3)]
    then have "children (bnodes h x) i \<noteq> c" "children (bnodes h x) i \<noteq> ?r"
      using base c xN(1) by auto
    then show ?thesis
      using k nd(3-6) False by simp
  qed
  show ?thesis
    unfolding wf_bt_def using step base H c by (simp add: nd(1) zero_node_def)
qed

lemma down_new_root:
  assumes wf: "wf_bt h (bt_root t) (bt_height t) N" and pool: "bpool h = c # ps"
  shows "d \<le> Suc (bt_height t) \<Longrightarrow> down (new_root h t c ps) c (Suc d) q = down h (bt_root t) d q"
proof (induction d arbitrary: q)
  note base = wf_bt_base [OF wf]
  have c: "c \<notin> N" "c \<noteq> 0" "bt_root t \<noteq> c"
    using base pool by (auto simp: pool_inv_def)
  note nd = new_root_nodes [OF c(3), where h = h and ps = ps]
  {
    case 0
    have "q div 256 = 0 \<and> q mod 256 = 0 \<longleftrightarrow> q = 0"
      using div_mult_mod_eq [of q 256] by auto
    then show ?case using nd c by auto
  next
    case (Suc d)
    have "down h (bt_root t) d (q div 256) \<noteq> c \<or> down h (bt_root t) d (q div 256) = 0"
      using down_node [OF wf _ refl, of d "q div 256"] Suc.prems c by auto
    with Suc nd(4) show ?case by auto
  }
qed

text \<open>\<open>bt_same\<close>: a later store and tree with the same content, all of whose nodes are old nodes or
  come from the pool.\<close>

definition bt_same :: "btree_heap \<Rightarrow> btree_t \<Rightarrow> nat set \<Rightarrow> btree_heap \<Rightarrow> btree_t \<Rightarrow> nat set \<Rightarrow> bool" where
  "bt_same h t N h' t' N' \<longleftrightarrow> wf_bt h' (bt_root t') (bt_height t') N' \<and> N \<subseteq> N' \<and>
     N' \<union> set (bpool h') = N \<union> set (bpool h) \<and>
     (\<forall>x. x \<notin> N \<union> set (bpool h) \<longrightarrow> bnodes h' x = bnodes h x) \<and> bt_cont h' t' = bt_cont h t"

lemma bt_same_refl: "wf_bt h (bt_root t) (bt_height t) N \<Longrightarrow> bt_same h t N h t N"
  by (simp add: bt_same_def)

lemma bt_same_trans:
  assumes "bt_same h t N h1 t1 N1" "bt_same h1 t1 N1 h2 t2 N2"
  shows "bt_same h t N h2 t2 N2"
proof -
  note 1 = assms(1) [unfolded bt_same_def] and 2 = assms(2) [unfolded bt_same_def]
  have "bnodes h2 x = bnodes h x" if "x \<notin> N \<union> set (bpool h)" for x
    using 1 2 that by metis
  then show ?thesis
    unfolding bt_same_def using 1 2 by auto
qed

lemma bt_ext_same: "bt_ext (bt_root t) (bt_height t) h N h' N' \<Longrightarrow> bt_same h t N h' t N'"
  by (auto simp: bt_ext_def bt_same_def bt_cont_def simp del: down.simps)

lemma btree_expand_same:
  assumes wf: "wf_bt h (bt_root t) (bt_height t) N" and H: "bt_height t < 6" and pool: "bpool h \<noteq> []"
  shows "\<exists>t' h' N'. btree_expand h t = Some (t', h') \<and> bt_same h t N h' t' N' \<and>
    bt_height t' = Suc (bt_height t) \<and> Suc (length (bpool h')) = length (bpool h)"
proof -
  from pool obtain c ps where ps: "bpool h = c # ps"
    by (cases "bpool h") auto
  note base = wf_bt_base [OF wf]
  have c: "c \<notin> N" "c \<noteq> 0" "bt_root t \<noteq> c"
    using base ps by (auto simp: pool_inv_def)
  let ?t = "\<lparr>bt_root = c, bt_height = Suc (bt_height t)\<rparr>"
  have "bt_cont (new_root h t c ps) ?t = bt_cont h t"
    using down_new_root [OF wf ps, of "Suc (bt_height t)"] by (simp add: bt_cont_def fun_eq_iff del: down.simps)
  then have "bt_same h t N (new_root h t c ps) ?t (insert c N)"
    unfolding bt_same_def using wf_bt_new_root [OF wf H ps] new_root_nodes(3) [OF c(3)] ps base(1)
    by auto
  then show ?thesis
    using btree_expand_new_root [OF c(3,2) ps] ps by auto
qed

lemma btree_grow_same:
  assumes "wf_bt h (bt_root t) (bt_height t) N" "key < 256 ^ Suc L" "L \<le> 6" "L - bt_height t \<le> length (bpool h)"
  shows "\<exists>t' h' N'. btree_grow h t key = Some (t', h') \<and> bt_same h t N h' t' N' \<and>
    key < 256 ^ Suc (bt_height t') \<and> bt_height t \<le> bt_height t' \<and>
    length (bpool h) = length (bpool h') + (bt_height t' - bt_height t) \<and> bt_height t' \<le> max L (bt_height t)"
  using assms
proof (induction "L - bt_height t" arbitrary: h t N)
  case 0
  then have "bt_height t < 7" "L \<le> bt_height t"
    by (auto simp: wf_bt_def)
  have "256 ^ Suc L \<le> (256 :: nat) ^ Suc (bt_height t)"
    using \<open>L \<le> bt_height t\<close> by (intro power_increasing) auto
  then have "key < 256 ^ Suc (bt_height t)"
    using "0.prems"(2) by linarith
  moreover from this have "btree_grow h t key = Some (t, h)"
    using \<open>bt_height t < 7\<close> by (simp add: btree_grow.simps max_key_at_small)
  ultimately have "btree_grow h t key = Some (t, h)" "key < 256 ^ Suc (bt_height t)"
    by simp_all
  with bt_same_refl [OF "0.prems"(1)] show ?case
    by auto
next
  case (Suc k)
  then have H: "bt_height t < 6" "bpool h \<noteq> []"
    by auto
  show ?case
  proof (cases "key < 256 ^ Suc (bt_height t)")
    case True
    then have "btree_grow h t key = Some (t, h)"
      using H by (simp add: btree_grow.simps max_key_at_small)
    with True bt_same_refl [OF Suc.prems(1)] show ?thesis
      by auto
  next
    case False
    from btree_expand_same [OF Suc.prems(1) H] obtain t1 h1 N1 where
      1: "btree_expand h t = Some (t1, h1)" "bt_same h t N h1 t1 N1" "bt_height t1 = Suc (bt_height t)"
        "Suc (length (bpool h1)) = length (bpool h)"
      by blast
    have "wf_bt h1 (bt_root t1) (bt_height t1) N1"
      using 1(2) by (simp add: bt_same_def)
    moreover have "k = L - bt_height t1" "L - bt_height t1 \<le> length (bpool h1)"
      using Suc.hyps(2) Suc.prems(4) 1(3,4) by auto
    ultimately obtain t' h' N' where 2: "btree_grow h1 t1 key = Some (t', h')" "bt_same h1 t1 N1 h' t' N'"
      "key < 256 ^ Suc (bt_height t')" "bt_height t1 \<le> bt_height t'"
      "length (bpool h1) = length (bpool h') + (bt_height t' - bt_height t1)"
      "bt_height t' \<le> max L (bt_height t1)"
      using Suc.hyps(1) [of t1 h1 N1] Suc.prems(2,3) by blast
    have "btree_grow h t key = Some (t', h')"
      using False H 1(1) 2(1) by (simp add: btree_grow.simps [of h t] max_key_at_small)
    with bt_same_trans [OF 1(2) 2(2)] 2 1(3,4) Suc.hyps(2) show ?thesis
      by (intro exI [of _ t'] exI [of _ h'] exI [of _ N']) auto
  qed
qed

subsection \<open>Setting one key\<close>

lemma btree_pos_create:
  assumes wf: "wf_bt h (bt_root t) (bt_height t) N" and key: "key < 256 ^ Suc (bt_height t)"
  shows "pos_post (bt_root t) (bt_height t) h N (bt_height t) (key div 256) (key mod 256) (btree_pos h t key True)"
  using btree_pos_loop_create [OF wf, of 0 0 "bt_root t" "bt_height t" key] wf_bt_base [OF wf] key
  by (simp add: btree_pos_def)

text \<open>Writing the cell of a key changes the content at that key and nowhere else.\<close>

lemma set_cell:
  assumes wf: "wf_bt h (bt_root t) (bt_height t) N"
    and x: "down h (bt_root t) (bt_height t) (key div 256) = x" "x \<noteq> 0"
  shows "wf_bt (set_child h x (key mod 256) v) (bt_root t) (bt_height t) N"
    "bt_cont (set_child h x (key mod 256) v) t = (bt_cont h t)(key := v)"
    "down (set_child h x (key mod 256) v) (bt_root t) (bt_height t) (key div 256) = x"
    "children (bnodes h x) (key mod 256) = bt_cont h t key" "x \<in> N"
proof -
  have xN: "x \<in> N" "bn_height (bnodes h x) = 0"
    using down_node [OF wf _ x] by auto
  show "x \<in> N"
    by (rule xN(1))
  show "wf_bt (set_child h x (key mod 256) v) (bt_root t) (bt_height t) N"
    by (rule wf_bt_set_leaf [OF wf xN])
  show "bt_cont (set_child h x (key mod 256) v) t = (bt_cont h t)(key := v)"
    using down_set_leaf(2) [OF wf x, of "key mod 256" v]
    by (auto simp: bt_cont_def fun_eq_iff simp del: down.simps)
  show "down (set_child h x (key mod 256) v) (bt_root t) (bt_height t) (key div 256) = x"
    using down_set_leaf(1) [OF wf x] x by simp
  show "children (bnodes h x) (key mod 256) = bt_cont h t key"
    using x by (simp add: bt_cont_def)
qed

text \<open>\<open>bt_upd\<close>: as \<open>bt_same\<close>, but the content is now \<open>f\<close>.\<close>

definition bt_upd ::
    "btree_heap \<Rightarrow> nat set \<Rightarrow> (nat \<Rightarrow> nat) \<Rightarrow> btree_heap \<Rightarrow> btree_t \<Rightarrow> nat set \<Rightarrow> bool" where
  "bt_upd h N f h' t' N' \<longleftrightarrow> wf_bt h' (bt_root t') (bt_height t') N' \<and> N \<subseteq> N' \<and>
     N' \<union> set (bpool h') = N \<union> set (bpool h) \<and>
     (\<forall>x. x \<notin> N \<union> set (bpool h) \<longrightarrow> bnodes h' x = bnodes h x) \<and> bt_cont h' t' = f"

lemma bt_upd_same:
  assumes "bt_same h t N h1 t1 N1" "bt_upd h1 N1 f h' t' N'"
  shows "bt_upd h N f h' t' N'"
proof -
  note 1 = assms(1) [unfolded bt_same_def] and 2 = assms(2) [unfolded bt_upd_def]
  have "bnodes h' x = bnodes h x" if "x \<notin> N \<union> set (bpool h)" for x
    using 1 2 that by metis
  then show ?thesis
    unfolding bt_upd_def using 1 2 by auto
qed

lemma bt_same_upd: "bt_same h t N h1 t1 N1 \<Longrightarrow> bt_cont h t = f \<Longrightarrow> bt_upd h N f h1 t1 N1"
  by (simp add: bt_same_def bt_upd_def)

lemma set_cell_upd:
  assumes "wf_bt h (bt_root t) (bt_height t) N"
    "down h (bt_root t) (bt_height t) (key div 256) = x" "x \<noteq> 0"
  shows "bt_upd h N ((bt_cont h t)(key := v)) (set_child h x (key mod 256) v) t N"
  using set_cell(1,2) [OF assms, where v = v] set_cell(5) [OF assms]
  by (auto simp: bt_upd_def bnodes_set_child)

lemma btree_set_upd:
  assumes wf: "wf_bt h (bt_root t) (bt_height t) N" and key: "key < 256 ^ 7" and pool: "12 \<le> length (bpool h)"
  shows "\<exists>t' h' N'. btree_set h t key v = Some (0, t', h') \<and> bt_upd h N ((bt_cont h t)(key := v)) h' t' N'"
proof -
  have H: "bt_height t \<le> 6"
    using wf_bt_base [OF wf] by simp
  have "key < 256 ^ Suc 6" "6 - bt_height t \<le> length (bpool h)"
    using key pool by simp_all
  from btree_grow_same [OF wf this(1) _ this(2)] obtain t1 h1 N1 where
    1: "btree_grow h t key = Some (t1, h1)" "bt_same h t N h1 t1 N1" "key < 256 ^ Suc (bt_height t1)"
      "length (bpool h) = length (bpool h1) + (bt_height t1 - bt_height t)"
    by auto
  have wf1: "wf_bt h1 (bt_root t1) (bt_height t1) N1" and c1: "bt_cont h1 t1 = bt_cont h t"
    using 1(2) by (simp_all add: bt_same_def)
  have "bt_height t1 \<le> length (bpool h1)"
    using wf_bt_base(9) [OF wf1] 1(4) pool by simp
  with btree_pos_create [OF wf1 1(3)] obtain x h2 N2 where
    2: "btree_pos h1 t1 key True = Some (0, x, key mod 256, h2)"
      "bt_ext (bt_root t1) (bt_height t1) h1 N1 h2 N2"
      "down h2 (bt_root t1) (bt_height t1) (key div 256) = x" "x \<noteq> 0"
    unfolding pos_post_def by (auto simp: ENOMEM_def)
  have wf2: "wf_bt h2 (bt_root t1) (bt_height t1) N2"
    using 2(2) by (simp add: bt_ext_def)
  note s2 = bt_ext_same [OF 2(2)]
  have "bt_upd h N ((bt_cont h t)(key := v)) (set_child h2 x (key mod 256) v) t1 N2"
    using bt_upd_same [OF bt_same_trans [OF 1(2) s2] set_cell_upd [OF wf2 2(3,4)]] s2 c1
    by (simp add: bt_same_def)
  moreover have "btree_set h t key v = Some (0, t1, set_child h2 x (key mod 256) v)"
    using 1(1) 2(1) by (simp add: btree_set_def BRANCH_NUM_def)
  ultimately show ?thesis by blast
qed

subsection \<open>Setting a range\<close>

text \<open>The reference: walk over the keys in order, hand each old pointer to the callback and
  store the new one; a callback that returns non-zero stops the walk. \<open>m\<close> is the number of
  keys.\<close>

primrec range_ref ::
    "'s bt_callback option \<Rightarrow> (nat \<Rightarrow> nat) \<Rightarrow> nat \<Rightarrow> nat \<Rightarrow> nat \<Rightarrow> 's \<Rightarrow> int \<times> (nat \<Rightarrow> nat) \<times> 's" where
  "range_ref cb f start 0 ptr ctx = (0, f, ctx)"
| "range_ref cb f start (Suc m) ptr ctx =
    (let (stop, ctx) = bt_call cb (f start) start ctx
     in if stop \<noteq> 0 then (-1, f, ctx) else range_ref cb (f(start := ptr)) (Suc start) m ptr ctx)"

definition range_post ::
    "'s bt_callback option \<Rightarrow> btree_heap \<Rightarrow> nat set \<Rightarrow> (nat \<Rightarrow> nat) \<Rightarrow> nat \<Rightarrow> nat \<Rightarrow> nat \<Rightarrow> 's \<Rightarrow>
      int \<Rightarrow> btree_t \<Rightarrow> btree_heap \<Rightarrow> 's \<Rightarrow> bool" where
  "range_post cb h N f start m ptr ctx ret t' h' ctx' \<longleftrightarrow>
    (\<exists>N' k f'. k \<le> m \<and> bt_upd h N f' h' t' N' \<and>
       (range_ref cb f start k ptr ctx = (ret, f', ctx') \<and> k = m \<or>
        range_ref cb f start k ptr ctx = (0, f', ctx') \<and> ret = - ENOMEM \<and> bpool h' = []))"

lemma range_post_step:
  assumes "bt_call cb (f start) start ctx = (0, ctx1)" "bt_upd h N (f(start := ptr)) h1 t N1"
    "range_post cb h1 N1 (f(start := ptr)) (Suc start) m ptr ctx1 ret t' h' ctx'"
  shows "range_post cb h N f start (Suc m) ptr ctx ret t' h' ctx'"
proof -
  from assms(3) obtain N' k f' where k: "k \<le> m" "bt_upd h1 N1 f' h' t' N'"
    "range_ref cb (f(start := ptr)) (Suc start) k ptr ctx1 = (ret, f', ctx') \<and> k = m \<or>
     range_ref cb (f(start := ptr)) (Suc start) k ptr ctx1 = (0, f', ctx') \<and> ret = - ENOMEM \<and> bpool h' = []"
    unfolding range_post_def by blast
  have "bnodes h' x = bnodes h x" if "x \<notin> N \<union> set (bpool h)" for x
    using assms(2) k(2) that unfolding bt_upd_def by metis
  then have "bt_upd h N f' h' t' N'"
    using assms(2) k(2) unfolding bt_upd_def by auto
  with k assms(1) show ?thesis
    unfolding range_post_def by (intro exI [of _ N'] exI [of _ "Suc k"] exI [of _ f']) auto
qed

lemma btree_range_loop_cases:
  assumes wf: "wf_bt h (bt_root t) (bt_height t) N" and key: "Suc start < 256 ^ Suc (bt_height t)"
    and x: "down h (bt_root t) (bt_height t) (start div 256) = x" "x \<noteq> 0"
  obtains (stop) ret ctx1 where "bt_call cb (bt_cont h t start) start ctx = (ret, ctx1)" "ret \<noteq> 0"
      "btree_range_loop cb h x (start mod 256) start fin ptr ctx = Some (-1, h, ctx1)"
  | (nomem) ctx1 h2 N2 where "bt_call cb (bt_cont h t start) start ctx = (0, ctx1)"
      "bt_upd h N ((bt_cont h t)(start := ptr)) h2 t N2" "bpool h2 = []"
      "btree_range_loop cb h x (start mod 256) start fin ptr ctx = Some (- ENOMEM, h2, ctx1)"
  | (cont) ctx1 h2 N2 leaf where "bt_call cb (bt_cont h t start) start ctx = (0, ctx1)"
      "bt_upd h N ((bt_cont h t)(start := ptr)) h2 t N2"
      "down h2 (bt_root t) (bt_height t) (Suc start div 256) = leaf" "leaf \<noteq> 0"
      "btree_range_loop cb h x (start mod 256) start fin ptr ctx =
        (if Suc start < fin then btree_range_loop cb h2 leaf (Suc start mod 256) (Suc start) fin ptr ctx1
         else Some (0, h2, ctx1))"
proof -
  obtain ret ctx1 where cb: "bt_call cb (bt_cont h t start) start ctx = (ret, ctx1)"
    by fastforce
  have lt: "\<not> BRANCH_NUM \<le> start mod 256"
    by (simp add: BRANCH_NUM_def not_le)
  let ?h1 = "set_child h x (start mod 256) ptr"
  note C = set_cell(1-3) [OF wf x, where v = ptr] and old = set_cell(4) [OF wf x]
  from btree_next_pos [OF C(1) C(3) x(2) key] obtain r leaf idx h2 N2 where
    n: "btree_next ?h1 x (start mod 256) True = Some (r, leaf, idx, h2)"
      "bt_ext (bt_root t) (bt_height t) ?h1 N h2 N2"
      "r = 0 \<and> leaf = down h2 (bt_root t) (bt_height t) (Suc start div 256) \<and> leaf \<noteq> 0 \<and>
         idx = Suc start mod 256 \<or> r = - ENOMEM \<and> leaf = 0 \<and> bpool h2 = []"
    by auto
  have "bt_upd ?h1 N ((bt_cont h t)(start := ptr)) h2 t N2"
    using bt_same_upd [OF bt_ext_same [OF n(2)] C(2)] .
  then have u: "bt_upd h N ((bt_cont h t)(start := ptr)) h2 t N2"
    using set_cell(5) [OF wf x] by (auto simp: bt_upd_def bnodes_set_child)
  show thesis
  proof (cases "ret = 0")
    case False
    with cb old have "btree_range_loop cb h x (start mod 256) start fin ptr ctx = Some (-1, h, ctx1)"
      unfolding btree_range_loop.simps [of cb h x "start mod 256" start] by (simp add: BRANCH_NUM_def)
    with stop [OF cb False] show thesis .
  next
    case True
    from n(3) show thesis
    proof (elim disjE conjE)
      assume nm: "r = - ENOMEM" "bpool h2 = []"
      then have "btree_range_loop cb h x (start mod 256) start fin ptr ctx = Some (- ENOMEM, h2, ctx1)"
        using True cb old n(1) unfolding btree_range_loop.simps [of cb h x "start mod 256" start]
        by (simp add: BRANCH_NUM_def ENOMEM_def)
      with True nomem [OF _ u nm(2), of ctx1] cb show thesis
        by simp
    next
      assume "r = 0" "leaf = down h2 (bt_root t) (bt_height t) (Suc start div 256)" "leaf \<noteq> 0"
        "idx = Suc start mod 256"
      then have "btree_range_loop cb h x (start mod 256) start fin ptr ctx =
        (if Suc start < fin then btree_range_loop cb h2 leaf (Suc start mod 256) (Suc start) fin ptr ctx1
         else Some (0, h2, ctx1))"
        using True cb old n(1) lt unfolding btree_range_loop.simps [of cb h x "start mod 256" start]
        by simp
      with True cont [OF _ u, of ctx1 leaf] cb \<open>leaf \<noteq> 0\<close>
        \<open>leaf = down h2 (bt_root t) (bt_height t) (Suc start div 256)\<close> show thesis
        by simp
    qed
  qed
qed

lemma btree_range_loop_post:
  assumes "wf_bt h (bt_root t) (bt_height t) N" "start + Suc m < 256 ^ Suc (bt_height t)"
    "down h (bt_root t) (bt_height t) (start div 256) = x" "x \<noteq> 0"
  shows "\<exists>ret h' ctx'. btree_range_loop cb h x (start mod 256) start (start + Suc m) ptr ctx = Some (ret, h', ctx') \<and>
    range_post cb h N (bt_cont h t) start (Suc m) ptr ctx ret t h' ctx'"
  using assms
proof (induction m arbitrary: h N start x ctx)
  case (0 h N start x ctx)
  then have key: "Suc start < 256 ^ Suc (bt_height t)" by simp
  from "0.prems"(1) key "0.prems"(3,4) show ?case
  proof (cases rule: btree_range_loop_cases [where cb = cb and ctx = ctx and ptr = ptr and fin = "start + Suc 0"])
    case (stop ret ctx1)
    then show ?thesis
      using bt_same_upd [OF bt_same_refl [OF "0.prems"(1)] refl]
      by (auto simp: range_post_def intro!: exI [of _ N] exI [of _ "Suc 0"])
  next
    case (nomem ctx1 h2 N2)
    then show ?thesis
      by (auto simp: range_post_def intro!: exI [of _ N2] exI [of _ "Suc 0"])
  next
    case (cont ctx1 h2 N2 leaf)
    then show ?thesis
      by (auto simp: range_post_def intro!: exI [of _ N2] exI [of _ "Suc 0"])
  qed
next
  case (Suc m h N start x ctx)
  then have key: "Suc start < 256 ^ Suc (bt_height t)" by simp
  from Suc.prems(1) key Suc.prems(3,4) show ?case
  proof (cases rule: btree_range_loop_cases [where cb = cb and ctx = ctx and ptr = ptr and fin = "start + Suc (Suc m)"])
    case (stop ret ctx1)
    then show ?thesis
      using bt_same_upd [OF bt_same_refl [OF Suc.prems(1)] refl]
      by (auto simp: range_post_def intro!: exI [of _ N] exI [of _ "Suc (Suc m)"])
  next
    case (nomem ctx1 h2 N2)
    then show ?thesis
      by (auto simp: range_post_def intro!: exI [of _ N2] exI [of _ "Suc 0"])
  next
    case (cont ctx1 h2 N2 leaf)
    then have wf2: "wf_bt h2 (bt_root t) (bt_height t) N2" and c2: "bt_cont h2 t = (bt_cont h t)(start := ptr)"
      by (auto simp: bt_upd_def)
    have "Suc start + Suc m < 256 ^ Suc (bt_height t)"
      using Suc.prems(2) by simp
    from Suc.IH [OF wf2 this cont(3,4), of ctx1] cont(5) obtain ret h' ctx' where
      "btree_range_loop cb h x (start mod 256) start (start + Suc (Suc m)) ptr ctx = Some (ret, h', ctx')"
      "range_post cb h2 N2 (bt_cont h2 t) (Suc start) (Suc m) ptr ctx1 ret t h' ctx'"
      by auto
    with range_post_step [OF cont(1,2)] c2 show ?thesis
      by auto
  qed
qed

lemma range_post_same:
  assumes "bt_same h t N h1 t1 N1" "range_post cb h1 N1 f start m ptr ctx ret t' h' ctx'"
  shows "range_post cb h N f start m ptr ctx ret t' h' ctx'"
  using assms bt_upd_same [OF assms(1)] unfolding range_post_def by blast

lemma btree_set_range_post:
  assumes wf: "wf_bt h (bt_root t) (bt_height t) N" and fin: "start < fin" "fin < 256 ^ 7"
    and pool: "6 \<le> length (bpool h)"
  shows "\<exists>ret t' h' ctx'. btree_set_range_callback cb h t start fin ptr ctx = Some (ret, t', h', ctx') \<and>
    range_post cb h N (bt_cont h t) start (fin - start) ptr ctx ret t' h' ctx'"
proof -
  have "fin < 256 ^ Suc 6" "6 - bt_height t \<le> length (bpool h)"
    using fin pool by simp_all
  from btree_grow_same [OF wf this(1) _ this(2)] obtain t1 h1 N1 where
    1: "btree_grow h t fin = Some (t1, h1)" "bt_same h t N h1 t1 N1" "fin < 256 ^ Suc (bt_height t1)"
    by auto
  have wf1: "wf_bt h1 (bt_root t1) (bt_height t1) N1" and c1: "bt_cont h1 t1 = bt_cont h t"
    using 1(2) by (simp_all add: bt_same_def)
  have "start < 256 ^ Suc (bt_height t1)"
    using 1(3) fin(1) by simp
  from btree_pos_create [OF wf1 this] obtain r x idx h2 N2 where
    2: "btree_pos h1 t1 start True = Some (r, x, idx, h2)"
      "bt_ext (bt_root t1) (bt_height t1) h1 N1 h2 N2"
      "r = 0 \<and> x = down h2 (bt_root t1) (bt_height t1) (start div 256) \<and> x \<noteq> 0 \<and> idx = start mod 256 \<or>
       r = - ENOMEM \<and> bpool h2 = []"
    unfolding pos_post_def by blast
  have wf2: "wf_bt h2 (bt_root t1) (bt_height t1) N2"
    using 2(2) by (simp add: bt_ext_def)
  have s: "bt_same h t N h2 t1 N2"
    by (rule bt_same_trans [OF 1(2) bt_ext_same [OF 2(2)]])
  from 2(3) show ?thesis
  proof (elim disjE conjE)
    assume "r = - ENOMEM" "bpool h2 = []"
    then show ?thesis
      using 1(1) 2(1) fin(1) bt_same_upd [OF s refl]
      by (auto simp: btree_set_range_callback_def ENOMEM_def range_post_def intro!: exI [of _ N2] exI [of _ 0])
  next
    assume x: "r = 0" "x = down h2 (bt_root t1) (bt_height t1) (start div 256)" "x \<noteq> 0" "idx = start mod 256"
    obtain m where m: "fin = start + Suc m"
      using less_imp_Suc_add [OF fin(1)] by auto
    from btree_range_loop_post [OF wf2 1(3) [unfolded m] x(2) [symmetric] x(3), of cb ptr ctx]
    obtain ret h' ctx' where "btree_range_loop cb h2 x (start mod 256) start fin ptr ctx = Some (ret, h', ctx')"
      "range_post cb h2 N2 (bt_cont h2 t1) start (fin - start) ptr ctx ret t1 h' ctx'"
      by (auto simp: m)
    moreover have "bt_cont h2 t1 = bt_cont h t"
      using s by (simp add: bt_same_def)
    ultimately show ?thesis
      using 1(1) 2(1) fin(1) x range_post_same [OF s] by (auto simp: btree_set_range_callback_def)
  qed
qed

subsection \<open>A new tree\<close>

lemma btree_create_wf:
  assumes "pool_inv (bpool h)" "bpool h = c # ps"
  shows "\<exists>h'. btree_create h = (\<lparr>bt_root = c, bt_height = 0\<rparr>, h') \<and> wf_bt h' c 0 {c} \<and>
    bt_cont h' \<lparr>bt_root = c, bt_height = 0\<rparr> = (\<lambda>_. 0) \<and> bpool h' = ps \<and>
    (\<forall>x. x \<noteq> c \<longrightarrow> bnodes h' x = bnodes h x)"
proof -
  have c: "c \<noteq> 0" "pool_inv ps" "c \<notin> set ps"
    using assms by (auto simp: pool_inv_def)
  let ?h = "h\<lparr>bpool := ps, bnodes := (bnodes h)(c := zero_node)\<rparr>"
  have "btree_create h = (\<lparr>bt_root = c, bt_height = 0\<rparr>, ?h)"
    using assms c by (simp add: btree_create_def btree_node_create_def pool_alloc_def upd_node_def zero_node_def)
  moreover have "wf_bt ?h c 0 {c}"
    using c by (simp add: wf_bt_def zero_node_def)
  moreover have "bt_cont ?h \<lparr>bt_root = c, bt_height = 0\<rparr> = (\<lambda>_. 0)"
    by (simp add: bt_cont_def fun_eq_iff zero_node_def)
  ultimately show ?thesis
    by (intro exI [of _ ?h]) simp
qed

lemma btree_get_loop_above:
  assumes "wf_bt h root H N" "256 ^ Suc H \<le> key"
  shows "btree_get_loop h root key = None"
proof (cases H)
  case 0
  then show ?thesis
    using assms wf_bt_base [OF assms(1)] by (simp add: btree_get_loop.simps BRANCH_NUM_def)
next
  case (Suc n)
  have "n < 7" "bn_height (bnodes h root) = Suc n"
    using wf_bt_base [OF assms(1)] Suc by auto
  moreover have "256 \<le> key div 256 ^ Suc n"
    using assms(2) Suc by (simp add: less_eq_div_iff_mult_less_eq mult.commute)
  ultimately show ?thesis
    by (simp add: btree_get_loop.simps [of h root] max_key_at_small BRANCH_NUM_def Let_def del: power_Suc)
qed

subsection \<open>Properties\<close>

definition btree_example :: btree_heap where
  "btree_example = \<lparr>bnodes = \<lambda>_. zero_node, bpool = 1 # [2..<101], bstray = 0\<rparr>"

lemma btree_example_create:
  "\<exists>h. btree_create btree_example = (\<lparr>bt_root = 1, bt_height = 0\<rparr>, h) \<and> wf_bt h 1 0 {1} \<and>
    bt_cont h \<lparr>bt_root = 1, bt_height = 0\<rparr> = (\<lambda>_. 0) \<and> bpool h = [2..<101]"
proof -
  have "bpool btree_example = 1 # [2..<101]"
    by (simp add: btree_example_def)
  with btree_create_wf [of btree_example 1 "[2..<101]"] show ?thesis
    by (auto simp: btree_example_def pool_inv_def)
qed

text \<open>C14: \<open>btree_set\<close> of a key below \<open>2 ^ 56\<close> succeeds when twelve nodes are left, keeps the tree
  well-formed, and \<open>btree_get\<close> then returns the new pointer for that key and the old content
  for every other key; nodes of other trees are not touched.\<close>

theorem btree_set_get:
  assumes "wf_bt h (bt_root t) (bt_height t) N" "key < 2 ^ 56" "12 \<le> length (bpool h)"
  shows "\<exists>t' h' N'. btree_set h t key v = Some (0, t', h') \<and> wf_bt h' (bt_root t') (bt_height t') N' \<and>
    (\<forall>k < 256 ^ Suc (bt_height t'). btree_get h' t' k = Some (if k = key then v else bt_cont h t k)) \<and>
    (\<forall>x. x \<notin> N \<union> set (bpool h) \<longrightarrow> bnodes h' x = bnodes h x)"
proof -
  have "key < 256 ^ 7"
    using assms(2) by simp
  from btree_set_upd [OF assms(1) this assms(3), of v] obtain t' h' N' where
    r: "btree_set h t key v = Some (0, t', h')" "bt_upd h N ((bt_cont h t)(key := v)) h' t' N'"
    by blast
  from r(2) have u: "wf_bt h' (bt_root t') (bt_height t') N'" "bt_cont h' t' = (bt_cont h t)(key := v)"
    "\<forall>x. x \<notin> N \<union> set (bpool h) \<longrightarrow> bnodes h' x = bnodes h x"
    by (simp_all add: bt_upd_def)
  with btree_get_cont [OF u(1)] r(1) show ?thesis
    by auto
qed

theorem btree_set_get_witness:
  "\<exists>h t' h'. btree_create btree_example = (\<lparr>bt_root = 1, bt_height = 0\<rparr>, h) \<and>
     btree_set h \<lparr>bt_root = 1, bt_height = 0\<rparr> 100000 42 = Some (0, t', h')"
proof -
  obtain h where "btree_create btree_example = (\<lparr>bt_root = 1, bt_height = 0\<rparr>, h)" "wf_bt h 1 0 {1}"
    "bpool h = [2..<101]"
    using btree_example_create by blast
  with btree_set_get [of h "\<lparr>bt_root = 1, bt_height = 0\<rparr>" "{1}" 100000 42] show ?thesis
    by auto
qed

text \<open>C21: \<open>btree_set_range_callback\<close> does what the reference walk over the keys does: it calls the
  callback on each old pointer in order and stores the new pointer, for all keys of the
  range, unless the callback refuses or the nodes run out (\<open>-ENOMEM\<close> after a prefix of the
  range).\<close>

theorem btree_set_range_reference:
  assumes "wf_bt h (bt_root t) (bt_height t) N" "start < fin" "fin < 2 ^ 56" "6 \<le> length (bpool h)"
  shows "\<exists>ret t' h' ctx' N' k f'. btree_set_range_callback cb h t start fin ptr ctx = Some (ret, t', h', ctx') \<and>
    wf_bt h' (bt_root t') (bt_height t') N' \<and> bt_cont h' t' = f' \<and> k \<le> fin - start \<and>
    (range_ref cb (bt_cont h t) start k ptr ctx = (ret, f', ctx') \<and> k = fin - start \<or>
     range_ref cb (bt_cont h t) start k ptr ctx = (0, f', ctx') \<and> ret = - ENOMEM \<and> bpool h' = [])"
proof -
  have "fin < 256 ^ 7"
    using assms(3) by simp
  from btree_set_range_post [OF assms(1,2) this assms(4), of cb ptr ctx] show ?thesis
    unfolding range_post_def bt_upd_def by blast
qed

theorem btree_set_range_reference_witness:
  "\<exists>h ret t' h'. btree_create btree_example = (\<lparr>bt_root = 1, bt_height = 0\<rparr>, h) \<and>
     btree_set_range_callback (None :: unit bt_callback option) h \<lparr>bt_root = 1, bt_height = 0\<rparr> 250 260 7 () =
       Some (ret, t', h', ())"
proof -
  obtain h where "btree_create btree_example = (\<lparr>bt_root = 1, bt_height = 0\<rparr>, h)" "wf_bt h 1 0 {1}"
    "bpool h = [2..<101]"
    using btree_example_create by blast
  with btree_set_range_reference [of h "\<lparr>bt_root = 1, bt_height = 0\<rparr>" "{1}" 250 260
      "None :: unit bt_callback option" 7 "()"] show ?thesis
    by auto
qed

text \<open>\<open>btree_get\<close> does not check the capacity of the tree: for a key at or above it the index
  into \<open>children\<close> is out of bounds.\<close>

theorem btree_get_out_of_bounds:
  assumes "wf_bt h (bt_root t) (bt_height t) N" "256 ^ Suc (bt_height t) \<le> key"
  shows "btree_get h t key = None"
  using btree_get_loop_above [OF assms] by (simp add: btree_get_def)

theorem btree_get_out_of_bounds_witness:
  "\<exists>h. btree_create btree_example = (\<lparr>bt_root = 1, bt_height = 0\<rparr>, h) \<and>
     btree_get h \<lparr>bt_root = 1, bt_height = 0\<rparr> 300 = None"
proof -
  obtain h where "btree_create btree_example = (\<lparr>bt_root = 1, bt_height = 0\<rparr>, h)" "wf_bt h 1 0 {1}"
    using btree_example_create by blast
  with btree_get_out_of_bounds [of h "\<lparr>bt_root = 1, bt_height = 0\<rparr>" "{1}" 300] show ?thesis
    by auto
qed

end
