(* ===== verification/Pm_Layout.thy ===== *)
theory Pm_Layout
  imports Slot_Alloc Btree
begin

text \<open>
  The persistent-memory layout: the constants of \<open>slotfs/config.h\<close>, the on-media structures of
  \<open>inode.h\<close>, \<open>entry.h\<close> and \<open>slotfs.h\<close>, \<open>mkfs.c\<close>, and the part of \<open>shm.c\<close> that loads the bitmaps.

  The media is the record \<open>pmem\<close>: the super block, one bitmap per slot type, one table per
  slot type and the journal pages. \<open>slot_addr\<close> is the address computation of the \<open>IDX2...\<close> macros;
  the layout theorem shows that the slots of all tables, the bitmaps and the journal are pairwise disjoint
  and inside the device, so that a table can be kept as a function of the slot number.
\<close>

subsection \<open>Constants of config.h\<close>

definition PAGE_SHIFT :: nat where
  "PAGE_SHIFT = 12"

definition PAGE_SIZE :: nat where
  "PAGE_SIZE = 4096"

definition DAX_SIZE :: nat where
  "DAX_SIZE = 48 * 1024 * 1024 * 1024"

definition SUPER_BLOCK_MAGIC :: nat where
  "SUPER_BLOCK_MAGIC = 0xdead404dbaddead"

definition MAX_NAME_LEN :: nat where
  "MAX_NAME_LEN = 64"

definition INODE_SLOT_SIZE :: nat where
  "INODE_SLOT_SIZE = 128"

definition DIR_SLOT_SIZE :: nat where
  "DIR_SLOT_SIZE = 256"

definition FILE_SLOT_SIZE :: nat where
  "FILE_SLOT_SIZE = 64"

definition INODE_BITMAP_PAGES :: nat where
  "INODE_BITMAP_PAGES = 10"

definition DIR_BITMAP_PAGES :: nat where
  "DIR_BITMAP_PAGES = 10"

definition SUPER_BLOCK_SIZE :: nat where
  "SUPER_BLOCK_SIZE = 4096"

definition SLOT_META_SIZE :: nat where
  "SLOT_META_SIZE = 4096"

definition JOURNAL_NUM :: nat where
  "JOURNAL_NUM = 256"

definition JOURNAL_SIZE :: nat where
  "JOURNAL_SIZE = 4096 * JOURNAL_NUM"

definition BITMAP_META_SIZE :: nat where
  "BITMAP_META_SIZE = 4096"

definition JOURNAL_START :: nat where
  "JOURNAL_START = SUPER_BLOCK_SIZE + SLOT_META_SIZE"

definition BITMAP_START :: nat where
  "BITMAP_START = JOURNAL_START + JOURNAL_SIZE + BITMAP_META_SIZE"

definition S_IFMT :: nat where
  "S_IFMT = 0xf000"

definition S_IFDIR :: nat where
  "S_IFDIR = 0x4000"

definition S_IFREG :: nat where
  "S_IFREG = 0x8000"

definition S_IFLNK :: nat where
  "S_IFLNK = 0xa000"

definition S_IXUSR :: nat where
  "S_IXUSR = 0x40"

lemmas config_defs = PAGE_SHIFT_def PAGE_SIZE_def INODE_SLOT_SIZE_def DIR_SLOT_SIZE_def FILE_SLOT_SIZE_def
  INODE_BITMAP_PAGES_def DIR_BITMAP_PAGES_def SUPER_BLOCK_SIZE_def SLOT_META_SIZE_def JOURNAL_NUM_def
  JOURNAL_SIZE_def BITMAP_META_SIZE_def JOURNAL_START_def BITMAP_START_def

subsection \<open>On-media structures\<close>

record pm_slot =
  slot_table :: relptr_t
  slot_num :: nat
  slot_size :: nat
  slot_pages :: nat
  slot_bitmap :: relptr_t
  bitmap_pages :: nat

record pm_sb =
  sb_magic :: nat
  sb_mtime :: nat
  sb_ctime :: nat
  sb_size :: nat
  sb_ts :: nat
  sb_slots :: "slot_type \<Rightarrow> pm_slot"
  sb_umount :: bool
  sb_csm :: nat

record pm_inode =
  pi_size :: nat
  pi_uid :: nat
  pi_gid :: nat
  pi_link :: nat
  pi_mode :: nat
  pi_atim :: nat
  pi_mtim :: nat
  pi_ctim :: nat
  pi_log_head :: index_t
  pi_entry_num :: nat
  pi_ts :: nat
  pi_csum :: nat

record pm_dirent =
  pd_name_len :: nat
  pd_name :: string
  pd_ino :: nat
  pd_ts :: nat
  pd_next :: index_t
  pd_csum :: nat

record pm_filent =
  pf_l_idx :: nat
  pf_p_idx :: nat
  pf_blocks :: nat
  pf_ts :: nat
  pf_next :: index_t
  pf_csum :: nat

text \<open>A journal page: the common \<open>valid\<close> and \<open>type\<close> of \<open>journal_t\<close>, the two words that the three
  variants share (\<open>write_jnl_t.ino\<close>, \<open>rename_jnl_t.old_parent\<close>, \<open>truncate_jnl_t.ino\<close> at offset 8;
  \<open>begin\<close>, \<open>new_parent\<close>, \<open>size\<close> at offset 16), and the fields of one variant only.\<close>

record pm_jnl =
  j_valid :: bool
  j_type :: nat
  j_w8 :: index_t
  j_w16 :: nat
  jw_len :: nat
  jw_saved :: bytes
  jr_old_name :: string
  jr_old_len :: nat
  jr_new_name :: string
  jr_new_len :: nat

record pmem =
  super :: pm_sb
  pm_bitmaps :: "slot_type \<Rightarrow> bytes"
  pm_inodes :: "nat \<Rightarrow> pm_inode"
  pm_dirents :: "nat \<Rightarrow> pm_dirent"
  pm_filents :: "nat \<Rightarrow> pm_filent"
  pm_data :: bytes
  pm_jnls :: "nat \<Rightarrow> pm_jnl"

definition crc32c :: "nat \<Rightarrow> 'a \<Rightarrow> nat" where
  "crc32c crc data = 0"

definition zero_pm_inode :: pm_inode where
  "zero_pm_inode = \<lparr>pi_size = 0, pi_uid = 0, pi_gid = 0, pi_link = 0, pi_mode = 0, pi_atim = 0, pi_mtim = 0,
    pi_ctim = 0, pi_log_head = 0, pi_entry_num = 0, pi_ts = 0, pi_csum = 0\<rparr>"

definition zero_pm_dirent :: pm_dirent where
  "zero_pm_dirent = \<lparr>pd_name_len = 0, pd_name = replicate MAX_NAME_LEN (char_of (0::nat)), pd_ino = 0, pd_ts = 0,
    pd_next = 0, pd_csum = 0\<rparr>"

definition zero_pm_filent :: pm_filent where
  "zero_pm_filent = \<lparr>pf_l_idx = 0, pf_p_idx = 0, pf_blocks = 0, pf_ts = 0, pf_next = 0, pf_csum = 0\<rparr>"

definition zero_pm_jnl :: pm_jnl where
  "zero_pm_jnl = \<lparr>j_valid = False, j_type = 0, j_w8 = 0, j_w16 = 0, jw_len = 0, jw_saved = \<lambda>_. 0,
    jr_old_name = replicate MAX_NAME_LEN (char_of (0::nat)), jr_old_len = 0,
    jr_new_name = replicate MAX_NAME_LEN (char_of (0::nat)), jr_new_len = 0\<rparr>"

subsection \<open>mkfs.c\<close>

definition pages_of :: "nat \<Rightarrow> nat \<Rightarrow> nat" where
  "pages_of sz n = drop_bit PAGE_SHIFT (size_sub (size_add (size_mul sz n) PAGE_SIZE) 1)"

definition mkfs_layout :: "(slot_type \<Rightarrow> pm_slot) \<Rightarrow> nat \<Rightarrow> slot_type \<Rightarrow> pm_slot" where
  "mkfs_layout old sz =
    (let remain_pages = drop_bit PAGE_SHIFT (size_sub sz BITMAP_START);
         ibp = INODE_BITMAP_PAGES; dbp = DIR_BITMAP_PAGES;
         inum = push_bit (PAGE_SHIFT + 3) ibp; dnum = push_bit (PAGE_SHIFT + 3) dbp;
         isp = pages_of INODE_SLOT_SIZE inum; dsp = pages_of DIR_SLOT_SIZE dnum;
         remain_pages = size_sub remain_pages (ibp + dbp + isp + dsp);
         fnum = size_mul (size_mul remain_pages PAGE_SIZE div (PAGE_SIZE + FILE_SLOT_SIZE)) 6 div 5;
         fsp = pages_of FILE_SLOT_SIZE fnum;
         fbp = size_add (drop_bit (PAGE_SHIFT + 3) fnum) 1;
         remain_pages = size_sub remain_pages (size_add fbp fsp);
         xbp = size_add (drop_bit (PAGE_SHIFT + 3) remain_pages) 1;
         remain_pages = size_sub remain_pages xbp;
         ibm = BITMAP_START; dbm = size_add ibm (push_bit PAGE_SHIFT ibp);
         fbm = size_add dbm (push_bit PAGE_SHIFT dbp); xbm = size_add fbm (size_mul fbp PAGE_SIZE);
         itab = size_add xbm (size_mul xbp PAGE_SIZE); dtab = size_add itab (size_mul isp PAGE_SIZE);
         ftab = size_add dtab (size_mul dsp PAGE_SIZE); xtab = size_add ftab (size_mul fsp PAGE_SIZE)
     in (\<lambda>t. case t of
           SLOT_INODE \<Rightarrow> \<lparr>slot_table = itab, slot_num = inum, slot_size = INODE_SLOT_SIZE, slot_pages = isp,
             slot_bitmap = ibm, bitmap_pages = ibp\<rparr>
         | SLOT_DIR \<Rightarrow> \<lparr>slot_table = dtab, slot_num = dnum, slot_size = DIR_SLOT_SIZE, slot_pages = dsp,
             slot_bitmap = dbm, bitmap_pages = dbp\<rparr>
         | SLOT_FILE \<Rightarrow> \<lparr>slot_table = ftab, slot_num = fnum, slot_size = FILE_SLOT_SIZE, slot_pages = fsp,
             slot_bitmap = fbm, bitmap_pages = fbp\<rparr>
         | SLOT_DATA \<Rightarrow> \<lparr>slot_table = xtab, slot_num = remain_pages, slot_size = 4096, slot_pages = slot_pages (old SLOT_DATA),
             slot_bitmap = xbm, bitmap_pages = xbp\<rparr>))"

definition mkfs_journal :: "pmem \<Rightarrow> pmem" where
  "mkfs_journal m = m\<lparr>pm_jnls := \<lambda>i. if i < JOURNAL_NUM then zero_pm_jnl else pm_jnls m i\<rparr>"

text \<open>\<open>mkfs_slot\<close> fills in \<open>sb->slots\<close>, clears the bitmaps and the tables but the data, and
  reserves slot 0 of every table and slot 1 of the directory entries.\<close>

definition mkfs_slot :: "pm_sb \<Rightarrow> pmem \<Rightarrow> pm_sb \<times> pmem" where
  "mkfs_slot sb m =
    (let sb = sb\<lparr>sb_slots := mkfs_layout (sb_slots sb) (sb_size sb)\<rparr>;
         slots = sb_slots sb;
         clr = (\<lambda>t b. \<lambda>i. if i < bitmap_pages (slots t) * PAGE_SIZE then 0 else b i);
         m = m\<lparr>pm_bitmaps := \<lambda>t. clr t (pm_bitmaps m t),
               pm_inodes := \<lambda>i. if i < slot_num (slots SLOT_INODE) then zero_pm_inode else pm_inodes m i,
               pm_dirents := \<lambda>i. if i < slot_num (slots SLOT_DIR) then zero_pm_dirent else pm_dirents m i,
               pm_filents := \<lambda>i. if i < slot_num (slots SLOT_FILE) then zero_pm_filent else pm_filents m i\<rparr>;
         m = m\<lparr>pm_bitmaps := \<lambda>t. set_bit 0 (pm_bitmaps m t)\<rparr>;
         m = m\<lparr>pm_bitmaps := (pm_bitmaps m)(SLOT_DIR := set_bit 1 (pm_bitmaps m SLOT_DIR))\<rparr>
     in (sb, m))"

definition mkfs_rootinode :: "nat \<Rightarrow> pmem \<Rightarrow> pmem" where
  "mkfs_rootinode now m =
    (let root = (pm_inodes m 0)\<lparr>pi_mode := S_IFDIR OR 0x1ed, pi_uid := 0, pi_gid := 0, pi_size := 0,
           pi_link := 1, pi_ctim := now, pi_mtim := now, pi_atim := now, pi_log_head := 1,
           pi_entry_num := 0, pi_ts := 0\<rparr>;
         root = root\<lparr>pi_csum := crc32c 0 root\<rparr>;
         m = m\<lparr>pm_inodes := (pm_inodes m)(0 := root)\<rparr>
     in m\<lparr>pm_bitmaps := (pm_bitmaps m)(SLOT_INODE := set_bit 0 (pm_bitmaps m SLOT_INODE))\<rparr>)"

definition mkfs :: "nat \<Rightarrow> pm_sb \<Rightarrow> pmem \<Rightarrow> pmem" where
  "mkfs now sb m =
    (let sb = sb\<lparr>sb_magic := SUPER_BLOCK_MAGIC, sb_size := DAX_SIZE, sb_ctime := now, sb_mtime := now,
           sb_ts := 0, sb_umount := True\<rparr>;
         m = mkfs_journal m;
         (sb, m) = mkfs_slot sb m;
         m = mkfs_rootinode now m;
         sb = sb\<lparr>sb_csm := crc32c 0 sb\<rparr>
     in m\<lparr>super := sb\<rparr>)"

subsection \<open>The layout\<close>

definition slot_addr :: "(slot_type \<Rightarrow> pm_slot) \<Rightarrow> slot_type \<Rightarrow> nat \<Rightarrow> relptr_t" where
  "slot_addr slots t idx = slot_table (slots t) + idx * slot_size (slots t)"

lemma size_page_shift: "drop_bit 12 n = n div 4096" "drop_bit 15 n = n div (32768::nat)" "push_bit 12 n = n * (4096::nat)"
    "push_bit 15 n = n * (32768::nat)"
  by (simp_all add: drop_bit_eq_div push_bit_eq_mult)

lemma mkfs_layout_eq:
  assumes "2 ^ 28 \<le> sz" "sz < 2 ^ 50"
  defines "R \<equiv> (sz - 1060864) div 4096 - 30740"
  defines "q \<equiv> R * 4096 div 4160"
  defines "fnum \<equiv> q * 6 div 5"
  defines "fsp \<equiv> (64 * fnum + 4095) div 4096"
  defines "fbp \<equiv> fnum div 32768 + 1"
  defines "R2 \<equiv> R - (fbp + fsp)"
  defines "xbp \<equiv> R2 div 32768 + 1"
  defines "itab \<equiv> 1142784 + fbp * 4096 + xbp * 4096"
  shows "mkfs_layout old sz = (\<lambda>t. case t of
       SLOT_INODE \<Rightarrow> \<lparr>slot_table = itab, slot_num = 327680, slot_size = 128, slot_pages = 10240,
         slot_bitmap = 1060864, bitmap_pages = 10\<rparr>
     | SLOT_DIR \<Rightarrow> \<lparr>slot_table = itab + 41943040, slot_num = 327680, slot_size = 256, slot_pages = 20480,
         slot_bitmap = 1101824, bitmap_pages = 10\<rparr>
     | SLOT_FILE \<Rightarrow> \<lparr>slot_table = itab + 125829120, slot_num = fnum, slot_size = 64, slot_pages = fsp,
         slot_bitmap = 1142784, bitmap_pages = fbp\<rparr>
     | SLOT_DATA \<Rightarrow> \<lparr>slot_table = itab + 125829120 + fsp * 4096, slot_num = R2 - xbp, slot_size = 4096,
         slot_pages = slot_pages (old SLOT_DATA), slot_bitmap = 1142784 + fbp * 4096, bitmap_pages = xbp\<rparr>)"
      (is "_ = ?L")
    and "fbp + fsp \<le> R" "xbp \<le> R2" "64 * fnum \<le> fsp * 4096" "fnum \<le> fbp * 32768" "R2 \<le> xbp * 32768"
      "1060864 + (R + 30740) * 4096 \<le> sz" "fbp + fsp + R2 = R" "fnum < 2 ^ 40"
proof -
  have R: "34536 \<le> R" "1060864 + (R + 30740) * 4096 \<le> sz" "R < 2 ^ 38"
    using assms(1,2) unfolding R_def by simp_all
  have b: "4160 * q \<le> R * 4096" "5 * fnum \<le> 6 * q" "4096 * fsp \<le> 64 * fnum + 4095" "64 * fnum \<le> 4096 * fsp"
    "32768 * (fbp - 1) \<le> fnum" "fnum \<le> fbp * 32768" "0 < fbp"
    unfolding q_def fnum_def fsp_def fbp_def by simp_all
  show "1060864 + (R + 30740) * 4096 \<le> sz" by (rule R)
  show f: "fbp + fsp \<le> R"
    using R(1) b by linarith
  then show e: "fbp + fsp + R2 = R"
    by (simp add: R2_def)
  have R2: "1000 \<le> R2"
    using R(1) b e by linarith
  then show x: "xbp \<le> R2" unfolding xbp_def by simp
  show "64 * fnum \<le> fsp * 4096" "fnum \<le> fbp * 32768"
    using b by simp_all
  show "R2 \<le> xbp * 32768" unfolding xbp_def by simp
  have "R < 274877906944" "sz < 1125899906842624"
    using R(3) assms(2) by simp_all
  then have n: "fnum < 400000000000" "R < 274877906944" "sz < 1125899906842624"
    using b by linarith+
  then show "fnum < 2 ^ 40" by simp
  have small: "fsp < 274877906944" "fbp < 274877906944" "R2 < 274877906944" "xbp < 274877906944"
    using n e x by linarith+
  have "Suc (fnum div 32768) = fbp" "Suc (R2 div 32768) = xbp"
    by (simp_all add: fbp_def xbp_def)
  then have s: "size_sub sz 1060864 = sz - 1060864" "size_sub ((sz - 1060864) div 4096) 30740 = R"
    "size_mul R 4096 = R * 4096" "size_mul q 6 = q * 6" "size_sub (size_add (size_mul 64 fnum) 4096) 1 = 64 * fnum + 4095"
    "size_add (fnum div 32768) 1 = fbp" "size_add fbp fsp = fbp + fsp" "size_sub R (fbp + fsp) = R2"
    "size_add (R2 div 32768) 1 = xbp" "size_sub R2 xbp = R2 - xbp"
    using assms(1) n small f e x b by (simp_all add: R_def [symmetric] R2_def [symmetric])
  have a: "size_mul fbp 4096 = fbp * 4096" "size_add 1142784 (fbp * 4096) = 1142784 + fbp * 4096"
    "size_mul xbp 4096 = xbp * 4096" "size_add (1142784 + fbp * 4096) (xbp * 4096) = itab"
    "size_add itab 41943040 = itab + 41943040" "size_add (itab + 41943040) 83886080 = itab + 125829120"
    "size_mul fsp 4096 = fsp * 4096" "size_add (itab + 125829120) (fsp * 4096) = itab + 125829120 + fsp * 4096"
    using small by (simp_all add: itab_def)
  have c: "size_mul 10240 4096 = 41943040" "size_mul 20480 4096 = 83886080" "size_add 1060864 40960 = 1101824"
    "size_add 1101824 40960 = 1142784" "size_sub (size_add (size_mul 128 327680) 4096) 1 div 4096 = 10240"
    "size_sub (size_add (size_mul 256 327680) 4096) 1 div 4096 = 20480"
    by simp_all
  show "mkfs_layout old sz = ?L"
    unfolding mkfs_layout_def pages_of_def config_defs
    by (simp only: size_page_shift arith_simps s a c Let_def q_def [symmetric] fnum_def [symmetric] fsp_def [symmetric])
qed

definition apart :: "nat \<Rightarrow> nat \<Rightarrow> nat \<Rightarrow> nat \<Rightarrow> bool" where
  "apart a n b m \<longleftrightarrow> a + n \<le> b \<or> b + m \<le> a"

text \<open>The tables in the order of their addresses.\<close>

primrec slot_rank :: "slot_type \<Rightarrow> nat" where
  "slot_rank SLOT_INODE = 0"
| "slot_rank SLOT_DIR = 1"
| "slot_rank SLOT_FILE = 2"
| "slot_rank SLOT_DATA = 3"

lemma slot_rank_inj: "slot_rank t = slot_rank u \<longleftrightarrow> t = u"
  by (cases t; cases u) simp_all

lemma mkfs_layout_facts:
  fixes old :: "slot_type \<Rightarrow> pm_slot"
  assumes "2 ^ 28 \<le> sz" "sz < 2 ^ 50"
  defines "L \<equiv> mkfs_layout old sz"
  shows "slot_rank t < slot_rank u \<Longrightarrow> slot_table (L t) + slot_num (L t) * slot_size (L t) \<le> slot_table (L u)"
    "slot_rank t < slot_rank u \<Longrightarrow> slot_bitmap (L t) + bitmap_pages (L t) * 4096 \<le> slot_bitmap (L u)"
    "slot_bitmap (L t) + bitmap_pages (L t) * 4096 \<le> slot_table (L u)"
    "slot_table (L t) + slot_num (L t) * slot_size (L t) \<le> sz"
    "slot_num (L t) \<le> bitmap_pages (L t) * 32768" "BITMAP_START \<le> slot_bitmap (L t)" "0 < slot_size (L t)"
proof -
  obtain R fnum fsp fbp R2 xbp where E: "mkfs_layout old sz = (\<lambda>t. case t of
       SLOT_INODE \<Rightarrow> \<lparr>slot_table = 1142784 + fbp * 4096 + xbp * 4096, slot_num = 327680, slot_size = 128,
         slot_pages = 10240, slot_bitmap = 1060864, bitmap_pages = 10\<rparr>
     | SLOT_DIR \<Rightarrow> \<lparr>slot_table = 1142784 + fbp * 4096 + xbp * 4096 + 41943040, slot_num = 327680, slot_size = 256,
         slot_pages = 20480, slot_bitmap = 1101824, bitmap_pages = 10\<rparr>
     | SLOT_FILE \<Rightarrow> \<lparr>slot_table = 1142784 + fbp * 4096 + xbp * 4096 + 125829120, slot_num = fnum, slot_size = 64,
         slot_pages = fsp, slot_bitmap = 1142784, bitmap_pages = fbp\<rparr>
     | SLOT_DATA \<Rightarrow> \<lparr>slot_table = 1142784 + fbp * 4096 + xbp * 4096 + 125829120 + fsp * 4096, slot_num = R2 - xbp,
         slot_size = 4096, slot_pages = slot_pages (old SLOT_DATA), slot_bitmap = 1142784 + fbp * 4096,
         bitmap_pages = xbp\<rparr>)"
    and F: "fbp + fsp \<le> R" "xbp \<le> R2" "64 * fnum \<le> fsp * 4096" "fnum \<le> fbp * 32768" "R2 \<le> xbp * 32768"
      "1060864 + (R + 30740) * 4096 \<le> sz" "fbp + fsp + R2 = R"
    using mkfs_layout_eq(1-8) [OF assms(1,2)] by (rule that)
  show "0 < slot_size (L t)" "slot_num (L t) \<le> bitmap_pages (L t) * 32768"
      "BITMAP_START \<le> slot_bitmap (L t)"
    using F unfolding L_def E by (cases t; simp add: config_defs)+
  show "slot_bitmap (L t) + bitmap_pages (L t) * 4096 \<le> slot_table (L u)"
    unfolding L_def E by (cases t; cases u; simp)
  show "slot_table (L t) + slot_num (L t) * slot_size (L t) \<le> sz"
    using F unfolding L_def E by (cases t; simp)
  show "slot_rank t < slot_rank u \<Longrightarrow> slot_bitmap (L t) + bitmap_pages (L t) * 4096 \<le> slot_bitmap (L u)"
    unfolding L_def E by (cases t; cases u; simp)
  show "slot_rank t < slot_rank u \<Longrightarrow> slot_table (L t) + slot_num (L t) * slot_size (L t) \<le> slot_table (L u)"
    using F(3) unfolding L_def E by (cases t; cases u; simp)
qed

lemma slots_in_table:
  "i < (n::nat) \<Longrightarrow> tab + i * sz + sz \<le> tab + n * sz"
  using mult_le_mono1 [of "Suc i" n sz] by simp

lemma slot_addr_apart:
  fixes old :: "slot_type \<Rightarrow> pm_slot"
  assumes "2 ^ 28 \<le> sz" "sz < 2 ^ 50"
  defines "L \<equiv> mkfs_layout old sz"
  assumes "i < slot_num (L t)" "j < slot_num (L u)" "(t, i) \<noteq> (u, j)"
  shows "apart (slot_addr L t i) (slot_size (L t)) (slot_addr L u j) (slot_size (L u))"
proof (cases "t = u")
  case True
  then consider "i < j" | "j < i" using assms(6) by force
  then show ?thesis
    using slots_in_table [of i j "slot_table (L u)" "slot_size (L u)"]
      slots_in_table [of j i "slot_table (L u)" "slot_size (L u)"] True
    by cases (simp_all add: apart_def slot_addr_def)
next
  case False
  note F = mkfs_layout_facts(1) [OF assms(1,2), where old = old, folded L_def]
  have "slot_rank t < slot_rank u \<or> slot_rank u < slot_rank t"
    using False slot_rank_inj [of t u] by linarith
  then show ?thesis
    using F [of t u] F [of u t] slots_in_table [OF assms(4), of "slot_table (L t)" "slot_size (L t)"]
      slots_in_table [OF assms(5), of "slot_table (L u)" "slot_size (L u)"]
    by (auto simp: apart_def slot_addr_def)
qed

text \<open>C23: The media layout that \<open>mkfs_slot\<close> computes, for every device size from 256 MiB up to 1 PiB: any two
  different slots of any tables occupy disjoint byte ranges, every slot lies inside the device and
  behind all the bitmaps, the bitmaps are disjoint from each other, lie behind the journal area, and
  are large enough for the slots they describe.\<close>

theorem mkfs_layout_disjoint:
  assumes "2 ^ 28 \<le> sz" "sz < 2 ^ 50"
  shows "(\<forall>t u i j. i < slot_num (mkfs_layout old sz t) \<and> j < slot_num (mkfs_layout old sz u) \<and> (t, i) \<noteq> (u, j) \<longrightarrow>
      apart (slot_addr (mkfs_layout old sz) t i) (slot_size (mkfs_layout old sz t))
        (slot_addr (mkfs_layout old sz) u j) (slot_size (mkfs_layout old sz u))) \<and>
    (\<forall>t u i. i < slot_num (mkfs_layout old sz t) \<longrightarrow>
      slot_addr (mkfs_layout old sz) t i + slot_size (mkfs_layout old sz t) \<le> sz \<and>
      slot_bitmap (mkfs_layout old sz u) + bitmap_pages (mkfs_layout old sz u) * PAGE_SIZE \<le> slot_addr (mkfs_layout old sz) t i) \<and>
    (\<forall>t u. t \<noteq> u \<longrightarrow> apart (slot_bitmap (mkfs_layout old sz t)) (bitmap_pages (mkfs_layout old sz t) * PAGE_SIZE)
      (slot_bitmap (mkfs_layout old sz u)) (bitmap_pages (mkfs_layout old sz u) * PAGE_SIZE)) \<and>
    (\<forall>t. JOURNAL_START + JOURNAL_SIZE \<le> slot_bitmap (mkfs_layout old sz t) \<and>
      slot_num (mkfs_layout old sz t) \<le> bitmap_pages (mkfs_layout old sz t) * PAGE_SIZE * 8)"
proof (intro conjI allI impI)
  note F = mkfs_layout_facts [OF assms, where old = old]
  fix t u i j
  show "apart (slot_addr (mkfs_layout old sz) t i) (slot_size (mkfs_layout old sz t))
      (slot_addr (mkfs_layout old sz) u j) (slot_size (mkfs_layout old sz u))"
    if "i < slot_num (mkfs_layout old sz t) \<and> j < slot_num (mkfs_layout old sz u) \<and> (t, i) \<noteq> (u, j)"
    using that slot_addr_apart [OF assms, of i old t j u] by simp
  show "slot_addr (mkfs_layout old sz) t i + slot_size (mkfs_layout old sz t) \<le> sz"
    if "i < slot_num (mkfs_layout old sz t)"
    using slots_in_table [OF that, of "slot_table (mkfs_layout old sz t)" "slot_size (mkfs_layout old sz t)"] F(4) [of t]
    by (simp add: slot_addr_def)
  show "slot_bitmap (mkfs_layout old sz u) + bitmap_pages (mkfs_layout old sz u) * PAGE_SIZE \<le> slot_addr (mkfs_layout old sz) t i"
    using F(3) [of u t] by (simp add: slot_addr_def PAGE_SIZE_def)
  show "apart (slot_bitmap (mkfs_layout old sz t)) (bitmap_pages (mkfs_layout old sz t) * PAGE_SIZE)
      (slot_bitmap (mkfs_layout old sz u)) (bitmap_pages (mkfs_layout old sz u) * PAGE_SIZE)" if "t \<noteq> u"
    using F(2) [of t u] F(2) [of u t] that slot_rank_inj [of t u]
    by (cases "slot_rank t < slot_rank u") (auto simp: apart_def PAGE_SIZE_def)
  show "JOURNAL_START + JOURNAL_SIZE \<le> slot_bitmap (mkfs_layout old sz t)"
    using F(6) [of t] by (simp add: BITMAP_START_def)
  show "slot_num (mkfs_layout old sz t) \<le> bitmap_pages (mkfs_layout old sz t) * PAGE_SIZE * 8"
    using F(5) [of t] by (simp add: PAGE_SIZE_def)
qed

definition no_slots :: "slot_type \<Rightarrow> pm_slot" where
  "no_slots = (\<lambda>_. \<lparr>slot_table = 0, slot_num = 0, slot_size = 0, slot_pages = 0, slot_bitmap = 0, bitmap_pages = 0\<rparr>)"

lemma dax_layout:
  "mkfs_layout old DAX_SIZE = (\<lambda>t. case t of
       SLOT_INODE \<Rightarrow> \<lparr>slot_table = 4538368, slot_num = 327680, slot_size = 128, slot_pages = 10240,
         slot_bitmap = 1060864, bitmap_pages = 10\<rparr>
     | SLOT_DIR \<Rightarrow> \<lparr>slot_table = 46481408, slot_num = 327680, slot_size = 256, slot_pages = 20480,
         slot_bitmap = 1101824, bitmap_pages = 10\<rparr>
     | SLOT_FILE \<Rightarrow> \<lparr>slot_table = 130367488, slot_num = 14830567, slot_size = 64, slot_pages = 231728,
         slot_bitmap = 1142784, bitmap_pages = 453\<rparr>
     | SLOT_DATA \<Rightarrow> \<lparr>slot_table = 1079525376, slot_num = 12319356, slot_size = 4096, slot_pages = slot_pages (old SLOT_DATA),
         slot_bitmap = 2998272, bitmap_pages = 376\<rparr>)"
  using mkfs_layout_eq(1) [of DAX_SIZE old] by (simp add: DAX_SIZE_def)

theorem mkfs_layout_disjoint_witness:
  "apart (slot_addr (mkfs_layout no_slots DAX_SIZE) SLOT_INODE 7) 128
    (slot_addr (mkfs_layout no_slots DAX_SIZE) SLOT_DATA 5) 4096"
proof -
  have "2 ^ 28 \<le> DAX_SIZE" "DAX_SIZE < 2 ^ 50"
    by (simp_all add: DAX_SIZE_def)
  from conjunct1 [OF mkfs_layout_disjoint [OF this], rule_format, of 7 no_slots SLOT_INODE 5 SLOT_DATA]
  show ?thesis
    by (simp add: dax_layout)
qed

subsection \<open>Loading the bitmaps (shm.c)\<close>

text \<open>The inner loop of \<open>shm_init_bitmap\<close>, for the maps \<open>j, ..., num - 1\<close> of one slot type: \<open>src\<close> is the
  bitmap on the media, \<open>off\<close> the byte offset in it and \<open>rest\<close> the memory behind the copied bytes.\<close>

primrec shm_maps_loop :: "bytes \<Rightarrow> relptr_t \<Rightarrow> bytes \<Rightarrow> nat \<Rightarrow> nat \<Rightarrow> nat \<Rightarrow> nat \<Rightarrow> nat \<Rightarrow> dram_bitmap list" where
  "shm_maps_loop src base rest bits_per_map 0 off boff total_bits = []"
| "shm_maps_loop src base rest bits_per_map (Suc left) off boff total_bits =
    (let bits = (if left = 0 then total_bits else bits_per_map);
         bytes = size_add bits 7 div 8;
         mem = (\<lambda>i. if i < bytes then src (off + i) else rest i);
         bit_count = c_int (count_bits mem bytes);
         m = \<lparr>dram = mem, pm = base + off, bit_offset = boff, bit_num = bits,
              remain = size_sub bits (to_size bit_count), hint = to_size (next_zero_bit mem bits 0)\<rparr>
     in m # shm_maps_loop src base rest bits_per_map left (off + bytes) (size_add boff bits)
              (size_sub total_bits bits))"

definition ROUND_UP :: "nat \<Rightarrow> nat \<Rightarrow> nat" where
  "ROUND_UP n d = size_sub (size_add n d) 1 div d * d"

definition shm_init_bitmap :: "bytes \<Rightarrow> pmem \<Rightarrow> slot_maps" where
  "shm_init_bitmap rest m t =
    (let slots = sb_slots (super m) t; total_bits = slot_num slots
     in shm_maps_loop (pm_bitmaps m t) (slot_bitmap slots) rest (ROUND_UP (total_bits div MAP_NUM) 64) MAP_NUM 0 0
          total_bits)"

lemma card_clear_bits:
  fixes n :: nat
  shows "card {i. i < n \<and> \<not> P i} = n - card {i. i < n \<and> P i}"
proof -
  have "{i. i < n \<and> \<not> P i} = {..<n} - {i. i < n \<and> P i}" by auto
  then show ?thesis
    by (simp add: card_Diff_subset subset_eq)
qed

lemma shm_map_wf:
  assumes "n < 2 ^ 31" "\<And>i. n \<le> i \<Longrightarrow> i < 8 * ((n + 7) div 8) \<Longrightarrow> \<not> bit_at mem i"
  shows "wf_bitmap \<lparr>dram = mem, pm = p, bit_offset = off, bit_num = n,
    remain = size_sub n (to_size (c_int (count_bits mem ((n + 7) div 8)))), hint = to_size (next_zero_bit mem n 0)\<rparr>"
proof -
  have le: "n \<le> 8 * ((n + 7) div 8)" by simp
  have "{i. i < 8 * ((n + 7) div 8) \<and> bit_at mem i} = {i. i < n \<and> bit_at mem i}"
    using assms(2) le by (auto simp: not_less dest: order_less_le_trans) (meson leI)
  then have c: "count_bits mem ((n + 7) div 8) = card {i. i < n \<and> bit_at mem i}"
    by (simp add: count_bits_ones)
  have k: "card {i. i < n \<and> bit_at mem i} \<le> n"
    using card_mono [of "{..<n}" "{i. i < n \<and> bit_at mem i}"] by auto
  have "next_zero_bit_from mem n 0 \<le> n"
    using next_zero_bit_from_bounds [of 0 n mem] by simp
  then show ?thesis
    using assms(1) k by (simp add: wf_bitmap_def c card_clear_bits next_zero_bit_small)
qed

lemma mkfs_bit_at:
  assumes "i < 8 * (bitmap_pages (mkfs_layout (sb_slots sb) DAX_SIZE t) * PAGE_SIZE)"
  shows "bit_at (pm_bitmaps (mkfs now sb m) t) i \<longleftrightarrow> i = 0 \<or> (t = SLOT_DIR \<and> i = 1)"
proof -
  have "bit_at (\<lambda>i. if i < N * PAGE_SIZE then 0 else b i) i \<longleftrightarrow> False" if "i < 8 * (N * PAGE_SIZE)" for N b
    using that by (simp add: bit_at_def less_mult_imp_div_less mult.commute)
  with assms show ?thesis
    by (auto simp: mkfs_def mkfs_journal_def mkfs_slot_def mkfs_rootinode_def Let_def)
qed

lemma mkfs_super: "sb_slots (super (mkfs now sb m)) = mkfs_layout (sb_slots sb) DAX_SIZE"
  by (simp add: mkfs_def mkfs_slot_def Let_def)

lemma dax_slot_num:
  "0 < slot_num (mkfs_layout old DAX_SIZE t)" "slot_num (mkfs_layout old DAX_SIZE t) < 2 ^ 31"
  "(slot_num (mkfs_layout old DAX_SIZE t) + 7) div 8 \<le> bitmap_pages (mkfs_layout old DAX_SIZE t) * PAGE_SIZE"
  "1 < slot_num (mkfs_layout old DAX_SIZE t)"
  by (cases t; simp add: dax_layout PAGE_SIZE_def)+

lemma mkfs_maps:
  "wf_maps MAP_NUM (shm_init_bitmap rest (mkfs now sb m) t) \<and>
   used_slots (shm_init_bitmap rest (mkfs now sb m) t) = (if t = SLOT_DIR then {0, 1} else {0}) \<and>
   all_slots (shm_init_bitmap rest (mkfs now sb m) t) = {0..<slot_num (sb_slots (super (mkfs now sb m)) t)}"
proof -
  define n where "n = slot_num (mkfs_layout (sb_slots sb) DAX_SIZE t)"
  define mem where "mem = (\<lambda>i. if i < (n + 7) div 8 then pm_bitmaps (mkfs now sb m) t i else rest i)"
  have n: "0 < n" "n < 2 ^ 31" "1 < n" "(n + 7) div 8 \<le> bitmap_pages (mkfs_layout (sb_slots sb) DAX_SIZE t) * PAGE_SIZE"
    using dax_slot_num by (simp_all add: n_def)
  have bit: "bit_at mem i \<longleftrightarrow> i = 0 \<or> (t = SLOT_DIR \<and> i = 1)" if "i < 8 * ((n + 7) div 8)" for i
  proof -
    have "i div 8 < (n + 7) div 8"
      using that by (simp add: less_mult_imp_div_less mult.commute)
    then have "bit_at mem i \<longleftrightarrow> bit_at (pm_bitmaps (mkfs now sb m) t) i"
      by (simp add: bit_at_def mem_def)
    with that n(4) mkfs_bit_at [of i sb t now m] show ?thesis by linarith
  qed
  have eq: "shm_init_bitmap rest (mkfs now sb m) t = [\<lparr>dram = mem, pm = slot_bitmap (mkfs_layout (sb_slots sb) DAX_SIZE t),
      bit_offset = 0, bit_num = n, remain = size_sub n (to_size (c_int (count_bits mem ((n + 7) div 8)))),
      hint = to_size (next_zero_bit mem n 0)\<rparr>]"
    using n(2) by (simp add: shm_init_bitmap_def mkfs_super MAP_NUM_def n_def [symmetric] mem_def Let_def cong: if_cong)
  have "wf_bitmap (hd (shm_init_bitmap rest (mkfs now sb m) t))"
    unfolding eq list.sel using bit n by (intro shm_map_wf) auto
  then show ?thesis
    using n bit unfolding eq
    by (auto simp: wf_maps_def MAP_NUM_def used_slots_def all_slots_def bitmap_slots_def mkfs_super n_def [symmetric])
qed

text \<open>C24: After \<open>mkfs\<close>, \<open>shm_init_bitmap\<close> builds allocator maps that satisfy the allocator's invariant (so the counters
  agree with the bits), cover all slots of the tables, and have exactly the reserved slots in use: slot 0 of
  every table, and slot 1 of the directory entries, the ghost slot of the root directory.\<close>

theorem mkfs_mount_maps:
  "wf_maps MAP_NUM (shm_init_bitmap rest (mkfs now sb m) t) \<and>
   used_slots (shm_init_bitmap rest (mkfs now sb m) t) = (if t = SLOT_DIR then {0, 1} else {0}) \<and>
   all_slots (shm_init_bitmap rest (mkfs now sb m) t) = {0..<slot_num (sb_slots (super (mkfs now sb m)) t)}"
  by (rule mkfs_maps)

end
