(* ===== verification/Heap_Alloc.thy ===== *)
theory Heap_Alloc
  imports Slot_Prelude
begin

text \<open>
  The boundary-tag allocator of \<open>slotfs/heap/heap.c\<close> and its size-ordered bins of \<open>llist.c\<close>.

  A block has a header (\<open>node_t\<close>, 24 bytes) and a footer (8 bytes) that points back to the header. The
  store keeps the headers by address, the footers by address, and the bin heads. Loops over pointers are
  partial functions. \<open>expand\<close> and \<open>contract\<close> do nothing in this code.
\<close>

subsection \<open>Data\<close>

definition MIN_ALLOC_SZ :: nat where
  "MIN_ALLOC_SZ = 4"

definition MIN_WILDERNESS :: nat where
  "MIN_WILDERNESS = 0x2000"

definition MAX_WILDERNESS :: nat where
  "MAX_WILDERNESS = 0x1000000"

definition BIN_COUNT :: nat where
  "BIN_COUNT = 32"

definition BIN_MAX_IDX :: nat where
  "BIN_MAX_IDX = BIN_COUNT - 1"

definition sizeof_node :: nat where
  "sizeof_node = 24"

definition sizeof_footer :: nat where
  "sizeof_footer = 8"

definition overhead :: nat where
  "overhead = sizeof_footer + sizeof_node"

text \<open>\<open>offset\<close>, the distance from a header to the memory given to the caller.\<close>

definition node_offset :: nat where
  "node_offset = 8"

record node_t =
  nd_hole :: nat
  nd_size :: nat
  nd_next :: nat
  nd_prev :: nat

record heap_t =
  hnodes :: "nat \<Rightarrow> node_t"
  hfoots :: "nat \<Rightarrow> nat"
  hbins :: "nat \<Rightarrow> nat"
  hstart :: nat
  hend :: nat

definition uint32 :: "nat \<Rightarrow> nat" where
  "uint32 n = n mod 2 ^ 32"

definition upd_hnode :: "heap_t \<Rightarrow> nat \<Rightarrow> (node_t \<Rightarrow> node_t) \<Rightarrow> heap_t" where
  "upd_hnode h a f = h\<lparr>hnodes := (hnodes h)(a := f (hnodes h a))\<rparr>"

definition set_bin :: "heap_t \<Rightarrow> nat \<Rightarrow> nat \<Rightarrow> heap_t" where
  "set_bin h i a = h\<lparr>hbins := (hbins h)(i := a)\<rparr>"

subsection \<open>Bins (llist.c)\<close>

text \<open>The walk of \<open>add_node\<close>: the pair of \<open>previous\<close> and \<open>current\<close> at its end.\<close>

partial_function (option) add_node_walk :: "heap_t \<Rightarrow> nat \<Rightarrow> nat \<Rightarrow> nat \<Rightarrow> (nat \<times> nat) option" where
  [code]: "add_node_walk h sz previous current =
    (if current \<noteq> 0 \<and> nd_size (hnodes h current) \<le> sz
     then add_node_walk h sz current (nd_next (hnodes h current))
     else Some (previous, current))"

definition add_node :: "heap_t \<Rightarrow> nat \<Rightarrow> nat \<Rightarrow> heap_t option" where
  "add_node h bin node =
    (let h = upd_hnode h node (\<lambda>n. n\<lparr>nd_next := 0\<rparr>); h = upd_hnode h node (\<lambda>n. n\<lparr>nd_prev := 0\<rparr>)
     in if hbins h bin = 0 then Some (set_bin h bin node)
        else Option.bind (add_node_walk h (nd_size (hnodes h node)) 0 (hbins h bin)) (\<lambda>(previous, current).
          if current = 0 then
            let h = upd_hnode h previous (\<lambda>n. n\<lparr>nd_next := node\<rparr>)
            in Some (upd_hnode h node (\<lambda>n. n\<lparr>nd_prev := previous\<rparr>))
          else if previous \<noteq> 0 then
            let h = upd_hnode h node (\<lambda>n. n\<lparr>nd_next := current\<rparr>);
                h = upd_hnode h previous (\<lambda>n. n\<lparr>nd_next := node\<rparr>);
                h = upd_hnode h node (\<lambda>n. n\<lparr>nd_prev := previous\<rparr>)
            in Some (upd_hnode h current (\<lambda>n. n\<lparr>nd_prev := node\<rparr>))
          else
            let h = upd_hnode h node (\<lambda>n. n\<lparr>nd_next := hbins h bin\<rparr>);
                h = upd_hnode h (hbins h bin) (\<lambda>n. n\<lparr>nd_prev := node\<rparr>)
            in Some (set_bin h bin node)))"

partial_function (option) remove_node_walk :: "heap_t \<Rightarrow> nat \<Rightarrow> nat \<Rightarrow> heap_t option" where
  [code]: "remove_node_walk h node temp =
    (if temp = 0 then Some h
     else if temp = node then
       let nxt = nd_next (hnodes h temp); prv = nd_prev (hnodes h temp)
       in if nxt = 0 then Some (upd_hnode h prv (\<lambda>n. n\<lparr>nd_next := 0\<rparr>))
          else
            let h = upd_hnode h prv (\<lambda>n. n\<lparr>nd_next := nxt\<rparr>)
            in Some (upd_hnode h nxt (\<lambda>n. n\<lparr>nd_prev := prv\<rparr>))
     else remove_node_walk h node (nd_next (hnodes h temp)))"

definition remove_node :: "heap_t \<Rightarrow> nat \<Rightarrow> nat \<Rightarrow> heap_t option" where
  "remove_node h bin node =
    (if hbins h bin = 0 then Some h
     else if hbins h bin = node then Some (set_bin h bin (nd_next (hnodes h (hbins h bin))))
     else remove_node_walk h node (nd_next (hnodes h (hbins h bin))))"

partial_function (option) best_fit_walk :: "heap_t \<Rightarrow> nat \<Rightarrow> nat \<Rightarrow> nat option" where
  [code]: "best_fit_walk h sz temp =
    (if temp = 0 then Some 0
     else if nd_size (hnodes h temp) \<ge> sz then Some temp
     else best_fit_walk h sz (nd_next (hnodes h temp)))"

definition get_best_fit :: "heap_t \<Rightarrow> nat \<Rightarrow> nat \<Rightarrow> nat option" where
  "get_best_fit h bin sz = (if hbins h bin = 0 then Some 0 else best_fit_walk h sz (hbins h bin))"

partial_function (option) get_last_walk :: "heap_t \<Rightarrow> nat \<Rightarrow> nat option" where
  [code]: "get_last_walk h temp =
    (if nd_next (hnodes h temp) \<noteq> 0 then get_last_walk h (nd_next (hnodes h temp)) else Some temp)"

definition get_last_node :: "heap_t \<Rightarrow> nat \<Rightarrow> nat option" where
  "get_last_node h bin = (if hbins h bin = 0 then None else get_last_walk h (hbins h bin))"

subsection \<open>Blocks (heap.c)\<close>

function bin_index_loop :: "nat \<Rightarrow> nat \<Rightarrow> nat" where
  "bin_index_loop sz index = (let sz = sz div 2 in if sz = 0 then index else bin_index_loop sz (index + 1))"
  by auto
termination by (relation "measure fst") auto

declare bin_index_loop.simps [simp del]

definition get_bin_index :: "nat \<Rightarrow> nat" where
  "get_bin_index sz =
    (let sz = (if sz < 4 then 4 else sz);
         index = bin_index_loop sz 0 - 2
     in if index > BIN_MAX_IDX then BIN_MAX_IDX else index)"

definition get_foot :: "heap_t \<Rightarrow> nat \<Rightarrow> nat" where
  "get_foot h node = node + sizeof_node + nd_size (hnodes h node)"

definition create_foot :: "heap_t \<Rightarrow> nat \<Rightarrow> heap_t" where
  "create_foot h head = h\<lparr>hfoots := (hfoots h)(get_foot h head := head)\<rparr>"

definition get_wilderness :: "heap_t \<Rightarrow> nat" where
  "get_wilderness h = hfoots h (hend h - sizeof_footer)"

definition heap_init :: "heap_t \<Rightarrow> nat \<Rightarrow> nat \<Rightarrow> heap_t option" where
  "heap_init h region sz =
    (let h = upd_hnode h region (\<lambda>n. n\<lparr>nd_hole := 1\<rparr>);
         h = upd_hnode h region (\<lambda>n. n\<lparr>nd_size := uint32 (size_sub (size_sub sz sizeof_node) sizeof_footer)\<rparr>);
         h = h\<lparr>hbins := \<lambda>i. if i < BIN_COUNT then 0 else hbins h i\<rparr>;
         h = create_foot h region
     in Option.bind (add_node h (get_bin_index (nd_size (hnodes h region))) region) (\<lambda>h.
          Some (h\<lparr>hstart := region, hend := region + sz\<rparr>)))"

definition heap_expand :: "heap_t \<Rightarrow> nat \<Rightarrow> nat" where
  "heap_expand h sz = 0"

definition heap_contract :: "heap_t \<Rightarrow> nat \<Rightarrow> heap_t" where
  "heap_contract h sz = h"

text \<open>The search over the bins: the bin and the node found (0 for none).\<close>

function find_fit :: "heap_t \<Rightarrow> nat \<Rightarrow> nat \<Rightarrow> (nat \<times> nat) option" where
  "find_fit h sz index =
    Option.bind (get_best_fit h index sz) (\<lambda>found.
      if found \<noteq> 0 then Some (index, found)
      else if index + 1 \<ge> BIN_COUNT then Some (index, 0)
      else find_fit h sz (index + 1))"
  by auto
termination by (relation "measure (\<lambda>(h, sz, index). BIN_COUNT - index)") auto

declare find_fit.simps [simp del]

definition do_heap_alloc :: "heap_t \<Rightarrow> nat \<Rightarrow> (nat \<times> heap_t) option" where
  "do_heap_alloc h sz =
    Option.bind (find_fit h sz (get_bin_index sz)) (\<lambda>(index, found).
      if found = 0 then Some (0, h)
      else
        Option.bind
          (if nd_size (hnodes h found) - sz > overhead + MIN_ALLOC_SZ then
             let split = found + sizeof_node + sizeof_footer + sz;
                 h = upd_hnode h split (\<lambda>n. n\<lparr>nd_size := uint32 (nd_size (hnodes h found) - sz - sizeof_node - sizeof_footer)\<rparr>);
                 h = upd_hnode h split (\<lambda>n. n\<lparr>nd_hole := 1\<rparr>);
                 h = create_foot h split
             in Option.bind (add_node h (get_bin_index (nd_size (hnodes h split))) split) (\<lambda>h.
                  let h = upd_hnode h found (\<lambda>n. n\<lparr>nd_size := uint32 sz\<rparr>)
                  in Some (create_foot h found))
           else Some h)
          (\<lambda>h. let h = upd_hnode h found (\<lambda>n. n\<lparr>nd_hole := 0\<rparr>)
               in Option.bind (remove_node h index found) (\<lambda>h.
                    let wild = get_wilderness h
                    in if nd_size (hnodes h wild) < MIN_WILDERNESS \<and> heap_expand h 0x1000 = 0 then Some (0, h)
                       else
                         let h = (if \<not> nd_size (hnodes h wild) < MIN_WILDERNESS \<and>
                                     nd_size (hnodes h wild) > MAX_WILDERNESS then heap_contract h 0x1000 else h);
                             h = upd_hnode h found (\<lambda>n. n\<lparr>nd_prev := 0\<rparr>);
                             h = upd_hnode h found (\<lambda>n. n\<lparr>nd_next := 0\<rparr>)
                         in Some (found + node_offset, h))))"

definition do_heap_free :: "heap_t \<Rightarrow> nat \<Rightarrow> heap_t option" where
  "do_heap_free h p =
    (let head = p - node_offset
     in if head = hstart h then
          let h = upd_hnode h head (\<lambda>n. n\<lparr>nd_hole := 1\<rparr>)
          in add_node h (get_bin_index (nd_size (hnodes h head))) head
        else
          let nxt = get_foot h head + sizeof_footer;
              prv = hfoots h (head - sizeof_footer)
          in Option.bind
               (if nd_hole (hnodes h prv) \<noteq> 0 then
                  Option.bind (remove_node h (get_bin_index (nd_size (hnodes h prv))) prv) (\<lambda>h.
                    let h = upd_hnode h prv (\<lambda>n. n\<lparr>nd_size := uint32 (nd_size n + (overhead + nd_size (hnodes h head)))\<rparr>);
                        h = h\<lparr>hfoots := (hfoots h)(get_foot h head := prv)\<rparr>
                    in Some (prv, h))
                else Some (head, h))
               (\<lambda>(head, h). Option.bind
                  (if nd_hole (hnodes h nxt) \<noteq> 0 then
                     Option.bind (remove_node h (get_bin_index (nd_size (hnodes h nxt))) nxt) (\<lambda>h.
                       let h = upd_hnode h head (\<lambda>n. n\<lparr>nd_size := uint32 (nd_size n + (overhead + nd_size (hnodes h nxt)))\<rparr>);
                           h = h\<lparr>hfoots := (hfoots h)(get_foot h nxt := 0)\<rparr>;
                           h = upd_hnode h nxt (\<lambda>n. n\<lparr>nd_size := 0\<rparr>);
                           h = upd_hnode h nxt (\<lambda>n. n\<lparr>nd_hole := 0\<rparr>);
                           h = h\<lparr>hfoots := (hfoots h)(get_foot h head := head)\<rparr>
                       in Some h)
                   else Some h)
                  (\<lambda>h. let h = upd_hnode h head (\<lambda>n. n\<lparr>nd_hole := 1\<rparr>)
                       in add_node h (get_bin_index (nd_size (hnodes h head))) head)))"

definition heap_alloc :: "heap_t \<Rightarrow> nat \<Rightarrow> (nat \<times> heap_t) option" where
  "heap_alloc h sz = do_heap_alloc h sz"

definition heap_free :: "heap_t \<Rightarrow> nat \<Rightarrow> heap_t option" where
  "heap_free h p = do_heap_free h p"

end
