(* ===== verification/Rb_Tree.thy ===== *)
theory Rb_Tree
  imports Slot_Prelude
begin

text \<open>
  The red-black trees of \<open>slotfs/rbtree.c\<close>, \<open>rbtree.h\<close> and \<open>rbtree_augmented.h\<close>, which index the
  entries of a directory by name hash. The augmentation callbacks are the empty functions of
  \<open>dummy_callbacks\<close>, so they are left out.

  A tree is a store of cells and a root pointer. As in the source the parent pointer and the
  colour share one word, \<open>rb_pc\<close>: addresses of nodes are multiples of four and the lowest bit
  is the colour. The rebalancing loops are \<open>rb_insert_step\<close> and \<open>rb_erase_step\<close>, one
  round each, iterated by partial functions.
\<close>

subsection \<open>Data\<close>

record rb_cell =
  rb_pc :: nat
  rb_right :: nat
  rb_left :: nat

record rb_tree =
  cells :: "nat \<Rightarrow> rb_cell"
  rb_root :: nat

definition RB_RED :: nat where
  "RB_RED = 0"

definition RB_BLACK :: nat where
  "RB_BLACK = 1"

definition pc_parent :: "nat \<Rightarrow> nat" where
  "pc_parent pc = pc - pc mod 4"

definition pc_is_black :: "nat \<Rightarrow> bool" where
  "pc_is_black pc \<longleftrightarrow> pc mod 2 = 1"

definition rb_parent :: "rb_tree \<Rightarrow> nat \<Rightarrow> nat" where
  "rb_parent s r = pc_parent (rb_pc (cells s r))"

definition rb_is_black :: "rb_tree \<Rightarrow> nat \<Rightarrow> bool" where
  "rb_is_black s r \<longleftrightarrow> pc_is_black (rb_pc (cells s r))"

definition rb_is_red :: "rb_tree \<Rightarrow> nat \<Rightarrow> bool" where
  "rb_is_red s r \<longleftrightarrow> \<not> rb_is_black s r"

definition rb_color :: "rb_tree \<Rightarrow> nat \<Rightarrow> nat" where
  "rb_color s r = rb_pc (cells s r) mod 2"

definition rb_red_parent :: "rb_tree \<Rightarrow> nat \<Rightarrow> nat" where
  "rb_red_parent s red = rb_pc (cells s red)"

subsection \<open>Writing cells\<close>

definition upd_cell :: "rb_tree \<Rightarrow> nat \<Rightarrow> (rb_cell \<Rightarrow> rb_cell) \<Rightarrow> rb_tree" where
  "upd_cell s x f = s\<lparr>cells := (cells s)(x := f (cells s x))\<rparr>"

definition set_left :: "rb_tree \<Rightarrow> nat \<Rightarrow> nat \<Rightarrow> rb_tree" where
  "set_left s x v = upd_cell s x (\<lambda>c. c\<lparr>rb_left := v\<rparr>)"

definition set_right :: "rb_tree \<Rightarrow> nat \<Rightarrow> nat \<Rightarrow> rb_tree" where
  "set_right s x v = upd_cell s x (\<lambda>c. c\<lparr>rb_right := v\<rparr>)"

definition set_pc :: "rb_tree \<Rightarrow> nat \<Rightarrow> nat \<Rightarrow> rb_tree" where
  "set_pc s x v = upd_cell s x (\<lambda>c. c\<lparr>rb_pc := v\<rparr>)"

definition left_of :: "rb_tree \<Rightarrow> nat \<Rightarrow> nat" where
  "left_of s x = rb_left (cells s x)"

definition right_of :: "rb_tree \<Rightarrow> nat \<Rightarrow> nat" where
  "right_of s x = rb_right (cells s x)"

definition rb_set_black :: "rb_tree \<Rightarrow> nat \<Rightarrow> rb_tree" where
  "rb_set_black s rb = set_pc s rb (rb_pc (cells s rb) OR RB_BLACK)"

definition rb_set_parent :: "rb_tree \<Rightarrow> nat \<Rightarrow> nat \<Rightarrow> rb_tree" where
  "rb_set_parent s rb p = set_pc s rb (rb_color s rb OR p)"

definition rb_set_parent_color :: "rb_tree \<Rightarrow> nat \<Rightarrow> nat \<Rightarrow> nat \<Rightarrow> rb_tree" where
  "rb_set_parent_color s rb p color = set_pc s rb (p OR color)"

definition rb_change_child :: "rb_tree \<Rightarrow> nat \<Rightarrow> nat \<Rightarrow> nat \<Rightarrow> rb_tree" where
  "rb_change_child s old new parent =
    (if parent \<noteq> 0 then
       if left_of s parent = old then set_left s parent new else set_right s parent new
     else s\<lparr>rb_root := new\<rparr>)"

definition rb_rotate_set_parents :: "rb_tree \<Rightarrow> nat \<Rightarrow> nat \<Rightarrow> nat \<Rightarrow> rb_tree" where
  "rb_rotate_set_parents s old new color =
    (let parent = rb_parent s old;
         s = set_pc s new (rb_pc (cells s old));
         s = rb_set_parent_color s old new color
     in rb_change_child s old new parent)"

subsection \<open>Insertion\<close>

definition rb_link_node :: "rb_tree \<Rightarrow> nat \<Rightarrow> nat \<Rightarrow> (rb_tree \<Rightarrow> nat \<Rightarrow> rb_tree) \<Rightarrow> rb_tree" where
  "rb_link_node s node parent link =
    (let s = set_pc s node parent; s = set_right s node 0; s = set_left s node 0
     in link s node)"

datatype rb_step = Rb_Done rb_tree | Rb_More rb_tree nat nat

definition rb_insert_step :: "rb_tree \<Rightarrow> nat \<Rightarrow> nat \<Rightarrow> rb_step" where
  "rb_insert_step s node parent =
    (if parent = 0 then Rb_Done (rb_set_parent_color s node 0 RB_BLACK)
     else if rb_is_black s parent then Rb_Done s
     else
       let gparent = rb_red_parent s parent; tmp = right_of s gparent
       in if parent \<noteq> tmp then
            if tmp \<noteq> 0 \<and> rb_is_red s tmp then
              let s = rb_set_parent_color s tmp gparent RB_BLACK;
                  s = rb_set_parent_color s parent gparent RB_BLACK;
                  node = gparent;
                  parent = rb_parent s node;
                  s = rb_set_parent_color s node parent RB_RED
              in Rb_More s node parent
            else
              let tmp = right_of s parent;
                  (s, parent, tmp) =
                    (if node = tmp then
                       let tmp = left_of s node;
                           s = set_right s parent tmp;
                           s = set_left s node parent;
                           s = (if tmp \<noteq> 0 then rb_set_parent_color s tmp parent RB_BLACK else s);
                           s = rb_set_parent_color s parent node RB_RED
                       in (s, node, right_of s node)
                     else (s, parent, tmp));
                  s = set_left s gparent tmp;
                  s = set_right s parent gparent;
                  s = (if tmp \<noteq> 0 then rb_set_parent_color s tmp gparent RB_BLACK else s)
              in Rb_Done (rb_rotate_set_parents s gparent parent RB_RED)
          else
            let tmp = left_of s gparent
            in if tmp \<noteq> 0 \<and> rb_is_red s tmp then
                 let s = rb_set_parent_color s tmp gparent RB_BLACK;
                     s = rb_set_parent_color s parent gparent RB_BLACK;
                     node = gparent;
                     parent = rb_parent s node;
                     s = rb_set_parent_color s node parent RB_RED
                 in Rb_More s node parent
               else
                 let tmp = left_of s parent;
                     (s, parent, tmp) =
                       (if node = tmp then
                          let tmp = right_of s node;
                              s = set_left s parent tmp;
                              s = set_right s node parent;
                              s = (if tmp \<noteq> 0 then rb_set_parent_color s tmp parent RB_BLACK else s);
                              s = rb_set_parent_color s parent node RB_RED
                          in (s, node, left_of s node)
                        else (s, parent, tmp));
                     s = set_right s gparent tmp;
                     s = set_left s parent gparent;
                     s = (if tmp \<noteq> 0 then rb_set_parent_color s tmp gparent RB_BLACK else s)
                 in Rb_Done (rb_rotate_set_parents s gparent parent RB_RED))"

partial_function (option) rb_insert_loop :: "rb_tree \<Rightarrow> nat \<Rightarrow> nat \<Rightarrow> rb_tree option" where
  [code]: "rb_insert_loop s node parent =
    (case rb_insert_step s node parent of
       Rb_Done s \<Rightarrow> Some s
     | Rb_More s node parent \<Rightarrow> rb_insert_loop s node parent)"

definition rb_insert_color :: "rb_tree \<Rightarrow> nat \<Rightarrow> rb_tree option" where
  "rb_insert_color s node = rb_insert_loop s node (rb_red_parent s node)"

subsection \<open>Deletion\<close>

definition rb_erase_step :: "rb_tree \<Rightarrow> nat \<Rightarrow> nat \<Rightarrow> rb_step" where
  "rb_erase_step s node parent =
    (let sibling = right_of s parent
     in if node \<noteq> sibling then
          let (s, sibling) =
                (if rb_is_red s sibling then
                   let tmp1 = left_of s sibling;
                       s = set_right s parent tmp1;
                       s = set_left s sibling parent;
                       s = rb_set_parent_color s tmp1 parent RB_BLACK;
                       s = rb_rotate_set_parents s parent sibling RB_RED
                   in (s, tmp1)
                 else (s, sibling));
              tmp1 = right_of s sibling; tmp2 = left_of s sibling
          in if (tmp1 = 0 \<or> rb_is_black s tmp1) \<and> (tmp2 = 0 \<or> rb_is_black s tmp2) then
               let s = rb_set_parent_color s sibling parent RB_RED
               in if rb_is_red s parent then Rb_Done (rb_set_black s parent)
                  else
                    let node = parent; parent = rb_parent s node
                    in if parent \<noteq> 0 then Rb_More s node parent else Rb_Done s
             else
               let (s, tmp1, sibling) =
                     (if tmp1 = 0 \<or> rb_is_black s tmp1 then
                        let tmp1 = right_of s tmp2;
                            s = set_left s sibling tmp1;
                            s = set_right s tmp2 sibling;
                            s = set_right s parent tmp2;
                            s = (if tmp1 \<noteq> 0 then rb_set_parent_color s tmp1 sibling RB_BLACK else s)
                        in (s, sibling, tmp2)
                      else (s, tmp1, sibling));
                   tmp2 = left_of s sibling;
                   s = set_right s parent tmp2;
                   s = set_left s sibling parent;
                   s = rb_set_parent_color s tmp1 sibling RB_BLACK;
                   s = (if tmp2 \<noteq> 0 then rb_set_parent s tmp2 parent else s)
               in Rb_Done (rb_rotate_set_parents s parent sibling RB_BLACK)
        else
          let sibling = left_of s parent;
              (s, sibling) =
                (if rb_is_red s sibling then
                   let tmp1 = right_of s sibling;
                       s = set_left s parent tmp1;
                       s = set_right s sibling parent;
                       s = rb_set_parent_color s tmp1 parent RB_BLACK;
                       s = rb_rotate_set_parents s parent sibling RB_RED
                   in (s, tmp1)
                 else (s, sibling));
              tmp1 = left_of s sibling; tmp2 = right_of s sibling
          in if (tmp1 = 0 \<or> rb_is_black s tmp1) \<and> (tmp2 = 0 \<or> rb_is_black s tmp2) then
               let s = rb_set_parent_color s sibling parent RB_RED
               in if rb_is_red s parent then Rb_Done (rb_set_black s parent)
                  else
                    let node = parent; parent = rb_parent s node
                    in if parent \<noteq> 0 then Rb_More s node parent else Rb_Done s
             else
               let (s, tmp1, sibling) =
                     (if tmp1 = 0 \<or> rb_is_black s tmp1 then
                        let tmp1 = left_of s tmp2;
                            s = set_right s sibling tmp1;
                            s = set_left s tmp2 sibling;
                            s = set_left s parent tmp2;
                            s = (if tmp1 \<noteq> 0 then rb_set_parent_color s tmp1 sibling RB_BLACK else s)
                        in (s, sibling, tmp2)
                      else (s, tmp1, sibling));
                   tmp2 = right_of s sibling;
                   s = set_left s parent tmp2;
                   s = set_right s sibling parent;
                   s = rb_set_parent_color s tmp1 sibling RB_BLACK;
                   s = (if tmp2 \<noteq> 0 then rb_set_parent s tmp2 parent else s)
               in Rb_Done (rb_rotate_set_parents s parent sibling RB_BLACK))"

partial_function (option) rb_erase_loop :: "rb_tree \<Rightarrow> nat \<Rightarrow> nat \<Rightarrow> rb_tree option" where
  [code]: "rb_erase_loop s node parent =
    (case rb_erase_step s node parent of
       Rb_Done s \<Rightarrow> Some s
     | Rb_More s node parent \<Rightarrow> rb_erase_loop s node parent)"

definition rb_erase_color :: "rb_tree \<Rightarrow> nat \<Rightarrow> rb_tree option" where
  "rb_erase_color s parent = rb_erase_loop s 0 parent"

text \<open>The walk to the successor: \<open>successor\<close> and its parent.\<close>

partial_function (option) rb_leftmost :: "rb_tree \<Rightarrow> nat \<Rightarrow> nat \<Rightarrow> (nat \<times> nat) option" where
  [code]: "rb_leftmost s parent successor =
    (if left_of s successor \<noteq> 0 then rb_leftmost s successor (left_of s successor)
     else Some (parent, successor))"

text \<open>The result is the tree and the node to rebalance at, \<open>0\<close> for none.\<close>

definition rb_erase_augmented_raw :: "rb_tree \<Rightarrow> nat \<Rightarrow> (nat \<times> rb_tree) option" where
  "rb_erase_augmented_raw s node =
    (let child = right_of s node; tmp = left_of s node
     in if tmp = 0 then
          let pc = rb_pc (cells s node); parent = pc_parent pc;
              s = rb_change_child s node child parent
          in if child \<noteq> 0 then Some (0, set_pc s child pc)
             else Some (if pc_is_black pc then parent else 0, s)
        else if child = 0 then
          let pc = rb_pc (cells s node); s = set_pc s tmp pc; parent = pc_parent pc
          in Some (0, rb_change_child s node tmp parent)
        else
          Option.bind
            (if left_of s child = 0 then Some (child, child, right_of s child, s)
             else
               Option.bind (rb_leftmost s child (left_of s child)) (\<lambda>(parent, successor).
                 let child2 = right_of s successor;
                     s = set_left s parent child2;
                     s = set_right s successor child;
                     s = rb_set_parent s child successor
                 in Some (parent, successor, child2, s)))
            (\<lambda>(parent, successor, child2, s).
               let tmp = left_of s node;
                   s = set_left s successor tmp;
                   s = rb_set_parent s tmp successor;
                   pc = rb_pc (cells s node);
                   tmp = pc_parent pc;
                   s = rb_change_child s node successor tmp
               in if child2 \<noteq> 0 then
                    let s = set_pc s successor pc
                    in Some (0, rb_set_parent_color s child2 parent RB_BLACK)
                  else
                    let pc2 = rb_pc (cells s successor); s = set_pc s successor pc
                    in Some (if pc_is_black pc2 then parent else 0, s)))"

definition rb_erase :: "rb_tree \<Rightarrow> nat \<Rightarrow> rb_tree option" where
  "rb_erase s node =
    Option.bind (rb_erase_augmented_raw s node) (\<lambda>(rebalance, s).
      if rebalance \<noteq> 0 then rb_erase_color s rebalance else Some s)"

subsection \<open>Walking\<close>

partial_function (option) rb_go_left :: "rb_tree \<Rightarrow> nat \<Rightarrow> nat option" where
  [code]: "rb_go_left s n = (if left_of s n \<noteq> 0 then rb_go_left s (left_of s n) else Some n)"

partial_function (option) rb_go_right :: "rb_tree \<Rightarrow> nat \<Rightarrow> nat option" where
  [code]: "rb_go_right s n = (if right_of s n \<noteq> 0 then rb_go_right s (right_of s n) else Some n)"

definition rb_first :: "rb_tree \<Rightarrow> nat option" where
  "rb_first s = (if rb_root s = 0 then Some 0 else rb_go_left s (rb_root s))"

definition rb_last :: "rb_tree \<Rightarrow> nat option" where
  "rb_last s = (if rb_root s = 0 then Some 0 else rb_go_right s (rb_root s))"

partial_function (option) rb_next_climb :: "rb_tree \<Rightarrow> nat \<Rightarrow> nat option" where
  [code]: "rb_next_climb s node =
    (let parent = rb_parent s node
     in if parent \<noteq> 0 \<and> node = right_of s parent then rb_next_climb s parent else Some parent)"

definition rb_next :: "rb_tree \<Rightarrow> nat \<Rightarrow> nat option" where
  "rb_next s node =
    (if rb_pc (cells s node) = node then Some 0
     else if right_of s node \<noteq> 0 then rb_go_left s (right_of s node)
     else rb_next_climb s node)"

partial_function (option) rb_prev_climb :: "rb_tree \<Rightarrow> nat \<Rightarrow> nat option" where
  [code]: "rb_prev_climb s node =
    (let parent = rb_parent s node
     in if parent \<noteq> 0 \<and> node = left_of s parent then rb_prev_climb s parent else Some parent)"

definition rb_prev :: "rb_tree \<Rightarrow> nat \<Rightarrow> nat option" where
  "rb_prev s node =
    (if rb_pc (cells s node) = node then Some 0
     else if left_of s node \<noteq> 0 then rb_go_right s (left_of s node)
     else rb_prev_climb s node)"

definition rb_replace_node :: "rb_tree \<Rightarrow> nat \<Rightarrow> nat \<Rightarrow> rb_tree" where
  "rb_replace_node s victim new =
    (let parent = rb_parent s victim;
         s = rb_change_child s victim new parent;
         s = (if left_of s victim \<noteq> 0 then rb_set_parent s (left_of s victim) new else s);
         s = (if right_of s victim \<noteq> 0 then rb_set_parent s (right_of s victim) new else s)
     in upd_cell s new (\<lambda>_. cells s victim))"

partial_function (option) rb_left_deepest_node :: "rb_tree \<Rightarrow> nat \<Rightarrow> nat option" where
  [code]: "rb_left_deepest_node s node =
    (if left_of s node \<noteq> 0 then rb_left_deepest_node s (left_of s node)
     else if right_of s node \<noteq> 0 then rb_left_deepest_node s (right_of s node)
     else Some node)"

definition rb_next_postorder :: "rb_tree \<Rightarrow> nat \<Rightarrow> nat option" where
  "rb_next_postorder s node =
    (if node = 0 then Some 0
     else
       let parent = rb_parent s node
       in if parent \<noteq> 0 \<and> node = left_of s parent \<and> right_of s parent \<noteq> 0
          then rb_left_deepest_node s (right_of s parent)
          else Some parent)"

definition rb_first_postorder :: "rb_tree \<Rightarrow> nat option" where
  "rb_first_postorder s = (if rb_root s = 0 then Some 0 else rb_left_deepest_node s (rb_root s))"

end
