(* ===== verification/Range_Lock.thy ===== *)
theory Range_Lock
  imports Slot_Prelude "HOL-Library.Multiset"
begin

text \<open>
  The range lock of \<open>slotfs/lock.c\<close>: twenty slots for half-open ranges under one spinlock.

  \<open>range_lock_try\<close> is one round of the outer loop of \<open>range_lock\<close>, the part executed while
  holding \<open>global_lock\<close>; it returns the new lock when the range was entered and \<open>None\<close> when
  the caller has to go round again. \<open>range_unlock\<close> returns \<open>None\<close> where the source reaches
  \<open>assert(0)\<close>. Threads are the step relation \<open>rl_step\<close> over the lock and the ranges held:
  each step is one such critical section, and \<open>rl_spin\<close> is the round that finds no room.
\<close>

subsection \<open>Data and operations\<close>

definition RLOCK_NUM :: nat where
  "RLOCK_NUM = 20"

record rlock_node =
  rl_start :: nat
  rl_end :: nat
  rl_valid :: bool

record range_lock_t =
  rlock :: "rlock_node list"
  lock_count :: int

definition is_overlap :: "nat \<Rightarrow> nat \<Rightarrow> nat \<Rightarrow> nat \<Rightarrow> bool" where
  "is_overlap start1 end1 start2 end2 \<longleftrightarrow> start1 < end2 \<and> start2 < end1"

definition range_lock_init :: "range_lock_t \<Rightarrow> range_lock_t" where
  "range_lock_init lock =
    lock\<lparr>rlock := map (\<lambda>n. n\<lparr>rl_valid := False\<rparr>) (rlock lock), lock_count := 0\<rparr>"

text \<open>The two loops over the slots: is there a valid slot that overlaps, and the first slot
  that is not valid.\<close>

primrec rl_overlaps :: "rlock_node list \<Rightarrow> nat \<Rightarrow> nat \<Rightarrow> bool" where
  "rl_overlaps [] start fin = False"
| "rl_overlaps (n # ns) start fin =
    (if rl_valid n \<and> is_overlap start fin (rl_start n) (rl_end n) then True
     else rl_overlaps ns start fin)"

primrec rl_take :: "rlock_node list \<Rightarrow> nat \<Rightarrow> nat \<Rightarrow> rlock_node list option" where
  "rl_take [] start fin = None"
| "rl_take (n # ns) start fin =
    (if \<not> rl_valid n then Some (\<lparr>rl_start = start, rl_end = fin, rl_valid = True\<rparr> # ns)
     else map_option ((#) n) (rl_take ns start fin))"

definition range_lock_try :: "range_lock_t \<Rightarrow> nat \<Rightarrow> nat \<Rightarrow> range_lock_t option" where
  "range_lock_try lock start fin =
    (if lock_count lock = 0 then
       Some (lock\<lparr>rlock := (rlock lock)[0 := \<lparr>rl_start = start, rl_end = fin, rl_valid = True\<rparr>],
                  lock_count := lock_count lock + 1\<rparr>)
     else if rl_overlaps (rlock lock) start fin then None
     else case rl_take (rlock lock) start fin of
            Some ns \<Rightarrow> Some (lock\<lparr>rlock := ns, lock_count := lock_count lock + 1\<rparr>)
          | None \<Rightarrow> None)"

primrec rl_drop :: "rlock_node list \<Rightarrow> nat \<Rightarrow> nat \<Rightarrow> rlock_node list option" where
  "rl_drop [] start fin = None"
| "rl_drop (n # ns) start fin =
    (if rl_valid n \<and> rl_start n = start \<and> rl_end n = fin then Some (n\<lparr>rl_valid := False\<rparr> # ns)
     else map_option ((#) n) (rl_drop ns start fin))"

definition range_unlock :: "range_lock_t \<Rightarrow> nat \<Rightarrow> nat \<Rightarrow> range_lock_t option" where
  "range_unlock lock start fin =
    (case rl_drop (rlock lock) start fin of
       Some ns \<Rightarrow> Some (lock\<lparr>rlock := ns, lock_count := lock_count lock - 1\<rparr>)
     | None \<Rightarrow> None)"

subsection \<open>Threads\<close>

type_synonym 't rl_state = "range_lock_t \<times> ('t \<rightharpoonup> nat \<times> nat)"

inductive rl_step :: "'t rl_state \<Rightarrow> 't rl_state \<Rightarrow> bool" where
  rl_enter: "held t = None \<Longrightarrow> range_lock_try lock s e = Some lock' \<Longrightarrow>
    rl_step (lock, held) (lock', held(t \<mapsto> (s, e)))"
| rl_spin: "held t = None \<Longrightarrow> range_lock_try lock s e = None \<Longrightarrow>
    rl_step (lock, held) (lock, held)"
| rl_leave: "held t = Some (s, e) \<Longrightarrow> range_unlock lock s e = Some lock' \<Longrightarrow>
    rl_step (lock, held) (lock', held(t := None))"

inductive_cases rl_stepE: "rl_step s s'"

definition rl_empty :: range_lock_t where
  "rl_empty = \<lparr>rlock = replicate RLOCK_NUM \<lparr>rl_start = 0, rl_end = 0, rl_valid = False\<rparr>,
               lock_count = 0\<rparr>"

inductive rl_reach :: "'t rl_state \<Rightarrow> bool" where
  rl_start0: "rl_reach (range_lock_init rl_empty, Map.empty)"
| rl_more: "rl_reach s \<Longrightarrow> rl_step s s' \<Longrightarrow> rl_reach s'"

subsection \<open>The invariant\<close>

text \<open>The valid slots hold exactly the ranges held by threads (as multisets), they are
  pairwise free of overlap, and \<open>lock_count\<close> counts them.\<close>

definition rl_ranges :: "rlock_node list \<Rightarrow> (nat \<times> nat) list" where
  "rl_ranges ns = map (\<lambda>n. (rl_start n, rl_end n)) (filter rl_valid ns)"

definition disjoint_ranges :: "(nat \<times> nat) list \<Rightarrow> bool" where
  "disjoint_ranges rs \<longleftrightarrow>
    sorted_wrt (\<lambda>r q. \<not> is_overlap (fst r) (snd r) (fst q) (snd q)) rs"

definition wf_rlock :: "range_lock_t \<Rightarrow> bool" where
  "wf_rlock lock \<longleftrightarrow> length (rlock lock) = RLOCK_NUM \<and>
     lock_count lock = int (length (rl_ranges (rlock lock))) \<and>
     disjoint_ranges (rl_ranges (rlock lock))"

lemma is_overlap_sym: "is_overlap a b c d = is_overlap c d a b"
  by (auto simp: is_overlap_def)

lemma rl_ranges_simps [simp]:
  "rl_ranges [] = []"
  "rl_ranges (n # ns) = (if rl_valid n then (rl_start n, rl_end n) # rl_ranges ns else rl_ranges ns)"
  by (simp_all add: rl_ranges_def)

lemma rl_overlaps_iff:
  "rl_overlaps ns s e \<longleftrightarrow> (\<exists>r \<in> set (rl_ranges ns). is_overlap s e (fst r) (snd r))"
  by (induction ns) auto

text \<open>Entering a range puts it into the list of valid ranges somewhere.\<close>

lemma rl_take_split:
  "rl_take ns s e = Some ms \<Longrightarrow>
    \<exists>xs ys. rl_ranges ns = xs @ ys \<and> rl_ranges ms = xs @ (s, e) # ys \<and> length ms = length ns"
proof (induction ns arbitrary: ms)
  case (Cons n ns)
  show ?case
  proof (cases "rl_valid n")
    case False
    with Cons.prems show ?thesis
      by (intro exI [of _ "[]"] exI [of _ "rl_ranges ns"]) auto
  next
    case True
    with Cons.prems obtain ms' where "rl_take ns s e = Some ms'" "ms = n # ms'"
      by auto
    with Cons.IH True show ?thesis
      by (metis append_Cons length_Cons rl_ranges_simps(2))
  qed
qed simp

lemma rl_take_None: "rl_take ns s e = None \<longleftrightarrow> length (rl_ranges ns) = length ns"
proof (induction ns)
  case (Cons n ns)
  moreover have "length (rl_ranges ns) \<le> length ns"
    by (simp add: rl_ranges_def)
  ultimately show ?case by auto
qed simp

lemma rl_drop_split:
  "rl_drop ns s e = Some ms \<Longrightarrow>
    \<exists>xs ys. rl_ranges ns = xs @ (s, e) # ys \<and> rl_ranges ms = xs @ ys \<and> length ms = length ns"
proof (induction ns arbitrary: ms)
  case (Cons n ns)
  show ?case
  proof (cases "rl_valid n \<and> rl_start n = s \<and> rl_end n = e")
    case True
    with Cons.prems show ?thesis
      by (intro exI [of _ "[]"] exI [of _ "rl_ranges ns"]) auto
  next
    case False
    with Cons.prems obtain ms' where ms: "rl_drop ns s e = Some ms'" "ms = n # ms'"
      by (auto split: if_splits)
    from Cons.IH [OF ms(1)] obtain xs ys where
      "rl_ranges ns = xs @ (s, e) # ys" "rl_ranges ms' = xs @ ys" "length ms' = length ns"
      by blast
    then show ?thesis
      unfolding ms(2)
      by (cases "rl_valid n")
        (auto intro: exI [of _ "(rl_start n, rl_end n) # xs"] exI [of _ ys] exI [of _ xs])
  qed
qed simp

lemma rl_drop_None: "rl_drop ns s e = None \<longleftrightarrow> (s, e) \<notin> set (rl_ranges ns)"
  by (induction ns) auto

lemma disjoint_ranges_insert:
  "disjoint_ranges (xs @ r # ys) \<longleftrightarrow> disjoint_ranges (xs @ ys) \<and>
    (\<forall>q \<in> set (xs @ ys). \<not> is_overlap (fst r) (snd r) (fst q) (snd q))"
  by (auto simp: disjoint_ranges_def sorted_wrt_append is_overlap_sym)

text \<open>On a well-formed lock \<open>range_lock_try\<close> succeeds exactly when no held range overlaps and a
  slot is free, and it then adds the range and nothing else.\<close>

lemma range_lock_try_ranges:
  assumes "wf_rlock lock" "range_lock_try lock s e = Some lock'"
  shows "\<exists>xs ys. rl_ranges (rlock lock) = xs @ ys \<and> rl_ranges (rlock lock') = xs @ (s, e) # ys \<and>
    length (rlock lock') = length (rlock lock) \<and> lock_count lock' = lock_count lock + 1 \<and>
    (\<forall>q \<in> set (rl_ranges (rlock lock)). \<not> is_overlap s e (fst q) (snd q))"
proof (cases "lock_count lock = 0")
  case True
  then have "rl_ranges (rlock lock) = []" "length (rlock lock) = 20"
    using assms(1) by (auto simp: wf_rlock_def RLOCK_NUM_def)
  moreover from this obtain n ns where "rlock lock = n # ns"
    by (cases "rlock lock") auto
  ultimately show ?thesis
    using assms(2) True by (auto simp: range_lock_try_def split: if_splits)
next
  case False
  with assms(2) obtain ns where ns: "rl_take (rlock lock) s e = Some ns"
    "lock' = lock\<lparr>rlock := ns, lock_count := lock_count lock + 1\<rparr>"
    "\<not> rl_overlaps (rlock lock) s e"
    by (auto simp: range_lock_try_def split: if_splits option.splits)
  from rl_take_split [OF ns(1)] show ?thesis
    unfolding ns(2) using ns(3) by (simp add: rl_overlaps_iff)
qed

lemma range_lock_try_wf:
  assumes "wf_rlock lock" "range_lock_try lock s e = Some lock'"
  shows "wf_rlock lock'"
proof -
  from range_lock_try_ranges [OF assms] obtain xs ys where r:
    "rl_ranges (rlock lock) = xs @ ys" "rl_ranges (rlock lock') = xs @ (s, e) # ys"
    "length (rlock lock') = length (rlock lock)" "lock_count lock' = lock_count lock + 1"
    "\<forall>q \<in> set (xs @ ys). \<not> is_overlap s e (fst q) (snd q)"
    by auto
  with assms(1) show ?thesis
    by (simp add: wf_rlock_def disjoint_ranges_insert)
qed

lemma range_lock_try_None:
  assumes "wf_rlock lock"
  shows "range_lock_try lock s e = None \<longleftrightarrow>
    (\<exists>q \<in> set (rl_ranges (rlock lock)). is_overlap s e (fst q) (snd q)) \<or>
    length (rl_ranges (rlock lock)) = RLOCK_NUM"
proof (cases "lock_count lock = 0")
  case True
  then show ?thesis
    using assms by (auto simp: range_lock_try_def wf_rlock_def RLOCK_NUM_def)
next
  case False
  then show ?thesis
    using assms rl_take_None [of "rlock lock" s e]
    by (auto simp: range_lock_try_def wf_rlock_def rl_overlaps_iff split: option.splits)
qed

lemma range_unlock_ranges:
  assumes "wf_rlock lock" "range_unlock lock s e = Some lock'"
  shows "wf_rlock lock' \<and> (\<exists>xs ys. rl_ranges (rlock lock) = xs @ (s, e) # ys \<and>
    rl_ranges (rlock lock') = xs @ ys)"
proof -
  from assms(2) obtain ns where ns: "rl_drop (rlock lock) s e = Some ns"
    "lock' = lock\<lparr>rlock := ns, lock_count := lock_count lock - 1\<rparr>"
    by (auto simp: range_unlock_def split: option.splits)
  from rl_drop_split [OF ns(1)] obtain xs ys where "rl_ranges (rlock lock) = xs @ (s, e) # ys"
    "rl_ranges ns = xs @ ys" "length ns = length (rlock lock)"
    by blast
  with assms(1) show ?thesis
    unfolding ns(2) by (auto simp: wf_rlock_def disjoint_ranges_insert)
qed

text \<open>The state invariant: the ranges held by the threads are, as a multiset, those of the valid
  slots.\<close>

definition rl_inv :: "'t rl_state \<Rightarrow> bool" where
  "rl_inv st \<longleftrightarrow> wf_rlock (fst st) \<and> finite (dom (snd st)) \<and>
     image_mset (the \<circ> snd st) (mset_set (dom (snd st))) = mset (rl_ranges (rlock (fst st)))"

lemma held_mset_update:
  assumes "finite (dom held)" "t \<notin> dom held"
  shows "image_mset (the \<circ> held(t \<mapsto> r)) (mset_set (dom (held(t \<mapsto> r)))) =
    add_mset r (image_mset (the \<circ> held) (mset_set (dom held)))"
proof -
  have "image_mset (the \<circ> held(t \<mapsto> r)) (mset_set (dom held)) =
      image_mset (the \<circ> held) (mset_set (dom held))"
    using assms by (intro image_mset_cong) auto
  with assms show ?thesis
    by simp
qed

lemma rl_inv_step:
  assumes "rl_inv st" "rl_step st st'"
  shows "rl_inv st'"
  using assms(2,1)
proof (cases rule: rl_step.cases)
  case (rl_enter held t lock s e lock')
  note inv = assms(1) [unfolded rl_inv_def rl_enter(1) fst_conv snd_conv]
  from range_lock_try_ranges [OF _ rl_enter(4)] inv
  have "mset (rl_ranges (rlock lock')) = add_mset (s, e) (mset (rl_ranges (rlock lock)))"
    by auto
  with inv rl_enter(3) range_lock_try_wf [OF _ rl_enter(4)] show ?thesis
    unfolding rl_inv_def rl_enter(2) fst_conv snd_conv
    using held_mset_update [of held t "(s, e)"] by (simp add: domIff)
next
  case (rl_spin held t lock s e)
  with assms(1) show ?thesis by simp
next
  case (rl_leave held t s e lock lock')
  note inv = assms(1) [unfolded rl_inv_def rl_leave(1) fst_conv snd_conv]
  let ?h = "held(t := None)"
  have "held = ?h(t \<mapsto> (s, e))"
    using rl_leave(3) by auto
  moreover have "finite (dom ?h)" "t \<notin> dom ?h"
    using inv by auto
  ultimately have h: "image_mset (the \<circ> held) (mset_set (dom held)) =
      add_mset (s, e) (image_mset (the \<circ> ?h) (mset_set (dom ?h)))"
    using held_mset_update [of ?h t "(s, e)"] by metis
  from range_unlock_ranges [OF _ rl_leave(4)] inv
  have "wf_rlock lock'" "mset (rl_ranges (rlock lock)) = add_mset (s, e) (mset (rl_ranges (rlock lock')))"
    by auto
  with inv h \<open>finite (dom ?h)\<close> show ?thesis
    unfolding rl_inv_def rl_leave(2) fst_conv snd_conv by simp
qed

lemma rl_inv_init: "rl_inv (range_lock_init rl_empty, Map.empty)"
  by (simp add: rl_inv_def wf_rlock_def range_lock_init_def rl_empty_def rl_ranges_def
      disjoint_ranges_def)

lemma rl_reach_inv: "rl_reach st \<Longrightarrow> rl_inv st"
  by (induction rule: rl_reach.induct) (auto intro: rl_inv_init rl_inv_step)

lemma rl_inv_exclusive:
  assumes "rl_inv (lock, held)" "held t = Some r" "held u = Some q" "t \<noteq> u"
  shows "\<not> is_overlap (fst r) (snd r) (fst q) (snd q)"
proof -
  let ?R = "rl_ranges (rlock lock)"
  have fin: "finite (dom held)" and ms: "image_mset (the \<circ> held) (mset_set (dom held)) = mset ?R"
    and wf: "wf_rlock lock"
    using assms(1) by (auto simp: rl_inv_def)
  have "mset_set (dom held) = add_mset t (add_mset u (mset_set (dom held - {t, u})))"
  proof -
    have "dom held = insert t (insert u (dom held - {t, u}))"
      using assms by auto
    then show ?thesis
      using fin assms(4) by (metis (no_types, lifting) DiffD2 finite_Diff finite_insert insertE
        insertI1 insertI2 mset_set.insert)
  qed
  then have split: "mset ?R = add_mset r (add_mset q (image_mset (the \<circ> held) (mset_set (dom held - {t, u}))))"
    using ms [symmetric] assms(2,3) by simp
  then have "r \<in> set ?R"
    by (metis set_mset_mset union_single_eq_member)
  then obtain xs ys where R: "?R = xs @ r # ys"
    by (meson split_list)
  with split have "q \<in># mset (xs @ ys)"
    by simp
  then have "q \<in> set (xs @ ys)"
    by simp
  with wf R show ?thesis
    by (auto simp: wf_rlock_def disjoint_ranges_insert)
qed

lemma rl_inv_unlock:
  assumes "rl_inv (lock, held)" "held t = Some (s, e)"
  shows "\<exists>lock'. range_unlock lock s e = Some lock'"
proof -
  have fin: "finite (dom held)"
    and ms: "image_mset (the \<circ> held) (mset_set (dom held)) = mset (rl_ranges (rlock lock))"
    using assms(1) by (auto simp: rl_inv_def)
  have "set (rl_ranges (rlock lock)) = (the \<circ> held) ` dom held"
    using arg_cong [OF ms, of set_mset] fin by simp
  then have "(s, e) \<in> set (rl_ranges (rlock lock))"
    using assms(2) by (auto simp: image_iff intro!: bexI [of _ t])
  then show ?thesis
    using rl_drop_None [of "rlock lock" s e] by (auto simp: range_unlock_def split: option.splits)
qed

subsection \<open>Properties\<close>

text \<open>C16: mutual exclusion. In every reachable state two threads never hold overlapping
  ranges.\<close>

theorem range_lock_exclusive:
  assumes "rl_reach (lock, held)" "held t = Some r" "held u = Some q" "t \<noteq> u"
  shows "\<not> is_overlap (fst r) (snd r) (fst q) (snd q)"
  using rl_inv_exclusive [OF rl_reach_inv [OF assms(1)] assms(2-4)] .

text \<open>Two threads that hold adjacent ranges, for the witnesses.\<close>

lemma range_lock_try_empty:
  "range_lock_try (range_lock_init rl_empty) 0 4 =
    Some (rl_empty\<lparr>rlock := (rlock rl_empty)[0 := \<lparr>rl_start = 0, rl_end = 4, rl_valid = True\<rparr>],
                   lock_count := 1\<rparr>)"
  by (simp add: range_lock_try_def range_lock_init_def rl_empty_def RLOCK_NUM_def)

lemma range_lock_try_second:
  "\<exists>lock'. range_lock_try (rl_empty\<lparr>rlock := (rlock rl_empty)[0 := \<lparr>rl_start = 0, rl_end = 4, rl_valid = True\<rparr>],
                   lock_count := 1\<rparr>) 4 9 = Some lock'"
  by (simp add: range_lock_try_def rl_empty_def RLOCK_NUM_def is_overlap_def eval_nat_numeral)

lemma rl_reach_two:
  "\<exists>lock. rl_reach (lock, [0 :: nat \<mapsto> (0, 4), 1 \<mapsto> (4, 9)])"
proof -
  let ?l1 = "rl_empty\<lparr>rlock := (rlock rl_empty)[0 := \<lparr>rl_start = 0, rl_end = 4, rl_valid = True\<rparr>],
                   lock_count := 1\<rparr>"
  have r1: "rl_reach (?l1, [0 :: nat \<mapsto> (0, 4)])"
    by (rule rl_more [OF rl_start0 rl_enter]) (simp_all add: range_lock_try_empty)
  obtain l2 where "range_lock_try ?l1 4 9 = Some l2"
    using range_lock_try_second by blast
  then have "rl_reach (l2, [0 :: nat \<mapsto> (0, 4), 1 \<mapsto> (4, 9)])"
    using rl_more [OF r1 rl_enter, of 1 4 9 l2] by simp
  then show ?thesis ..
qed

theorem range_lock_exclusive_witness:
  "\<exists>lock. rl_reach (lock, [0 :: nat \<mapsto> (0, 4), 1 \<mapsto> (4, 9)]) \<and> \<not> is_overlap 0 4 4 9"
proof -
  obtain lock where "rl_reach (lock, [0 :: nat \<mapsto> (0, 4), 1 \<mapsto> (4, 9)])"
    using rl_reach_two by blast
  with range_lock_exclusive [OF this, of 0 "(0, 4)" 1 "(4, 9)"] show ?thesis
    by auto
qed

text \<open>C31: in every reachable state a request is refused only for a reason: some held range
  overlaps it, or all twenty slots are taken; and a thread that holds a range can always
  release it (\<open>assert(0)\<close> in \<open>range_unlock\<close> is not reached).\<close>

theorem range_lock_progress:
  assumes "rl_reach (lock, held)"
  shows "(range_lock_try lock s e = None \<longrightarrow>
      (\<exists>t q. held t = Some q \<and> is_overlap s e (fst q) (snd q)) \<or> card (dom held) = RLOCK_NUM) \<and>
    (\<forall>t s e. held t = Some (s, e) \<longrightarrow> (\<exists>lock'. range_unlock lock s e = Some lock'))"
proof -
  have inv: "rl_inv (lock, held)"
    by (rule rl_reach_inv [OF assms])
  then have ms: "image_mset (the \<circ> held) (mset_set (dom held)) = mset (rl_ranges (rlock lock))"
    and fin: "finite (dom held)"
    by (auto simp: rl_inv_def)
  have "set (rl_ranges (rlock lock)) = (the \<circ> held) ` dom held"
    using arg_cong [OF ms, of set_mset] fin by simp
  moreover have "length (rl_ranges (rlock lock)) = card (dom held)"
    using arg_cong [OF ms, of size] by simp
  ultimately show ?thesis
    using inv range_lock_try_None [of lock s e] rl_inv_unlock [OF inv]
    by (fastforce simp: rl_inv_def)
qed

theorem range_lock_progress_witness:
  "\<exists>lock lock'. rl_reach (lock, [0 :: nat \<mapsto> (0, 4), 1 \<mapsto> (4, 9)]) \<and> range_unlock lock 4 9 = Some lock'"
proof -
  obtain lock where "rl_reach (lock, [0 :: nat \<mapsto> (0, 4), 1 \<mapsto> (4, 9)])"
    using rl_reach_two by blast
  moreover from range_lock_progress [OF this] have "\<exists>lock'. range_unlock lock 4 9 = Some lock'"
    by (metis map_upd_Some_unfold)
  ultimately show ?thesis
    by blast
qed

end
