(* ===== verification/Fs_State.thy ===== *)
theory Fs_State
  imports Pm_Layout Heap_Alloc List_Head Rb_Tree Range_Lock "HOL-Library.Monad_Syntax"
begin

text \<open>
  The state of the mounted file system: the media and what \<open>dram_sb_t\<close> (\<open>slotfs.h\<close>) and the
  structures of \<open>inode.h\<close>, \<open>entry.h\<close>, \<open>journal.h\<close> and \<open>slot_vfs.h\<close> hold in shared memory.

  Objects of the arenas are named by their addresses. Every structure type has its own store, and every list
  or tree field that is embedded in a structure has its own store too, indexed by the address of
  the structure that holds the field: \<open>lists\<close> is the field \<open>list\<close> of inodes, directory entries and file
  entries, \<open>invals\<close> the field \<open>invalid\<close> of inodes and \<open>invalid_list\<close> of file entries, \<open>rels\<close> the field
  \<open>release\<close>, \<open>rb_mem\<close> the field \<open>rb_node\<close> of directory entries; \<open>container_of\<close> is then the identity.
  The free lists of the arenas are the pools of the theory \<open>Arena\<close>; freeing an object overwrites
  its first word, which for an entry is the field \<open>list.next\<close>. The union of \<open>rb_root\<close> and \<open>b_root\<close> in an inode is two
  fields, the first for directories and the second for other inodes: no call is modelled that reads or writes a
  directory as a file.

  An operation that may not return (a memory error, an endless loop, a wait for a lock that the caller
  holds itself) has an option type, with \<open>None\<close> for that case. \<open>stack_pd\<close> is what the stack holds
  at the place of an uninitialised local variable. A call runs on one CPU and at one time:
  \<open>cpu\<close> and \<open>now\<close> are what \<open>sched_getcpu()\<close> and \<open>time(NULL)\<close> return.
\<close>

subsection \<open>Error numbers and constants\<close>

definition ENOENT :: int where
  "ENOENT = 2"

definition EIO :: int where
  "EIO = 5"

definition EBADF :: int where
  "EBADF = 9"

definition EPERM :: int where
  "EPERM = 1"

definition EFAULT :: int where
  "EFAULT = 14"

definition EEXIST :: int where
  "EEXIST = 17"

definition ENOTDIR :: int where
  "ENOTDIR = 20"

definition EISDIR :: int where
  "EISDIR = 21"

definition EINVAL :: int where
  "EINVAL = 22"

definition EMFILE :: int where
  "EMFILE = 24"

definition ENOSPC :: int where
  "ENOSPC = 28"

definition ELOOP :: int where
  "ELOOP = 40"

definition EBADFD :: int where
  "EBADFD = 77"

definition MAX_LOOP :: nat where
  "MAX_LOOP = 10"

definition EBUF_NUM :: nat where
  "EBUF_NUM = 128"

definition EBUF_SIZE :: nat where
  "EBUF_SIZE = 512"

definition SHM_BASE :: nat where
  "SHM_BASE = 0x700000000000"

definition PM_CACHELINE_SIZE :: nat where
  "PM_CACHELINE_SIZE = 256"

subsection \<open>Structures\<close>

record dirent =
  d_idx :: index_t
  d_ts :: nat
  d_ino :: nat
  d_hash :: nat
  d_ref :: int

record filent =
  f_idx :: index_t
  f_ts :: nat
  f_l_idx :: index_t
  f_p_idx :: index_t
  f_blocks :: nat
  f_ref :: int

record inode =
  i_ino :: nat
  i_size :: nat
  i_ctim :: nat
  i_uid :: nat
  i_gid :: nat
  i_link :: nat
  i_mode :: nat
  i_atim :: nat
  i_mtim :: nat
  i_ts :: nat
  i_ref :: nat
  i_rb_root :: nat
  i_b_root :: btree_t
  b_hint :: btree_ptr
  entry_num :: nat
  invalid_num :: nat
  f_slot_cache :: index_t
  f_slot_cache_off :: int
  log_head :: index_t
  ghost_slot :: index_t
  r_lock :: range_lock_t

record entry_unit =
  eu_blocks :: nat
  eu_l_idx :: index_t
  eu_p_idx :: index_t

record ebuf =
  eb_arr :: "nat \<Rightarrow> entry_unit"
  eb_num :: nat
  eb_locked :: bool

record fs =
  media :: pmem
  maps :: slot_maps
  inode_mem :: "nat \<Rightarrow> inode"
  dirent_mem :: "nat \<Rightarrow> dirent"
  filent_mem :: "nat \<Rightarrow> filent"
  lists :: lmem
  invals :: lmem
  rels :: lmem
  rb_mem :: "nat \<Rightarrow> rb_cell"
  bheap :: btree_heap
  inode_pool :: "nat list"
  entry_pool :: "nat list"
  itable :: "nat \<Rightarrow> nat"
  ilocked :: "nat \<Rightarrow> bool"
  ebufs :: "nat \<Rightarrow> ebuf"
  jnl_use :: "nat \<Rightarrow> bool"
  jnl_count :: int
  root_inode :: nat
  fs_ts :: nat
  fheap :: heap_t
  stack_pd :: pm_dirent
  cpu :: nat
  now :: nat

abbreviation slots_of :: "fs \<Rightarrow> slot_type \<Rightarrow> pm_slot" where
  "slots_of s \<equiv> sb_slots (super (media s))"

text \<open>An inode of zero bytes, as \<open>inode_init_header\<close> clears it.\<close>

definition zero_inode :: inode where
  "zero_inode = \<lparr>i_ino = 0, i_size = 0, i_ctim = 0, i_uid = 0, i_gid = 0, i_link = 0, i_mode = 0, i_atim = 0,
    i_mtim = 0, i_ts = 0, i_ref = 0, i_rb_root = 0, i_b_root = \<lparr>bt_root = 0, bt_height = 0\<rparr>,
    b_hint = \<lparr>bp_node = 0, bp_index = 0, bp_key = 0\<rparr>, entry_num = 0, invalid_num = 0, f_slot_cache = 0,
    f_slot_cache_off = 0, log_head = 0, ghost_slot = 0,
    r_lock = \<lparr>rlock = replicate RLOCK_NUM \<lparr>rl_start = 0, rl_end = 0, rl_valid = False\<rparr>, lock_count = 0\<rparr>\<rparr>"

subsection \<open>Access\<close>

definition upd_inode :: "fs \<Rightarrow> nat \<Rightarrow> (inode \<Rightarrow> inode) \<Rightarrow> fs" where
  "upd_inode s p f = s\<lparr>inode_mem := (inode_mem s)(p := f (inode_mem s p))\<rparr>"

definition upd_dirent :: "fs \<Rightarrow> nat \<Rightarrow> (dirent \<Rightarrow> dirent) \<Rightarrow> fs" where
  "upd_dirent s p f = s\<lparr>dirent_mem := (dirent_mem s)(p := f (dirent_mem s p))\<rparr>"

definition upd_filent :: "fs \<Rightarrow> nat \<Rightarrow> (filent \<Rightarrow> filent) \<Rightarrow> fs" where
  "upd_filent s p f = s\<lparr>filent_mem := (filent_mem s)(p := f (filent_mem s p))\<rparr>"

text \<open>Entries, inodes and list heads live in the shared-memory segment. A null pointer, an error number
  that is taken for a pointer and a poisoned link are below it and fault.\<close>

definition deref :: "nat \<Rightarrow> unit option" where
  "deref p = (if p < SHM_BASE then None else Some ())"

text \<open>The \<open>IDX2...\<close> macros compute the address of a slot on the device. The tables of the media describe the slots with an index from 0 to
  \<open>slot_num\<close>. An index outside its table, like the \<open>-1\<close> of a failed allocation, is the address of other memory of the device: the
  code reads or overwrites that without a fault. What it finds or destroys there is not described, and the result of the model is \<open>None\<close>.\<close>

definition IDX2INODE :: "fs \<Rightarrow> index_t \<Rightarrow> int" where
  "IDX2INODE s idx = int (slot_table (slots_of s SLOT_INODE)) + idx * int (slot_size (slots_of s SLOT_INODE))"

definition IDX2DENT :: "fs \<Rightarrow> index_t \<Rightarrow> int" where
  "IDX2DENT s idx = int (slot_table (slots_of s SLOT_DIR)) + idx * int (slot_size (slots_of s SLOT_DIR))"

definition in_table :: "fs \<Rightarrow> slot_type \<Rightarrow> index_t \<Rightarrow> nat option" where
  "in_table s t idx = (if 0 \<le> idx \<and> idx < int (slot_num (slots_of s t)) then Some (nat idx) else None)"

definition pm_inode_at :: "fs \<Rightarrow> index_t \<Rightarrow> pm_inode option" where
  "pm_inode_at s idx = map_option (pm_inodes (media s)) (in_table s SLOT_INODE idx)"

definition pm_dirent_at :: "fs \<Rightarrow> index_t \<Rightarrow> pm_dirent option" where
  "pm_dirent_at s idx = map_option (pm_dirents (media s)) (in_table s SLOT_DIR idx)"

definition pm_filent_at :: "fs \<Rightarrow> index_t \<Rightarrow> pm_filent option" where
  "pm_filent_at s idx = map_option (pm_filents (media s)) (in_table s SLOT_FILE idx)"

definition upd_pm_inode :: "fs \<Rightarrow> index_t \<Rightarrow> (pm_inode \<Rightarrow> pm_inode) \<Rightarrow> fs option" where
  "upd_pm_inode s idx f = map_option (\<lambda>i.
     s\<lparr>media := (media s)\<lparr>pm_inodes := (pm_inodes (media s))(i := f (pm_inodes (media s) i))\<rparr>\<rparr>) (in_table s SLOT_INODE idx)"

definition upd_pm_dirent :: "fs \<Rightarrow> index_t \<Rightarrow> (pm_dirent \<Rightarrow> pm_dirent) \<Rightarrow> fs option" where
  "upd_pm_dirent s idx f = map_option (\<lambda>i.
     s\<lparr>media := (media s)\<lparr>pm_dirents := (pm_dirents (media s))(i := f (pm_dirents (media s) i))\<rparr>\<rparr>) (in_table s SLOT_DIR idx)"

definition upd_pm_filent :: "fs \<Rightarrow> index_t \<Rightarrow> (pm_filent \<Rightarrow> pm_filent) \<Rightarrow> fs option" where
  "upd_pm_filent s idx f = map_option (\<lambda>i.
     s\<lparr>media := (media s)\<lparr>pm_filents := (pm_filents (media s))(i := f (pm_filents (media s) i))\<rparr>\<rparr>) (in_table s SLOT_FILE idx)"

text \<open>Data pages: \<open>IDX2DATA(idx) + off\<close> relative to the data table, as a byte offset.\<close>

definition data_pos :: "index_t \<Rightarrow> nat \<Rightarrow> int" where
  "data_pos idx off = idx * int PAGE_SIZE + int off"

definition data_ok :: "fs \<Rightarrow> int \<Rightarrow> nat \<Rightarrow> bool" where
  "data_ok s pos len \<longleftrightarrow> len = 0 \<or> (0 \<le> pos \<and> pos + int len \<le> int (slot_num (slots_of s SLOT_DATA) * PAGE_SIZE))"

definition data_read :: "fs \<Rightarrow> int \<Rightarrow> nat \<Rightarrow> byte list option" where
  "data_read s pos len =
    (if data_ok s pos len then Some (map (\<lambda>i. pm_data (media s) (nat pos + i)) [0..<len]) else None)"

definition data_write :: "fs \<Rightarrow> int \<Rightarrow> byte list \<Rightarrow> fs option" where
  "data_write s pos bs =
    (if data_ok s pos (length bs)
     then Some (s\<lparr>media := (media s)\<lparr>pm_data := \<lambda>i. if nat pos \<le> i \<and> i < nat pos + length bs then bs ! (i - nat pos)
                    else pm_data (media s) i\<rparr>\<rparr>)
     else None)"

subsection \<open>Arenas (slotfs.h)\<close>

definition inode_alloc :: "fs \<Rightarrow> nat \<times> fs" where
  "inode_alloc s = (let (p, pool) = pool_alloc (inode_pool s) in (p, s\<lparr>inode_pool := pool\<rparr>))"

definition pool_top :: "nat list \<Rightarrow> nat" where
  "pool_top pool = (case pool of [] \<Rightarrow> 0 | p # _ \<Rightarrow> p)"

definition inode_free :: "fs \<Rightarrow> nat \<Rightarrow> fs" where
  "inode_free s p =
    (let s = upd_inode s p (\<lambda>i. i\<lparr>i_ino := pool_top (inode_pool s)\<rparr>)
     in s\<lparr>inode_pool := pool_free (inode_pool s) p\<rparr>)"

definition entry_alloc :: "fs \<Rightarrow> nat \<times> fs" where
  "entry_alloc s = (let (p, pool) = pool_alloc (entry_pool s) in (p, s\<lparr>entry_pool := pool\<rparr>))"

definition entry_free :: "fs \<Rightarrow> nat \<Rightarrow> fs" where
  "entry_free s p =
    s\<lparr>lists := set_next (lists s) p (pool_top (entry_pool s)), entry_pool := pool_free (entry_pool s) p\<rparr>"

definition dirent_alloc :: "fs \<Rightarrow> nat \<times> fs" where
  "dirent_alloc s = entry_alloc s"

definition dirent_free :: "fs \<Rightarrow> nat \<Rightarrow> fs" where
  "dirent_free s p = entry_free s p"

definition filent_alloc :: "fs \<Rightarrow> nat \<times> fs" where
  "filent_alloc s = entry_alloc s"

definition filent_free :: "fs \<Rightarrow> nat \<Rightarrow> fs" where
  "filent_free s p = entry_free s p"

definition slotfs_timestamp :: "fs \<Rightarrow> nat \<times> fs" where
  "slotfs_timestamp s = (let t = size_add (fs_ts s) 1 in (t, s\<lparr>fs_ts := t\<rparr>))"

subsection \<open>Inode locks (slot\_vfs.h)\<close>

definition inode_lock :: "fs \<Rightarrow> nat \<Rightarrow> fs option" where
  "inode_lock s ino =
    (if ino < slot_num (slots_of s SLOT_INODE) \<and> \<not> ilocked s ino then Some (s\<lparr>ilocked := (ilocked s)(ino := True)\<rparr>) else None)"

definition inode_unlock :: "fs \<Rightarrow> nat \<Rightarrow> fs option" where
  "inode_unlock s ino =
    (if ino < slot_num (slots_of s SLOT_INODE) then Some (s\<lparr>ilocked := (ilocked s)(ino := False)\<rparr>) else None)"

subsection \<open>Modes and hashes\<close>

definition is_dir :: "inode \<Rightarrow> bool" where
  "is_dir i \<longleftrightarrow> i_mode i AND S_IFMT = S_IFDIR"

definition is_reg :: "inode \<Rightarrow> bool" where
  "is_reg i \<longleftrightarrow> i_mode i AND S_IFMT = S_IFREG"

definition is_symlink :: "inode \<Rightarrow> bool" where
  "is_symlink i \<longleftrightarrow> i_mode i AND S_IFMT = S_IFLNK"

definition is_exec :: "inode \<Rightarrow> bool" where
  "is_exec i \<longleftrightarrow> i_mode i AND S_IXUSR \<noteq> 0"

text \<open>The conversions to the signed types \<open>off_t\<close> (64 bits) and \<open>int\<close> (32 bits), and from the signed \<open>char\<close>.\<close>

definition off_t :: "int \<Rightarrow> int" where
  "off_t n = (n + 2 ^ 63) mod 2 ^ 64 - 2 ^ 63"

definition int_of_ssize :: "int \<Rightarrow> int" where
  "int_of_ssize n = (n + 2 ^ 31) mod 2 ^ 32 - 2 ^ 31"

definition schar :: "char \<Rightarrow> int" where
  "schar c = (let n = of_char c in if n < 128 then n else n - 256)"

definition BKDRHash :: "string \<Rightarrow> nat" where
  "BKDRHash str = foldl (\<lambda>hash c. to_size (int hash * 131 + schar c)) 0 str"

text \<open>Copying a name into an array of \<open>MAX_NAME_LEN\<close> bytes.\<close>

definition name_copy :: "string \<Rightarrow> string \<Rightarrow> string option" where
  "name_copy old name = (if length name \<le> MAX_NAME_LEN then Some (name @ drop (length name) old) else None)"

subsection \<open>A blank state\<close>

text \<open>The state that the concrete examples start from: zeroed memory and media with 64 slots of every type, slots 0
  and 1 of every type in use.\<close>

definition blank_slot :: "nat \<Rightarrow> pm_slot" where
  "blank_slot tab = \<lparr>slot_table = tab, slot_num = 64, slot_size = 4096, slot_pages = 64, slot_bitmap = 0, bitmap_pages = 1\<rparr>"

definition blank_map :: dram_bitmap where
  "blank_map = \<lparr>dram = (\<lambda>_. 0)(0 := 3), pm = 0, bit_offset = 0, bit_num = 64, remain = 62, hint = 2\<rparr>"

definition blank_fs :: fs where
  "blank_fs = \<lparr>media = \<lparr>super = \<lparr>sb_magic = SUPER_BLOCK_MAGIC, sb_mtime = 0, sb_ctime = 0, sb_size = DAX_SIZE, sb_ts = 0,
      sb_slots = \<lambda>t. blank_slot (0x1000000 + 0x1000000 * slot_rank t), sb_umount = False, sb_csm = 0\<rparr>,
      pm_bitmaps = \<lambda>_ _. 0, pm_inodes = \<lambda>_. zero_pm_inode, pm_dirents = \<lambda>_. zero_pm_dirent,
      pm_filents = \<lambda>_. zero_pm_filent, pm_data = \<lambda>_. 0, pm_jnls = \<lambda>_. zero_pm_jnl\<rparr>,
    maps = \<lambda>_. [blank_map], inode_mem = \<lambda>_. zero_inode,
    dirent_mem = \<lambda>_. \<lparr>d_idx = 0, d_ts = 0, d_ino = 0, d_hash = 0, d_ref = 0\<rparr>,
    filent_mem = \<lambda>_. \<lparr>f_idx = 0, f_ts = 0, f_l_idx = 0, f_p_idx = 0, f_blocks = 0, f_ref = 0\<rparr>,
    lists = \<lparr>lnext = \<lambda>_. 0, lprev = \<lambda>_. 0\<rparr>, invals = \<lparr>lnext = \<lambda>_. 0, lprev = \<lambda>_. 0\<rparr>,
    rels = \<lparr>lnext = \<lambda>_. 0, lprev = \<lambda>_. 0\<rparr>, rb_mem = \<lambda>_. \<lparr>rb_pc = 0, rb_right = 0, rb_left = 0\<rparr>,
    bheap = \<lparr>bnodes = \<lambda>_. zero_node, bpool = [], bstray = 0\<rparr>,
    inode_pool = [], entry_pool = [], itable = \<lambda>_. 0, ilocked = \<lambda>_. False,
    ebufs = \<lambda>_. \<lparr>eb_arr = \<lambda>_. \<lparr>eu_blocks = 0, eu_l_idx = 0, eu_p_idx = 0\<rparr>, eb_num = 0, eb_locked = False\<rparr>,
    jnl_use = \<lambda>_. False, jnl_count = 0, root_inode = 0, fs_ts = 0,
    fheap = \<lparr>hnodes = \<lambda>_. \<lparr>nd_hole = 0, nd_size = 0, nd_next = 0, nd_prev = 0\<rparr>, hfoots = \<lambda>_. 0, hbins = \<lambda>_. 0,
      hstart = 0, hend = 0\<rparr>,
    stack_pd = zero_pm_dirent, cpu = 0, now = 0\<rparr>"

end
