(* ===== verification/Recover.thy ===== *)
theory Recover
  imports Fs_State
begin

text \<open>
  The recovery after a crash, \<open>slotfs/recover.c\<close>: it walks the logs of all inodes that are reachable from
  the root, and writes back the bitmaps and the number of entries of each inode.

  \<open>malloc\<close> is an input: \<open>mallocs\<close> is the list of its results (0 for \<open>NULL\<close>, and for every call after the
  end of the list). What a fresh object holds is what the stores hold at its address; the code does not clear it.
  The nodes of the block indexes come from the pool of \<open>rc_bheap\<close> (the allocator of \<open>btree_module_init_default\<close>).
  The eight threads take inodes from one queue; the schedule modelled is the one where one thread takes them all
  while the others wait. A thread that fails ends without leaving \<open>active_thread\<close>, so that the others wait forever.
\<close>

definition THREAD_NUM :: nat where
  "THREAD_NUM = 8"

record queue_t =
  q_front :: int
  q_rear :: int
  q_data :: "nat \<Rightarrow> int"
  q_capacity :: int

record rc_inode =
  rci_log_head :: index_t
  rci_entry_num :: nat
  rci_valid :: bool
  rci_ts :: nat
  rci_link :: int
  rci_mode :: nat
  rci_btree :: btree_t
  rci_hint :: btree_ptr

record rc_filent =
  rcf_ts :: nat
  rcf_ref :: int
  rcf_p_idx :: index_t
  rcf_l_idx :: index_t
  rcf_blocks :: int

record rc_mgr =
  rc_media :: pmem
  rc_map :: "slot_type \<Rightarrow> bytes"
  rc_table :: "nat \<Rightarrow> nat"
  rc_queue :: queue_t
  rc_inode_mem :: "nat \<Rightarrow> rc_inode"
  rc_filent_mem :: "nat \<Rightarrow> rc_filent"
  rc_lists :: lmem
  rc_bheap :: btree_heap
  mallocs :: "nat list"

abbreviation rc_slots :: "rc_mgr \<Rightarrow> slot_type \<Rightarrow> pm_slot" where
  "rc_slots r \<equiv> sb_slots (super (rc_media r))"

subsection \<open>The queue\<close>

text \<open>An index outside the array is a memory error: \<open>rear\<close> never goes back.\<close>

definition queue_init :: "queue_t \<Rightarrow> nat \<Rightarrow> queue_t" where
  "queue_init q sz = q\<lparr>q_front := 0, q_rear := 0, q_capacity := c_int sz\<rparr>"

definition queue_push :: "queue_t \<Rightarrow> int \<Rightarrow> queue_t option" where
  "queue_push q val =
    (if q_rear q - q_front q \<ge> q_capacity q then None
     else if q_rear q < 0 \<or> q_capacity q \<le> q_rear q then None
     else Some (q\<lparr>q_data := (q_data q)(nat (q_rear q) := val), q_rear := q_rear q + 1\<rparr>))"

definition queue_pop :: "queue_t \<Rightarrow> (int \<times> queue_t) option" where
  "queue_pop q =
    (if q_front q \<ge> q_rear q then None
     else Some (q_data q (nat (q_front q)), q\<lparr>q_front := q_front q + 1\<rparr>))"

subsection \<open>Objects\<close>

definition rc_malloc :: "rc_mgr \<Rightarrow> nat \<times> rc_mgr" where
  "rc_malloc r = (case mallocs r of [] \<Rightarrow> (0, r) | p # ps \<Rightarrow> (p, r\<lparr>mallocs := ps\<rparr>))"

definition upd_rc_inode :: "rc_mgr \<Rightarrow> nat \<Rightarrow> (rc_inode \<Rightarrow> rc_inode) \<Rightarrow> rc_mgr" where
  "upd_rc_inode r p f = r\<lparr>rc_inode_mem := (rc_inode_mem r)(p := f (rc_inode_mem r p))\<rparr>"

definition upd_rc_filent :: "rc_mgr \<Rightarrow> nat \<Rightarrow> (rc_filent \<Rightarrow> rc_filent) \<Rightarrow> rc_mgr" where
  "upd_rc_filent r p f = r\<lparr>rc_filent_mem := (rc_filent_mem r)(p := f (rc_filent_mem r p))\<rparr>"

definition rc_in_table :: "rc_mgr \<Rightarrow> slot_type \<Rightarrow> index_t \<Rightarrow> nat option" where
  "rc_in_table r t idx = (if 0 \<le> idx \<and> idx < int (slot_num (rc_slots r t)) then Some (nat idx) else None)"

definition rc_iget :: "rc_mgr \<Rightarrow> index_t \<Rightarrow> (nat \<times> rc_mgr) option" where
  "rc_iget r ino =
    do {
      i \<leftarrow> rc_in_table r SLOT_INODE ino;
      if rc_table r i \<noteq> 0 then Some (rc_table r i, r)
      else
        let (p, r) = rc_malloc r
        in if p = 0 then Some (0, r)
           else Some (p, r\<lparr>rc_table := (rc_table r)(i := p), rc_lists := INIT_LIST_HEAD (rc_lists r) p\<rparr>)
    }"

definition rc_set_bit :: "rc_mgr \<Rightarrow> slot_type \<Rightarrow> nat \<Rightarrow> rc_mgr" where
  "rc_set_bit r t i = r\<lparr>rc_map := (rc_map r)(t := set_bit i (rc_map r t))\<rparr>"

definition rc_map_bytes :: "rc_mgr \<Rightarrow> slot_type \<Rightarrow> nat" where
  "rc_map_bytes r t = (slot_num (rc_slots r t) + 7) div 8"

definition rc_clear_bit :: "rc_mgr \<Rightarrow> slot_type \<Rightarrow> index_t \<Rightarrow> rc_mgr option" where
  "rc_clear_bit r t idx =
    (if 0 \<le> idx \<and> idx < int (8 * rc_map_bytes r t)
     then Some (r\<lparr>rc_map := (rc_map r)(t := clear_bit (nat idx) (rc_map r t))\<rparr>) else None)"

text \<open>The allocations of \<open>rc_init\<close> for the manager, the four bitmaps, the table, the queue and its array come first; each that
  fails ends the recovery with \<open>-ENOMEM\<close>. The array of threads is not tested, nor is the root: a failure there is
  a memory error.\<close>

definition rc_init :: "rc_mgr \<Rightarrow> (int \<times> rc_mgr) option" where
  "rc_init r =
    (let objs = take 8 (mallocs r); threads = drop 8 (mallocs r)
     in if length objs < 8 \<or> 0 \<in> set objs then Some (- ENOMEM, r\<lparr>mallocs := threads\<rparr>)
        else if threads = [] \<or> hd threads = 0 then None
        else
          let r = r\<lparr>mallocs := tl threads\<rparr>;
              r = r\<lparr>rc_map := \<lambda>t i. if i < rc_map_bytes r t then 0 else rc_map r t i,
                rc_table := \<lambda>i. if i < slot_num (rc_slots r SLOT_INODE) then 0 else rc_table r i,
                rc_queue := queue_init (rc_queue r) (slot_num (rc_slots r SLOT_INODE))\<rparr>
          in do {
            (root, r) \<leftarrow> rc_iget r 0;
            if root = 0 then None
            else Some (0, upd_rc_inode r root (\<lambda>i. i\<lparr>rci_valid := True, rci_link := 1, rci_ts := 0\<rparr>))
          })"

subsection \<open>The walk\<close>

text \<open>The results are the return code and the number of the next slot.\<close>

definition rc_handle_dirent :: "rc_mgr \<Rightarrow> nat \<Rightarrow> index_t \<Rightarrow> (int \<times> index_t \<times> rc_mgr) option" where
  "rc_handle_dirent r inode idx =
    do {
      i \<leftarrow> rc_in_table r SLOT_DIR idx;
      let de = pm_dirents (rc_media r) i;
      (child, r) \<leftarrow> rc_iget r (int (pd_ino de));
      if child = 0 then Some (- ENOMEM, 0, r)
      else do {
        let r = rc_set_bit r SLOT_DIR i;
        let r = upd_rc_inode r child (\<lambda>c. c\<lparr>rci_link := c_int (to_size (rci_link c + 1))\<rparr>);
        r \<leftarrow> (if rci_link (rc_inode_mem r child) = 1
              then queue_push (rc_queue r) (c_int (pd_ino de)) \<bind> (\<lambda>q. Some (r\<lparr>rc_queue := q\<rparr>)) else Some r);
        let r = upd_rc_inode r inode (\<lambda>c. c\<lparr>rci_entry_num := size_add (rci_entry_num c) 1\<rparr>);
        Some (0, pd_next de, r)
      }
    }"

text \<open>The blocks of one file entry: the loop of \<open>rc_handle_filent\<close> over \<open>i\<close>.\<close>

primrec rc_filent_loop :: "nat list \<Rightarrow> rc_mgr \<Rightarrow> nat \<Rightarrow> nat \<Rightarrow> rc_mgr option" where
  "rc_filent_loop [] r inode f = Some r"
| "rc_filent_loop (k # ks) r inode f =
    do {
      let idx = rcf_l_idx (rc_filent_mem r f) + int k;
      (pos, hint, h) \<leftarrow> btree_get_ptr_hint (rc_bheap r) (rci_btree (rc_inode_mem r inode)) (to_size idx) (rci_hint (rc_inode_mem r inode));
      let r = upd_rc_inode (r\<lparr>rc_bheap := h\<rparr>) inode (\<lambda>c. c\<lparr>rci_hint := hint\<rparr>);
      (node, index) \<leftarrow> pos;
      if index \<ge> BRANCH_NUM then None
      else do {
        let old = children (bnodes h node) index;
        let store = (\<lambda>r. r\<lparr>rc_bheap := upd_node (rc_bheap r) node (\<lambda>b. b\<lparr>children := (children b)(index := f)\<rparr>)\<rparr>);
        r \<leftarrow> (if old \<noteq> 0 then
                if rcf_ts (rc_filent_mem r old) < rcf_ts (rc_filent_mem r f) then do {
                  let r = upd_rc_filent (store r) old (\<lambda>c. c\<lparr>rcf_ref := rcf_ref c - 1\<rparr>);
                  let o1 = rc_filent_mem r old;
                  r \<leftarrow> rc_clear_bit r SLOT_DATA (rcf_p_idx o1 + (rcf_l_idx o1 - idx));
                  Some (if rcf_ref o1 = 0 then r\<lparr>rc_lists := list_del (rc_lists r) old\<rparr> else r)
                }
                else let f1 = rc_filent_mem r f in rc_clear_bit r SLOT_DATA (rcf_p_idx f1 + (rcf_l_idx f1 - idx))
              else Some (upd_rc_filent (store r) f (\<lambda>c. c\<lparr>rcf_ref := rcf_ref c + 1\<rparr>)));
        rc_filent_loop ks r inode f
      }
    }"

definition rc_handle_filent :: "rc_mgr \<Rightarrow> nat \<Rightarrow> index_t \<Rightarrow> (int \<times> index_t \<times> rc_mgr) option" where
  "rc_handle_filent r inode idx =
    do {
      i \<leftarrow> rc_in_table r SLOT_FILE idx;
      let fe = pm_filents (rc_media r) i;
      let r = rc_set_bit r SLOT_FILE i;
      let (f, r) = rc_malloc r;
      if f = 0 then Some (- ENOMEM, 0, r)
      else do {
        let r = upd_rc_filent r f (\<lambda>c. c\<lparr>rcf_ts := pf_ts fe, rcf_p_idx := int (pf_p_idx fe), rcf_blocks := c_int (pf_blocks fe),
              rcf_l_idx := int (pf_l_idx fe)\<rparr>);
        if pf_next fe = 0 then Some (0, 0, r)
        else do {
          r \<leftarrow> rc_filent_loop [0..<nat (rcf_blocks (rc_filent_mem r f))] r inode f;
          let r = (if rcf_ref (rc_filent_mem r f) = 0 then r else r\<lparr>rc_lists := list_add_tail (rc_lists r) f inode\<rparr>);
          Some (0, pf_next fe, upd_rc_inode r inode (\<lambda>c. c\<lparr>rci_entry_num := size_add (rci_entry_num c) 1\<rparr>))
        }
      }
    }"

text \<open>The log of one inode. A log that runs in a circle is an endless loop.\<close>

partial_function (option) rc_log_loop :: "rc_mgr \<Rightarrow> nat \<Rightarrow> index_t \<Rightarrow> (int \<times> rc_mgr) option" where
  [code]: "rc_log_loop r inode idx =
    (if idx = 0 then Some (0, r)
     else do {
       (ret, nxt, r) \<leftarrow> (if rci_mode (rc_inode_mem r inode) AND S_IFDIR \<noteq> 0 then rc_handle_dirent r inode idx
                        else rc_handle_filent r inode idx);
       if ret \<noteq> 0 then Some (ret, r) else rc_log_loop r inode nxt
     })"

definition rc_handle_inode :: "rc_mgr \<Rightarrow> index_t \<Rightarrow> (int \<times> rc_mgr) option" where
  "rc_handle_inode r ino =
    do {
      (inode, r) \<leftarrow> rc_iget r ino;
      if inode = 0 then Some (- ENOMEM, r)
      else do {
        i \<leftarrow> rc_in_table r SLOT_INODE ino;
        let q = pm_inodes (rc_media r) i;
        let r = upd_rc_inode r inode (\<lambda>c. c\<lparr>rci_mode := pi_mode q, rci_log_head := pi_log_head q\<rparr>);
        let r = rc_set_bit r SLOT_INODE i;
        let r = (if pi_mode q AND S_IFDIR = 0 then
                   let (b, h) = btree_create (rc_bheap r)
                   in upd_rc_inode (r\<lparr>rc_bheap := h\<rparr>) inode (\<lambda>c. c\<lparr>rci_btree := b,
                        rci_hint := (rci_hint c)\<lparr>bp_node := 0, bp_index := 0\<rparr>\<rparr>)
                 else r);
        rc_log_loop r inode (pi_log_head q)
      }
    }"

text \<open>The loop of a thread, until the queue is empty; a failure of \<open>rc_handle_inode\<close> leaves the other threads waiting.\<close>

partial_function (option) rc_replay :: "rc_mgr \<Rightarrow> rc_mgr option" where
  [code]: "rc_replay r =
    (case queue_pop (rc_queue r) of
       None \<Rightarrow> Some r
     | Some (ino, q) \<Rightarrow> do {
         (ret, r) \<leftarrow> rc_handle_inode (r\<lparr>rc_queue := q\<rparr>) ino;
         if ret \<noteq> 0 then None else rc_replay r
       })"

subsection \<open>Writing back\<close>

definition rc_flush :: "rc_mgr \<Rightarrow> rc_mgr" where
  "rc_flush r =
    (let m = rc_media r;
         m = m\<lparr>pm_inodes := \<lambda>i. if i < slot_num (rc_slots r SLOT_INODE) \<and> rc_table r i \<noteq> 0
               then (pm_inodes m i)\<lparr>pi_entry_num := rci_entry_num (rc_inode_mem r (rc_table r i))\<rparr> else pm_inodes m i\<rparr>;
         m = m\<lparr>pm_bitmaps := \<lambda>t i. if i < rc_map_bytes r t then rc_map r t i else pm_bitmaps m t i\<rparr>
     in r\<lparr>rc_media := m\<rparr>)"

text \<open>\<open>rc_free\<close>, which comes last, only gives the objects back.\<close>

definition recover :: "rc_mgr \<Rightarrow> (int \<times> rc_mgr) option" where
  "recover r =
    do {
      (ret, r) \<leftarrow> rc_init r;
      if ret \<noteq> 0 then Some (- ENOMEM, r)
      else do {
        q \<leftarrow> queue_push (rc_queue r) 0;
        r \<leftarrow> rc_replay (r\<lparr>rc_queue := q\<rparr>);
        Some (0, rc_flush r)
      }
    }"

subsection \<open>The data blocks\<close>

text \<open>The bitmap of the data blocks in memory, which starts empty, stays empty.\<close>

definition data_clear :: "pm_sb \<Rightarrow> rc_mgr \<Rightarrow> bool" where
  "data_clear sb r \<longleftrightarrow> super (rc_media r) = sb \<and> (\<forall>i < rc_map_bytes r SLOT_DATA. rc_map r SLOT_DATA i = 0)"

lemma data_clear_upd [simp]:
  "data_clear sb (upd_rc_inode r p f) = data_clear sb r" "data_clear sb (upd_rc_filent r p g) = data_clear sb r"
  "data_clear sb (r\<lparr>rc_queue := q\<rparr>) = data_clear sb r" "data_clear sb (r\<lparr>rc_bheap := h\<rparr>) = data_clear sb r"
  "data_clear sb (r\<lparr>rc_lists := l\<rparr>) = data_clear sb r" "data_clear sb (r\<lparr>rc_table := tab\<rparr>) = data_clear sb r"
  "data_clear sb (r\<lparr>mallocs := ps\<rparr>) = data_clear sb r" "t \<noteq> SLOT_DATA \<Longrightarrow> data_clear sb (rc_set_bit r t i) = data_clear sb r"
  by (simp_all add: data_clear_def upd_rc_inode_def upd_rc_filent_def rc_map_bytes_def rc_set_bit_def)

lemma malloc_clear: "rc_malloc r = (p, r') \<Longrightarrow> data_clear sb r \<Longrightarrow> data_clear sb r'"
  by (auto simp: rc_malloc_def split: list.splits)

lemma iget_clear: "rc_iget r ino = Some (p, r') \<Longrightarrow> data_clear sb r \<Longrightarrow> data_clear sb r'"
  by (auto simp: rc_iget_def dest!: malloc_clear [where sb = sb] split: Option.bind_splits prod.splits if_splits)

lemma clear_bit_clear: "rc_clear_bit r t idx = Some r' \<Longrightarrow> data_clear sb r \<Longrightarrow> data_clear sb r'"
  by (auto simp: rc_clear_bit_def data_clear_def clear_bit_def rc_map_bytes_def split: if_splits)

lemma filent_loop_clear: "rc_filent_loop ks r inode f = Some r' \<Longrightarrow> data_clear sb r \<Longrightarrow> data_clear sb r'"
proof (induction ks arbitrary: r)
  case (Cons k ks)
  from Cons.prems show ?case
    by (auto simp: Let_def split: Option.bind_splits if_splits dest!: clear_bit_clear [where sb = sb] Cons.IH)
qed simp

lemma handle_dirent_clear: "rc_handle_dirent r inode idx = Some (ret, nxt, r') \<Longrightarrow> data_clear sb r \<Longrightarrow> data_clear sb r'"
  by (auto simp: rc_handle_dirent_def Let_def split: Option.bind_splits if_splits dest!: iget_clear [where sb = sb])

lemma handle_filent_clear: "rc_handle_filent r inode idx = Some (ret, nxt, r') \<Longrightarrow> data_clear sb r \<Longrightarrow> data_clear sb r'"
  by (auto simp: rc_handle_filent_def Let_def split: Option.bind_splits if_splits prod.splits dest!: malloc_clear [where sb = sb] filent_loop_clear [where sb = sb])

lemma log_loop_clear:
  assumes "rc_log_loop r inode idx = Some (ret, r')" "data_clear sb r"
  shows "data_clear sb r'"
proof -
  have "data_clear sb r \<longrightarrow> data_clear sb (snd (ret, r'))"
  proof (rule rc_log_loop.raw_induct [where P = "\<lambda>r inode idx y. data_clear sb r \<longrightarrow> data_clear sb (snd y)", OF _ assms(1)], goal_cases)
    case (1 loop r inode idx y)
    show ?case
    proof
      assume "data_clear sb r"
      with 1 show "data_clear sb (snd y)"
        by (cases y) (auto split: if_splits Option.bind_splits dest!: handle_dirent_clear [where sb = sb] handle_filent_clear [where sb = sb])
    qed
  qed
  with assms(2) show ?thesis by simp
qed

lemma handle_inode_clear:
  assumes "rc_handle_inode r ino = Some (ret, r')" "data_clear sb r"
  shows "data_clear sb r'"
proof -
  from assms(1) obtain p r1 where i: "rc_iget r ino = Some (p, r1)"
    by (auto simp: rc_handle_inode_def split: Option.bind_splits)
  note c = iget_clear [OF i assms(2)]
  show ?thesis
    using assms(1) i c
    by (auto simp: rc_handle_inode_def Let_def split: Option.bind_splits if_splits prod.splits dest!: log_loop_clear [where sb = sb])
qed

lemma replay_clear:
  assumes "rc_replay r = Some r'" "data_clear sb r"
  shows "data_clear sb r'"
proof -
  have "data_clear sb r \<longrightarrow> data_clear sb r'"
  proof (rule rc_replay.raw_induct [where P = "\<lambda>r y. data_clear sb r \<longrightarrow> data_clear sb y", OF _ assms(1)], goal_cases)
    case (1 loop r y)
    show ?case
    proof
      assume d: "data_clear sb r"
      show "data_clear sb y"
      proof (cases "queue_pop (rc_queue r)")
        case None
        with 1 d show ?thesis by simp
      next
        case (Some a)
        obtain ino q where "a = (ino, q)" by fastforce
        with 1 d Some show ?thesis
          by (auto split: if_splits Option.bind_splits dest!: handle_inode_clear [where sb = sb])
      qed
    qed
  qed
  with assms(2) show ?thesis by simp
qed

text \<open>C37: Recovery frees every data block. Whatever the media holds, after a \<open>recover\<close> that succeeds the bitmap of the data
  blocks on the media marks no block as used: \<open>rc_handle_filent\<close> marks the slots of the log, but only ever clears bits in
  the bitmap of the data. The blocks of all files can then be allocated again.\<close>

theorem recover_frees_data:
  assumes "recover r = Some (0, r')" "i < slot_num (sb_slots (super (rc_media r)) SLOT_DATA)"
  shows "\<not> bit_at (pm_bitmaps (rc_media r') SLOT_DATA) i"
proof -
  let ?sb = "super (rc_media r)"
  obtain r1 q r2 where run: "rc_init r = Some (0, r1)" "queue_push (rc_queue r1) 0 = Some q" "rc_replay (r1\<lparr>rc_queue := q\<rparr>) = Some r2"
    "r' = rc_flush r2"
    using assms(1) by (auto simp: recover_def ENOMEM_def split: Option.bind_splits if_splits)
  have "data_clear ?sb r1"
    using run(1)
    by (auto simp: rc_init_def Let_def ENOMEM_def split: if_splits Option.bind_splits dest!: iget_clear [where sb = ?sb],
        simp_all add: data_clear_def rc_map_bytes_def)
  then have c: "data_clear ?sb r2"
    using replay_clear [OF run(3)] by simp
  then have "i div 8 < rc_map_bytes r2 SLOT_DATA"
    using assms(2) by (simp add: data_clear_def rc_map_bytes_def less_eq_Suc_le [symmetric] div_less_iff_less_mult)
  with c show ?thesis
    by (simp add: run(4) rc_flush_def Let_def bit_at_def data_clear_def rc_map_bytes_def)
qed

subsection \<open>Recovering an empty file system\<close>

lemma mkfs_root:
  "pm_inodes (mkfs ct sb m) 0 = zero_pm_inode\<lparr>pi_mode := S_IFDIR OR 0x1ed, pi_link := 1, pi_ctim := ct, pi_mtim := ct, pi_atim := ct,
     pi_log_head := 1\<rparr>"
  "pm_dirents (mkfs ct sb m) 1 = zero_pm_dirent" "sb_umount (super (mkfs ct sb m))"
  using dax_slot_num [of "sb_slots sb"]
  by (simp_all add: mkfs_def mkfs_slot_def mkfs_journal_def mkfs_rootinode_def Let_def zero_pm_inode_def crc32c_def)

text \<open>The manager after \<open>rc_init\<close>, with the root at \<open>p\<close>.\<close>

definition rc_started :: "rc_mgr \<Rightarrow> nat \<Rightarrow> nat \<Rightarrow> bool" where
  "rc_started r p k \<longleftrightarrow> rc_table r 0 = p \<and> p \<noteq> 0 \<and> rci_entry_num (rc_inode_mem r p) = k \<and>
     rci_link (rc_inode_mem r p) = 1 \<and> q_front (rc_queue r) = 0 \<and> q_rear (rc_queue r) = 0 \<and> 0 < q_capacity (rc_queue r) \<and>
     (\<forall>t. \<forall>i < rc_map_bytes r t. rc_map r t i = 0)"

lemma rc_init_fresh:
  assumes "rc_media r = mkfs ct sb m" "mallocs r = os @ th # p # ps" "length os = 8" "0 \<notin> set os" "th \<noteq> 0" "p \<noteq> 0"
  shows "\<exists>r1. rc_init r = Some (0, r1) \<and> rc_started r1 p (rci_entry_num (rc_inode_mem r p)) \<and> rc_media r1 = rc_media r"
proof -
  have n: "0 < slot_num (rc_slots r SLOT_INODE)" "slot_num (rc_slots r SLOT_INODE) < 2 ^ 31"
    using assms(1) dax_slot_num by (simp_all add: mkfs_super)
  then have "0 < c_int (slot_num (rc_slots r SLOT_INODE))"
    by (simp add: c_int_def)
  with n assms show ?thesis
    by (simp add: rc_init_def Let_def rc_iget_def rc_in_table_def rc_malloc_def rc_started_def upd_rc_inode_def queue_init_def
        rc_map_bytes_def)
qed

lemma handle_root_fresh:
  assumes "rc_media r = mkfs ct sb m" "rc_table r 0 = p" "p \<noteq> 0" "rci_link (rc_inode_mem r p) = 1"
  shows "\<exists>r1. rc_handle_inode r 0 = Some (0, r1) \<and> rc_media r1 = rc_media r \<and> rc_queue r1 = rc_queue r \<and> rc_table r1 = rc_table r \<and>
    rci_entry_num (rc_inode_mem r1 p) = size_add (rci_entry_num (rc_inode_mem r p)) 1 \<and>
    rc_map r1 = (rc_map r)(SLOT_INODE := set_bit 0 (rc_map r SLOT_INODE), SLOT_DIR := set_bit 1 (rc_map r SLOT_DIR))"
proof -
  have n: "rc_in_table r SLOT_INODE 0 = Some 0" "rc_in_table r SLOT_DIR 1 = Some 1"
    using assms(1) dax_slot_num by (simp_all add: rc_in_table_def mkfs_super)
  define r1 where "r1 = rc_set_bit (upd_rc_inode r p (\<lambda>c. c\<lparr>rci_mode := S_IFDIR OR 0x1ed, rci_log_head := 1\<rparr>)) SLOT_INODE 0"
  have n1: "rc_in_table r1 SLOT_INODE 0 = Some 0" "rc_in_table r1 SLOT_DIR 1 = Some 1" "rc_table r1 0 = p" "rci_link (rc_inode_mem r1 p) = 1"
    "pm_dirents (rc_media r1) 1 = zero_pm_dirent" "rci_mode (rc_inode_mem r1 p) AND S_IFDIR \<noteq> 0"
    using n assms
    by (simp_all add: r1_def rc_in_table_def rc_set_bit_def upd_rc_inode_def mkfs_root [simplified] S_IFDIR_def)
  define r2 where "r2 = upd_rc_inode (upd_rc_inode (rc_set_bit r1 SLOT_DIR 1) p (\<lambda>c. c\<lparr>rci_link := 2\<rparr>)) p
    (\<lambda>c. c\<lparr>rci_entry_num := size_add (rci_entry_num c) 1\<rparr>)"
  have "c_int (to_size 2) = 2"
    by (simp add: c_int_def to_size_def)
  then have d: "rc_handle_dirent r1 p 1 = Some (0, 0, r2)"
    using n1 assms(3) by (simp add: rc_handle_dirent_def rc_iget_def zero_pm_dirent_def r2_def upd_rc_inode_def rc_set_bit_def)
  have "rc_handle_inode r 0 = rc_log_loop r1 p 1"
    using n assms by (simp add: rc_handle_inode_def rc_iget_def r1_def Let_def mkfs_root S_IFDIR_def)
  also have "\<dots> = Some (0, r2)"
    unfolding rc_log_loop.simps [of r1 p 1] using d n1(6) by (simp add: rc_log_loop.simps [of r2 p 0])
  finally show ?thesis
    by (simp add: r2_def r1_def upd_rc_inode_def rc_set_bit_def)
qed

text \<open>Recovering a file system that was just made does not give it back: the ghost slot of the root is counted as an entry, on top
  of what the fresh object held, and the reserved slot 0 of the entry tables becomes free.\<close>

lemma recover_fresh:
  assumes r: "rc_media r = mkfs ct sb m" "mallocs r = os @ th # p # ps" "length os = 8" "0 \<notin> set os" "th \<noteq> 0" "p \<noteq> 0"
  shows "\<exists>r'. recover r = Some (0, r') \<and>
    pi_entry_num (pm_inodes (rc_media r') 0) = size_add (rci_entry_num (rc_inode_mem r p)) 1 \<and>
    \<not> bit_at (pm_bitmaps (rc_media r') SLOT_DIR) 0 \<and> \<not> bit_at (pm_bitmaps (rc_media r') SLOT_FILE) 0"
proof -
  obtain r1 where 1: "rc_init r = Some (0, r1)" "rc_started r1 p (rci_entry_num (rc_inode_mem r p))" "rc_media r1 = rc_media r"
    using rc_init_fresh [OF r] by blast
  let ?q = "(rc_queue r1)\<lparr>q_data := (q_data (rc_queue r1))(0 := 0), q_rear := 1\<rparr>"
  have q: "queue_push (rc_queue r1) 0 = Some ?q" "queue_pop ?q = Some (0, ?q\<lparr>q_front := 1\<rparr>)" "queue_pop (?q\<lparr>q_front := 1\<rparr>) = None"
    using 1(2) by (simp_all add: rc_started_def queue_push_def queue_pop_def)
  let ?r = "r1\<lparr>rc_queue := ?q\<lparr>q_front := 1\<rparr>\<rparr>"
  obtain r2 where 2: "rc_handle_inode ?r 0 = Some (0, r2)" "rc_media r2 = rc_media r" "rc_queue r2 = ?q\<lparr>q_front := 1\<rparr>" "rc_table r2 = rc_table r1"
    "rci_entry_num (rc_inode_mem r2 p) = size_add (rci_entry_num (rc_inode_mem r p)) 1"
    "rc_map r2 = (rc_map r1)(SLOT_INODE := set_bit 0 (rc_map r1 SLOT_INODE), SLOT_DIR := set_bit 1 (rc_map r1 SLOT_DIR))"
    using handle_root_fresh [of ?r ct sb m p] 1(2,3) r(1) by (auto simp: rc_started_def)
  have "rc_replay (r1\<lparr>rc_queue := ?q\<rparr>) = rc_replay r2"
    unfolding rc_replay.simps [of "r1\<lparr>rc_queue := ?q\<rparr>"] using q(2) 2(1) by simp
  also have "\<dots> = Some r2"
    unfolding rc_replay.simps [of r2] using q(3) 2(3) by simp
  finally have run: "recover r = Some (0, rc_flush r2)"
    using 1(1) q(1) by (simp add: recover_def)
  have n: "0 < slot_num (rc_slots r2 t)" for t
    using r(1) 2(2) dax_slot_num(1) by (simp add: mkfs_super)
  have n': "0 < rc_map_bytes r2 t" for t
    unfolding rc_map_bytes_def using n [of t] by (simp add: div_greater_zero_iff)
  have "rc_map_bytes r1 t = rc_map_bytes r2 t" for t
    using 1(3) 2(2) by (simp add: rc_map_bytes_def)
  with 1(2) n' have "rc_map r1 t 0 = 0" for t
    by (simp add: rc_started_def)
  then show ?thesis
    using run n n' 1(2) 2
    by (simp add: rc_flush_def Let_def rc_started_def bit_at_def set_bit_def bit_simps)
qed

theorem recover_frees_data_witness:
  "\<exists>r r'. recover r = Some (0, r') \<and> \<not> bit_at (pm_bitmaps (rc_media r') SLOT_DATA) 0"
proof -
  define r where "r = \<lparr>rc_media = mkfs 0 (super (media blank_fs)) (media blank_fs), rc_map = \<lambda>_ _. 0, rc_table = \<lambda>_. 0,
    rc_queue = \<lparr>q_front = 0, q_rear = 0, q_data = \<lambda>_. 0, q_capacity = 0\<rparr>,
    rc_inode_mem = \<lambda>_. \<lparr>rci_log_head = 0, rci_entry_num = 0, rci_valid = False, rci_ts = 0, rci_link = 0, rci_mode = 0,
      rci_btree = \<lparr>bt_root = 0, bt_height = 0\<rparr>, rci_hint = \<lparr>bp_node = 0, bp_index = 0, bp_key = 0\<rparr>\<rparr>,
    rc_filent_mem = \<lambda>_. \<lparr>rcf_ts = 0, rcf_ref = 0, rcf_p_idx = 0, rcf_l_idx = 0, rcf_blocks = 0\<rparr>,
    rc_lists = lists blank_fs, rc_bheap = bheap blank_fs, mallocs = [8, 16, 24, 32, 40, 48, 56, 64, 72, 80]\<rparr>"
  obtain r' where r': "recover r = Some (0, r')"
    using recover_fresh [of r 0 _ _ "[8, 16, 24, 32, 40, 48, 56, 64]" 72 80 "[]"] by (auto simp: r_def)
  have "0 < slot_num (sb_slots (super (rc_media r)) SLOT_DATA)"
    by (simp add: r_def mkfs_super dax_slot_num)
  with recover_frees_data [OF r'] r' show ?thesis by blast
qed

end
