(* ===== verification/Dir_Ops.thy ===== *)
theory Dir_Ops
  imports Fs_State
begin

text \<open>
  The directory half of \<open>slotfs/inode.c\<close>: the index of a directory (a red-black tree ordered by the hash of
  the name), its log of entries (a chain of slots on the media and the list \<open>list\<close> in memory), the creation
  of inodes and the reconstruction of an inode from the media.
\<close>

subsection \<open>The index of a directory\<close>

definition rb_of :: "fs \<Rightarrow> nat \<Rightarrow> rb_tree" where
  "rb_of s dir = \<lparr>cells = rb_mem s, rb_root = i_rb_root (inode_mem s dir)\<rparr>"

definition put_rb :: "fs \<Rightarrow> nat \<Rightarrow> rb_tree \<Rightarrow> fs" where
  "put_rb s dir t = upd_inode (s\<lparr>rb_mem := cells t\<rparr>) dir (\<lambda>i. i\<lparr>i_rb_root := rb_root t\<rparr>)"

partial_function (option) dirent_lookup_loop :: "fs \<Rightarrow> rb_tree \<Rightarrow> nat \<Rightarrow> nat \<Rightarrow> nat option" where
  [code]: "dirent_lookup_loop s t hash temp =
    (if temp = 0 then Some 0
     else if hash < d_hash (dirent_mem s temp) then dirent_lookup_loop s t hash (left_of t temp)
     else if hash > d_hash (dirent_mem s temp) then dirent_lookup_loop s t hash (right_of t temp)
     else Some temp)"

definition dirent_lookup :: "fs \<Rightarrow> nat \<Rightarrow> nat \<Rightarrow> nat option" where
  "dirent_lookup s dir hash = dirent_lookup_loop s (rb_of s dir) hash (rb_root (rb_of s dir))"

text \<open>The result for an inode that is no directory is \<open>ERR_PTR(ENOTDIR)\<close>, with a positive number.\<close>

definition inode_lookup :: "fs \<Rightarrow> nat \<Rightarrow> string \<Rightarrow> nat option" where
  "inode_lookup s dir name =
    (if \<not> is_dir (inode_mem s dir) then Some (nat ENOTDIR)
     else dirent_lookup s dir (BKDRHash name))"

text \<open>The variable \<open>temp\<close> of \<open>dir_index_insert\<close> is a pointer to a pointer: to the root or to a child field.\<close>

datatype rb_link = At_Root | At_Left nat | At_Right nat

primrec link_get :: "rb_tree \<Rightarrow> rb_link \<Rightarrow> nat" where
  "link_get t At_Root = rb_root t"
| "link_get t (At_Left n) = left_of t n"
| "link_get t (At_Right n) = right_of t n"

primrec link_set :: "rb_link \<Rightarrow> rb_tree \<Rightarrow> nat \<Rightarrow> rb_tree" where
  "link_set At_Root t v = t\<lparr>rb_root := v\<rparr>"
| "link_set (At_Left n) t v = set_left t n v"
| "link_set (At_Right n) t v = set_right t n v"

partial_function (option) dir_insert_walk ::
    "fs \<Rightarrow> rb_tree \<Rightarrow> nat \<Rightarrow> rb_link \<Rightarrow> nat \<Rightarrow> (int + rb_link \<times> nat) option" where
  [code]: "dir_insert_walk s t hash temp parent =
    (let n = link_get t temp
     in if n = 0 then Some (Inr (temp, parent))
        else if hash < d_hash (dirent_mem s n) then dir_insert_walk s t hash (At_Left n) n
        else if hash > d_hash (dirent_mem s n) then dir_insert_walk s t hash (At_Right n) n
        else Some (Inl (- EEXIST)))"

definition dir_index_insert :: "fs \<Rightarrow> nat \<Rightarrow> nat \<Rightarrow> (int \<times> fs) option" where
  "dir_index_insert s dir d =
    do {
      w \<leftarrow> dir_insert_walk s (rb_of s dir) (d_hash (dirent_mem s d)) At_Root 0;
      case w of
        Inl ret \<Rightarrow> Some (ret, s)
      | Inr (temp, parent) \<Rightarrow>
          do {
            t \<leftarrow> rb_insert_color (rb_link_node (rb_of s dir) d parent (link_set temp)) d;
            Some (0, put_rb s dir t)
          }
    }"

subsection \<open>Entries\<close>

definition dir_append_entry :: "fs \<Rightarrow> nat \<Rightarrow> nat \<Rightarrow> string \<Rightarrow> ((int + nat) \<times> fs) option" where
  "dir_append_entry s dir inode name =
    (let (d, s) = dirent_alloc s
     in if d = 0 then Some (Inl (- ENOMEM), s)
        else
          let dno = ghost_slot (inode_mem s dir);
              (g, m) = slot_dirent_alloc (cpu s) (maps s);
              s = upd_inode (s\<lparr>maps := m\<rparr>) dir (\<lambda>i. i\<lparr>ghost_slot := g\<rparr>)
          in if ghost_slot (inode_mem s dir) < - 1 then
               let s = upd_inode s dir (\<lambda>i. i\<lparr>ghost_slot := dno\<rparr>)
               in Some (Inl (- ENOSPC), dirent_free s d)
             else
               let s = upd_dirent s d (\<lambda>e. e\<lparr>d_ino := i_ino (inode_mem s inode), d_ts := i_ts (inode_mem s inode),
                     d_hash := BKDRHash name, d_idx := dno\<rparr>)
               in do {
                 (ret, s) \<leftarrow> dir_index_insert s dir d;
                 pd \<leftarrow> pm_dirent_at s dno;
                 nm \<leftarrow> name_copy (pd_name pd) name;
                 s \<leftarrow> upd_pm_dirent s dno (\<lambda>pd. pd\<lparr>pd_ino := i_ino (inode_mem s inode), pd_ts := i_ts (inode_mem s inode),
                       pd_next := ghost_slot (inode_mem s dir), pd_name_len := length name mod 256, pd_name := nm\<rparr>);
                 let s = upd_inode s inode (\<lambda>i. i\<lparr>entry_num := size_add (entry_num i) 1\<rparr>);
                 let s = s\<lparr>lists := list_add_tail (lists s) d dir\<rparr>;
                 Some (Inr d, s)
               })"

text \<open>The field \<open>next\<close> that \<open>prev_ptr\<close> points to: in the inode or in the entry before \<open>d\<close>. An entry
  before \<open>d\<close> that is the list head itself is no entry.\<close>

definition dir_remove_entry :: "fs \<Rightarrow> nat \<Rightarrow> nat \<Rightarrow> fs option" where
  "dir_remove_entry s dir d =
    (let prev_d = lprev (lists s) d; next_d = lnext (lists s) d
     in do {
       t \<leftarrow> rb_erase (rb_of s dir) d;
       let s = put_rb s dir t;
       let idx = d_idx (dirent_mem s d);
       let at_head = (log_head (inode_mem s dir) = idx);
       let s = (if at_head then
                  if next_d = dir then upd_inode s dir (\<lambda>i. i\<lparr>log_head := ghost_slot i\<rparr>)
                  else upd_inode s dir (\<lambda>i. i\<lparr>log_head := d_idx (dirent_mem s next_d)\<rparr>)
                else s);
       let next_ptr = (if next_d = dir then ghost_slot (inode_mem s dir) else d_idx (dirent_mem s next_d));
       s \<leftarrow> (if at_head then upd_pm_inode s (int (i_ino (inode_mem s dir))) (\<lambda>p. p\<lparr>pi_log_head := next_ptr\<rparr>)
             else if prev_d = dir then None
             else deref prev_d \<bind> (\<lambda>_. upd_pm_dirent s (d_idx (dirent_mem s prev_d)) (\<lambda>p. p\<lparr>pd_next := next_ptr\<rparr>)));
       s \<leftarrow> upd_pm_dirent s idx (\<lambda>p. p\<lparr>pd_next := 0\<rparr>);
       let s = s\<lparr>maps := slot_dirent_free (maps s) idx\<rparr>;
       deref prev_d;
       deref next_d;
       let s = s\<lparr>lists := list_del (lists s) d\<rparr>;
       let s = dirent_free s d;
       Some (upd_inode s dir (\<lambda>i. i\<lparr>entry_num := size_sub (entry_num i) 1\<rparr>))
     })"

subsection \<open>Inodes\<close>

definition inode_init_header :: "fs \<Rightarrow> nat \<Rightarrow> nat \<Rightarrow> fs" where
  "inode_init_header s p mode =
    (let s = upd_inode s p (\<lambda>_. zero_inode);
         s = s\<lparr>rels := set_prev (set_next (rels s) p 0) p 0\<rparr>;
         s = (if mode AND S_IFDIR \<noteq> 0 then upd_inode s p (\<lambda>i. i\<lparr>i_rb_root := 0\<rparr>)
              else let (b, h) = btree_create (bheap s) in upd_inode (s\<lparr>bheap := h\<rparr>) p (\<lambda>i. i\<lparr>i_b_root := b\<rparr>));
         s = upd_inode s p (\<lambda>i. i\<lparr>b_hint := \<lparr>bp_node = 0, bp_index = 0, bp_key = 0\<rparr>\<rparr>);
         s = s\<lparr>lists := INIT_LIST_HEAD (lists s) p\<rparr>;
         s = s\<lparr>invals := INIT_LIST_HEAD (invals s) p\<rparr>
     in upd_inode s p (\<lambda>i. i\<lparr>r_lock := range_lock_init (r_lock i), i_mode := mode, i_ref := 0\<rparr>))"

definition inode_flush :: "fs \<Rightarrow> nat \<Rightarrow> fs option" where
  "inode_flush s p =
    (let i = inode_mem s p
     in upd_pm_inode s (int (i_ino i)) (\<lambda>q.
          let q = q\<lparr>pi_size := i_size i, pi_uid := i_uid i, pi_gid := i_gid i, pi_mode := i_mode i,
                pi_atim := i_atim i, pi_mtim := i_mtim i, pi_ctim := i_ctim i, pi_log_head := log_head i,
                pi_entry_num := entry_num i\<rparr>
          in q\<lparr>pi_csum := crc32c 0 q\<rparr>))"

definition init_ghost_slot :: "fs \<Rightarrow> nat \<Rightarrow> int \<times> fs" where
  "init_ghost_slot s p =
    (let (g, m) = (if is_dir (inode_mem s p) then slot_dirent_alloc (cpu s) (maps s) else slot_firent_alloc (cpu s) (maps s));
         s = upd_inode (s\<lparr>maps := m\<rparr>) p (\<lambda>i. i\<lparr>ghost_slot := g\<rparr>)
     in if ghost_slot (inode_mem s p) < 0 then (- ENOSPC, s)
        else (0, upd_inode s p (\<lambda>i. i\<lparr>log_head := ghost_slot i\<rparr>)))"

definition inode_remove :: "fs \<Rightarrow> nat \<Rightarrow> nat \<Rightarrow> nat \<Rightarrow> (int \<times> fs) option" where
  "inode_remove s dir d dest_inode =
    do {
      s \<leftarrow> dir_remove_entry s dir d;
      Some (0, upd_inode s dest_inode (\<lambda>i. i\<lparr>i_link := size_sub (i_link i) 1\<rparr>))
    }"

definition inode_create :: "fs \<Rightarrow> nat \<Rightarrow> string \<Rightarrow> nat \<Rightarrow> ((int + nat) \<times> fs) option" where
  "inode_create s parent name mode =
    (let (idx, m) = slot_inode_alloc (cpu s) (maps s); s = s\<lparr>maps := m\<rparr>;
         ino = to_size idx;
         (p, s) = inode_alloc s
     in if p = 0 then Some (Inl (- ENOMEM), s\<lparr>maps := slot_inode_free (maps s) (int ino)\<rparr>)
        else
          let s = inode_init_header s p mode;
              s = upd_inode s p (\<lambda>i. i\<lparr>i_ino := ino, i_link := 1, i_mode := mode, i_atim := now s, i_ctim := now s,
                    i_mtim := now s\<rparr>);
              (ret, s) = init_ghost_slot s p
          in if ret \<noteq> 0 then
               let s = inode_free s p in Some (Inl ret, s\<lparr>maps := slot_inode_free (maps s) (int ino)\<rparr>)
             else do {
               s \<leftarrow> inode_flush s p;
               (d, s) \<leftarrow> dir_append_entry s parent p name;
               case d of
                 Inl ret \<Rightarrow>
                   let s = inode_free s p in Some (Inl ret, s\<lparr>maps := slot_inode_free (maps s) (int ino)\<rparr>)
               | Inr _ \<Rightarrow> Some (Inr p, s)
             })"

subsection \<open>Rebuilding an inode from the media\<close>

definition dir_rebuild_insert :: "fs \<Rightarrow> nat \<Rightarrow> pm_dirent \<Rightarrow> index_t \<Rightarrow> (int \<times> fs) option" where
  "dir_rebuild_insert s dir pd idx =
    (let (d, s) = dirent_alloc s
     in if d = 0 then Some (- ENOMEM, s)
        else if pd_name_len pd > length (pd_name pd) then None
        else
          let s = upd_dirent s d (\<lambda>e. e\<lparr>d_hash := BKDRHash (take (pd_name_len pd) (pd_name pd)), d_ino := pd_ino pd,
                d_ts := pd_ts pd, d_idx := idx\<rparr>)
          in do {
            (ret, s) \<leftarrow> dir_index_insert s dir d;
            if ret \<noteq> 0 then Some (ret, dirent_free s d)
            else Some (0, s\<lparr>lists := list_add_tail (lists s) d dir\<rparr>)
          })"

text \<open>\<open>dir_rebuild\<close> copies \<open>sizeof(dirent_t)\<close> = 80 bytes of the entry into the local variable \<open>pd\<close>: the name
  and \<open>ino\<close> (offsets 0 to 79), not \<open>ts\<close> and \<open>next\<close> (offsets 80 and 88), which keep what the
  stack holds.\<close>

definition copy_80 :: "pm_dirent \<Rightarrow> pm_dirent \<Rightarrow> pm_dirent" where
  "copy_80 pd src = pd\<lparr>pd_name_len := pd_name_len src, pd_name := pd_name src, pd_ino := pd_ino src\<rparr>"

primrec dir_rebuild_loop :: "nat \<Rightarrow> fs \<Rightarrow> nat \<Rightarrow> pm_dirent \<Rightarrow> index_t \<Rightarrow> (int \<times> fs) option" where
  "dir_rebuild_loop 0 s dir pd cur = Some (0, s)"
| "dir_rebuild_loop (Suc n) s dir pd cur =
    do {
      src \<leftarrow> pm_dirent_at s cur;
      let pd = copy_80 pd src;
      (ret, s) \<leftarrow> dir_rebuild_insert s dir pd cur;
      if ret \<noteq> 0 then Some (ret, s)
      else
        let s = upd_inode s dir (\<lambda>i. i\<lparr>ghost_slot := pd_next pd\<rparr>)
        in dir_rebuild_loop n s dir pd (pd_next pd)
    }"

definition dir_rebuild :: "fs \<Rightarrow> nat \<Rightarrow> pm_dirent \<Rightarrow> (int \<times> fs) option" where
  "dir_rebuild s dir pd =
    (let cur = log_head (inode_mem s dir);
         s = upd_inode s dir (\<lambda>i. i\<lparr>ghost_slot := log_head i\<rparr>)
     in dir_rebuild_loop (entry_num (inode_mem s dir)) s dir pd cur)"

definition file_rebuild :: "fs \<Rightarrow> nat \<Rightarrow> int \<times> fs" where
  "file_rebuild s p = (0, s)"

definition inode_rebuild :: "fs \<Rightarrow> nat \<Rightarrow> (int \<times> fs) option" where
  "inode_rebuild s p =
    (let ino = i_ino (inode_mem s p)
     in do {
       q \<leftarrow> pm_inode_at s (int ino);
       let s = inode_init_header s p (pi_mode q);
       let s = upd_inode s p (\<lambda>i. i\<lparr>i_size := pi_size q, i_uid := pi_uid q, i_gid := pi_gid q, i_mode := pi_mode q,
             i_atim := now s, i_mtim := pi_mtim q, i_ctim := pi_ctim q, log_head := pi_log_head q,
             i_link := pi_link q, i_ino := ino, entry_num := pi_entry_num q\<rparr>);
       if is_dir (inode_mem s p) then dir_rebuild s p (stack_pd s) else Some (file_rebuild s p)
     })"

end
