(* ===== verification/Journal.thy ===== *)
theory Journal
  imports Fs_State
begin

text \<open>
  The journal of \<open>slotfs/journal.c\<close>, without the replay: the pages of the journal area, their
  allocation, and the writers of the three kinds of records. A page is named by its address on the media.
\<close>

definition JNL_WRITE :: nat where
  "JNL_WRITE = 1"

definition JNL_RENAME :: nat where
  "JNL_RENAME = 2"

definition JNL_TRUNCATE :: nat where
  "JNL_TRUNCATE = 3"

text \<open>The saved bytes of a write record start \<open>sizeof(write_jnl_t)\<close> records behind the header:
  at byte 1600 of the page.\<close>

definition JNL_SAVED_MAX :: nat where
  "JNL_SAVED_MAX = PAGE_SIZE - 40 * 40"

definition jnl_page :: "relptr_t \<Rightarrow> nat option" where
  "jnl_page jnl =
    (if JOURNAL_START \<le> jnl \<and> jnl < JOURNAL_START + JOURNAL_SIZE then Some ((jnl - JOURNAL_START) div PAGE_SIZE)
     else None)"

definition upd_jnl :: "fs \<Rightarrow> relptr_t \<Rightarrow> (pm_jnl \<Rightarrow> pm_jnl) \<Rightarrow> fs option" where
  "upd_jnl s jnl f = map_option (\<lambda>i.
     s\<lparr>media := (media s)\<lparr>pm_jnls := (pm_jnls (media s))(i := f (pm_jnls (media s) i))\<rparr>\<rparr>) (jnl_page jnl)"

definition journal_rename ::
    "fs \<Rightarrow> relptr_t \<Rightarrow> index_t \<Rightarrow> index_t \<Rightarrow> string \<Rightarrow> string \<Rightarrow> fs option" where
  "journal_rename s jnl old_parent new_parent old_name new_name =
    do {
      i \<leftarrow> jnl_page jnl;
      o1 \<leftarrow> name_copy (jr_old_name (pm_jnls (media s) i)) old_name;
      n1 \<leftarrow> name_copy (jr_new_name (pm_jnls (media s) i)) new_name;
      upd_jnl s jnl (\<lambda>j. j\<lparr>j_valid := True, j_type := JNL_RENAME, j_w8 := old_parent, j_w16 := to_size new_parent,
        jr_old_name := o1, jr_old_len := length old_name, jr_new_name := n1, jr_new_len := length new_name\<rparr>)
    }"

definition rel_data_pos :: "fs \<Rightarrow> relptr_t \<Rightarrow> int" where
  "rel_data_pos s rel = int rel - int (slot_table (slots_of s SLOT_DATA))"

definition journal_write :: "fs \<Rightarrow> relptr_t \<Rightarrow> index_t \<Rightarrow> relptr_t \<Rightarrow> nat \<Rightarrow> fs option" where
  "journal_write s jnl ino begin len =
    (if len > JNL_SAVED_MAX then None
     else do {
       bs \<leftarrow> data_read s (rel_data_pos s begin) len;
       upd_jnl s jnl (\<lambda>j. j\<lparr>jw_saved := \<lambda>i. if i < len then bs ! i else jw_saved j i,
         j_valid := True, j_type := JNL_WRITE, j_w8 := ino, j_w16 := begin, jw_len := len\<rparr>)
     })"

text \<open>\<open>truncate_jnl_t\<close> declares its \<open>type\<close> as a \<open>bool\<close>, in byte 1 of the page; the \<open>int\<close> that
  \<open>journal_t\<close> and the other records have at byte 4 is not written.\<close>

definition journal_truncate :: "fs \<Rightarrow> relptr_t \<Rightarrow> index_t \<Rightarrow> nat \<Rightarrow> fs option" where
  "journal_truncate s jnl ino sz = upd_jnl s jnl (\<lambda>j. j\<lparr>j_valid := True, j_w8 := ino, j_w16 := sz\<rparr>)"

fun jnl_first_free :: "(nat \<Rightarrow> bool) \<Rightarrow> nat list \<Rightarrow> nat option" where
  "jnl_first_free used [] = None"
| "jnl_first_free used (i # is) = (if \<not> used i then Some i else jnl_first_free used is)"

definition journal_alloc :: "fs \<Rightarrow> relptr_t \<times> fs" where
  "journal_alloc s =
    (if jnl_count s = 0 then (JOURNAL_START, s\<lparr>jnl_use := (jnl_use s)(0 := True)\<rparr>)
     else case jnl_first_free (jnl_use s) [0..<JOURNAL_NUM] of
       Some i \<Rightarrow> (JOURNAL_START + i * PAGE_SIZE, s\<lparr>jnl_use := (jnl_use s)(i := True), jnl_count := jnl_count s + 1\<rparr>)
     | None \<Rightarrow> (0, s))"

definition journal_free :: "fs \<Rightarrow> relptr_t \<Rightarrow> fs option" where
  "journal_free s jnl =
    do {
      idx \<leftarrow> jnl_page jnl;
      Some (s\<lparr>jnl_use := (jnl_use s)(idx := False), jnl_count := jnl_count s - 1\<rparr>)
    }"

definition journal_commit :: "fs \<Rightarrow> relptr_t \<Rightarrow> fs option" where
  "journal_commit s jnl = upd_jnl s jnl (\<lambda>j. j\<lparr>j_valid := False\<rparr>) \<bind> (\<lambda>s. journal_free s jnl)"

definition journal_mgr_init :: "fs \<Rightarrow> fs" where
  "journal_mgr_init s = s\<lparr>jnl_count := 0, jnl_use := \<lambda>i. if i < JOURNAL_NUM then False else jnl_use s i\<rparr>"

end
