(* ===== verification/C_Float.thy ===== *)
theory C_Float
  imports Slot_Prelude "HOL-Library.Log_Nat"
begin

text \<open>
  The single-precision arithmetic that \<open>filent_dispatch\<close> uses: values are rational numbers, infinities or
  not-a-number, every operation rounds to the nearest value with 24 significant bits, ties to even. The
  magnitudes that occur are far from the limits of the exponent range, so overflow and subnormal
  numbers are left out. A zero is positive: the only zero divisor that occurs comes from \<open>1 - 1\<close>.
\<close>

datatype flt = FNaN | FInf bool | FFin rat

definition round_even :: "rat \<Rightarrow> int" where
  "round_even m =
    (let f = floor m; r = m - of_int f
     in if r < 1 / 2 \<or> (r = 1 / 2 \<and> even f) then f else f + 1)"

definition rnd24 :: "rat \<Rightarrow> rat" where
  "rnd24 x =
    (if x = 0 then 0
     else
       let (n, d) = quotient_of (abs x);
           e = bitlen n - bitlen d;
           p = (if abs x < 2 powi e then e - 24 else e - 23)
       in sgn x * (of_int (round_even (abs x / 2 powi p)) * 2 powi p))"

definition fl_nat :: "nat \<Rightarrow> flt" where
  "fl_nat n = FFin (rnd24 (of_nat n))"

fun fl_div :: "flt \<Rightarrow> flt \<Rightarrow> flt" where
  "fl_div (FFin x) (FFin y) =
    (if y = 0 then if x = 0 then FNaN else FInf (x < 0) else FFin (rnd24 (x / y)))"
| "fl_div (FFin x) (FInf b) = FFin 0"
| "fl_div (FInf b) (FFin y) = FInf (b \<noteq> (y < 0))"
| "fl_div _ _ = FNaN"

fun fl_sub :: "flt \<Rightarrow> flt \<Rightarrow> flt" where
  "fl_sub (FFin x) (FFin y) = FFin (rnd24 (x - y))"
| "fl_sub (FFin x) (FInf b) = FInf (\<not> b)"
| "fl_sub (FInf b) (FFin y) = FInf b"
| "fl_sub (FInf b) (FInf c) = (if b = c then FNaN else FInf b)"
| "fl_sub _ _ = FNaN"

fun fl_mul :: "flt \<Rightarrow> flt \<Rightarrow> flt" where
  "fl_mul (FFin x) (FFin y) = FFin (rnd24 (x * y))"
| "fl_mul (FFin x) (FInf b) = (if x = 0 then FNaN else FInf (b \<noteq> (x < 0)))"
| "fl_mul (FInf b) (FFin y) = (if y = 0 then FNaN else FInf (b \<noteq> (y < 0)))"
| "fl_mul (FInf b) (FInf c) = FInf (b \<noteq> c)"
| "fl_mul _ _ = FNaN"

fun fl_less :: "flt \<Rightarrow> flt \<Rightarrow> bool" where
  "fl_less (FFin x) (FFin y) \<longleftrightarrow> x < y"
| "fl_less (FFin x) (FInf b) \<longleftrightarrow> \<not> b"
| "fl_less (FInf b) (FFin y) \<longleftrightarrow> b"
| "fl_less (FInf b) (FInf c) \<longleftrightarrow> b \<and> \<not> c"
| "fl_less _ _ \<longleftrightarrow> False"

text \<open>A division by zero entries gives not-a-number, and not-a-number is not below anything.\<close>

lemma rnd24_0 [simp]: "rnd24 0 = 0"
  by (simp add: rnd24_def)

lemma fl_NaN [simp]:
  "fl_div FNaN x = FNaN" "fl_div x FNaN = FNaN" "fl_sub x FNaN = FNaN" "fl_mul x FNaN = FNaN" "fl_mul FNaN x = FNaN"
  "\<not> fl_less FNaN x"
  by (cases x; simp)+

end
