(* ===== verification/File_Ops.thy ===== *)
theory File_Ops
  imports Dir_Ops Journal C_Float
begin

text \<open>
  The file half of \<open>slotfs/inode.c\<close>: the block index of a file, its log of file entries (extents), reading,
  writing, resizing, and the release of an inode.
\<close>

subsection \<open>Entry buffers\<close>

definition ebuf_alloc :: "fs \<Rightarrow> (nat \<times> fs) option" where
  "ebuf_alloc s =
    (let i = cpu s mod EBUF_NUM
     in if eb_locked (ebufs s i) then None
        else Some (i, s\<lparr>ebufs := (ebufs s)(i := (ebufs s i)\<lparr>eb_locked := True, eb_num := 0\<rparr>)\<rparr>))"

definition ebuf_put :: "fs \<Rightarrow> nat \<Rightarrow> fs" where
  "ebuf_put s i = s\<lparr>ebufs := (ebufs s)(i := (ebufs s i)\<lparr>eb_locked := False\<rparr>)\<rparr>"

definition ebuf_add :: "fs \<Rightarrow> nat \<Rightarrow> index_t \<Rightarrow> index_t \<Rightarrow> nat \<Rightarrow> fs option" where
  "ebuf_add s i l_idx p_idx blocks =
    (let b = ebufs s i
     in if eb_num b \<ge> EBUF_SIZE then None
        else Some (s\<lparr>ebufs := (ebufs s)(i := b\<lparr>eb_arr := (eb_arr b)(eb_num b :=
               \<lparr>eu_blocks = blocks, eu_l_idx = l_idx, eu_p_idx = p_idx\<rparr>), eb_num := eb_num b + 1\<rparr>)\<rparr>))"

definition ebuf_get :: "fs \<Rightarrow> nat \<Rightarrow> nat \<Rightarrow> entry_unit" where
  "ebuf_get s i idx = eb_arr (ebufs s i) idx"

subsection \<open>The index of a file\<close>

definition filent_lookup :: "fs \<Rightarrow> nat \<Rightarrow> index_t \<Rightarrow> nat option" where
  "filent_lookup s file idx = btree_get (bheap s) (i_b_root (inode_mem s file)) (to_size idx)"

definition filent_insert_callback :: "nat \<Rightarrow> nat \<Rightarrow> int \<Rightarrow> fs \<Rightarrow> int \<times> fs" where
  "filent_insert_callback inode fe idx s =
    (let s = upd_filent s fe (\<lambda>f. f\<lparr>f_ref := f_ref f - 1\<rparr>);
         f = filent_mem s fe;
         s = s\<lparr>maps := slot_data_free (maps s) (f_p_idx f + (idx - f_l_idx f)) 1\<rparr>;
         s = (if f_ref f = 0 then
                let s = s\<lparr>invals := list_add_tail (invals s) fe inode\<rparr>
                in upd_inode s inode (\<lambda>i. i\<lparr>invalid_num := size_add (invalid_num i) 1\<rparr>)
              else s)
     in (0, s))"

definition file_index_insert :: "fs \<Rightarrow> nat \<Rightarrow> nat \<Rightarrow> (int \<times> fs) option" where
  "file_index_insert s file fe =
    (let f = filent_mem s fe
     in do {
       (ret, tree, h, s) \<leftarrow> btree_set_range_callback (Some (filent_insert_callback file)) (bheap s)
         (i_b_root (inode_mem s file)) (to_size (f_l_idx f)) (to_size (f_l_idx f + int (f_blocks f))) fe s;
       Some (ret, upd_inode (s\<lparr>bheap := h\<rparr>) file (\<lambda>i. i\<lparr>i_b_root := tree\<rparr>))
     })"

subsection \<open>Entries\<close>

text \<open>The last steps use the memory of the entry after it was given back to the arena: its link \<open>next\<close>
  is then the link of the arena's free list.\<close>

definition file_remove_entry :: "fs \<Rightarrow> nat \<Rightarrow> nat \<Rightarrow> fs option" where
  "file_remove_entry s file fe =
    (let prev_fe = lprev (lists s) fe; next_fe = lnext (lists s) fe; f = filent_mem s fe
     in do {
       let next_ptr = (if next_fe = file then ghost_slot (inode_mem s file) else f_idx (filent_mem s next_fe));
       s \<leftarrow> (if log_head (inode_mem s file) = f_idx f
             then upd_pm_inode s (int (i_ino (inode_mem s file))) (\<lambda>p. p\<lparr>pi_log_head := next_ptr\<rparr>)
             else if prev_fe = file then None
             else deref prev_fe \<bind> (\<lambda>_. upd_pm_filent s (f_idx (filent_mem s prev_fe)) (\<lambda>p. p\<lparr>pf_next := next_ptr\<rparr>)));
       s \<leftarrow> upd_pm_filent s (f_idx f) (\<lambda>p. p\<lparr>pf_next := 0\<rparr>);
       (ret, tree, h) \<leftarrow> btree_set_range (bheap s) (i_b_root (inode_mem s file)) (to_size (f_l_idx f))
         (to_size (f_l_idx f + int (f_blocks f))) 0;
       let s = upd_inode (s\<lparr>bheap := h\<rparr>) file (\<lambda>i. i\<lparr>i_b_root := tree\<rparr>);
       let s = s\<lparr>maps := slot_firent_free (maps s) (f_idx f)\<rparr>;
       let s = filent_free s fe;
       deref (lnext (lists s) fe);
       deref (lprev (lists s) fe);
       let s = s\<lparr>lists := list_del (lists s) fe\<rparr>;
       Some (upd_inode s file (\<lambda>i. i\<lparr>entry_num := size_sub (entry_num i) 1\<rparr>))
     })"

definition filent_try_reuse :: "fs \<Rightarrow> nat \<Rightarrow> nat \<times> fs" where
  "filent_try_reuse s inode =
    (if list_empty (invals s) inode then (0, s)
     else
       let fe = lnext (invals s) inode;
           s = s\<lparr>invals := list_del (invals s) fe\<rparr>
       in (fe, upd_inode s inode (\<lambda>i. i\<lparr>invalid_num := size_sub (invalid_num i) 1\<rparr>)))"

definition append_ratio_small :: "nat \<Rightarrow> nat \<Rightarrow> nat \<Rightarrow> bool" where
  "append_ratio_small invalid entries sz =
    (let space_ratio = fl_sub (fl_nat 1) (fl_div (fl_nat invalid) (fl_nat entries));
         ratio = fl_div (fl_nat sz) (fl_mul (fl_mul (fl_nat PM_CACHELINE_SIZE) space_ratio) (fl_nat 100))
     in fl_less ratio (fl_nat 1))"

definition filent_dispatch :: "fs \<Rightarrow> nat \<Rightarrow> nat \<Rightarrow> nat \<times> fs" where
  "filent_dispatch s inode sz =
    (if append_ratio_small (invalid_num (inode_mem s inode)) (entry_num (inode_mem s inode)) sz then (0, s)
     else
       let s = upd_inode s inode (\<lambda>i. i\<lparr>invalid_num := size_sub (invalid_num i) 1\<rparr>)
       in filent_try_reuse s inode)"

definition file_append_entry :: "fs \<Rightarrow> nat \<Rightarrow> pm_filent \<Rightarrow> ((int + nat) \<times> fs) option" where
  "file_append_entry s inode entry =
    (let (fe, s) = filent_dispatch s inode (pf_blocks entry * PAGE_SIZE mod 2 ^ 32);
         reuse = (fe \<noteq> 0);
         reuse_next = (if list_is_last (lists s) fe inode then ghost_slot (inode_mem s inode)
                       else f_idx (filent_mem s (lnext (lists s) fe)));
         old_ghost = ghost_slot (inode_mem s inode);
         fno = (if reuse then f_idx (filent_mem s fe) else old_ghost);
         (fe, s) = (if reuse then (fe, s) else filent_alloc s)
     in if fe = 0 then Some (Inl (- ENOMEM), s)
        else
          let s = (if reuse then s
                   else if is_symlink (inode_mem s inode) then upd_inode s inode (\<lambda>i. i\<lparr>ghost_slot := 0\<rparr>)
                   else let (g, m) = slot_firent_alloc (cpu s) (maps s)
                        in upd_inode (s\<lparr>maps := m\<rparr>) inode (\<lambda>i. i\<lparr>ghost_slot := g\<rparr>))
          in if \<not> reuse \<and> ghost_slot (inode_mem s inode) < - 1 then
               let s = upd_inode s inode (\<lambda>i. i\<lparr>ghost_slot := fno\<rparr>)
               in Some (Inl (- ENOSPC), filent_free s fe)
             else
               let s = upd_filent s fe (\<lambda>f. f\<lparr>f_idx := fno, f_ts := pf_ts entry, f_l_idx := int (pf_l_idx entry),
                     f_p_idx := int (pf_p_idx entry), f_blocks := pf_blocks entry, f_ref := c_int (pf_blocks entry)\<rparr>);
                   s = (if \<not> reuse then s\<lparr>lists := list_add_tail (lists s) fe inode\<rparr> else s)
               in do {
                 (ret, s) \<leftarrow> file_index_insert s inode fe;
                 let entry = entry\<lparr>pf_next := (if reuse then reuse_next else ghost_slot (inode_mem s inode))\<rparr>;
                 let entry = entry\<lparr>pf_csum := crc32c 0 entry\<rparr>;
                 s \<leftarrow> upd_pm_filent s fno (\<lambda>_. entry);
                 let s = (if \<not> reuse then upd_inode s inode (\<lambda>i. i\<lparr>entry_num := size_add (entry_num i) 1\<rparr>) else s);
                 Some (Inr fe, s)
               })"

subsection \<open>Reading\<close>

text \<open>The position of byte \<open>off\<close> of block \<open>blk\<close> in the data of the extent \<open>fe\<close>.\<close>

definition extent_pos :: "filent \<Rightarrow> nat \<Rightarrow> nat \<Rightarrow> int" where
  "extent_pos f blk off = data_pos (f_p_idx f + (int blk - f_l_idx f)) off"

definition inode_readlink :: "fs \<Rightarrow> nat \<Rightarrow> byte list option" where
  "inode_readlink s inode =
    do {
      fe \<leftarrow> filent_lookup s inode 0;
      deref fe;
      data_read s (data_pos (f_p_idx (filent_mem s fe)) 0) (i_size (inode_mem s inode))
    }"

text \<open>The offset is signed: the block number of a negative offset is rounded downwards.\<close>

partial_function (option) inode_read_loop :: "fs \<Rightarrow> nat \<Rightarrow> int \<Rightarrow> nat \<Rightarrow> byte list \<Rightarrow> byte list option" where
  [code]: "inode_read_loop s inode offset left buf =
    (let page_offset = nat (offset mod int PAGE_SIZE); idx = offset div int PAGE_SIZE
     in do {
       fe \<leftarrow> filent_lookup s inode idx;
       let f = filent_mem s fe;
       let avail = (if fe = 0 then PAGE_SIZE - page_offset else size_sub (size_mul (f_blocks f) PAGE_SIZE) page_offset);
       let nr = (if left > avail then avail else left);
       bs \<leftarrow> (if fe = 0 then Some (replicate nr 0)
              else data_read s (data_pos (f_p_idx f + (idx - f_l_idx f)) page_offset) nr);
       let left = left - nr;
       if left > 0 then inode_read_loop s inode (off_t (offset + int nr)) left (buf @ bs) else Some (buf @ bs)
     })"

definition inode_read :: "fs \<Rightarrow> nat \<Rightarrow> nat \<Rightarrow> int \<Rightarrow> (int \<times> byte list \<times> fs) option" where
  "inode_read s inode len offset =
    (let avail = size_sub (i_size (inode_mem s inode)) (to_size offset);
         len = (if len > avail then avail else len)
     in if len = 0 then Some (0, [], s)
        else do {
          s \<leftarrow> inode_lock s (i_ino (inode_mem s inode));
          bs \<leftarrow> inode_read_loop s inode offset len [];
          s \<leftarrow> inode_unlock s (i_ino (inode_mem s inode));
          Some (int len, bs, s)
        })"

subsection \<open>Writing\<close>

definition set_i_size :: "fs \<Rightarrow> nat \<Rightarrow> nat \<Rightarrow> fs" where
  "set_i_size s inode v = upd_inode s inode (\<lambda>i. i\<lparr>i_size := v\<rparr>)"

text \<open>The entries of the buffer are appended to the log of the file, with one timestamp.\<close>

primrec append_units :: "nat \<Rightarrow> fs \<Rightarrow> nat \<Rightarrow> nat \<Rightarrow> nat \<Rightarrow> nat \<Rightarrow> (int \<times> fs) option" where
  "append_units 0 s inode e idx ts = Some (0, s)"
| "append_units (Suc n) s inode e idx ts =
    (let unit = ebuf_get s e idx
     in do {
       (fe, s) \<leftarrow> file_append_entry s inode \<lparr>pf_l_idx = nat (eu_l_idx unit mod 2 ^ 32), pf_p_idx = nat (eu_p_idx unit mod 2 ^ 32),
         pf_blocks = eu_blocks unit mod 2 ^ 32, pf_ts = ts, pf_next = 0, pf_csum = 0\<rparr>;
       case fe of Inl ret \<Rightarrow> Some (ret, s) | Inr _ \<Rightarrow> append_units n s inode e (idx + 1) ts
     })"

definition inode_write_journal :: "fs \<Rightarrow> nat \<Rightarrow> byte list \<Rightarrow> int \<Rightarrow> (int \<times> fs) option" where
  "inode_write_journal s inode buf offset =
    (let blk_idx = offset div int PAGE_SIZE
     in do {
       fe \<leftarrow> filent_lookup s inode blk_idx;
       if fe = 0 then Some (- 1, s)
       else do {
         let (jnl, s) = journal_alloc s;
         let f = filent_mem s fe;
         let pos = data_pos (f_p_idx f + (blk_idx - f_l_idx f)) (nat (offset mod int PAGE_SIZE));
         let begin_rel = nat (int (slot_table (slots_of s SLOT_DATA)) + pos);
         s \<leftarrow> journal_write s jnl (int (i_ino (inode_mem s inode))) begin_rel (length buf);
         s \<leftarrow> data_write s pos buf;
         s \<leftarrow> journal_commit s jnl;
         Some (c_int (length buf), s)
       }
     })"

text \<open>The copy of old bytes around the new ones in a freshly allocated extent.\<close>

definition keep_head :: "fs \<Rightarrow> nat \<Rightarrow> nat \<Rightarrow> index_t \<Rightarrow> nat \<Rightarrow> fs option" where
  "keep_head s inode start_blk nr page_offset =
    (if page_offset = 0 then Some s
     else do {
       old \<leftarrow> filent_lookup s inode (int start_blk);
       if old = 0 then Some s
       else data_read s (extent_pos (filent_mem s old) start_blk 0) page_offset \<bind> (\<lambda>bs. data_write s (data_pos nr 0) bs)
     })"

definition keep_tail :: "fs \<Rightarrow> nat \<Rightarrow> nat \<Rightarrow> index_t \<Rightarrow> nat \<Rightarrow> nat \<Rightarrow> nat \<Rightarrow> nat \<Rightarrow> fs option" where
  "keep_tail s inode start_blk nr allocated page_offset bytes end_off =
    (if (page_offset + bytes) mod PAGE_SIZE = 0 then Some s
     else do {
       let blk = start_blk + allocated - 1;
       old \<leftarrow> filent_lookup s inode (int blk);
       let end_offset = end_off mod PAGE_SIZE;
       if old = 0 then Some s
       else data_read s (extent_pos (filent_mem s old) blk end_offset) (PAGE_SIZE - end_offset) \<bind>
         (\<lambda>bs. data_write s (data_pos (nr + int allocated - 1) end_offset) bs)
     })"

partial_function (option) write_atomic_loop ::
    "fs \<Rightarrow> nat \<Rightarrow> nat \<Rightarrow> nat \<Rightarrow> nat \<Rightarrow> nat \<Rightarrow> byte list \<Rightarrow> nat \<Rightarrow> (nat \<times> fs) option" where
  [code]: "write_atomic_loop s inode e end_off num_blk c buf entries =
    (if num_blk = 0 then Some (entries, s)
     else
       let page_offset = c mod PAGE_SIZE; start_blk = c div PAGE_SIZE; count = length buf
       in if c = i_size (inode_mem s inode) \<and> page_offset \<noteq> 0 \<and> num_blk = 1 then do {
            fe \<leftarrow> filent_lookup s inode (int start_blk);
            deref fe;
            let bytes = (if PAGE_SIZE - page_offset > count then count else PAGE_SIZE - page_offset);
            s \<leftarrow> data_write s (extent_pos (filent_mem s fe) start_blk page_offset) (take bytes buf);
            let sz = max (i_size (inode_mem s inode)) end_off;
            let s = set_i_size s inode sz;
            s \<leftarrow> upd_pm_inode s (int (i_ino (inode_mem s inode))) (\<lambda>p. p\<lparr>pi_size := sz\<rparr>);
            write_atomic_loop s inode e end_off (num_blk - 1) (size_add c bytes) (drop bytes buf) entries
          }
          else do {
            let (nr, allocated, m) = slot_data_alloc (cpu s) (maps s) num_blk;
            let s = s\<lparr>maps := m\<rparr>;
            let room = size_sub (size_mul PAGE_SIZE allocated) page_offset;
            let bytes = (if room > count then count else room);
            s \<leftarrow> keep_head s inode start_blk nr page_offset;
            s \<leftarrow> keep_tail s inode start_blk nr allocated page_offset bytes end_off;
            s \<leftarrow> data_write s (data_pos nr page_offset) (take bytes buf);
            s \<leftarrow> ebuf_add s e (int start_blk) nr allocated;
            write_atomic_loop s inode e end_off (size_sub num_blk allocated) (size_add c bytes) (drop bytes buf) (entries + 1)
          })"

definition write_blocks :: "nat \<Rightarrow> nat \<Rightarrow> nat" where
  "write_blocks len offset = size_sub (size_add (size_add len (offset mod PAGE_SIZE)) PAGE_SIZE) 1 div PAGE_SIZE"

definition inode_write_atomic :: "fs \<Rightarrow> nat \<Rightarrow> byte list \<Rightarrow> int \<Rightarrow> (int \<times> fs) option" where
  "inode_write_atomic s inode buf offset =
    (let len = length buf; off = to_size offset; num_blk = write_blocks len off; end_off = size_add off len
     in do {
       (done, s) \<leftarrow> (if num_blk = 1 \<and> len < 1024 \<and> off \<noteq> i_size (inode_mem s inode) then inode_write_journal s inode buf offset
                     else Some (0, s));
       if done > 0 then Some (done, s)
       else do {
         (e, s) \<leftarrow> ebuf_alloc s;
         s \<leftarrow> inode_lock s (i_ino (inode_mem s inode));
         (entries, s) \<leftarrow> write_atomic_loop s inode e end_off num_blk off buf 0;
         let (ts, s) = slotfs_timestamp s;
         (ret, s) \<leftarrow> append_units entries s inode e 0 ts;
         s \<leftarrow> inode_unlock s (i_ino (inode_mem s inode));
         let s = ebuf_put s e;
         if ret \<noteq> 0 then Some (ret, s)
         else
           let s = set_i_size s inode (max (i_size (inode_mem s inode)) end_off);
               s = upd_inode s inode (\<lambda>i. i\<lparr>i_mtim := now s, i_ctim := now s\<rparr>)
           in Some (int len, s)
       }
     })"

definition inode_write :: "fs \<Rightarrow> nat \<Rightarrow> byte list \<Rightarrow> int \<Rightarrow> (int \<times> fs) option" where
  "inode_write s inode buf offset = inode_write_atomic s inode buf offset"

subsection \<open>The in-place variant\<close>

text \<open>In \<open>(fe->blocks + fe->l_idx - start_blk) << PAGE_SHIFT - page_offset\<close> the subtraction binds tighter than the
  shift; a shift by 64 or more is undefined.\<close>

definition inplace_bytes :: "filent \<Rightarrow> nat \<Rightarrow> nat \<Rightarrow> nat option" where
  "inplace_bytes f start_blk page_offset =
    (let n = to_size (int (f_blocks f) + f_l_idx f - int start_blk); sh = size_sub PAGE_SHIFT page_offset
     in if sh \<ge> 64 then None else Some (push_bit sh n mod 2 ^ 64))"

partial_function (option) write_inplace_loop ::
    "fs \<Rightarrow> nat \<Rightarrow> nat \<Rightarrow> nat \<Rightarrow> nat \<Rightarrow> byte list \<Rightarrow> nat \<Rightarrow> (nat \<times> fs) option" where
  [code]: "write_inplace_loop s inode e num_blk c buf entries =
    (if num_blk = 0 then Some (entries, s)
     else
       let page_offset = c mod PAGE_SIZE; start_blk = c div PAGE_SIZE; count = length buf
       in do {
         fe \<leftarrow> (if c = i_size (inode_mem s inode) \<and> page_offset = 0 then Some 0 else filent_lookup s inode (int start_blk));
         if fe \<noteq> 0 then do {
           b \<leftarrow> inplace_bytes (filent_mem s fe) start_blk page_offset;
           let bytes = (if b > count then count else b);
           s \<leftarrow> data_write s (extent_pos (filent_mem s fe) start_blk page_offset) (take bytes buf);
           write_inplace_loop s inode e (size_sub num_blk (size_sub (size_add bytes PAGE_SIZE) 1 div PAGE_SIZE))
             (size_add c bytes) (drop bytes buf) entries
         }
         else do {
           let (nr, allocated, m) = slot_data_alloc (cpu s) (maps s) num_blk;
           let s = s\<lparr>maps := m\<rparr>;
           let room = size_sub (size_mul PAGE_SIZE allocated) page_offset;
           let bytes = (if room > count then count else room);
           s \<leftarrow> data_write s (data_pos nr page_offset) (take bytes buf);
           s \<leftarrow> ebuf_add s e (int start_blk) nr allocated;
           write_inplace_loop s inode e (size_sub num_blk allocated) (size_add c bytes) (drop bytes buf) (entries + 1)
         }
       })"

definition inode_write_inplace :: "fs \<Rightarrow> nat \<Rightarrow> byte list \<Rightarrow> int \<Rightarrow> (int \<times> fs) option" where
  "inode_write_inplace s inode buf offset =
    (let len = length buf; off = to_size offset; num_blk = write_blocks len off
     in do {
       (e, s) \<leftarrow> ebuf_alloc s;
       s \<leftarrow> inode_lock s (i_ino (inode_mem s inode));
       (entries, s) \<leftarrow> write_inplace_loop s inode e num_blk off buf 0;
       (ret, s) \<leftarrow> (if entries > 0 then let (ts, s) = slotfs_timestamp s in append_units entries s inode e 0 ts
                    else Some (0, s));
       s \<leftarrow> inode_unlock s (i_ino (inode_mem s inode));
       let s = ebuf_put s e;
       if ret \<noteq> 0 then Some (ret, s)
       else do {
         let s = set_i_size s inode (max (i_size (inode_mem s inode)) (size_add off len));
         let s = upd_inode s inode (\<lambda>i. i\<lparr>i_mtim := now s, i_ctim := now s\<rparr>);
         s \<leftarrow> upd_pm_inode s (int (i_ino (inode_mem s inode)))
           (\<lambda>p. p\<lparr>pi_size := i_size (inode_mem s inode), pi_ctim := i_ctim (inode_mem s inode)\<rparr>);
         Some (int len, s)
       }
     })"

subsection \<open>Resizing\<close>

partial_function (option) extend_alloc_loop :: "fs \<Rightarrow> nat \<Rightarrow> nat \<Rightarrow> nat \<Rightarrow> fs option" where
  [code]: "extend_alloc_loop s e start_blk num_blk =
    (if num_blk = 0 then Some s
     else do {
       let (nr, allocated, m) = slot_data_alloc (cpu s) (maps s) num_blk;
       s \<leftarrow> ebuf_add (s\<lparr>maps := m\<rparr>) e (int start_blk) nr allocated;
       extend_alloc_loop s e start_blk (size_sub num_blk allocated)
     })"

definition inode_extend :: "fs \<Rightarrow> nat \<Rightarrow> nat \<Rightarrow> (int \<times> fs) option" where
  "inode_extend s inode new_size =
    (let sz = i_size (inode_mem s inode);
         page_offset = sz mod PAGE_SIZE;
         start_blk = size_sub (size_add sz PAGE_SIZE) 1 div PAGE_SIZE;
         num_blk = size_sub (size_add (size_sub new_size sz) PAGE_SIZE) 1 div PAGE_SIZE
     in do {
       s \<leftarrow> inode_lock s (i_ino (inode_mem s inode));
       (e, s) \<leftarrow> ebuf_alloc s;
       (start_blk, num_blk) \<leftarrow>
         (if page_offset \<noteq> 0 then do {
            fe \<leftarrow> filent_lookup s inode (int start_blk);
            deref fe;
            Some (start_blk + 1, size_sub num_blk 1)
          } else Some (start_blk, num_blk));
       s \<leftarrow> extend_alloc_loop s e start_blk num_blk;
       (ret, s) \<leftarrow> append_units (eb_num (ebufs s e)) s inode e 0 (i_ts (inode_mem s inode));
       let s = ebuf_put s e;
       s \<leftarrow> inode_unlock s (i_ino (inode_mem s inode));
       Some (ret, s)
     })"

partial_function (option) shrink_loop :: "fs \<Rightarrow> nat \<Rightarrow> nat \<Rightarrow> nat \<Rightarrow> fs option" where
  [code]: "shrink_loop s inode start_blk end_blk =
    (if start_blk < end_blk then do {
       fe \<leftarrow> filent_lookup s inode (int start_blk);
       if fe = 0 then shrink_loop s inode start_blk end_blk
       else
         let num_blk = f_blocks (filent_mem s fe)
         in if size_add start_blk num_blk > end_blk then Some s
            else file_remove_entry s inode fe \<bind> (\<lambda>s. shrink_loop s inode (size_add start_blk num_blk) end_blk)
     }
     else Some s)"

definition inode_shrink :: "fs \<Rightarrow> nat \<Rightarrow> nat \<Rightarrow> (int \<times> fs) option" where
  "inode_shrink s inode new_size =
    (let start_blk = size_sub (size_add new_size PAGE_SIZE) 1 div PAGE_SIZE;
         end_blk = size_sub (size_add (i_size (inode_mem s inode)) PAGE_SIZE) 1 div PAGE_SIZE;
         (jnl, s) = journal_alloc s
     in do {
       s \<leftarrow> journal_truncate s jnl (int (i_ino (inode_mem s inode))) new_size;
       s \<leftarrow> shrink_loop s inode start_blk end_blk;
       s \<leftarrow> journal_commit s jnl;
       Some (0, s)
     })"

definition inode_resize :: "fs \<Rightarrow> nat \<Rightarrow> nat \<Rightarrow> (int \<times> fs) option" where
  "inode_resize s inode new_size =
    (if new_size = i_size (inode_mem s inode) then Some (0, s)
     else if new_size < i_size (inode_mem s inode) then inode_shrink s inode new_size
     else inode_extend s inode new_size)"

subsection \<open>Releasing\<close>

partial_function (option) release_dir_loop :: "fs \<Rightarrow> nat \<Rightarrow> fs option" where
  [code]: "release_dir_loop s inode =
    (if list_empty (lists s) inode then Some s
     else
       let d = lnext (lists s) inode;
           s = s\<lparr>lists := list_del (lists s) d\<rparr>;
           s = dirent_free s d
       in dir_remove_entry s inode d \<bind> (\<lambda>s. release_dir_loop s inode))"

partial_function (option) release_file_loop :: "fs \<Rightarrow> nat \<Rightarrow> fs option" where
  [code]: "release_file_loop s inode =
    (if list_empty (lists s) inode then Some s
     else
       let f = lnext (lists s) inode;
           s = s\<lparr>maps := slot_data_free (maps s) (f_p_idx (filent_mem s f)) (f_blocks (filent_mem s f))\<rparr>;
           s = s\<lparr>lists := list_del (lists s) f\<rparr>;
           s = filent_free s f;
           s = s\<lparr>maps := slot_firent_free (maps s) (f_idx (filent_mem s f))\<rparr>
       in release_file_loop s inode)"

definition do_inode_release :: "fs \<Rightarrow> nat \<Rightarrow> fs option" where
  "do_inode_release s inode =
    do {
      s \<leftarrow> (if is_dir (inode_mem s inode) then release_dir_loop s inode
            else do {
              s \<leftarrow> release_file_loop s inode;
              h \<leftarrow> btree_destroy (bheap s) (i_b_root (inode_mem s inode));
              Some (s\<lparr>bheap := h\<rparr>)
            });
      let s = s\<lparr>maps := slot_inode_free (maps s) (int (i_ino (inode_mem s inode)))\<rparr>;
      Some (inode_free s inode)
    }"

text \<open>\<open>sbi->release_list\<close> is the list with the head at the address of \<open>sbi\<close>.\<close>

definition SBI :: nat where
  "SBI = SHM_BASE"

definition inode_release :: "fs \<Rightarrow> nat \<Rightarrow> fs" where
  "inode_release s inode = s\<lparr>rels := list_add (rels s) inode SBI\<rparr>"

end
