(* ===== verification/Vfs.thy ===== *)
theory Vfs
  imports File_Ops
begin

text \<open>
  Path resolution: \<open>slotfs/slot_vfs.c\<close>. A path is the string without its terminating zero. \<open>path_lookup\<close>,
  its loop \<open>path_walk\<close> and \<open>handle_symlink\<close> call each other; the limit on \<open>depth\<close> and the length of the rest of the path
  make the recursion end.
\<close>

definition ND_PARENT :: nat where
  "ND_PARENT = 1"

definition ND_NOFOLLOW :: nat where
  "ND_NOFOLLOW = 2"

record nameidata =
  nd_path :: string
  nd_start :: nat
  nd_current :: nat
  nd_parent :: nat
  nd_depth :: nat
  nd_flags :: nat
  nd_last :: string
  nd_last_len :: nat

definition iget :: "fs \<Rightarrow> nat \<Rightarrow> ((int + nat) \<times> fs) option" where
  "iget s ino =
    do {
      s \<leftarrow> inode_lock s ino;
      if itable s ino \<noteq> 0 then Some (Inr (itable s ino), s)
      else
        let (p, s) = inode_alloc s
        in if p = 0 then inode_unlock s ino \<bind> (\<lambda>s. Some (Inl (- ENOMEM), s))
           else do {
             let s = upd_inode s p (\<lambda>i. i\<lparr>i_ino := ino\<rparr>);
             (ret, s) \<leftarrow> inode_rebuild s p;
             if ret \<noteq> 0 then inode_unlock s ino \<bind> (\<lambda>s. Some (Inl ret, inode_free s p))
             else Some (Inr p, s\<lparr>itable := (itable s)(ino := p)\<rparr>)
           }
    }"

definition icache_install :: "fs \<Rightarrow> nat \<Rightarrow> fs option" where
  "icache_install s p =
    (let ino = i_ino (inode_mem s p)
     in inode_lock s ino \<bind> (\<lambda>s. inode_unlock (s\<lparr>itable := (itable s)(ino := p)\<rparr>) ino))"

definition is_slash :: "char \<Rightarrow> bool" where
  "is_slash c \<longleftrightarrow> c = CHR ''/''"

definition skip_slashes :: "string \<Rightarrow> string" where
  "skip_slashes c = dropWhile is_slash c"

definition skip_name :: "string \<Rightarrow> string" where
  "skip_name c = dropWhile (\<lambda>x. \<not> is_slash x) c"

definition name_len :: "string \<Rightarrow> nat" where
  "name_len c = length (takeWhile (\<lambda>x. \<not> is_slash x) c)"

text \<open>The bytes of a symbolic link, read as a C string.\<close>

definition c_string :: "byte list \<Rightarrow> string" where
  "c_string bs = map (\<lambda>b. char_of (unat b)) (takeWhile (\<lambda>b. b \<noteq> 0) bs)"

lemma skip_name_shrinks: "skip_slashes (skip_name c) \<noteq> [] \<Longrightarrow> length (skip_slashes (skip_name c)) < length c"
proof (cases c)
  case (Cons x xs)
  assume "skip_slashes (skip_name c) \<noteq> []"
  show ?thesis
  proof (cases "is_slash x")
    case True
    then show ?thesis
      using Cons by (simp add: skip_name_def skip_slashes_def length_dropWhile_le le_imp_less_Suc)
  next
    case False
    then have "skip_name c = skip_name xs"
      using Cons by (simp add: skip_name_def)
    moreover have "length (skip_slashes (skip_name xs)) \<le> length xs"
      unfolding skip_slashes_def skip_name_def by (rule order_trans [OF length_dropWhile_le length_dropWhile_le])
    ultimately show ?thesis
      using Cons by simp
  qed
qed (simp add: skip_name_def skip_slashes_def)

function path_lookup :: "fs \<Rightarrow> nameidata \<Rightarrow> (int \<times> nameidata \<times> fs) option"
  and path_walk :: "fs \<Rightarrow> nameidata \<Rightarrow> string \<Rightarrow> (int \<times> nameidata \<times> fs) option"
  and handle_symlink :: "fs \<Rightarrow> nat \<Rightarrow> nameidata \<Rightarrow> (int \<times> nameidata \<times> fs) option" where
  "path_lookup s nd =
    (let c = skip_slashes (nd_path nd); nd = nd\<lparr>nd_current := nd_start nd\<rparr>
     in if c = [] then
          if nd_flags nd AND ND_PARENT \<noteq> 0 then Some (0, nd, s)
          else deref (nd_current nd) \<bind> (\<lambda>_. inode_lock s (i_ino (inode_mem s (nd_current nd))) \<bind> (\<lambda>s. Some (0, nd, s)))
        else deref (nd_current nd) \<bind> (\<lambda>_. inode_lock s (i_ino (inode_mem s (nd_current nd))) \<bind> (\<lambda>s. path_walk s nd c)))"
| "path_walk s nd c =
    (let this = c; len = name_len c; c = skip_slashes (skip_name c);
         fail = (\<lambda>(ret :: int) s. inode_unlock s (i_ino (inode_mem s (nd_current nd))) \<bind> (\<lambda>s. Some (ret, nd, s)))
     in deref (nd_current nd) \<bind> (\<lambda>_.
        if c \<noteq> [] then
          inode_lookup s (nd_current nd) (take len this) \<bind> (\<lambda>d.
            if d = 0 then fail (- ENOENT) s
            else deref d \<bind> (\<lambda>_. iget s (d_ino (dirent_mem s d)) \<bind> (\<lambda>(r, s). case r of
                Inl err \<Rightarrow> fail err s
              | Inr inode \<Rightarrow>
                  if is_symlink (inode_mem s inode) then
                    inode_unlock s (i_ino (inode_mem s (nd_current nd))) \<bind> (\<lambda>s.
                    handle_symlink s inode nd \<bind> (\<lambda>(ret, nd', s).
                      if ret \<noteq> 0 then
                        inode_unlock s (i_ino (inode_mem s inode)) \<bind> (\<lambda>s. Some (ret, nd', s))
                      else path_walk s (nd\<lparr>nd_current := nd_current nd'\<rparr>) c))
                  else if \<not> is_dir (inode_mem s inode) then
                    inode_unlock s (i_ino (inode_mem s inode)) \<bind> (\<lambda>s. fail (- ENOTDIR) s)
                  else
                    inode_unlock s (i_ino (inode_mem s (nd_current nd))) \<bind> (\<lambda>s.
                    path_walk s (nd\<lparr>nd_current := inode\<rparr>) c))))
        else
          let nd = nd\<lparr>nd_last := this, nd_last_len := len\<rparr>;
              fail = (\<lambda>(ret :: int) s. inode_unlock s (i_ino (inode_mem s (nd_current nd))) \<bind> (\<lambda>s. Some (ret, nd, s)))
          in if nd_flags nd AND ND_PARENT \<noteq> 0 then
               Some (0, nd\<lparr>nd_parent := nd_current nd, nd_current := 0\<rparr>, s)
             else
               inode_lookup s (nd_current nd) (take len this) \<bind> (\<lambda>d.
                 if d = 0 then fail (- ENOENT) s
                 else deref d \<bind> (\<lambda>_. iget s (d_ino (dirent_mem s d)) \<bind> (\<lambda>(r, s). case r of
                     Inl err \<Rightarrow> fail err s
                   | Inr inode \<Rightarrow>
                       if is_symlink (inode_mem s inode) then
                         inode_unlock s (i_ino (inode_mem s (nd_current nd))) \<bind> (\<lambda>s.
                         handle_symlink s inode nd \<bind> (\<lambda>(ret, nd', s).
                           if ret \<noteq> 0 then
                             inode_unlock s (i_ino (inode_mem s inode)) \<bind> (\<lambda>s. Some (ret, nd', s))
                           else Some (0, nd', s)))
                       else
                         inode_unlock s (i_ino (inode_mem s (nd_current nd))) \<bind> (\<lambda>s.
                         Some (0, nd\<lparr>nd_current := inode\<rparr>, s)))))))"
| "handle_symlink s inode nd =
    (if nd_flags nd AND ND_NOFOLLOW \<noteq> 0 then Some (- ELOOP, nd, s)
     else if nd_depth nd > MAX_LOOP then Some (- ELOOP, nd, s)
     else
       heap_alloc (fheap s) (size_add (i_size (inode_mem s inode)) 1) \<bind> (\<lambda>(link, h).
         let s = s\<lparr>fheap := h\<rparr>
         in if link = 0 then Some (- ENOMEM, nd, s)
            else
              inode_readlink s inode \<bind> (\<lambda>bs.
                let p = c_string bs;
                    nd' = nd\<lparr>nd_path := p, nd_depth := nd_depth nd + 1,
                            nd_start := (if p \<noteq> [] \<and> is_slash (hd p) then root_inode s else nd_current nd)\<rparr>
                in inode_unlock s (i_ino (inode_mem s inode)) \<bind> (\<lambda>s.
                   path_lookup s nd' \<bind> (\<lambda>(ret, nd', s).
                     (if ret = 0 then Some s else inode_lock s (i_ino (inode_mem s inode))) \<bind> (\<lambda>s.
                     heap_free (fheap s) link \<bind> (\<lambda>h.
                       Some (ret, if ret = 0 then nd\<lparr>nd_current := nd_current nd'\<rparr> else nd, s\<lparr>fheap := h\<rparr>))))))))"
  by pat_completeness auto

termination
  by (relation "measures [\<lambda>x. case x of Inl (s, nd) \<Rightarrow> MAX_LOOP + 2 - nd_depth nd
        | Inr (Inl (s, nd, c)) \<Rightarrow> MAX_LOOP + 2 - nd_depth nd
        | Inr (Inr (s, inode, nd)) \<Rightarrow> MAX_LOOP + 2 - nd_depth nd,
      \<lambda>x. case x of Inl _ \<Rightarrow> 2 | Inr (Inl _) \<Rightarrow> 1 | Inr (Inr _) \<Rightarrow> 0,
      \<lambda>x. case x of Inr (Inl (s, nd, c)) \<Rightarrow> length c | _ \<Rightarrow> 0]")
    (auto simp: MAX_LOOP_def skip_name_shrinks)

declare path_lookup.simps [simp del] path_walk.simps [simp del] handle_symlink.simps [simp del]

end
