(* ===== verification/Rb_Rep.thy ===== *)
theory Rb_Rep imports Rb_Tree begin

text \<open>
  The red-black trees of \<open>rbtree.c\<close> as values. \<open>rep\<close> relates the cells of a store to a coloured binary
  tree, \<open>zrep\<close> to a subtree and the path above it (a zipper: the state in which the rebalancing loops
  are), \<open>rb_inv\<close> is the red-black invariant, and \<open>mirror\<close> exchanges left and right, so that the
  symmetric halves of the source are proved once.
\<close>

subsection \<open>Trees in the store\<close>

datatype rb_col = Red | Black

datatype rbt = Leaf | Node rb_col rbt nat rbt

primrec cbit :: "rb_col \<Rightarrow> nat" where
  "cbit Red = RB_RED"
| "cbit Black = RB_BLACK"

primrec ptr_of :: "rbt \<Rightarrow> nat" where
  "ptr_of Leaf = 0"
| "ptr_of (Node c l x r) = x"

primrec inorder :: "rbt \<Rightarrow> nat list" where
  "inorder Leaf = []"
| "inorder (Node c l x r) = inorder l @ x # inorder r"

primrec paint :: "rb_col \<Rightarrow> rbt \<Rightarrow> rbt" where
  "paint c Leaf = Leaf"
| "paint c (Node d l x r) = Node c l x r"

abbreviation pc_of :: "rb_tree \<Rightarrow> nat \<Rightarrow> nat" where
  "pc_of s x \<equiv> rb_pc (cells s x)"

text \<open>\<open>rep s par p t\<close>: the pointer \<open>p\<close>, a child of \<open>par\<close>, is the root of the tree \<open>t\<close>.\<close>

primrec rep :: "rb_tree \<Rightarrow> nat \<Rightarrow> nat \<Rightarrow> rbt \<Rightarrow> bool" where
  "rep s par p Leaf \<longleftrightarrow> p = 0"
| "rep s par p (Node c l x r) \<longleftrightarrow> p = x \<and> x \<noteq> 0 \<and> 4 dvd x \<and> pc_of s x = par + cbit c \<and>
     rep s x (left_of s x) l \<and> rep s x (right_of s x) r"

text \<open>A context: the path from a subtree up to the root, innermost frame first.\<close>

datatype rb_frame = LF rb_col nat rbt | RF rb_col rbt nat

primrec fnode :: "rb_frame \<Rightarrow> nat" where
  "fnode (LF c x r) = x"
| "fnode (RF c l x) = x"

primrec fsub :: "rb_frame \<Rightarrow> rbt" where
  "fsub (LF c x r) = r"
| "fsub (RF c l x) = l"

primrec cpar :: "rb_frame list \<Rightarrow> nat" where
  "cpar [] = 0"
| "cpar (f # k) = fnode f"

primrec cnodes :: "rb_frame list \<Rightarrow> nat list" where
  "cnodes [] = []"
| "cnodes (f # k) = fnode f # inorder (fsub f) @ cnodes k"

fun crep :: "rb_tree \<Rightarrow> nat \<Rightarrow> rb_frame list \<Rightarrow> bool" where
  "crep s h [] \<longleftrightarrow> rb_root s = h"
| "crep s h (LF c x r # k) \<longleftrightarrow> x \<noteq> 0 \<and> 4 dvd x \<and> pc_of s x = cpar k + cbit c \<and> left_of s x = h \<and>
     rep s x (right_of s x) r \<and> crep s x k"
| "crep s h (RF c l x # k) \<longleftrightarrow> x \<noteq> 0 \<and> 4 dvd x \<and> pc_of s x = cpar k + cbit c \<and> right_of s x = h \<and>
     rep s x (left_of s x) l \<and> crep s x k"

fun zip_up :: "rb_frame list \<Rightarrow> rbt \<Rightarrow> rbt" where
  "zip_up [] t = t"
| "zip_up (LF c x r # k) t = zip_up k (Node c t x r)"
| "zip_up (RF c l x # k) t = zip_up k (Node c l x t)"

definition zrep :: "rb_tree \<Rightarrow> rb_frame list \<Rightarrow> rbt \<Rightarrow> bool" where
  "zrep s k t \<longleftrightarrow> crep s (ptr_of t) k \<and> rep s (cpar k) (ptr_of t) t \<and> distinct (inorder t @ cnodes k)"

definition rb_rep :: "rb_tree \<Rightarrow> rbt \<Rightarrow> bool" where
  "rb_rep s t \<longleftrightarrow> zrep s [] t"

lemma cbit_simps [simp]: "cbit c < 2" "cbit c mod 2 = cbit c" "cbit c mod 4 = cbit c"
  by (cases c; simp add: RB_RED_def RB_BLACK_def)+

lemma cbit_Red [simp]: "cbit c = 0 \<longleftrightarrow> c = Red" "cbit c = Suc 0 \<longleftrightarrow> c = Black"
  by (cases c; simp add: RB_RED_def RB_BLACK_def)+

lemma pc_parent_cbit [simp]: "4 dvd p \<Longrightarrow> pc_parent (p + cbit c) = p"
  by (auto simp: pc_parent_def)

lemma pc_black_cbit [simp]: "4 dvd p \<Longrightarrow> pc_is_black (p + cbit c) \<longleftrightarrow> c = Black"
proof -
  assume "4 dvd p"
  then have "p mod 2 = 0" by presburger
  then show ?thesis
    by (cases c) (auto simp: pc_is_black_def RB_RED_def RB_BLACK_def mod_add_left_eq)
qed

lemma or_cbit [simp]:
  assumes "4 dvd p"
  shows "p OR cbit c = p + cbit c" "cbit c OR p = p + cbit c"
proof -
  have "even p"
    using assms by presburger
  then have "p OR 1 = p + 1"
    by (simp add: or_Suc_0_eq)
  then show "p OR cbit c = p + cbit c"
    by (cases c) (simp_all add: RB_RED_def RB_BLACK_def)
  then show "cbit c OR p = p + cbit c"
    by (simp add: or.commute)
qed

lemma color_cbit [simp]: "4 dvd p \<Longrightarrow> (p + cbit c) mod 2 = cbit c"
proof -
  assume "4 dvd p"
  then have "p mod 2 = 0" by presburger
  then show ?thesis
    by (metis add_0 cbit_simps(2) mod_add_left_eq)
qed

lemma RB_consts [simp]: "RB_RED = cbit Red" "RB_BLACK = cbit Black"
  by simp_all

declare cbit.simps [simp del]

lemma red_parent [simp]: "pc_of s x = par + cbit Red \<Longrightarrow> rb_red_parent s x = par"
  by (simp add: rb_red_parent_def cbit.simps del: RB_consts) (simp add: RB_RED_def del: RB_consts)

text \<open>Reading a cell after a write.\<close>

lemma cell_reads [simp]:
  "left_of (set_left s x v) y = (if y = x then v else left_of s y)"
  "right_of (set_left s x v) y = right_of s y" "pc_of (set_left s x v) y = pc_of s y"
  "right_of (set_right s x v) y = (if y = x then v else right_of s y)"
  "left_of (set_right s x v) y = left_of s y" "pc_of (set_right s x v) y = pc_of s y"
  "left_of (set_pc s x v) y = left_of s y" "right_of (set_pc s x v) y = right_of s y"
  "pc_of (set_pc s x v) y = (if y = x then v else pc_of s y)"
  "rb_root (set_left s x v) = rb_root s" "rb_root (set_right s x v) = rb_root s"
  "rb_root (set_pc s x v) = rb_root s"
  "left_of (s\<lparr>rb_root := v\<rparr>) y = left_of s y" "right_of (s\<lparr>rb_root := v\<rparr>) y = right_of s y"
  by (simp_all add: set_left_def set_right_def set_pc_def upd_cell_def left_of_def right_of_def)

lemma color_reads [simp]:
  "left_of (rb_set_parent_color s x p c) y = left_of s y"
  "right_of (rb_set_parent_color s x p c) y = right_of s y"
  "pc_of (rb_set_parent_color s x p c) y = (if y = x then p OR c else pc_of s y)"
  "rb_root (rb_set_parent_color s x p c) = rb_root s"
  "left_of (rb_set_parent s x p) y = left_of s y" "right_of (rb_set_parent s x p) y = right_of s y"
  "pc_of (rb_set_parent s x p) y = (if y = x then rb_color s x OR p else pc_of s y)"
  "rb_root (rb_set_parent s x p) = rb_root s"
  "left_of (rb_set_black s x) y = left_of s y" "right_of (rb_set_black s x) y = right_of s y"
  "pc_of (rb_set_black s x) y = (if y = x then pc_of s x OR RB_BLACK else pc_of s y)"
  "rb_root (rb_set_black s x) = rb_root s"
  by (simp_all add: rb_set_parent_color_def rb_set_parent_def rb_set_black_def)

lemma rep_ptr: "rep s par p t \<Longrightarrow> p = ptr_of t"
  by (cases t) auto

lemma rep_nonzero: "rep s par p t \<Longrightarrow> x \<in> set (inorder t) \<Longrightarrow> x \<noteq> 0 \<and> 4 dvd x"
  by (induction t arbitrary: par p) auto

lemma ptr_in: "t \<noteq> Leaf \<Longrightarrow> ptr_of t \<in> set (inorder t)"
  by (cases t) auto

text \<open>Frame: \<open>rep\<close> depends on the cells of its nodes only.\<close>

lemma rep_cong:
  assumes "\<And>x. x \<in> set (inorder t) \<Longrightarrow> left_of s' x = left_of s x \<and> right_of s' x = right_of s x \<and> pc_of s' x = pc_of s x"
  shows "rep s' par p t \<longleftrightarrow> rep s par p t"
  using assms by (induction t arbitrary: par p) auto

text \<open>A subtree that is attached to another parent or gets another root colour.\<close>

lemma rep_move:
  assumes "rep s par p t" "distinct (inorder t)"
    "\<And>x. x \<in> set (inorder t) \<Longrightarrow> left_of s' x = left_of s x \<and> right_of s' x = right_of s x"
    "\<And>x. x \<in> set (inorder t) \<Longrightarrow> x \<noteq> p \<Longrightarrow> pc_of s' x = pc_of s x"
    "t \<noteq> Leaf \<Longrightarrow> pc_of s' p = par' + cbit c"
  shows "rep s' par' p (paint c t)"
proof (cases t)
  case Leaf
  with assms show ?thesis by simp
next
  case (Node d l x r)
  have "rep s' x (left_of s x) l \<longleftrightarrow> rep s x (left_of s x) l"
    using assms(1,2,3,4) Node by (intro rep_cong) auto
  moreover have "rep s' x (right_of s x) r \<longleftrightarrow> rep s x (right_of s x) r"
    using assms(1,2,3,4) Node by (intro rep_cong) auto
  ultimately show ?thesis
    using assms Node by auto
qed

lemma rep_iff: "rep s par p t \<longleftrightarrow> p = ptr_of t \<and> rep s par (ptr_of t) t"
  using rep_ptr by blast

lemma zrep_LF: "zrep s (LF c x r # k) t \<longleftrightarrow> zrep s k (Node c t x r)"
  using rep_iff [of s x "left_of s x" t] by (auto simp: zrep_def)

lemma zrep_RF: "zrep s (RF c l x # k) t \<longleftrightarrow> zrep s k (Node c l x t)"
  using rep_iff [of s x "right_of s x" t] by (auto simp: zrep_def)

lemma zrep_zip: "zrep s k t \<longleftrightarrow> rb_rep s (zip_up k t)"
  by (induction k t rule: zip_up.induct) (simp_all add: rb_rep_def zrep_LF zrep_RF)

lemma crep_dvd: "crep s h k \<Longrightarrow> 4 dvd cpar k"
  by (induction s h k rule: crep.induct) auto

text \<open>The context seen from outside: \<open>crep\<close> depends on the cells of its nodes, except for the
  pointer to the hole.\<close>

lemma crep_cong:
  assumes "\<And>x. x \<in> set (cnodes k) \<Longrightarrow> left_of s' x = left_of s x \<and> right_of s' x = right_of s x \<and> pc_of s' x = pc_of s x"
    "rb_root s' = rb_root s"
  shows "crep s' h k \<longleftrightarrow> crep s h k"
  using assms
proof (induction s h k rule: crep.induct)
  case (2 s h c x r k)
  then have "rep s' x (right_of s x) r \<longleftrightarrow> rep s x (right_of s x) r"
    by (intro rep_cong) auto
  with 2 show ?case by auto
next
  case (3 s h c l x k)
  then have "rep s' x (left_of s x) l \<longleftrightarrow> rep s x (left_of s x) l"
    by (intro rep_cong) auto
  with 3 show ?case by auto
qed simp

text \<open>\<open>rb_change_child\<close> redirects the pointer to the hole.\<close>

lemma change_child_crep:
  assumes "crep s old k" "old \<noteq> 0" "old \<notin> set (cnodes k)" "distinct (cnodes k)"
  shows "crep (rb_change_child s old new (cpar k)) new k"
proof (cases k)
  case Nil
  then show ?thesis by (simp add: rb_change_child_def)
next
  case (Cons f k')
  show ?thesis
  proof (cases f)
    case (LF c x r)
    let ?s = "set_left s x new"
    have "rep ?s x (right_of s x) r \<longleftrightarrow> rep s x (right_of s x) r"
      using assms(4) Cons LF by (intro rep_cong) auto
    moreover have "crep ?s x k' \<longleftrightarrow> crep s x k'"
      using assms(4) Cons LF by (intro crep_cong) auto
    ultimately show ?thesis
      using assms Cons LF by (simp add: rb_change_child_def)
  next
    case (RF c l x)
    let ?s = "set_right s x new"
    have "rep ?s x (left_of s x) l \<longleftrightarrow> rep s x (left_of s x) l"
      using assms(4) Cons RF by (intro rep_cong) auto
    moreover have "crep ?s x k' \<longleftrightarrow> crep s x k'"
      using assms(4) Cons RF by (intro crep_cong) auto
    moreover have "left_of s x \<noteq> old"
    proof
      assume "left_of s x = old"
      then have "rep s x old l"
        using assms(1) Cons RF by simp
      with assms(2) have "old \<in> set (inorder l)"
        by (cases l) auto
      with assms(3) Cons RF show False by simp
    qed
    ultimately show ?thesis
      using assms Cons RF by (simp add: rb_change_child_def)
  qed
qed

lemma change_child_reads:
  "x \<noteq> parent \<Longrightarrow> left_of (rb_change_child s old new parent) x = left_of s x"
  "x \<noteq> parent \<Longrightarrow> right_of (rb_change_child s old new parent) x = right_of s x"
  "pc_of (rb_change_child s old new parent) x = pc_of s x"
  by (simp_all add: rb_change_child_def)

lemma cpar_in: "cpar k \<noteq> 0 \<Longrightarrow> cpar k \<in> set (cnodes k)"
  by (cases k) auto

text \<open>\<open>rb_rotate_set_parents\<close>: \<open>new\<close> takes the place, parent and colour of \<open>old\<close>.\<close>

lemma rotate_set_parents:
  assumes "crep s old k" "pc_of s old = cpar k + cbit c" "old \<noteq> 0" "new \<noteq> old" "4 dvd new"
    "old \<notin> set (cnodes k)" "new \<notin> set (cnodes k)" "distinct (cnodes k)"
    and s': "s' = rb_rotate_set_parents s old new (cbit d)"
  shows "crep s' new k" "pc_of s' new = cpar k + cbit c" "pc_of s' old = new + cbit d"
    "\<And>x. x \<notin> set (cnodes k) \<Longrightarrow> x \<noteq> 0 \<Longrightarrow> left_of s' x = left_of s x \<and> right_of s' x = right_of s x"
    "\<And>x. x \<noteq> old \<Longrightarrow> x \<noteq> new \<Longrightarrow> pc_of s' x = pc_of s x"
proof -
  have par: "rb_parent s old = cpar k"
    using assms(2) crep_dvd [OF assms(1)] by (simp add: rb_parent_def)
  let ?s = "rb_set_parent_color (set_pc s new (pc_of s old)) old new (cbit d)"
  have e: "s' = rb_change_child ?s old new (cpar k)"
    using s' par by (simp add: rb_rotate_set_parents_def)
  have "crep ?s old k \<longleftrightarrow> crep s old k"
    using assms(6,7) by (intro crep_cong) auto
  with change_child_crep [of ?s old k new] assms show "crep s' new k"
    by (simp add: e)
  show "pc_of s' new = cpar k + cbit c" "pc_of s' old = new + cbit d"
    "\<And>x. x \<noteq> old \<Longrightarrow> x \<noteq> new \<Longrightarrow> pc_of s' x = pc_of s x"
    using assms(2-5) by (simp_all add: e change_child_reads)
  show "left_of s' x = left_of s x \<and> right_of s' x = right_of s x" if "x \<notin> set (cnodes k)" "x \<noteq> 0" for x
  proof -
    have "x \<noteq> cpar k"
      using that cpar_in [of k] by auto
    then show ?thesis
      by (simp add: e change_child_reads)
  qed
qed

fun is_red_t :: "rbt \<Rightarrow> bool" where
  "is_red_t (Node Red l x r) = True"
| "is_red_t _ = False"

lemma rep_keep:
  assumes "rep s par p t"
    "\<And>x. x \<in> set (inorder t) \<Longrightarrow> left_of s' x = left_of s x \<and> right_of s' x = right_of s x \<and> pc_of s' x = pc_of s x"
  shows "rep s' par p t"
  using assms rep_cong by blast

lemma crep_keep:
  assumes "crep s h k"
    "\<And>x. x \<in> set (cnodes k) \<Longrightarrow> left_of s' x = left_of s x \<and> right_of s' x = right_of s x \<and> pc_of s' x = pc_of s x"
    "rb_root s' = rb_root s"
  shows "crep s' h k"
  using assms crep_cong by blast

lemma red_in_store:
  "rep s par p t \<Longrightarrow> 4 dvd par \<Longrightarrow> p \<noteq> 0 \<and> rb_is_red s p \<longleftrightarrow> is_red_t t"
  by (cases t rule: is_red_t.cases) (auto simp: rb_is_red_def rb_is_black_def)

lemma paint_simps [simp]: "inorder (paint c t) = inorder t" "ptr_of (paint c t) = ptr_of t"
  by (cases t; simp)+

subsection \<open>Left and right exchanged\<close>

definition mirror :: "rb_tree \<Rightarrow> rb_tree" where
  "mirror s = s\<lparr>cells := \<lambda>x. \<lparr>rb_pc = pc_of s x, rb_right = left_of s x, rb_left = right_of s x\<rparr>\<rparr>"

primrec mirror_t :: "rbt \<Rightarrow> rbt" where
  "mirror_t Leaf = Leaf"
| "mirror_t (Node c l x r) = Node c (mirror_t r) x (mirror_t l)"

primrec mirror_f :: "rb_frame \<Rightarrow> rb_frame" where
  "mirror_f (LF c x r) = RF c (mirror_t r) x"
| "mirror_f (RF c l x) = LF c x (mirror_t l)"

lemma mirror_reads [simp]:
  "left_of (mirror s) x = right_of s x" "right_of (mirror s) x = left_of s x" "pc_of (mirror s) x = pc_of s x"
  "rb_root (mirror s) = rb_root s"
  by (simp_all add: mirror_def left_of_def right_of_def)

lemma mirror_t_simps [simp]:
  "mirror_t (mirror_t t) = t" "ptr_of (mirror_t t) = ptr_of t" "set (inorder (mirror_t t)) = set (inorder t)"
  "mirror_t (paint c t) = paint c (mirror_t t)" "is_red_t (mirror_t t) = is_red_t t"
  "distinct (inorder (mirror_t t)) = distinct (inorder t)" "mirror_t t = Leaf \<longleftrightarrow> t = Leaf"
proof -
  show "mirror_t (mirror_t t) = t" by (induction t) auto
  show s: "set (inorder (mirror_t t)) = set (inorder t)" for t by (induction t) auto
  show "ptr_of (mirror_t t) = ptr_of t" "mirror_t (paint c t) = paint c (mirror_t t)" "mirror_t t = Leaf \<longleftrightarrow> t = Leaf"
    by (cases t; simp)+
  show "is_red_t (mirror_t t) = is_red_t t" by (cases t rule: is_red_t.cases) auto
  show "distinct (inorder (mirror_t t)) = distinct (inorder t)"
    by (induction t) (auto simp: s)
qed

lemma mirror_f_simps [simp]:
  "mirror_f (mirror_f f) = f" "fnode (mirror_f f) = fnode f" "fsub (mirror_f f) = mirror_t (fsub f)"
  by (cases f; simp)+

lemma mirror_k_simps [simp]:
  "cpar (map mirror_f k) = cpar k" "set (cnodes (map mirror_f k)) = set (cnodes k)"
  "distinct (cnodes (map mirror_f k)) = distinct (cnodes k)" "map mirror_f (map mirror_f k) = k"
proof -
  show "cpar (map mirror_f k) = cpar k" by (cases k) auto
  show s: "set (cnodes (map mirror_f k)) = set (cnodes k)" for k by (induction k) auto
  show "distinct (cnodes (map mirror_f k)) = distinct (cnodes k)" by (induction k) (auto simp: s)
  show "map mirror_f (map mirror_f k) = k" by (induction k) auto
qed

lemma rep_mirror [simp]: "rep (mirror s) par p (mirror_t t) \<longleftrightarrow> rep s par p t"
  by (induction t arbitrary: par p) auto

lemma crep_mirror [simp]: "crep (mirror s) h (map mirror_f k) \<longleftrightarrow> crep s h k"
  by (induction s h k rule: crep.induct) auto

lemma zrep_mirror: "zrep (mirror s) (map mirror_f k) (mirror_t t) \<longleftrightarrow> zrep s k t"
  by (auto simp: zrep_def)

text \<open>Reading the stores as functions shows that the writes commute with the exchange.\<close>

lemma rb_tree_eqI:
  fixes s s' :: rb_tree
  assumes "\<And>x. left_of s x = left_of s' x" "\<And>x. right_of s x = right_of s' x" "\<And>x. pc_of s x = pc_of s' x"
    "rb_root s = rb_root s'"
  shows "s = s'"
proof -
  have "cells s x = cells s' x" for x
    using assms(1-3) [of x] by (cases "cells s x"; cases "cells s' x") (simp add: left_of_def right_of_def)
  then have "cells s = cells s'" by blast
  with assms(4) show ?thesis
    by (cases s; cases s') simp
qed

lemma mirror_mirror [simp]: "mirror (mirror s) = s"
  by (rule rb_tree_eqI) simp_all

lemma mirror_writes [simp]:
  "mirror (set_left s x v) = set_right (mirror s) x v" "mirror (set_right s x v) = set_left (mirror s) x v"
  "mirror (set_pc s x v) = set_pc (mirror s) x v"
  "mirror (rb_set_parent_color s x p c) = rb_set_parent_color (mirror s) x p c"
  "mirror (rb_set_black s x) = rb_set_black (mirror s) x"
  "mirror (rb_set_parent s x p) = rb_set_parent (mirror s) x p"
  "mirror (s\<lparr>rb_root := v\<rparr>) = (mirror s)\<lparr>rb_root := v\<rparr>"
  by (rule rb_tree_eqI; simp add: rb_color_def)+

lemma mirror_queries [simp]:
  "rb_parent (mirror s) x = rb_parent s x" "rb_is_black (mirror s) x = rb_is_black s x"
  "rb_is_red (mirror s) x = rb_is_red s x" "rb_red_parent (mirror s) x = rb_red_parent s x"
  by (simp_all add: rb_parent_def rb_is_black_def rb_is_red_def rb_red_parent_def)

text \<open>A node is either the left or the right child of its parent.\<close>

definition one_child :: "rb_tree \<Rightarrow> nat \<Rightarrow> nat \<Rightarrow> bool" where
  "one_child s par x \<longleftrightarrow> (par \<noteq> 0 \<longrightarrow> (left_of s par = x \<longleftrightarrow> right_of s par \<noteq> x))"

lemma mirror_change_child:
  "one_child s par old \<Longrightarrow> mirror (rb_change_child s old new par) = rb_change_child (mirror s) old new par"
  by (simp add: rb_change_child_def one_child_def)

lemma mirror_rotate_set_parents:
  "one_child s (rb_parent s old) old \<Longrightarrow>
    mirror (rb_rotate_set_parents s old new c) = rb_rotate_set_parents (mirror s) old new c"
  by (simp add: rb_rotate_set_parents_def Let_def mirror_change_child one_child_def)

lemma crep_one_child:
  assumes "crep s h k" "h \<noteq> 0" "h \<notin> set (cnodes k)"
  shows "one_child s (cpar k) h"
proof (cases k)
  case (Cons f k')
  show ?thesis
  proof (cases f)
    case (LF c x r)
    then show ?thesis
      using assms Cons ptr_in [of r] rep_ptr [of s x "right_of s x" r] by (cases r) (auto simp: one_child_def)
  next
    case (RF c l x)
    then show ?thesis
      using assms Cons ptr_in [of l] rep_ptr [of s x "left_of s x" l] by (cases l) (auto simp: one_child_def)
  qed
qed (simp add: one_child_def)

end
