(* ===== verification/Rb_Walk.thy ===== *)
theory Rb_Walk imports Rb_Rep begin

text \<open>
  The walks of \<open>rbtree.c\<close>: \<open>rb_first\<close>, \<open>rb_next\<close>, \<open>rb_last\<close> and \<open>rb_prev\<close> follow the in-order sequence of the
  tree, and end.
\<close>

definition hd0 :: "nat list \<Rightarrow> nat" where
  "hd0 xs = (case xs of [] \<Rightarrow> 0 | x # _ \<Rightarrow> x)"

lemma hd0_simps [simp]: "hd0 [] = 0" "hd0 (x # xs) = x" "xs \<noteq> [] \<Longrightarrow> hd0 (xs @ ys) = hd0 xs"
  by (auto simp: hd0_def split: list.splits)

lemma go_left:
  "rep s par p t \<Longrightarrow> t \<noteq> Leaf \<Longrightarrow> rb_go_left s p = Some (hd0 (inorder t))"
proof (induction t arbitrary: par p)
  case (Node c l x r)
  show ?case
  proof (cases l)
    case Leaf
    then show ?thesis
      unfolding rb_go_left.simps [of s p] using Node.prems by simp
  next
    case (Node c' l' y r')
    with Node.prems have "rep s x (left_of s x) l" "l \<noteq> Leaf" "left_of s x \<noteq> 0" "p = x"
      by auto
    then show ?thesis
      unfolding rb_go_left.simps [of s p] using Node.IH(1) [of x "left_of s x"] Node
        hd0_simps(3) [of "inorder l" "x # inorder r"] by simp
  qed
qed simp

text \<open>What stands to the right of the hole of a context, and to the left.\<close>

fun kright :: "rb_frame list \<Rightarrow> nat list" where
  "kright [] = []"
| "kright (LF c x r # k) = x # inorder r @ kright k"
| "kright (RF c l x # k) = kright k"

fun kleft :: "rb_frame list \<Rightarrow> nat list" where
  "kleft [] = []"
| "kleft (LF c x r # k) = kleft k"
| "kleft (RF c l x # k) = kleft k @ inorder l @ [x]"

lemma inorder_zip: "inorder (zip_up k t) = kleft k @ inorder t @ kright k"
  by (induction k t rule: zip_up.induct) simp_all

lemma next_climb:
  "crep s h k \<Longrightarrow> pc_of s h = cpar k + cbit c \<Longrightarrow> h \<noteq> 0 \<Longrightarrow> h \<notin> set (cnodes k) \<Longrightarrow> distinct (cnodes k) \<Longrightarrow>
    rb_next_climb s h = Some (hd0 (kright k))"
proof (induction k arbitrary: h c)
  case Nil
  then show ?case
    unfolding rb_next_climb.simps [of s h] using pc_parent_cbit [of 0 c] by (simp add: rb_parent_def)
next
  case (Cons f k)
  have par: "rb_parent s h = fnode f"
    using Cons.prems crep_dvd [of s h "f # k"] by (simp add: rb_parent_def)
  have one: "one_child s (fnode f) h"
    using crep_one_child [of s h "f # k"] Cons.prems by simp
  show ?case
  proof (cases f)
    case (LF c' x r)
    then show ?thesis
      unfolding rb_next_climb.simps [of s h] using Cons.prems one par by (auto simp: one_child_def Let_def)
  next
    case (RF c' l x)
    then show ?thesis
      unfolding rb_next_climb.simps [of s h] using Cons.prems par Cons.IH [of x c']
      by (auto simp: Let_def)
  qed
qed

lemma zipper_at: "x \<in> set (inorder t) \<Longrightarrow> \<exists>k c l r. zip_up k0 t = zip_up k (Node c l x r)"
proof (induction t arbitrary: k0)
  case (Node c l y r)
  from Node.prems consider "x = y" | "x \<in> set (inorder l)" | "x \<in> set (inorder r)" by auto
  then show ?case
  proof cases
    case 1
    then show ?thesis by blast
  next
    case 2
    from Node.IH(1) [OF this, of "LF c y r # k0"] show ?thesis by simp
  next
    case 3
    from Node.IH(2) [OF this, of "RF c l y # k0"] show ?thesis by simp
  qed
qed simp

lemma first_hd: "rb_rep s t \<Longrightarrow> rb_first s = Some (hd0 (inorder t))"
  using go_left [of s 0 "rb_root s" t] by (cases t) (auto simp: rb_rep_def zrep_def rb_first_def)

lemma next_at:
  assumes z: "zrep s k (Node c l x r)"
  shows "rb_next s x = Some (hd0 (inorder r @ kright k))"
proof -
  have f: "pc_of s x = cpar k + cbit c" "x \<noteq> 0" "x \<notin> set (cnodes k)" "distinct (cnodes k)" "crep s x k"
    "rep s x (right_of s x) r"
    using z by (auto simp: zrep_def)
  have "cpar k \<noteq> x" "4 dvd cpar k" "4 dvd x"
    using f cpar_in [of k] crep_dvd [of s x k] z by (auto simp: zrep_def)
  then have "pc_of s x \<noteq> x"
    using f(1) pc_parent_cbit [of x Red] pc_parent_cbit [of "cpar k" c]
    by (auto simp: cbit.simps RB_RED_def simp del: RB_consts)
  moreover have "right_of s x = 0 \<longleftrightarrow> r = Leaf"
    using f(6) by (cases r) auto
  ultimately show ?thesis
    using f go_left [OF f(6)] next_climb [OF f(5,1,2,3,4)] hd0_simps(3) [of "inorder r" "kright k"]
    by (cases r) (auto simp: rb_next_def)
qed

lemma next_succ:
  assumes "rb_rep s t" "inorder t = xs @ x # ys"
  shows "rb_next s x = Some (hd0 ys)"
proof -
  obtain k c l r where t: "t = zip_up k (Node c l x r)"
    using zipper_at [of x t "[]"] assms(2) by auto
  then have z: "zrep s k (Node c l x r)"
    using assms(1) by (simp add: zrep_zip)
  have "distinct (inorder t)"
    using assms(1) by (simp add: rb_rep_def zrep_def)
  then have "x \<notin> set xs" "x \<notin> set ys"
    unfolding assms(2) by auto
  moreover have e: "inorder t = (kleft k @ inorder l) @ x # (inorder r @ kright k)"
    using t by (simp add: inorder_zip)
  ultimately have "ys = inorder r @ kright k"
    using assms(2) e append_Cons_eq_iff [of x xs ys "kleft k @ inorder l" "inorder r @ kright k"] by auto
  with next_at [OF z] show ?thesis by simp
qed

text \<open>The walks to the left are the walks to the right in the mirrored store.\<close>

lemma inorder_mirror [simp]: "inorder (mirror_t t) = rev (inorder t)"
  by (induction t) simp_all

lemma go_right_mirror: "rb_go_right s n = rb_go_left (mirror s) n"
proof -
  have "rb_go_right s n = Some y \<Longrightarrow> rb_go_left (mirror s) n = Some y" for y
  proof (rule rb_go_right.raw_induct [where P = "\<lambda>s n y. rb_go_left (mirror s) n = Some y"], goal_cases)
    case (1 go s n y)
    then show ?case
      unfolding rb_go_left.simps [of "mirror s" n] by (simp split: if_splits)
  qed
  moreover have "rb_go_left s' n = Some y \<Longrightarrow> rb_go_right (mirror s') n = Some y" for s' y
  proof (rule rb_go_left.raw_induct [where P = "\<lambda>s n y. rb_go_right (mirror s) n = Some y"], goal_cases)
    case (1 go s n y)
    then show ?case
      unfolding rb_go_right.simps [of "mirror s" n] by (simp split: if_splits)
  qed
  from this [of "mirror s"] have "rb_go_left (mirror s) n = Some y \<Longrightarrow> rb_go_right s n = Some y" for y
    by simp
  ultimately show ?thesis
    by (cases "rb_go_right s n"; cases "rb_go_left (mirror s) n") auto
qed

lemma prev_climb_mirror: "rb_prev_climb s n = rb_next_climb (mirror s) n"
proof -
  have "rb_prev_climb s n = Some y \<Longrightarrow> rb_next_climb (mirror s) n = Some y" for y
  proof (rule rb_prev_climb.raw_induct [where P = "\<lambda>s n y. rb_next_climb (mirror s) n = Some y"], goal_cases)
    case (1 go s n y)
    then show ?case
      unfolding rb_next_climb.simps [of "mirror s" n] by (auto simp: Let_def split: if_splits)
  qed
  moreover have "rb_next_climb s' n = Some y \<Longrightarrow> rb_prev_climb (mirror s') n = Some y" for s' y
  proof (rule rb_next_climb.raw_induct [where P = "\<lambda>s n y. rb_prev_climb (mirror s) n = Some y"], goal_cases)
    case (1 go s n y)
    then show ?case
      unfolding rb_prev_climb.simps [of "mirror s" n] by (auto simp: Let_def split: if_splits)
  qed
  from this [of "mirror s"] have "rb_next_climb (mirror s) n = Some y \<Longrightarrow> rb_prev_climb s n = Some y" for y
    by simp
  ultimately show ?thesis
    by (cases "rb_prev_climb s n"; cases "rb_next_climb (mirror s) n") auto
qed

lemma last_mirror: "rb_last s = rb_first (mirror s)" "rb_prev s x = rb_next (mirror s) x"
  by (simp_all add: rb_last_def rb_first_def rb_prev_def rb_next_def go_right_mirror prev_climb_mirror)

lemma rb_rep_mirror: "rb_rep (mirror s) (mirror_t t) \<longleftrightarrow> rb_rep s t"
  using zrep_mirror [of s "[]" t] by (simp add: rb_rep_def)

text \<open>C30: The walks over a tree. \<open>rb_first\<close> returns the first node of the in-order sequence and \<open>rb_next\<close>
  the node after the given one, 0 at the end; \<open>rb_last\<close> and \<open>rb_prev\<close> do the same backwards. None of them
  runs forever.\<close>

theorem rb_walk_inorder:
  assumes "rb_rep s t"
  shows "rb_first s = Some (hd0 (inorder t)) \<and> rb_last s = Some (hd0 (rev (inorder t))) \<and>
    (\<forall>xs x ys. inorder t = xs @ x # ys \<longrightarrow> rb_next s x = Some (hd0 ys) \<and> rb_prev s x = Some (hd0 (rev xs)))"
proof -
  have m: "rb_rep (mirror s) (mirror_t t)"
    using assms by (simp add: rb_rep_mirror)
  have "rb_next s x = Some (hd0 ys)" "rb_prev s x = Some (hd0 (rev xs))" if "inorder t = xs @ x # ys" for xs x ys
    using next_succ [OF assms that] next_succ [OF m, of "rev ys" x "rev xs"] that by (simp_all add: last_mirror)
  then show ?thesis
    using first_hd [OF assms] first_hd [OF m] by (simp add: last_mirror)
qed

theorem rb_walk_inorder_witness:
  "let s = \<lparr>cells = (\<lambda>_. \<lparr>rb_pc = 0, rb_right = 0, rb_left = 0\<rparr>)
      (8 := \<lparr>rb_pc = 1, rb_right = 12, rb_left = 4\<rparr>, 4 := \<lparr>rb_pc = 8, rb_right = 0, rb_left = 0\<rparr>,
       12 := \<lparr>rb_pc = 8, rb_right = 0, rb_left = 0\<rparr>), rb_root = 8\<rparr>
   in rb_first s = Some 4 \<and> rb_last s = Some 12 \<and> rb_next s 8 = Some 12 \<and> rb_prev s 8 = Some 4"
  using rb_walk_inorder [of "\<lparr>cells = (\<lambda>_. \<lparr>rb_pc = 0, rb_right = 0, rb_left = 0\<rparr>)
      (8 := \<lparr>rb_pc = 1, rb_right = 12, rb_left = 4\<rparr>, 4 := \<lparr>rb_pc = 8, rb_right = 0, rb_left = 0\<rparr>,
       12 := \<lparr>rb_pc = 8, rb_right = 0, rb_left = 0\<rparr>), rb_root = 8\<rparr>"
      "Node Black (Node Red Leaf 4 Leaf) 8 (Node Red Leaf 12 Leaf)"]
  by (auto simp: rb_rep_def zrep_def left_of_def right_of_def cbit.simps RB_RED_def RB_BLACK_def simp del: RB_consts
      dest!: spec [of _ "[4]"])

end
