(* ===== verification/Fs_Func.thy ===== *)
theory Fs_Func
  imports Vfs Rb_Walk
begin

text \<open>
  The calls of the file system, \<open>slotfs/slotfs_func.c\<close>, and the per-process table of open files,
  \<open>slotfs/runtime.c\<close>. The state is the file system and the process. An uninitialised pointer is 0 here, and
  faults when it is used.
\<close>

subsection \<open>The process (runtime.h)\<close>

definition FD_MAX :: nat where
  "FD_MAX = 4096 * 2"

definition AT_FDCWD :: int where
  "AT_FDCWD = - 100"

definition O_WRONLY :: nat where
  "O_WRONLY = 1"

definition O_CREAT :: nat where
  "O_CREAT = 0x40"

definition O_DIRECTORY :: nat where
  "O_DIRECTORY = 0x10000"

definition O_NOFOLLOW :: nat where
  "O_NOFOLLOW = 0x20000"

definition READDIR_END :: nat where
  "READDIR_END = 2 ^ 64 - 1"

definition SIZEOF_DIRENT :: nat where
  "SIZEOF_DIRENT = 280"

record f_header =
  fh_fd :: int
  fh_file :: nat
  fh_offset :: int
  fh_flags :: nat
  fh_valid :: bool
  fh_temp_dirent :: nat

record user_dirent =
  ud_ino :: nat
  ud_off :: int
  ud_reclen :: nat
  ud_name :: string

record stat =
  st_ino :: nat
  st_mode :: nat
  st_nlink :: nat
  st_uid :: nat
  st_gid :: nat
  st_size :: nat
  st_atime :: nat
  st_mtime :: nat
  st_ctime :: nat
  st_blksize :: nat

record sys =
  fsys :: fs
  f_table :: "nat \<Rightarrow> f_header"
  fd_hint :: nat
  sys_errno :: int
  cwd :: "int + nat"
  user_dirents :: "nat \<Rightarrow> user_dirent"

definition set_errno :: "sys \<Rightarrow> int \<Rightarrow> sys" where
  "set_errno y err = y\<lparr>sys_errno := err\<rparr>"

definition upd_fh :: "sys \<Rightarrow> nat \<Rightarrow> (f_header \<Rightarrow> f_header) \<Rightarrow> sys" where
  "upd_fh y i f = y\<lparr>f_table := (f_table y)(i := f (f_table y i))\<rparr>"

text \<open>\<open>rt.f_table[fd]\<close>, with no check in most callers: an index outside the array is a memory error.\<close>

definition fh_index :: "int \<Rightarrow> nat option" where
  "fh_index fd = (if 0 \<le> fd \<and> fd < int FD_MAX then Some (nat fd) else None)"

fun fd_scan :: "(nat \<Rightarrow> f_header) \<Rightarrow> nat \<Rightarrow> nat list \<Rightarrow> nat option" where
  "fd_scan tab h [] = None"
| "fd_scan tab h (i # is) = (let index = (h + i) mod FD_MAX in if \<not> fh_valid (tab index) then Some index else fd_scan tab h is)"

definition fd_alloc :: "sys \<Rightarrow> nat option \<times> sys" where
  "fd_alloc y =
    (let scan = fd_scan (f_table y) (fd_hint y) [0..<FD_MAX]
     in case (case scan of None \<Rightarrow> fd_scan (f_table y) (fd_hint y) [0..<FD_MAX] | Some i \<Rightarrow> Some i) of
          None \<Rightarrow> (None, y)
        | Some index \<Rightarrow>
            (Some index, upd_fh (y\<lparr>fd_hint := (index + 1) mod FD_MAX\<rparr>) index (\<lambda>f. f\<lparr>fh_valid := True, fh_fd := int index,
               fh_offset := 0, fh_flags := 0, fh_file := 0, fh_temp_dirent := 0\<rparr>)))"

definition fd_free :: "sys \<Rightarrow> nat \<Rightarrow> sys" where
  "fd_free y fd = upd_fh y fd (\<lambda>f. f\<lparr>fh_valid := False, fh_file := 0\<rparr>)"

definition runtime_init :: "sys \<Rightarrow> sys option" where
  "runtime_init y =
    do {
      let y = y\<lparr>sys_errno := 0, fd_hint := 0, f_table := \<lambda>i. if i < FD_MAX then \<lparr>fh_fd = 0, fh_file = 0, fh_offset = 0,
            fh_flags = 0, fh_valid = False, fh_temp_dirent = 0\<rparr> else f_table y i\<rparr>;
      (r, s) \<leftarrow> iget (fsys y) 0;
      s \<leftarrow> inode_unlock s 0;
      let y = y\<lparr>fsys := s, cwd := r\<rparr>;
      Some (y\<lparr>f_table := \<lambda>i. if i < FD_MAX then (f_table y i)\<lparr>fh_fd := int i, fh_file := 0, fh_offset := 0, fh_flags := 0,
        fh_valid := False\<rparr> else f_table y i\<rparr>)
    }"

subsection \<open>Paths\<close>

definition file_table_get :: "sys \<Rightarrow> int \<Rightarrow> int + nat" where
  "file_table_get y fd =
    (if fd < 0 \<or> fd \<ge> int FD_MAX then Inl (- EBADFD)
     else if \<not> fh_valid (f_table y (nat fd)) then Inl (- EBADFD)
     else Inr (fh_file (f_table y (nat fd))))"

definition nameidata_init :: "sys \<Rightarrow> int \<Rightarrow> string \<Rightarrow> nat \<Rightarrow> int + nameidata" where
  "nameidata_init y fd path flags =
    (let start = (if path \<noteq> [] \<and> is_slash (hd path) then Inr (root_inode (fsys y))
                  else if fd = AT_FDCWD then cwd y
                  else file_table_get y fd)
     in case start of
          Inl err \<Rightarrow> Inl err
        | Inr p \<Rightarrow> Inr \<lparr>nd_path = path, nd_start = p, nd_current = 0, nd_parent = 0, nd_depth = 0,
            nd_flags = (if flags AND O_NOFOLLOW \<noteq> 0 then ND_NOFOLLOW else 0), nd_last = [], nd_last_len = 0\<rparr>)"

definition nd_name :: "nameidata \<Rightarrow> string" where
  "nd_name nd = take (nd_last_len nd) (nd_last nd)"

definition ino_of :: "fs \<Rightarrow> nat \<Rightarrow> nat" where
  "ino_of s p = i_ino (inode_mem s p)"

definition ref_inc :: "fs \<Rightarrow> nat \<Rightarrow> fs" where
  "ref_inc s p = upd_inode s p (\<lambda>i. i\<lparr>i_ref := (i_ref i + 1) mod 2 ^ 32\<rparr>)"

subsection \<open>Opening\<close>

definition do_slotfs_open :: "sys \<Rightarrow> int \<Rightarrow> string \<Rightarrow> nat \<Rightarrow> nat \<Rightarrow> ((int + nat) \<times> sys) option" where
  "do_slotfs_open y dfd path flags mode =
    (case nameidata_init y dfd path flags of
       Inl err \<Rightarrow> Some (Inl err, y)
     | Inr nd \<Rightarrow>
         if flags AND O_CREAT = 0 then do {
           (ret, nd, s) \<leftarrow> path_lookup (fsys y) nd;
           if ret \<noteq> 0 then Some (Inl ret, y\<lparr>fsys := s\<rparr>)
           else do {
             deref (nd_current nd);
             if flags AND O_DIRECTORY \<noteq> 0 \<and> \<not> is_dir (inode_mem s (nd_current nd)) then do {
               s \<leftarrow> inode_unlock s (ino_of s (nd_current nd));
               Some (Inl (- ENOTDIR), y\<lparr>fsys := s\<rparr>)
             }
             else do {
               s \<leftarrow> inode_unlock (ref_inc s (nd_current nd)) (ino_of s (nd_current nd));
               Some (Inr (nd_current nd), y\<lparr>fsys := s\<rparr>)
             }
           }
         }
         else
           let nd = nd\<lparr>nd_flags := nd_flags nd OR ND_PARENT, nd_path := skip_slashes (nd_path nd)\<rparr>
           in if nd_path nd = [] then Some (Inr (root_inode (fsys y)), y)
              else do {
                (ret, nd, s) \<leftarrow> path_lookup (fsys y) nd;
                if ret \<noteq> 0 then Some (Inl ret, y\<lparr>fsys := s\<rparr>)
                else do {
                  let parent = nd_parent nd;
                  deref parent;
                  d \<leftarrow> inode_lookup s parent (nd_name nd);
                  if d \<noteq> 0 then do {
                    deref d;
                    (r, s) \<leftarrow> iget s (d_ino (dirent_mem s d));
                    case r of
                      Inl _ \<Rightarrow> None
                    | Inr inode \<Rightarrow> do {
                        s \<leftarrow> inode_unlock s (ino_of s inode);
                        s \<leftarrow> inode_unlock s (ino_of s parent);
                        Some (Inr inode, y\<lparr>fsys := s\<rparr>)
                      }
                  }
                  else do {
                    (r, s) \<leftarrow> inode_create s parent (nd_name nd) mode;
                    case r of
                      Inl _ \<Rightarrow> None
                    | Inr inode \<Rightarrow> do {
                        s \<leftarrow> icache_install (ref_inc s inode) inode;
                        s \<leftarrow> inode_unlock s (ino_of s parent);
                        Some (Inr inode, y\<lparr>fsys := s\<rparr>)
                      }
                  }
                }
              })"

definition slotfs_open :: "sys \<Rightarrow> int \<Rightarrow> string \<Rightarrow> nat \<Rightarrow> nat \<Rightarrow> (int \<times> sys) option" where
  "slotfs_open y dfd path flags mode =
    (let (fh, y) = fd_alloc y
     in case fh of
          None \<Rightarrow> Some (- 1, set_errno y (- EMFILE))
        | Some i \<Rightarrow> do {
            (r, y) \<leftarrow> do_slotfs_open y dfd path flags mode;
            case r of
              Inl err \<Rightarrow> Some (- 1, set_errno y err)
            | Inr inode \<Rightarrow>
                let y = upd_fh y i (\<lambda>f. f\<lparr>fh_file := inode, fh_flags := flags\<rparr>)
                in Some (fh_fd (f_table y i), y)
          })"

subsection \<open>Links\<close>

text \<open>The lookup of the parent directory that the calls on names start with.\<close>

definition parent_lookup :: "sys \<Rightarrow> string \<Rightarrow> (int \<times> nameidata \<times> sys) option" where
  "parent_lookup y path =
    (case nameidata_init y AT_FDCWD path 0 of
       Inl err \<Rightarrow> Some (err, \<lparr>nd_path = path, nd_start = 0, nd_current = 0, nd_parent = 0, nd_depth = 0, nd_flags = 0,
         nd_last = [], nd_last_len = 0\<rparr>, y)
     | Inr nd \<Rightarrow> do {
         (ret, nd, s) \<leftarrow> path_lookup (fsys y) (nd\<lparr>nd_flags := nd_flags nd OR ND_PARENT\<rparr>);
         Some (ret, nd, y\<lparr>fsys := s\<rparr>)
       })"

definition slotfs_link :: "sys \<Rightarrow> string \<Rightarrow> string \<Rightarrow> (int \<times> sys) option" where
  "slotfs_link y target link =
    (case nameidata_init y AT_FDCWD target 0 of
       Inl err \<Rightarrow> Some (err, y)
     | Inr nd \<Rightarrow> do {
         (ret, nd, s) \<leftarrow> path_lookup (fsys y) nd;
         let y = y\<lparr>fsys := s\<rparr>;
         if ret \<noteq> 0 then Some (ret, y)
         else do {
           let t = nd_current nd;
           let out_inode = (\<lambda>ret y. do { s \<leftarrow> inode_unlock (fsys y) (ino_of (fsys y) t); Some (ret, y\<lparr>fsys := s\<rparr>) });
           deref t;
           if is_dir (inode_mem (fsys y) t) then out_inode (- EPERM) y
           else do {
             (ret, nd, y) \<leftarrow> parent_lookup y link;
             if ret \<noteq> 0 then out_inode ret y
             else do {
               let parent = nd_parent nd;
               let out_parent = (\<lambda>ret y. do { s \<leftarrow> inode_unlock (fsys y) (ino_of (fsys y) parent); out_inode ret (y\<lparr>fsys := s\<rparr>) });
               deref parent;
               d \<leftarrow> inode_lookup (fsys y) parent (nd_name nd);
               if d \<noteq> 0 then out_parent (- EEXIST) y
               else do {
                 (r, s) \<leftarrow> dir_append_entry (fsys y) parent t (nd_name nd);
                 case r of
                   Inl err \<Rightarrow> out_parent err (y\<lparr>fsys := s\<rparr>)
                 | Inr _ \<Rightarrow> out_parent 0 (y\<lparr>fsys := s\<rparr>)
               }
             }
           }
         }
       })"

definition slotfs_unlink :: "sys \<Rightarrow> string \<Rightarrow> (int \<times> sys) option" where
  "slotfs_unlink y path =
    do {
      (ret, nd, y) \<leftarrow> parent_lookup y path;
      if ret \<noteq> 0 then Some (ret, y)
      else do {
        let parent = nd_parent nd;
        let out_parent = (\<lambda>ret s. do { s \<leftarrow> inode_unlock s (ino_of s parent); Some (ret, y\<lparr>fsys := s\<rparr>) });
        deref parent;
        let s = fsys y;
        d \<leftarrow> inode_lookup s parent (nd_name nd);
        if d = 0 then out_parent (- ENOENT) s
        else do {
          deref d;
          (r, s) \<leftarrow> iget s (d_ino (dirent_mem s d));
          case r of
            Inl _ \<Rightarrow> None
          | Inr inode \<Rightarrow>
              if is_dir (inode_mem s inode) then do {
                s \<leftarrow> inode_unlock s (ino_of s inode);
                out_parent (- EISDIR) (dirent_free s d)
              }
              else do {
                (ret, s) \<leftarrow> inode_remove s parent d inode;
                if i_ref (inode_mem s inode) = 0 \<and> i_link (inode_mem s inode) = 0 then do {
                  s \<leftarrow> inode_unlock (inode_release s inode) (ino_of s inode);
                  out_parent 0 s
                }
                else do {
                  s \<leftarrow> inode_unlock s (ino_of s inode);
                  out_parent 0 s
                }
              }
        }
      }
    }"

definition slotfs_linkat :: "int \<Rightarrow> string \<Rightarrow> int \<Rightarrow> string \<Rightarrow> nat \<Rightarrow> int" where
  "slotfs_linkat olddfd oldpath newdfd newpath flags = 0"

definition slotfs_unlinkat :: "int \<Rightarrow> string \<Rightarrow> nat \<Rightarrow> int" where
  "slotfs_unlinkat dfd path flags = 0"

definition slotfs_symlinkat :: "string \<Rightarrow> int \<Rightarrow> string \<Rightarrow> int" where
  "slotfs_symlinkat from dfd to = 0"

definition slotfs_truncate :: "string \<Rightarrow> int \<Rightarrow> int" where
  "slotfs_truncate path len = 0"

definition string_bytes :: "string \<Rightarrow> byte list" where
  "string_bytes str = map (\<lambda>c. word_of_nat (of_char c)) str"

definition slotfs_symlink :: "sys \<Rightarrow> string \<Rightarrow> string \<Rightarrow> (int \<times> sys) option" where
  "slotfs_symlink y target link =
    do {
      (ret, nd, y) \<leftarrow> parent_lookup y link;
      if ret \<noteq> 0 then Some (ret, y)
      else do {
        let parent = nd_parent nd;
        let out_parent = (\<lambda>ret s. do { s \<leftarrow> inode_unlock s (ino_of s parent); Some (ret, y\<lparr>fsys := s\<rparr>) });
        deref parent;
        d \<leftarrow> inode_lookup (fsys y) parent (nd_name nd);
        if d \<noteq> 0 then Some (- EEXIST, y)
        else do {
          (r, s) \<leftarrow> inode_create (fsys y) parent (nd_name nd) S_IFLNK;
          case r of
            Inl err \<Rightarrow> out_parent err s
          | Inr inode \<Rightarrow> do {
              let len = c_int (length target);
              (ret, s) \<leftarrow> inode_write s inode (string_bytes target) 0;
              if int_of_ssize ret \<noteq> len then do {
                s \<leftarrow> inode_unlock s (ino_of s inode);
                let s = s\<lparr>maps := slot_inode_free (maps s) (int (ino_of s inode))\<rparr>;
                out_parent (- EIO) (inode_free s inode)
              }
              else do {
                s \<leftarrow> icache_install s inode;
                s \<leftarrow> inode_unlock s (ino_of s inode);
                out_parent 0 s
              }
            }
        }
      }
    }"

text \<open>\<open>fake_inode\<close> of \<open>slotfs_rename\<close> is a local variable: only its \<open>i_ino\<close> is set.\<close>

definition FAKE_INODE :: nat where
  "FAKE_INODE = 8192"

definition slotfs_rename :: "sys \<Rightarrow> string \<Rightarrow> string \<Rightarrow> (int \<times> sys) option" where
  "slotfs_rename y oldpath newpath =
    do {
      (ret, old_nd, y) \<leftarrow> parent_lookup y oldpath;
      if ret \<noteq> 0 then Some (ret, y)
      else do {
        let old_dir = nd_parent old_nd;
        deref old_dir;
        s \<leftarrow> inode_unlock (fsys y) (ino_of (fsys y) old_dir);
        (ret, new_nd, y) \<leftarrow> parent_lookup (y\<lparr>fsys := s\<rparr>) newpath;
        if ret \<noteq> 0 then Some (ret, y)
        else do {
          let new_dir = nd_parent new_nd;
          deref new_dir;
          let same_dir = (new_dir = old_dir);
          let s = fsys y;
          if same_dir \<and> nd_last old_nd = nd_last new_nd then do {
            s \<leftarrow> inode_unlock s (ino_of s new_dir);
            Some (- EINVAL, y\<lparr>fsys := s\<rparr>)
          }
          else do {
            s \<leftarrow> (if same_dir then Some s else inode_lock s (ino_of s old_dir));
            let finish = (\<lambda>ret s. do {
              s \<leftarrow> inode_unlock s (ino_of s new_dir);
              s \<leftarrow> (if same_dir then Some s else inode_unlock s (ino_of s old_dir));
              Some (ret, y\<lparr>fsys := s\<rparr>)
            });
            old_dentry \<leftarrow> inode_lookup s old_dir (nd_name old_nd);
            if old_dentry = 0 then finish (- ENOENT) s
            else do {
              new_dentry \<leftarrow> inode_lookup s new_dir (nd_name new_nd);
              if new_dentry \<noteq> 0 then finish (- EEXIST) s
              else do {
                deref old_dentry;
                let s = upd_inode s FAKE_INODE (\<lambda>i. i\<lparr>i_ino := d_ino (dirent_mem s old_dentry)\<rparr>);
                let (jnl, s) = journal_alloc s;
                s \<leftarrow> journal_rename s jnl (int (ino_of s old_dir)) (int (ino_of s new_dir)) (nd_name old_nd) (nd_name new_nd);
                (r, s) \<leftarrow> dir_append_entry s new_dir FAKE_INODE (nd_name new_nd);
                case r of
                  Inl _ \<Rightarrow> finish 0 s
                | Inr _ \<Rightarrow> do {
                    s \<leftarrow> dir_remove_entry s old_dir old_dentry;
                    s \<leftarrow> journal_commit s jnl;
                    finish 0 s
                  }
              }
            }
          }
        }
      }
    }"

subsection \<open>Open files\<close>

definition slotfs_ftruncate :: "sys \<Rightarrow> int \<Rightarrow> int \<Rightarrow> (int \<times> sys) option" where
  "slotfs_ftruncate y fd len =
    do {
      i \<leftarrow> fh_index fd;
      let fh = f_table y i;
      if \<not> fh_valid fh \<or> fh_file fh = 0 then Some (- 1, set_errno y (- EBADFD))
      else do {
        (ret, s) \<leftarrow> inode_resize (fsys y) (fh_file fh) (to_size len);
        let y = y\<lparr>fsys := s\<rparr>;
        Some (ret, if ret \<noteq> 0 then set_errno y ret else y)
      }
    }"

definition slotfs_close :: "sys \<Rightarrow> int \<Rightarrow> (int \<times> sys) option" where
  "slotfs_close y fd =
    do {
      i \<leftarrow> fh_index fd;
      let fh = f_table y i;
      if fh_file fh = 0 then Some (- 1, set_errno y (- EBADFD))
      else if \<not> fh_valid fh then Some (- 1, set_errno y (- EBADFD))
      else do {
        let inode = fh_file fh;
        let ino = ino_of (fsys y) inode;
        s \<leftarrow> inode_lock (fsys y) ino;
        let s = upd_inode s inode (\<lambda>i. i\<lparr>i_ref := (i_ref i + (2 ^ 32 - 1)) mod 2 ^ 32\<rparr>);
        s \<leftarrow> (if i_ref (inode_mem s inode) = 0 \<and> i_link (inode_mem s inode) = 0 then
                let s = inode_release s inode
                in inode_unlock (s\<lparr>itable := (itable s)(ino := 0)\<rparr>) ino
              else if i_ref (inode_mem s inode) = 0 then
                inode_flush s inode \<bind> (\<lambda>s. inode_unlock s (ino_of s inode))
              else inode_unlock s (ino_of s inode));
        Some (0, fd_free (y\<lparr>fsys := s\<rparr>) i)
      }
    }"

text \<open>The result of reading or writing is a \<open>ssize_t\<close> that is stored in an \<open>int\<close>; the offset moves by it when it is
  positive.\<close>

definition advance :: "sys \<Rightarrow> nat \<Rightarrow> int \<Rightarrow> sys" where
  "advance y i ret = (if ret > 0 then upd_fh y i (\<lambda>f. f\<lparr>fh_offset := off_t (fh_offset f + ret)\<rparr>) else y)"

definition slotfs_pread :: "sys \<Rightarrow> int \<Rightarrow> nat \<Rightarrow> int \<Rightarrow> (int \<times> byte list \<times> sys) option" where
  "slotfs_pread y fd cnt offset =
    do {
      i \<leftarrow> fh_index fd;
      let fh = f_table y i;
      if \<not> fh_valid fh \<or> fh_file fh = 0 then Some (- 1, [], set_errno y (- EBADFD))
      else do {
        (n, bs, s) \<leftarrow> inode_read (fsys y) (fh_file fh) cnt offset;
        let ret = int_of_ssize n;
        Some (ret, bs, advance (y\<lparr>fsys := s\<rparr>) i ret)
      }
    }"

definition slotfs_read :: "sys \<Rightarrow> int \<Rightarrow> nat \<Rightarrow> (int \<times> byte list \<times> sys) option" where
  "slotfs_read y fd cnt =
    do {
      i \<leftarrow> fh_index fd;
      let fh = f_table y i;
      if \<not> fh_valid fh \<or> fh_file fh = 0 then Some (- 1, [], set_errno y (- EBADFD))
      else do {
        (n, bs, s) \<leftarrow> inode_read (fsys y) (fh_file fh) cnt (fh_offset fh);
        let ret = int_of_ssize n;
        Some (ret, bs, advance (y\<lparr>fsys := s\<rparr>) i ret)
      }
    }"

definition slotfs_pwrite :: "sys \<Rightarrow> int \<Rightarrow> byte list \<Rightarrow> int \<Rightarrow> (int \<times> sys) option" where
  "slotfs_pwrite y fd buf offset =
    do {
      i \<leftarrow> fh_index fd;
      let fh = f_table y i;
      if \<not> fh_valid fh \<or> fh_file fh = 0 then Some (- 1, set_errno y (- EBADFD))
      else do {
        (n, s) \<leftarrow> inode_write (fsys y) (fh_file fh) buf offset;
        let ret = int_of_ssize n;
        Some (ret, advance (y\<lparr>fsys := s\<rparr>) i ret)
      }
    }"

definition slotfs_write :: "sys \<Rightarrow> int \<Rightarrow> byte list \<Rightarrow> (int \<times> sys) option" where
  "slotfs_write y fd buf =
    do {
      i \<leftarrow> fh_index fd;
      let fh = f_table y i;
      if \<not> fh_valid fh \<or> fh_file fh = 0 then Some (- 1, set_errno y (- EBADFD))
      else do {
        (n, s) \<leftarrow> inode_write (fsys y) (fh_file fh) buf (fh_offset fh);
        let ret = int_of_ssize n;
        Some (ret, advance (y\<lparr>fsys := s\<rparr>) i ret)
      }
    }"

definition slotfs_lseek :: "sys \<Rightarrow> int \<Rightarrow> int \<Rightarrow> int \<Rightarrow> (int \<times> sys) option" where
  "slotfs_lseek y fd offset whence =
    do {
      i \<leftarrow> fh_index fd;
      if whence = 0 then Some (0, upd_fh y i (\<lambda>f. f\<lparr>fh_offset := offset\<rparr>))
      else if whence = 1 then Some (0, upd_fh y i (\<lambda>f. f\<lparr>fh_offset := off_t (fh_offset f + offset)\<rparr>))
      else if whence = 2 then do {
        deref (fh_file (f_table y i));
        Some (0, upd_fh y i (\<lambda>f. f\<lparr>fh_offset := off_t (int (i_size (inode_mem (fsys y) (fh_file f))) + offset)\<rparr>))
      }
      else Some (- 1, set_errno y EINVAL)
    }"

text \<open>Without a path, the inode found by the descriptor is stored in an inner variable, and the outer one is used
  uninitialised.\<close>

definition slotfs_stat :: "sys \<Rightarrow> int \<Rightarrow> string option \<Rightarrow> nat \<Rightarrow> (int \<times> stat option \<times> sys) option" where
  "slotfs_stat y fd path flags =
    (case path of
       None \<Rightarrow> (case file_table_get y fd of Inl err \<Rightarrow> Some (err, None, y) | Inr _ \<Rightarrow> None)
     | Some path \<Rightarrow>
         (case nameidata_init y fd path flags of
            Inl err \<Rightarrow> Some (err, None, y)
          | Inr nd \<Rightarrow> do {
              (ret, nd, s) \<leftarrow> path_lookup (fsys y) nd;
              if ret \<noteq> 0 then Some (ret, None, y\<lparr>fsys := s\<rparr>)
              else do {
                deref (nd_current nd);
                let i = inode_mem s (nd_current nd);
                s \<leftarrow> inode_unlock s (i_ino i);
                Some (0, Some \<lparr>st_ino = i_ino i, st_mode = i_mode i, st_nlink = i_link i, st_uid = i_uid i, st_gid = i_gid i,
                  st_size = i_size i, st_atime = i_atim i, st_mtime = i_mtim i, st_ctime = i_ctim i,
                  st_blksize = PAGE_SIZE\<rparr>, y\<lparr>fsys := s\<rparr>)
              }
            }))"

record statx =
  stx_ino :: nat
  stx_mode :: nat
  stx_nlink :: nat
  stx_uid :: nat
  stx_gid :: nat
  stx_size :: nat
  stx_blocks :: nat
  stx_mask :: nat

text \<open>\<open>STATX_TYPE | STATX_MODE | STATX_NLINK | STATX_UID | STATX_GID | STATX_INO | STATX_SIZE\<close>.\<close>

definition STATX_FILLED :: nat where
  "STATX_FILLED = 0x31f"

definition slotfs_xstat :: "sys \<Rightarrow> int \<Rightarrow> string option \<Rightarrow> nat \<Rightarrow> nat \<Rightarrow> (int \<times> statx option \<times> sys) option" where
  "slotfs_xstat y fd path flags msk =
    (case path of
       None \<Rightarrow> (case file_table_get y fd of Inl err \<Rightarrow> Some (err, None, y) | Inr _ \<Rightarrow> None)
     | Some path \<Rightarrow>
         (case nameidata_init y fd path flags of
            Inl err \<Rightarrow> Some (err, None, y)
          | Inr nd \<Rightarrow> do {
              (ret, nd, s) \<leftarrow> path_lookup (fsys y) nd;
              if ret \<noteq> 0 then Some (ret, None, y\<lparr>fsys := s\<rparr>)
              else do {
                deref (nd_current nd);
                let i = inode_mem s (nd_current nd);
                s \<leftarrow> inode_unlock s (i_ino i);
                Some (0, Some \<lparr>stx_ino = i_ino i, stx_mode = i_mode i mod 2 ^ 16, stx_nlink = i_link i mod 2 ^ 32, stx_uid = i_uid i,
                  stx_gid = i_gid i, stx_size = i_size i, stx_blocks = size_sub (size_add (i_size i) PAGE_SIZE) 1 div PAGE_SIZE,
                  stx_mask = STATX_FILLED AND msk\<rparr>, y\<lparr>fsys := s\<rparr>)
              }
            }))"

text \<open>The descriptors that are open are closed one after the other.\<close>

primrec close_loop :: "nat list \<Rightarrow> sys \<Rightarrow> sys option" where
  "close_loop [] y = Some y"
| "close_loop (i # is) y =
    (if fh_file (f_table y i) = 0 \<or> \<not> fh_valid (f_table y i) then close_loop is y
     else slotfs_close y (int i) \<bind> (\<lambda>(_, y). close_loop is y))"

definition runtime_exit :: "sys \<Rightarrow> sys option" where
  "runtime_exit y = close_loop [0..<FD_MAX] y"

subsection \<open>Reading directories\<close>

definition slotfs_opendir :: "sys \<Rightarrow> string \<Rightarrow> (int \<times> sys) option" where
  "slotfs_opendir y path = slotfs_open y AT_FDCWD path O_DIRECTORY 0"

text \<open>\<open>strncpy\<close> from the name array of an entry, up to the first zero byte.\<close>

definition name_string :: "string \<Rightarrow> string option" where
  "name_string a =
    (if char_of (0 :: nat) \<in> set a then Some (takeWhile (\<lambda>c. c \<noteq> char_of (0 :: nat)) a) else None)"

definition slotfs_readdir :: "sys \<Rightarrow> int \<Rightarrow> (nat \<times> sys) option" where
  "slotfs_readdir y fd =
    do {
      i \<leftarrow> fh_index fd;
      let fh = f_table y i;
      if \<not> fh_valid fh \<or> fh_file fh = 0 then Some (0, set_errno y (- EBADFD))
      else if fh_flags fh AND O_WRONLY \<noteq> 0 then Some (0, set_errno y (- EBADF))
      else if \<not> is_dir (inode_mem (fsys y) (fh_file fh)) then Some (0, set_errno y (- ENOTDIR))
      else do {
        let inode = fh_file fh;
        let pos = to_size (fh_offset fh);
        s \<leftarrow> inode_lock (fsys y) (ino_of (fsys y) inode);
        if pos = READDIR_END then inode_unlock s (ino_of s inode) \<bind> (\<lambda>s. Some (0, y\<lparr>fsys := s\<rparr>))
        else do {
          temp \<leftarrow> (if pos = 0 then rb_first (rb_of s inode)
                  else dirent_lookup s inode pos \<bind> (\<lambda>d. if d \<noteq> 0 then rb_next (rb_of s inode) d else Some 0));
          if temp = 0 then do {
            s \<leftarrow> inode_unlock s (ino_of s inode);
            Some (0, upd_fh (y\<lparr>fsys := s\<rparr>) i (\<lambda>f. f\<lparr>fh_offset := - 1\<rparr>))
          }
          else do {
            let d = dirent_mem s temp;
            let y = upd_fh y i (\<lambda>f. f\<lparr>fh_offset := off_t (int (d_hash d))\<rparr>);
            (p, s) \<leftarrow> (if fh_temp_dirent (f_table y i) \<noteq> 0 then Some (fh_temp_dirent (f_table y i), s)
                       else heap_alloc (fheap s) SIZEOF_DIRENT \<bind> (\<lambda>(p, h). Some (p, s\<lparr>fheap := h\<rparr>)));
            let y = upd_fh y i (\<lambda>f. f\<lparr>fh_temp_dirent := p\<rparr>);
            if p = 0 then inode_unlock s (ino_of s inode) \<bind> (\<lambda>s. Some (0, y\<lparr>fsys := s\<rparr>))
            else do {
              pd \<leftarrow> pm_dirent_at s (d_idx d);
              nm \<leftarrow> name_string (pd_name pd);
              let y = y\<lparr>user_dirents := (user_dirents y)(p := \<lparr>ud_ino = d_ino d, ud_off = fh_offset (f_table y i),
                    ud_reclen = SIZEOF_DIRENT, ud_name = nm\<rparr>)\<rparr>;
              s \<leftarrow> inode_unlock s (ino_of s inode);
              Some (p, y\<lparr>fsys := s\<rparr>)
            }
          }
        }
      }
    }"

end
