(* ===== verification/Journal_Replay.thy ===== *)
theory Journal_Replay
  imports Fs_Func
begin

text \<open>
  The replay of the journal, the second half of \<open>slotfs/journal.c\<close>. The functions that replay one record
  take the address of the record in memory; \<open>journal_replay\<close> passes them the offset of the page on the device instead.
\<close>

definition DAX_START :: nat where
  "DAX_START = 0x780000000000"

definition REL2ABS :: "relptr_t \<Rightarrow> nat" where
  "REL2ABS rel = rel + DAX_START"

text \<open>The page at an address; an address below the mapping of the device faults.\<close>

definition jnl_at :: "fs \<Rightarrow> nat \<Rightarrow> pm_jnl option" where
  "jnl_at s p = (if p < DAX_START then None else map_option (pm_jnls (media s)) (jnl_page (p - DAX_START)))"

definition journal_replay_write :: "fs \<Rightarrow> nat \<Rightarrow> (int \<times> fs) option" where
  "journal_replay_write s jnl =
    do {
      j \<leftarrow> jnl_at s jnl;
      if jw_len j > JNL_SAVED_MAX then None
      else do {
        s \<leftarrow> data_write s (rel_data_pos s (j_w16 j)) (map (jw_saved j) [0..<jw_len j]);
        Some (0, s)
      }
    }"

text \<open>The two parents stay locked. \<open>fake_inode\<close> is a local variable of which only \<open>i_ino\<close> is set.\<close>

definition journal_replay_rename :: "fs \<Rightarrow> nat \<Rightarrow> (int \<times> fs) option" where
  "journal_replay_rename s jnl =
    do {
      j \<leftarrow> jnl_at s jnl;
      (r1, s) \<leftarrow> iget s (to_size (j_w8 j));
      (r2, s) \<leftarrow> iget s (j_w16 j);
      case (r1, r2) of
        (Inr old_parent, Inr new_parent) \<Rightarrow>
          do {
            old_dirent \<leftarrow> dirent_lookup s old_parent (BKDRHash (take (jr_old_len j) (jr_old_name j)));
            new_dirent \<leftarrow> dirent_lookup s new_parent (BKDRHash (take (jr_new_len j) (jr_new_name j)));
            (ret, s) \<leftarrow> (if new_dirent = 0 then
                if old_dirent = 0 then None
                else do {
                  let s = upd_inode s FAKE_INODE (\<lambda>i. i\<lparr>i_ino := d_ino (dirent_mem s old_dirent)\<rparr>);
                  (r, s) \<leftarrow> dir_append_entry s new_parent FAKE_INODE (take (jr_new_len j) (jr_new_name j));
                  Some (case r of Inl e \<Rightarrow> (e, s) | Inr _ \<Rightarrow> (0, s))
                }
              else Some (0, s));
            if ret \<noteq> 0 then Some (ret, s)
            else if old_dirent \<noteq> 0 then dir_remove_entry s old_parent old_dirent \<bind> (\<lambda>s. Some (0, s))
            else Some (0, s)
          }
      | _ \<Rightarrow> None
    }"

definition journal_replay_truncate :: "fs \<Rightarrow> nat \<Rightarrow> (int \<times> fs) option" where
  "journal_replay_truncate s jnl =
    do {
      j \<leftarrow> jnl_at s jnl;
      (r, s) \<leftarrow> iget s (to_size (j_w8 j));
      case r of
        Inl _ \<Rightarrow> None
      | Inr inode \<Rightarrow> inode_resize (set_i_size s inode (j_w16 j)) inode (j_w16 j)
    }"

text \<open>The pages \<open>is\<close> that are left; an unknown type is an assertion failure.\<close>

primrec journal_replay_loop :: "nat list \<Rightarrow> fs \<Rightarrow> (int \<times> fs) option" where
  "journal_replay_loop [] s = Some (0, s)"
| "journal_replay_loop (i # is) s =
    do {
      let jnl = JOURNAL_START + i * PAGE_SIZE;
      j \<leftarrow> jnl_at s (REL2ABS jnl);
      if \<not> j_valid j then journal_replay_loop is s
      else do {
        (ret, s) \<leftarrow> (if j_type j = JNL_WRITE then journal_replay_write s jnl
                    else if j_type j = JNL_RENAME then journal_replay_rename s jnl
                    else if j_type j = JNL_TRUNCATE then journal_replay_truncate s jnl
                    else None);
        if ret \<noteq> 0 then Some (ret, s)
        else do {
          s \<leftarrow> upd_jnl s jnl (\<lambda>j. j\<lparr>j_valid := False\<rparr>);
          journal_replay_loop is s
        }
      }
    }"

definition journal_replay :: "fs \<Rightarrow> (int \<times> fs) option" where
  "journal_replay s = journal_replay_loop [0..<JOURNAL_NUM] s"

subsection \<open>Undoing a write\<close>

lemma data_read_ok: "data_read s pos len = Some bs \<Longrightarrow> data_ok s pos len \<and> bs = map (\<lambda>i. pm_data (media s) (nat pos + i)) [0..<len]"
  by (auto simp: data_read_def split: if_splits)

text \<open>C18: The undo record of a write. \<open>journal_write\<close> saves the \<open>len\<close> bytes from \<open>begin\<close>. Whatever happens to the data
  afterwards, as long as the record itself stays, \<open>journal_replay_write\<close> at the address of the record succeeds, puts
  exactly these bytes back and changes no other byte of the data.\<close>

theorem journal_write_undo:
  assumes save: "journal_write s jnl ino begin len = Some s1"
    and later: "pm_jnls (media s2) = pm_jnls (media s1)" "slots_of s2 = slots_of s1"
  shows "\<exists>s3. journal_replay_write s2 (REL2ABS jnl) = Some (0, s3) \<and>
    data_read s3 (rel_data_pos s begin) len = data_read s (rel_data_pos s begin) len \<and>
    (\<forall>i. i < nat (rel_data_pos s begin) \<or> nat (rel_data_pos s begin) + len \<le> i \<longrightarrow> pm_data (media s3) i = pm_data (media s2) i)"
proof -
  let ?pos = "rel_data_pos s begin"
  obtain bs k where bs: "data_read s ?pos len = Some bs" and k: "jnl_page jnl = Some k" and len: "len \<le> JNL_SAVED_MAX"
    and s1: "s1 = s\<lparr>media := (media s)\<lparr>pm_jnls := (pm_jnls (media s))(k := (pm_jnls (media s) k)\<lparr>jw_saved := \<lambda>i. if i < len then bs ! i
        else jw_saved (pm_jnls (media s) k) i, j_valid := True, j_type := JNL_WRITE, j_w8 := ino, j_w16 := begin, jw_len := len\<rparr>)\<rparr>\<rparr>"
    using save by (auto simp: journal_write_def upd_jnl_def split: if_splits Option.bind_splits)
  note d = data_read_ok [OF bs]
  have j: "jnl_at s2 (REL2ABS jnl) = Some (pm_jnls (media s1) k)"
    using later(1) k by (simp add: jnl_at_def REL2ABS_def)
  have slots: "slots_of s2 = slots_of s"
    using later(2) s1 by simp
  have saved: "map (jw_saved (pm_jnls (media s1) k)) [0..<len] = bs"
    using d by (auto simp: s1 intro: nth_equalityI)
  have ok: "data_ok s2 ?pos len" "rel_data_pos s2 begin = ?pos"
    using d slots by (simp_all add: data_ok_def rel_data_pos_def)
  define s3 where "s3 = s2\<lparr>media := (media s2)\<lparr>pm_data := \<lambda>i. if nat ?pos \<le> i \<and> i < nat ?pos + len then bs ! (i - nat ?pos)
    else pm_data (media s2) i\<rparr>\<rparr>"
  have blen: "length bs = len" using d by simp
  have w: "data_write s2 ?pos bs = Some s3"
    using ok(1) by (simp add: data_write_def s3_def blen)
  have "journal_replay_write s2 (REL2ABS jnl) = Some (0, s3)"
    using j len saved ok(2) w by (simp add: journal_replay_write_def s1)
  moreover have "data_read s3 ?pos len = Some bs"
    using ok(1) blen by (auto simp: data_read_def s3_def data_ok_def intro: nth_equalityI)
  moreover have "pm_data (media s3) i = pm_data (media s2) i" if "i < nat ?pos \<or> nat ?pos + len \<le> i" for i
    using that by (auto simp: s3_def)
  ultimately show ?thesis using bs by auto
qed

theorem journal_write_undo_witness:
  "\<exists>s1 s3. journal_write blank_fs JOURNAL_START 1 (slot_table (slots_of blank_fs SLOT_DATA) + 4096) 3 = Some s1 \<and>
     journal_replay_write (s1\<lparr>media := (media s1)\<lparr>pm_data := \<lambda>_. 7\<rparr>\<rparr>) (REL2ABS JOURNAL_START) = Some (0, s3) \<and>
     data_read s3 4096 3 = Some [0, 0, 0] \<and> pm_data (media s3) 4099 = 7"
proof -
  let ?b = "slot_table (slots_of blank_fs SLOT_DATA) + 4096"
  have pos: "rel_data_pos blank_fs ?b = 4096"
    by (simp add: rel_data_pos_def)
  have r: "data_read blank_fs 4096 3 = Some [0, 0, 0]"
    by (simp add: data_read_def data_ok_def blank_fs_def blank_slot_def PAGE_SIZE_def upt_rec)
  obtain s1 where s1: "journal_write blank_fs JOURNAL_START 1 ?b 3 = Some s1"
    using pos r by (simp add: journal_write_def upd_jnl_def jnl_page_def JNL_SAVED_MAX_def PAGE_SIZE_def JOURNAL_SIZE_def JOURNAL_NUM_def)
  show ?thesis
    using journal_write_undo [OF s1, of "s1\<lparr>media := (media s1)\<lparr>pm_data := \<lambda>_. 7\<rparr>\<rparr>"] s1 unfolding pos r by auto
qed

lemma low_faults:
  assumes "a < DAX_START"
  shows "journal_replay_write s a = None" "journal_replay_rename s a = None" "journal_replay_truncate s a = None"
  using assms by (simp_all add: journal_replay_write_def journal_replay_rename_def journal_replay_truncate_def jnl_at_def)

text \<open>C38: Replaying the journal faults. \<open>journal_replay\<close> succeeds exactly when no record is valid, and then does nothing; when there
  is a record to replay it does not return: the record is passed by its offset on the device, and the replay of any kind of
  record reads it at that address, which is not mapped.\<close>

theorem journal_replay_exact:
  "journal_replay s = (if \<exists>i < JOURNAL_NUM. j_valid (pm_jnls (media s) i) then None else Some (0, s))"
proof -
  have page: "jnl_at s (REL2ABS (JOURNAL_START + i * PAGE_SIZE)) = Some (pm_jnls (media s) i)" if "i < JOURNAL_NUM" for i
    using that by (simp add: jnl_at_def REL2ABS_def jnl_page_def JOURNAL_SIZE_def JOURNAL_NUM_def PAGE_SIZE_def)
  have low: "JOURNAL_START + i * PAGE_SIZE < DAX_START" if "i < JOURNAL_NUM" for i
    using that by (simp add: JOURNAL_START_def JOURNAL_NUM_def PAGE_SIZE_def DAX_START_def SUPER_BLOCK_SIZE_def SLOT_META_SIZE_def)
  have "journal_replay_loop is s = (if \<exists>i \<in> set is. j_valid (pm_jnls (media s) i) then None else Some (0, s))" if "set is \<subseteq> {..<JOURNAL_NUM}" for "is"
    using that
  proof (induction "is")
    case (Cons i "is")
    then have i: "i < JOURNAL_NUM" by simp
    with Cons show ?case
      using page [OF i] low_faults [OF low [OF i]] by (simp add: Let_def)
  qed simp
  from this [of "[0..<JOURNAL_NUM]"] show ?thesis
    unfolding journal_replay_def by (auto simp: Bex_def atLeast0LessThan)
qed

end
