(* ===== verification/Vfs_Locks.thy ===== *)
theory Vfs_Locks
  imports Vfs
begin

text \<open>
  The locks of path resolution. \<open>path_lookup\<close> walks hand over hand: it locks the next inode before
  it releases the one before it. The invariant of the inode cache says that the table of inodes
  refers to inodes by their own number, and that none of them is a free object of the arena.
\<close>

subsection \<open>The inode cache\<close>

abbreviation inum :: "fs \<Rightarrow> nat \<Rightarrow> nat" where
  "inum s p \<equiv> i_ino (inode_mem s p)"

definition cache_ok :: "fs \<Rightarrow> bool" where
  "cache_ok s \<longleftrightarrow> (\<forall>i. itable s i \<noteq> 0 \<longrightarrow> inum s (itable s i) = i \<and> itable s i \<notin> set (inode_pool s)) \<and>
    distinct (inode_pool s) \<and> 0 \<notin> set (inode_pool s)"

definition is_cached :: "fs \<Rightarrow> nat \<Rightarrow> bool" where
  "is_cached s p \<longleftrightarrow> p \<noteq> 0 \<and> itable s (inum s p) = p"

text \<open>What a step of the walk keeps: the cache and the inodes in it.\<close>

definition keeps :: "fs \<Rightarrow> fs \<Rightarrow> bool" where
  "keeps s s' \<longleftrightarrow> cache_ok s' \<and> root_inode s' = root_inode s \<and>
    (\<forall>p. is_cached s p \<longrightarrow> is_cached s' p \<and> inum s' p = inum s p)"

lemma keeps_refl: "cache_ok s \<Longrightarrow> keeps s s"
  by (simp add: keeps_def)

lemma keeps_trans: "keeps s s1 \<Longrightarrow> keeps s1 s2 \<Longrightarrow> keeps s s2"
  by (auto simp: keeps_def)

lemma keepsD:
  assumes "keeps s s'"
  shows "cache_ok s'" "root_inode s' = root_inode s" "is_cached s p \<Longrightarrow> is_cached s' p" "is_cached s p \<Longrightarrow> inum s' p = inum s p"
  using assms by (auto simp: keeps_def)

lemma cached_not_free: "cache_ok s \<Longrightarrow> is_cached s p \<Longrightarrow> p \<notin> set (inode_pool s)"
  by (metis cache_ok_def is_cached_def)

text \<open>Steps that change neither the inodes nor the cache.\<close>

definition same_inodes :: "fs \<Rightarrow> fs \<Rightarrow> bool" where
  "same_inodes s s' \<longleftrightarrow> inode_mem s' = inode_mem s \<and> itable s' = itable s \<and> inode_pool s' = inode_pool s \<and>
    root_inode s' = root_inode s"

lemma same_keeps: "cache_ok s \<Longrightarrow> same_inodes s s' \<Longrightarrow> keeps s s'"
  by (auto simp: keeps_def same_inodes_def cache_ok_def is_cached_def)

lemma lock_unlock:
  "inode_lock s i = Some s' \<Longrightarrow> same_inodes s s' \<and> \<not> ilocked s i \<and> ilocked s' = (ilocked s)(i := True)"
  "inode_unlock s i = Some s' \<Longrightarrow> same_inodes s s' \<and> ilocked s' = (ilocked s)(i := False)"
  by (auto simp: inode_lock_def inode_unlock_def same_inodes_def split: if_splits)

subsection \<open>Rebuilding an inode\<close>

text \<open>Only the inode at \<open>p\<close> changes, and not its number.\<close>

definition only_at :: "nat \<Rightarrow> fs \<Rightarrow> fs \<Rightarrow> bool" where
  "only_at p s s' \<longleftrightarrow> (\<forall>x. x \<noteq> p \<longrightarrow> inode_mem s' x = inode_mem s x) \<and> inum s' p = inum s p \<and>
    itable s' = itable s \<and> inode_pool s' = inode_pool s \<and> root_inode s' = root_inode s \<and> ilocked s' = ilocked s"

lemma only_at_refl [simp]: "only_at p s s"
  by (simp add: only_at_def)

lemma only_at_trans: "only_at p s s1 \<Longrightarrow> only_at p s1 s2 \<Longrightarrow> only_at p s s2"
  by (simp add: only_at_def)

lemma index_insert_only: "dir_index_insert s dir d = Some (r, s') \<Longrightarrow> only_at dir s s'"
  by (auto simp: dir_index_insert_def put_rb_def upd_inode_def only_at_def split: Option.bind_splits sum.splits)

lemma rebuild_insert_only: "dir_rebuild_insert s dir pd idx = Some (r, s') \<Longrightarrow> only_at dir s s'"
  by (auto simp: dir_rebuild_insert_def dirent_alloc_def entry_alloc_def dirent_free_def entry_free_def upd_dirent_def
      Let_def only_at_def split: prod.splits if_splits Option.bind_splits dest!: index_insert_only)

lemma rebuild_loop_only: "dir_rebuild_loop n s dir pd cur = Some (r, s') \<Longrightarrow> only_at dir s s'"
proof (induction n arbitrary: s pd cur)
  case (Suc n)
  from Suc.prems obtain src ret s1 where 1: "pm_dirent_at s cur = Some src"
    "dir_rebuild_insert s dir (copy_80 pd src) cur = Some (ret, s1)"
    by (auto simp: Let_def split: Option.bind_splits)
  note o1 = rebuild_insert_only [OF 1(2)]
  have o2: "only_at dir s1 (upd_inode s1 dir (\<lambda>i. i\<lparr>ghost_slot := g\<rparr>))" for g
    by (simp add: only_at_def upd_inode_def)
  show ?case
  proof (cases "ret = 0")
    case True
    with Suc.prems 1 show ?thesis
      by (auto simp: Let_def split: if_splits
          intro: o1 only_at_trans [OF o1 o2] only_at_trans [OF only_at_trans [OF o1 o2] Suc.IH])
  qed (use Suc.prems 1 o1 in \<open>simp add: Let_def\<close>)
qed simp

lemma rebuild_only: "inode_rebuild s p = Some (r, s') \<Longrightarrow> only_at p s s'"
proof -
  assume "inode_rebuild s p = Some (r, s')"
  then obtain q where q: "pm_inode_at s (int (inum s p)) = Some q"
    by (auto simp: inode_rebuild_def Let_def split: Option.bind_splits)
  define s1 where "s1 = upd_inode (inode_init_header s p (pi_mode q)) p (\<lambda>i. i\<lparr>i_size := pi_size q, i_uid := pi_uid q,
    i_gid := pi_gid q, i_mode := pi_mode q, i_atim := now (inode_init_header s p (pi_mode q)), i_mtim := pi_mtim q, i_ctim := pi_ctim q,
    log_head := pi_log_head q, i_link := pi_link q, i_ino := inum s p, entry_num := pi_entry_num q\<rparr>)"
  have 1: "only_at p s s1"
    by (auto simp: s1_def inode_init_header_def Let_def upd_inode_def only_at_def split: prod.splits)
  have "only_at p s1 (upd_inode s1 p (\<lambda>i. i\<lparr>ghost_slot := g i\<rparr>))" for g
    by (simp add: only_at_def upd_inode_def)
  then have "only_at p s1 s'"
    using \<open>inode_rebuild s p = Some (r, s')\<close> q
    by (auto simp: inode_rebuild_def Let_def s1_def [symmetric] dir_rebuild_def file_rebuild_def split: if_splits
        dest!: rebuild_loop_only intro: only_at_trans)
  with 1 show ?thesis by (rule only_at_trans)
qed

lemma only_at_keeps:
  assumes "cache_ok s" "only_at p s s'" "\<forall>i. itable s i \<noteq> p"
  shows "keeps s s'"
proof -
  have "inode_mem s' (itable s i) = inode_mem s (itable s i)" for i
    using assms by (simp add: only_at_def)
  moreover have "inode_mem s' q = inode_mem s q" if "is_cached s q" for q
    using assms that by (metis only_at_def is_cached_def)
  ultimately show ?thesis
    using assms by (auto simp: keeps_def only_at_def cache_ok_def is_cached_def)
qed

text \<open>A fresh object of the arena joins the cache, or goes back to the arena.\<close>

lemma fresh_install:
  assumes "cache_ok s" "\<forall>i. itable s i \<noteq> p" "p \<notin> set (inode_pool s)" "p \<noteq> 0" "itable s (inum s p) = 0"
  shows "keeps s (s\<lparr>itable := (itable s)(inum s p := p)\<rparr>)" "is_cached (s\<lparr>itable := (itable s)(inum s p := p)\<rparr>) p"
  using assms by (auto simp: keeps_def cache_ok_def is_cached_def)

lemma fresh_free:
  assumes "cache_ok s" "\<forall>i. itable s i \<noteq> p" "p \<notin> set (inode_pool s)" "p \<noteq> 0"
  shows "keeps s (inode_free s p)"
  using assms by (auto simp: keeps_def cache_ok_def is_cached_def inode_free_def upd_inode_def pool_free_def Let_def)

lemma fresh_alloc:
  assumes ok: "cache_ok s" and al: "inode_alloc s = (p, s1)" and "p \<noteq> 0"
  shows "keeps s (upd_inode s1 p f)" "\<forall>i. itable s1 i \<noteq> p" "p \<notin> set (inode_pool s1)" "itable s1 = itable s"
    "ilocked s1 = ilocked s"
proof -
  obtain qs where q: "inode_pool s = p # qs" "s1 = s\<lparr>inode_pool := qs\<rparr>"
    using al \<open>p \<noteq> 0\<close> by (auto simp: inode_alloc_def pool_alloc_def split: list.splits)
  show no: "\<forall>i. itable s1 i \<noteq> p" and "p \<notin> set (inode_pool s1)" and "itable s1 = itable s" and "ilocked s1 = ilocked s"
    using ok q \<open>p \<noteq> 0\<close> by (auto simp: cache_ok_def)
  have "q \<noteq> p" if "is_cached s q" for q
    using ok that q by (auto dest: cached_not_free)
  then show "keeps s (upd_inode s1 p f)"
    using ok q no by (auto simp: keeps_def cache_ok_def is_cached_def upd_inode_def)
qed

lemma iget_keeps:
  assumes ok: "cache_ok s" and get: "iget s ino = Some (r, s')"
  shows "\<not> ilocked s ino \<and> keeps s s' \<and>
    (case r of Inl e \<Rightarrow> e \<noteq> 0 \<and> ilocked s' = ilocked s
     | Inr p \<Rightarrow> ilocked s' = (ilocked s)(ino := True) \<and> is_cached s' p \<and> inum s' p = ino)"
proof -
  obtain s1 where s1: "inode_lock s ino = Some s1"
    using get by (auto simp: iget_def split: Option.bind_splits)
  note l1 = lock_unlock(1) [OF s1]
  have ok1: "cache_ok s1" and k1: "keeps s s1"
    using same_keeps [OF ok] l1 by (auto dest: keepsD)
  have mid: ?thesis if "keeps s1 s'" "case r of Inl e \<Rightarrow> e \<noteq> 0 \<and> ilocked s' = ilocked s
     | Inr p \<Rightarrow> ilocked s' = ilocked s1 \<and> is_cached s' p \<and> inum s' p = ino"
    using that l1 keeps_trans [OF k1] by (auto split: sum.splits)
  have undo: "(ilocked s1)(ino := False) = ilocked s"
    using l1 by (simp add: fun_upd_idem)
  show ?thesis
  proof (cases "itable s1 ino = 0")
    case False
    then show ?thesis
      using get s1 ok1 by (intro mid) (auto simp: iget_def keeps_refl cache_ok_def is_cached_def)
  next
    case True
    obtain p s2 where al: "inode_alloc s1 = (p, s2)" by fastforce
    show ?thesis
    proof (cases "p = 0")
      case p0: True
      have "same_inodes s1 s2" "ilocked s2 = ilocked s1"
        using al ok1 p0 by (auto simp: inode_alloc_def pool_alloc_def same_inodes_def cache_ok_def split: list.splits)
      then show ?thesis
        using get s1 True al p0 ok1 undo
        by (intro mid) (auto simp: iget_def same_inodes_def ENOMEM_def split: Option.bind_splits
            intro!: same_keeps dest!: lock_unlock(2))
    next
      case p: False
      note al = fresh_alloc [OF ok1 al p] al
      define s3 where "s3 = upd_inode s2 p (\<lambda>i. i\<lparr>i_ino := ino\<rparr>)"
      obtain ret s4 where rb: "inode_rebuild s3 p = Some (ret, s4)"
        using get s1 True al p by (auto simp: iget_def s3_def Let_def split: Option.bind_splits)
      note o = rebuild_only [OF rb]
      have i3: "itable s3 = itable s1" "inode_pool s3 = inode_pool s2" "inum s3 p = ino" "ilocked s3 = ilocked s1"
        using al by (auto simp: s3_def upd_inode_def)
      have k3: "keeps s1 s3"
        unfolding s3_def by (rule al(1))
      have "keeps s3 s4"
        using al(2,4) i3(1) by (intro only_at_keeps [OF keepsD(1) [OF k3] o]) simp
      then have k4: "keeps s1 s4"
        by (rule keeps_trans [OF k3])
      have i4: "itable s4 = itable s1" "p \<notin> set (inode_pool s4)" "inum s4 p = ino" "ilocked s4 = ilocked s1" "\<forall>i. itable s4 i \<noteq> p"
        using o i3 al by (auto simp: only_at_def)
      show ?thesis
      proof (cases "ret = 0")
        case r0: True
        have "r = Inr p" "s' = s4\<lparr>itable := (itable s4)(ino := p)\<rparr>"
          using get s1 True al p rb r0 by (auto simp: iget_def s3_def Let_def)
        then show ?thesis
          using fresh_install [OF keepsD(1) [OF k4] i4(5,2) p] i4 True k4
          by (intro mid) (auto intro: keeps_trans)
      next
        case r1: False
        obtain s5 where s5: "inode_unlock s4 ino = Some s5" "r = Inl ret" "s' = inode_free s5 p"
          using get s1 True al p rb r1 by (auto simp: iget_def s3_def Let_def split: Option.bind_splits)
        note l5 = lock_unlock(2) [OF s5(1)]
        have k5: "keeps s4 s5"
          using l5 same_keeps [OF keepsD(1) [OF k4]] by simp
        have "keeps s5 s'" "ilocked s' = ilocked s5"
          using fresh_free [OF keepsD(1) [OF k5] _ _ p] i4 l5 s5(3)
          by (auto simp: same_inodes_def inode_free_def upd_inode_def Let_def)
        then show ?thesis
          using k4 k5 s5(2) r1 l5 i4 undo by (intro mid) (auto intro: keeps_trans)
      qed
    qed
  qed
qed

subsection \<open>The walk\<close>

text \<open>
  What a lookup that starts with the locks \<open>held\<close> leaves: on success the inode it found is cached and is the
  only lock added; on failure the locks are \<open>held\<close>.
\<close>

definition walk_locks :: "fs \<Rightarrow> (nat \<Rightarrow> bool) \<Rightarrow> int \<Rightarrow> nameidata \<Rightarrow> fs \<Rightarrow> bool" where
  "walk_locks s held ret nd' s' \<longleftrightarrow> keeps s s' \<and>
    (if ret = 0 then is_cached s' (nd_current nd') \<and> \<not> held (inum s' (nd_current nd')) \<and>
        ilocked s' = held(inum s' (nd_current nd') := True)
     else ilocked s' = held)"

definition lookup_good :: "nat \<Rightarrow> bool" where
  "lookup_good d \<longleftrightarrow> (\<forall>s nd ret nd' s'. nd_depth nd = d \<longrightarrow> nd_flags nd AND ND_PARENT = 0 \<longrightarrow> cache_ok s \<longrightarrow>
    is_cached s (root_inode s) \<longrightarrow> is_cached s (nd_start nd) \<longrightarrow> path_lookup s nd = Some (ret, nd', s') \<longrightarrow>
    walk_locks s (ilocked s) ret nd' s')"

definition walk_good :: "nat \<Rightarrow> bool" where
  "walk_good d \<longleftrightarrow> (\<forall>s nd c ret nd' s'. nd_depth nd = d \<longrightarrow> nd_flags nd AND ND_PARENT = 0 \<longrightarrow> cache_ok s \<longrightarrow>
    is_cached s (root_inode s) \<longrightarrow> is_cached s (nd_current nd) \<longrightarrow> ilocked s (inum s (nd_current nd)) \<longrightarrow>
    path_walk s nd c = Some (ret, nd', s') \<longrightarrow> walk_locks s ((ilocked s)(inum s (nd_current nd) := False)) ret nd' s')"

definition sym_good :: "nat \<Rightarrow> bool" where
  "sym_good d \<longleftrightarrow> (\<forall>s nd p ret nd' s'. nd_depth nd = d \<longrightarrow> nd_flags nd AND ND_PARENT = 0 \<longrightarrow> cache_ok s \<longrightarrow>
    is_cached s (root_inode s) \<longrightarrow> is_cached s (nd_current nd) \<longrightarrow> is_cached s p \<longrightarrow> ilocked s (inum s p) \<longrightarrow>
    handle_symlink s p nd = Some (ret, nd', s') \<longrightarrow>
    (if ret = 0 then walk_locks s ((ilocked s)(inum s p := False)) ret nd' s' else keeps s s' \<and> ilocked s' = ilocked s))"

lemma lookup_goodD:
  "\<lbrakk>lookup_good d; path_lookup s nd = Some (ret, nd', s'); nd_depth nd = d; nd_flags nd AND ND_PARENT = 0; cache_ok s;
    is_cached s (root_inode s); is_cached s (nd_start nd)\<rbrakk> \<Longrightarrow> walk_locks s (ilocked s) ret nd' s'"
  by (simp add: lookup_good_def)

lemma walk_goodD:
  "\<lbrakk>walk_good d; path_walk s nd c = Some (ret, nd', s'); nd_depth nd = d; nd_flags nd AND ND_PARENT = 0; cache_ok s;
    is_cached s (root_inode s); is_cached s (nd_current nd); ilocked s (inum s (nd_current nd))\<rbrakk> \<Longrightarrow>
   walk_locks s ((ilocked s)(inum s (nd_current nd) := False)) ret nd' s'"
  unfolding walk_good_def by blast

lemma sym_goodD:
  "\<lbrakk>sym_good d; handle_symlink s p nd = Some (ret, nd', s'); nd_depth nd = d; nd_flags nd AND ND_PARENT = 0; cache_ok s;
    is_cached s (root_inode s); is_cached s (nd_current nd); is_cached s p; ilocked s (inum s p)\<rbrakk> \<Longrightarrow>
   if ret = 0 then walk_locks s ((ilocked s)(inum s p := False)) ret nd' s' else keeps s s' \<and> ilocked s' = ilocked s"
  unfolding sym_good_def by blast

lemma walk_locks_mono: "keeps s s1 \<Longrightarrow> walk_locks s1 held ret nd' s' \<Longrightarrow> walk_locks s held ret nd' s'"
  by (auto simp: walk_locks_def intro: keeps_trans split: if_splits)

lemma lookup_step:
  assumes "walk_good d"
  shows "lookup_good d"
  unfolding lookup_good_def
proof (intro allI impI)
  fix s nd ret nd' s'
  assume d: "nd_depth nd = d" "nd_flags nd AND ND_PARENT = 0" and ok: "cache_ok s" and c: "is_cached s (root_inode s)" "is_cached s (nd_start nd)"
    and run: "path_lookup s nd = Some (ret, nd', s')"
  let ?nd = "nd\<lparr>nd_current := nd_start nd\<rparr>" and ?i = "inum s (nd_start nd)"
  obtain s1 where s1: "inode_lock s ?i = Some s1"
    "(if skip_slashes (nd_path nd) = [] then Some (0, ?nd, s1) else path_walk s1 ?nd (skip_slashes (nd_path nd))) = Some (ret, nd', s')"
    using run d by (auto simp: path_lookup.simps [of s nd] Let_def split: if_splits Option.bind_splits)
  note l = lock_unlock(1) [OF s1(1)]
  have k: "keeps s s1"
    using same_keeps [OF ok] l by simp
  have held: "(ilocked s1)(?i := False) = ilocked s"
    using l by (simp add: fun_upd_idem)
  note k' = keepsD [OF k]
  have "walk_locks s1 (ilocked s) ret nd' s'"
  proof (cases "skip_slashes (nd_path nd) = []")
    case True
    with s1 l k' c show ?thesis
      by (auto simp: walk_locks_def keeps_refl)
  next
    case False
    with s1(2) have "path_walk s1 ?nd (skip_slashes (nd_path nd)) = Some (ret, nd', s')" by simp
    then have "walk_locks s1 ((ilocked s1)(inum s1 (nd_current ?nd) := False)) ret nd' s'"
      by (rule walk_goodD [OF assms]) (use d c k' l in auto)
    then show ?thesis
      using held k' c by simp
  qed
  then show "walk_locks s (ilocked s) ret nd' s'"
    by (rule walk_locks_mono [OF k])
qed

text \<open>What \<open>handle_symlink\<close> does when it returns: it fails early, or it resolves the link from a released inode.\<close>

lemma handle_symlink_cases:
  assumes "handle_symlink s p nd = Some (ret, nd', s')"
  obtains (early) "ret \<noteq> 0" "same_inodes s s'" "ilocked s' = ilocked s"
    | (go) h nd1 s1 nd2 s2 s3 h' where "nd_depth nd \<le> MAX_LOOP"
        "inode_unlock (s\<lparr>fheap := h\<rparr>) (inum s p) = Some s1"
        "path_lookup s1 nd1 = Some (ret, nd2, s2)" "nd_depth nd1 = Suc (nd_depth nd)" "nd_flags nd1 = nd_flags nd"
        "nd_start nd1 = root_inode s \<or> nd_start nd1 = nd_current nd"
        "(if ret = 0 then Some s2 else inode_lock s2 (inum s2 p)) = Some s3"
        "nd_current nd' = (if ret = 0 then nd_current nd2 else nd_current nd)" "s' = s3\<lparr>fheap := h'\<rparr>"
proof (cases "nd_flags nd AND ND_NOFOLLOW \<noteq> 0 \<or> nd_depth nd > MAX_LOOP")
  case True
  then have "handle_symlink s p nd = Some (- ELOOP, nd, s)"
    unfolding handle_symlink.simps [of s p nd] by auto
  with assms show ?thesis
    by (intro early) (auto simp: ELOOP_def same_inodes_def)
next
  case False
  note run = assms [unfolded handle_symlink.simps [of s p nd] Let_def]
  obtain l h where h: "heap_alloc (fheap s) (size_add (i_size (inode_mem s p)) 1) = Some (l, h)"
    using run False by (cases "heap_alloc (fheap s) (size_add (i_size (inode_mem s p)) 1)") auto
  show ?thesis
  proof (cases "l = 0")
    case True
    with run False h show ?thesis
      by (intro early) (auto simp: ENOMEM_def same_inodes_def)
  next
    case l: False
    obtain bs where bs: "inode_readlink (s\<lparr>fheap := h\<rparr>) p = Some bs"
      using run False h l by (cases "inode_readlink (s\<lparr>fheap := h\<rparr>) p") auto
    define nd1 where "nd1 = nd\<lparr>nd_path := c_string bs, nd_depth := nd_depth nd + 1,
      nd_start := (if c_string bs \<noteq> [] \<and> is_slash (hd (c_string bs)) then root_inode s else nd_current nd)\<rparr>"
    obtain s1 where s1: "inode_unlock (s\<lparr>fheap := h\<rparr>) (inum s p) = Some s1"
      using run False h l bs by (cases "inode_unlock (s\<lparr>fheap := h\<rparr>) (inum s p)") auto
    have run1: "path_lookup s1 nd1 \<bind> (\<lambda>(ret, nd', s).
        (if ret = 0 then Some s else inode_lock s (inum s p)) \<bind> (\<lambda>s. heap_free (fheap s) l \<bind> (\<lambda>h.
          Some (ret, if ret = 0 then nd\<lparr>nd_current := nd_current nd'\<rparr> else nd, s\<lparr>fheap := h\<rparr>)))) = Some (ret, nd', s')"
      using run False h l bs s1 by (simp add: nd1_def cong: if_cong)
    obtain r nd2 s2 where r: "path_lookup s1 nd1 = Some (r, nd2, s2)"
      using run1 by (cases "path_lookup s1 nd1") auto
    obtain s3 where s3: "(if r = 0 then Some s2 else inode_lock s2 (inum s2 p)) = Some s3"
      using run1 r by (cases "if r = 0 then Some s2 else inode_lock s2 (inum s2 p)") auto
    obtain h' where "heap_free (fheap s3) l = Some h'"
      using run1 r s3 by (cases "heap_free (fheap s3) l") auto
    then have "ret = r" "nd_current nd' = (if r = 0 then nd_current nd2 else nd_current nd)" "s' = s3\<lparr>fheap := h'\<rparr>"
      using run1 r s3 by auto
    with False s1 r s3 show ?thesis
      by (intro go [of h s1 nd1 nd2 s2 s3 h']) (auto simp: nd1_def)
  qed
qed

lemma sym_step:
  assumes "d \<le> MAX_LOOP \<Longrightarrow> lookup_good (Suc d)"
  shows "sym_good d"
  unfolding sym_good_def
proof (intro allI impI)
  fix s nd p ret nd' s'
  assume d: "nd_depth nd = d" "nd_flags nd AND ND_PARENT = 0" and ok: "cache_ok s"
    and c: "is_cached s (root_inode s)" "is_cached s (nd_current nd)" "is_cached s p" and held: "ilocked s (inum s p)"
    and run: "handle_symlink s p nd = Some (ret, nd', s')"
  from run show "if ret = 0 then walk_locks s ((ilocked s)(inum s p := False)) ret nd' s' else keeps s s' \<and> ilocked s' = ilocked s"
  proof (cases rule: handle_symlink_cases)
    case early
    then show ?thesis using same_keeps [OF ok] by simp
  next
    case (go h nd1 s1 nd2 s2 s3 h')
    note l1 = lock_unlock(2) [OF go(2)]
    have k1: "keeps s s1"
      using l1 by (intro same_keeps [OF ok]) (simp add: same_inodes_def)
    have "is_cached s1 (nd_start nd1)"
      using go(6) c keepsD(3) [OF k1] by auto
    then have w: "walk_locks s1 (ilocked s1) ret nd2 s2"
      using lookup_goodD [OF assms go(3)] go(1,4,5) d c keepsD [OF k1] by simp
    have k2: "keeps s s2"
      using w keeps_trans [OF k1] by (simp add: walk_locks_def)
    show ?thesis
    proof (cases "ret = 0")
      case True
      with go w l1 have "walk_locks s1 ((ilocked s)(inum s p := False)) ret nd' s'"
        by (auto simp: walk_locks_def keeps_def cache_ok_def is_cached_def)
      with True go show ?thesis
        using walk_locks_mono [OF k1] by simp
    next
      case False
      have "inode_lock s2 (inum s2 p) = Some s3" using go(7) False by simp
      note l3 = lock_unlock(1) [OF this]
      have "keeps s2 s'"
        using l3 go(9) by (intro same_keeps keepsD(1) [OF k2]) (auto simp: same_inodes_def)
      moreover have "ilocked s' = ilocked s"
        using l3 l1 go(9) w False keepsD(4) [OF k2 c(3)] held by (simp add: walk_locks_def fun_upd_idem)
      ultimately show ?thesis
        using False keeps_trans [OF k2] by simp
    qed
  qed
qed

lemma lookup_iget_cases:
  assumes "inode_lookup s dir name \<bind> (\<lambda>d. if d = 0 then F (- ENOENT) s
      else deref d \<bind> (\<lambda>_. iget s (d_ino (dirent_mem s d)) \<bind> (\<lambda>(r, s). case r of Inl err \<Rightarrow> F err s | Inr p \<Rightarrow> K p s))) = Some res"
  obtains (absent) "F (- ENOENT) s = Some res"
    | (failed) ino err s1 where "iget s ino = Some (Inl err, s1)" "F err s1 = Some res"
    | (got) ino p s1 where "iget s ino = Some (Inr p, s1)" "K p s1 = Some res"
  using assms by (auto split: Option.bind_splits if_splits sum.splits)

text \<open>One round of \<open>path_walk\<close>, by how it ends: what it does after the last step is \<open>goes_on\<close>, which returns the
  inode \<open>q\<close> or walks on from it with the rest of the path.\<close>

definition goes_on :: "nameidata \<Rightarrow> string \<Rightarrow> nat \<Rightarrow> fs \<Rightarrow> int \<Rightarrow> nameidata \<Rightarrow> fs \<Rightarrow> bool" where
  "goes_on nd c q s ret nd' s' \<longleftrightarrow> ret = 0 \<and> nd_current nd' = q \<and> s' = s \<or>
     skip_slashes (skip_name c) \<noteq> [] \<and> path_walk s (nd\<lparr>nd_current := q\<rparr>) (skip_slashes (skip_name c)) = Some (ret, nd', s')"

inductive walk_round :: "fs \<Rightarrow> nameidata \<Rightarrow> string \<Rightarrow> int \<Rightarrow> nameidata \<Rightarrow> fs \<Rightarrow> bool" where
  absent: "ret \<noteq> 0 \<Longrightarrow> inode_unlock s (inum s (nd_current nd)) = Some s' \<Longrightarrow> walk_round s nd c ret nd' s'"
| failed: "iget s ino = Some (Inl ret, s1) \<Longrightarrow> inode_unlock s1 (inum s1 (nd_current nd)) = Some s' \<Longrightarrow> walk_round s nd c ret nd' s'"
| notdir: "ret \<noteq> 0 \<Longrightarrow> iget s ino = Some (Inr p, s1) \<Longrightarrow> inode_unlock s1 (inum s1 p) = Some s2 \<Longrightarrow>
    inode_unlock s2 (inum s2 (nd_current nd)) = Some s' \<Longrightarrow> walk_round s nd c ret nd' s'"
| link: "iget s ino = Some (Inr p, s1) \<Longrightarrow> inode_unlock s1 (inum s1 (nd_current nd)) = Some s2 \<Longrightarrow>
    handle_symlink s2 p nd1 = Some (r, nd2, s3) \<Longrightarrow>
    nd_depth nd1 = nd_depth nd \<Longrightarrow> nd_flags nd1 = nd_flags nd \<Longrightarrow> nd_current nd1 = nd_current nd \<Longrightarrow>
    (if r \<noteq> 0 then inode_unlock s3 (inum s3 p) = Some s' \<and> ret = r else goes_on nd c (nd_current nd2) s3 ret nd' s') \<Longrightarrow>
    walk_round s nd c ret nd' s'"
| found: "iget s ino = Some (Inr p, s1) \<Longrightarrow> inode_unlock s1 (inum s1 (nd_current nd)) = Some s2 \<Longrightarrow>
    goes_on nd c p s2 ret nd' s' \<Longrightarrow> walk_round s nd c ret nd' s'"

definition walk_fail :: "nameidata \<Rightarrow> int \<Rightarrow> fs \<Rightarrow> (int \<times> nameidata \<times> fs) option" where
  "walk_fail = (\<lambda>nd ret s. inode_unlock s (inum s (nd_current nd)) \<bind> (\<lambda>s. Some (ret, nd, s)))"

lemma walk_failD: "walk_fail n e s = Some (ret, nd', s') \<Longrightarrow> inode_unlock s (inum s (nd_current n)) = Some s' \<and> ret = e"
  by (auto simp: walk_fail_def split: Option.bind_splits)

lemma walk_last:
  assumes run: "path_walk s nd c = Some (ret, nd', s')" and "nd_flags nd AND ND_PARENT = 0" and last: "skip_slashes (skip_name c) = []"
  shows "walk_round s nd c ret nd' s'"
proof -
  let ?q = "nd\<lparr>nd_last := c, nd_last_len := name_len c\<rparr>"
  define K where "K = (\<lambda>p s. if is_symlink (inode_mem s p) then
      inode_unlock s (inum s (nd_current nd)) \<bind> (\<lambda>s. handle_symlink s p ?q \<bind> (\<lambda>(ret, nd', s).
        if ret \<noteq> 0 then inode_unlock s (inum s p) \<bind> (\<lambda>s. Some (ret, nd', s)) else Some (0, nd', s)))
    else inode_unlock s (inum s (nd_current nd)) \<bind> (\<lambda>s. Some (0, ?q\<lparr>nd_current := p\<rparr>, s)))"
  have "inode_lookup s (nd_current nd) (take (name_len c) c) \<bind> (\<lambda>d. if d = 0 then walk_fail ?q (- ENOENT) s
    else deref d \<bind> (\<lambda>_. iget s (d_ino (dirent_mem s d)) \<bind> (\<lambda>(r, s). case r of Inl err \<Rightarrow> walk_fail ?q err s | Inr p \<Rightarrow> K p s))) = Some (ret, nd', s')"
    using run last assms(2) unfolding path_walk.simps [of s nd c] Let_def
    by (cases "deref (nd_current nd)") (simp_all add: walk_fail_def K_def cong: if_cong sum.case_cong)
  then show ?thesis
  proof (cases rule: lookup_iget_cases)
    case absent
    then show ?thesis by (intro walk_round.absent) (auto dest!: walk_failD simp: ENOENT_def)
  next
    case failed
    then show ?thesis by (intro walk_round.failed) (auto dest!: walk_failD)
  next
    case (got ino p s1)
    obtain s2 where s2: "inode_unlock s1 (inum s1 (nd_current nd)) = Some s2"
      using got(2) by (auto simp: K_def split: if_splits Option.bind_splits)
    show ?thesis
    proof (cases "is_symlink (inode_mem s1 p)")
      case False
      with got s2 show ?thesis by (intro walk_round.found [OF got(1) s2]) (auto simp: K_def goes_on_def)
    next
      case sym: True
      then obtain r nd2 s3 where h: "handle_symlink s2 p ?q = Some (r, nd2, s3)"
        using got(2) s2 by (cases "handle_symlink s2 p ?q") (auto simp: K_def)
      then show ?thesis
        using got(2) s2 sym
        by (intro walk_round.link [OF got(1) s2 h]) (auto simp: K_def goes_on_def split: if_splits Option.bind_splits)
    qed
  qed
qed

lemma walk_more:
  assumes run: "path_walk s nd c = Some (ret, nd', s')" and rest: "skip_slashes (skip_name c) \<noteq> []"
  shows "walk_round s nd c ret nd' s'"
proof -
  let ?c = "skip_slashes (skip_name c)"
  define K where "K = (\<lambda>p s. if is_symlink (inode_mem s p) then
      inode_unlock s (inum s (nd_current nd)) \<bind> (\<lambda>s. handle_symlink s p nd \<bind> (\<lambda>(ret, nd', s).
        if ret \<noteq> 0 then inode_unlock s (inum s p) \<bind> (\<lambda>s. Some (ret, nd', s))
        else path_walk s (nd\<lparr>nd_current := nd_current nd'\<rparr>) ?c))
    else if \<not> is_dir (inode_mem s p) then inode_unlock s (inum s p) \<bind> (\<lambda>s. walk_fail nd (- ENOTDIR) s)
    else inode_unlock s (inum s (nd_current nd)) \<bind> (\<lambda>s. path_walk s (nd\<lparr>nd_current := p\<rparr>) ?c))"
  have "inode_lookup s (nd_current nd) (take (name_len c) c) \<bind> (\<lambda>d. if d = 0 then walk_fail nd (- ENOENT) s
    else deref d \<bind> (\<lambda>_. iget s (d_ino (dirent_mem s d)) \<bind> (\<lambda>(r, s). case r of Inl err \<Rightarrow> walk_fail nd err s | Inr p \<Rightarrow> K p s))) = Some (ret, nd', s')"
    using run rest unfolding path_walk.simps [of s nd c] Let_def
    by (cases "deref (nd_current nd)") (simp_all add: walk_fail_def K_def cong: if_cong sum.case_cong)
  then show ?thesis
  proof (cases rule: lookup_iget_cases)
    case absent
    then show ?thesis by (intro walk_round.absent) (auto dest!: walk_failD simp: ENOENT_def)
  next
    case failed
    then show ?thesis by (intro walk_round.failed) (auto dest!: walk_failD)
  next
    case (got ino p s1)
    consider (sym) s2 r nd2 s3 where "is_symlink (inode_mem s1 p)" "inode_unlock s1 (inum s1 (nd_current nd)) = Some s2"
          "handle_symlink s2 p nd = Some (r, nd2, s3)"
      | (regular) s2 where "\<not> is_symlink (inode_mem s1 p)" "\<not> is_dir (inode_mem s1 p)" "inode_unlock s1 (inum s1 p) = Some s2"
      | (dir) s2 where "\<not> is_symlink (inode_mem s1 p)" "is_dir (inode_mem s1 p)" "inode_unlock s1 (inum s1 (nd_current nd)) = Some s2"
      using got(2) by (auto simp: K_def split: if_splits Option.bind_splits)
    then show ?thesis
    proof cases
      case sym
      then show ?thesis
        using got(2) rest
        by (intro walk_round.link [OF got(1) sym(2,3)]) (auto simp: K_def goes_on_def split: if_splits Option.bind_splits)
    next
      case regular
      then show ?thesis
        using got(2) by (intro walk_round.notdir [OF _ got(1) regular(3)]) (auto simp: K_def ENOTDIR_def dest!: walk_failD)
    next
      case dir
      then show ?thesis
        using got(2) rest by (intro walk_round.found [OF got(1) dir(3)]) (auto simp: K_def goes_on_def)
    qed
  qed
qed

lemma release_keeps:
  assumes "keeps s s1" "is_cached s q" "inode_unlock s1 (inum s1 q) = Some s2"
  shows "keeps s s2 \<and> ilocked s2 = (ilocked s1)(inum s q := False) \<and> (\<forall>p. is_cached s1 p \<longrightarrow> is_cached s2 p \<and> inum s2 p = inum s1 p)"
  using lock_unlock(2) [OF assms(3)] same_keeps [OF keepsD(1) [OF assms(1)]] keeps_trans [OF assms(1)] keepsD(4) [OF assms(1,2)]
  by (auto dest: keepsD)

text \<open>The locked inode \<open>p\<close> is next, the one before it is released.\<close>

lemma handed_over:
  assumes "cache_ok s" "is_cached s q" "ilocked s (inum s q)" "iget s ino = Some (Inr p, s1)" "inode_unlock s1 (inum s1 q) = Some s2"
  shows "keeps s s2" "is_cached s2 p" "inum s2 p = ino" "ino \<noteq> inum s q" "\<not> ilocked s ino"
    "ilocked s2 = (ilocked s)(inum s q := False, ino := True)"
proof -
  note g = iget_keeps [OF assms(1,4)]
  with release_keeps [OF _ assms(2,5)] assms(3)
  show "keeps s s2" "is_cached s2 p" "inum s2 p = ino" "ino \<noteq> inum s q" "\<not> ilocked s ino" by auto
  with release_keeps [OF _ assms(2,5)] g show "ilocked s2 = (ilocked s)(inum s q := False, ino := True)"
    by (auto simp: fun_upd_twist)
qed

lemma link_round:
  assumes sym: "sym_good d" and d: "nd_depth nd = d" "nd_flags nd AND ND_PARENT = 0" "nd_current nd = q"
    and ok: "cache_ok s" "is_cached s (root_inode s)" "is_cached s q" "ilocked s (inum s q)"
    and get: "iget s ino = Some (Inr p, s1)" "inode_unlock s1 (inum s1 q) = Some s2" "handle_symlink s2 p nd = Some (r, nd2, s3)"
  shows "if r = 0 then walk_locks s ((ilocked s)(inum s q := False)) 0 nd2 s3
    else \<forall>s'. inode_unlock s3 (inum s3 p) = Some s' \<longrightarrow> walk_locks s ((ilocked s)(inum s q := False)) r nd' s'"
proof -
  note s2 = handed_over [OF ok(1,3,4) get(1,2)]
  note k2 = keepsD [OF s2(1)]
  have *: "if r = 0 then walk_locks s2 ((ilocked s2)(inum s2 p := False)) r nd2 s3 else keeps s2 s3 \<and> ilocked s3 = ilocked s2"
    by (rule sym_goodD [OF sym get(3)]) (use d ok k2 s2 in auto)
  have held: "(ilocked s2)(ino := False) = (ilocked s)(inum s q := False)"
    using s2 by (auto simp: fun_upd_idem)
  show ?thesis
  proof (cases "r = 0")
    case True
    then show ?thesis
      using * s2(3) held walk_locks_mono [OF s2(1)] by simp
  next
    case False
    then have k: "keeps s2 s3" and l: "ilocked s3 = ilocked s2" using * by auto
    have "walk_locks s2 ((ilocked s)(inum s q := False)) r nd' s'" if "inode_unlock s3 (inum s3 p) = Some s'" for s'
      using release_keeps [OF k s2(2) that] s2(3) l held False by (simp add: walk_locks_def)
    then show ?thesis
      using False walk_locks_mono [OF s2(1)] by auto
  qed
qed

lemma walk_step:
  assumes sym: "sym_good d"
  shows "walk_good d"
  unfolding walk_good_def
proof (intro allI impI)
  fix s nd c ret nd' s'
  assume "nd_depth nd = d" "nd_flags nd AND ND_PARENT = 0" "cache_ok s" "is_cached s (root_inode s)" "is_cached s (nd_current nd)"
    "ilocked s (inum s (nd_current nd))" "path_walk s nd c = Some (ret, nd', s')"
  then show "walk_locks s ((ilocked s)(inum s (nd_current nd) := False)) ret nd' s'"
  proof (induction "length c" arbitrary: s nd c rule: less_induct)
    case less
    note ok = less.prems(3,5,6)
    let ?held = "(ilocked s)(inum s (nd_current nd) := False)"
    have cont: "walk_locks s ?held ret nd' s'"
      if w: "walk_locks s ?held 0 ndx sx" and go: "goes_on nd c (nd_current ndx) sx ret nd' s'" for ndx sx
    proof (cases "ret = 0 \<and> nd_current nd' = nd_current ndx \<and> s' = sx")
      case False
      have k: "keeps s sx" and l: "\<not> ?held (inum sx (nd_current ndx))" "ilocked sx = ?held(inum sx (nd_current ndx) := True)"
        using w by (simp_all add: walk_locks_def)
      have "walk_locks sx ((ilocked sx)(inum sx (nd_current (nd\<lparr>nd_current := nd_current ndx\<rparr>)) := False)) ret nd' s'"
        using go False less.prems w keepsD [OF k] unfolding goes_on_def
        by (intro less.hyps [where c = "skip_slashes (skip_name c)"]) (auto simp: skip_name_shrinks walk_locks_def)
      moreover have "(ilocked sx)(inum sx (nd_current ndx) := False) = ?held"
        using l by (simp add: fun_upd_idem)
      ultimately show ?thesis
        using walk_locks_mono [OF k] by simp
    qed (use w in \<open>simp add: walk_locks_def\<close>)
    have "walk_round s nd c ret nd' s'"
      using walk_last walk_more less.prems(2,7) by blast
    then show ?case
    proof cases
      case absent
      then show ?thesis
        using release_keeps [OF keeps_refl [OF ok(1)] ok(2)] by (simp add: walk_locks_def)
    next
      case (failed ino s1)
      then show ?thesis
        using iget_keeps [OF ok(1) failed(1)] release_keeps [OF _ ok(2) failed(2)] by (simp add: walk_locks_def)
    next
      case (notdir ino p s1 s2)
      note g = iget_keeps [OF ok(1) notdir(2)]
      have "keeps s s2" "ilocked s2 = ilocked s"
        using lock_unlock(2) [OF notdir(3)] g same_keeps [of s1 s2] by (auto simp: fun_upd_idem intro: keeps_trans dest: keepsD(1))
      then show ?thesis
        using release_keeps [OF _ ok(2) notdir(4)] notdir(1) by (simp add: walk_locks_def)
    next
      case (link ino p s1 s2 nd1 r nd2 s3)
      note l = link_round [OF sym _ _ link(6) ok(1) less.prems(4) ok(2,3) link(1,2,3)]
      then show ?thesis
        using link(4,5,7) less.prems(1,2) cont [of nd2 s3] by (cases "r = 0") auto
    next
      case (found ino p s1 s2)
      note h = handed_over [OF ok found(1,2)]
      have "walk_locks s ?held 0 (nd\<lparr>nd_current := p\<rparr>) s2"
        using h by (simp add: walk_locks_def)
      then show ?thesis
        by (rule cont) (use found(3) in simp)
    qed
  qed
qed

lemma lookup_good_all: "lookup_good d"
proof (induction "MAX_LOOP + 1 - d" arbitrary: d rule: less_induct)
  case less
  show ?case
    by (rule lookup_step [OF walk_step [OF sym_step]], rule less) simp
qed

text \<open>C11: The lock discipline of path resolution. Whatever the path, the symbolic links on it and the inodes that have
  to be read from the media on the way, a \<open>path_lookup\<close> without \<open>ND_PARENT\<close> that returns keeps the inode cache
  consistent, and it releases every lock it took on the way: on success the inode it returns is in the cache
  and its lock, which was free, is the only one added; on failure the locks are as before.\<close>

theorem path_lookup_locks:
  assumes "cache_ok s" "is_cached s (root_inode s)" "is_cached s (nd_start nd)" "nd_flags nd AND ND_PARENT = 0"
    and "path_lookup s nd = Some (ret, nd', s')"
  shows "cache_ok s' \<and>
    (if ret = 0 then is_cached s' (nd_current nd') \<and> \<not> ilocked s (inum s' (nd_current nd')) \<and>
       ilocked s' = (ilocked s)(inum s' (nd_current nd') := True)
     else ilocked s' = ilocked s)"
proof -
  have "walk_locks s (ilocked s) ret nd' s'"
    using lookup_goodD [OF lookup_good_all assms(5) refl assms(4,1-3)] .
  then show ?thesis
    by (auto simp: walk_locks_def dest: keepsD(1))
qed

text \<open>A root directory with one subdirectory \<open>d\<close>, which is empty.\<close>

definition tree_example :: fs where
  "tree_example = blank_fs\<lparr>root_inode := SHM_BASE, itable := (\<lambda>_. 0)(2 := SHM_BASE, 3 := SHM_BASE + 128),
     inode_mem := (inode_mem blank_fs)(SHM_BASE := zero_inode\<lparr>i_ino := 2, i_mode := S_IFDIR, i_rb_root := SHM_BASE + 64\<rparr>,
       SHM_BASE + 128 := zero_inode\<lparr>i_ino := 3, i_mode := S_IFDIR\<rparr>),
     dirent_mem := (dirent_mem blank_fs)(SHM_BASE + 64 := \<lparr>d_idx = 1, d_ts = 0, d_ino = 3, d_hash = BKDRHash ''d'', d_ref = 0\<rparr>)\<rparr>"

definition tree_nd :: "string \<Rightarrow> nameidata" where
  "tree_nd p = \<lparr>nd_path = p, nd_start = SHM_BASE, nd_current = 0, nd_parent = 0, nd_depth = 0, nd_flags = 0, nd_last = [], nd_last_len = 0\<rparr>"

lemma tree_simps [simp]:
  "root_inode tree_example = SHM_BASE" "itable tree_example = (\<lambda>_. 0)(2 := SHM_BASE, 3 := SHM_BASE + 128)" "inode_pool tree_example = []"
  "inode_mem tree_example SHM_BASE = zero_inode\<lparr>i_ino := 2, i_mode := S_IFDIR, i_rb_root := SHM_BASE + 64\<rparr>"
  "inode_mem tree_example (SHM_BASE + 128) = zero_inode\<lparr>i_ino := 3, i_mode := S_IFDIR\<rparr>"
  "dirent_mem tree_example (SHM_BASE + 64) = \<lparr>d_idx = 1, d_ts = 0, d_ino = 3, d_hash = BKDRHash ''d'', d_ref = 0\<rparr>"
  "slot_num (slots_of tree_example t) = 64" "ilocked tree_example = (\<lambda>_. False)" "rb_mem tree_example = (\<lambda>_. \<lparr>rb_pc = 0, rb_right = 0, rb_left = 0\<rparr>)"
  by (simp_all add: tree_example_def blank_fs_def blank_slot_def)

lemma tree_ok: "cache_ok tree_example" "is_cached tree_example (root_inode tree_example)" "is_cached tree_example SHM_BASE"
proof -
  have "SHM_BASE \<noteq> 0" by (simp add: SHM_BASE_def)
  then show "cache_ok tree_example" "is_cached tree_example (root_inode tree_example)" "is_cached tree_example SHM_BASE"
    by (simp_all add: cache_ok_def is_cached_def zero_inode_def)
qed

lemmas walk_eval = Let_def path_lookup.simps path_walk.simps skip_slashes_def skip_name_def name_len_def is_slash_def inode_lookup_def
  dirent_lookup_def dirent_lookup_loop.simps iget_def inode_lock_def inode_unlock_def deref_def rb_of_def is_dir_def is_symlink_def
  S_IFMT_def S_IFDIR_def S_IFLNK_def zero_inode_def left_of_def right_of_def

lemma tree_lookup:
  "\<exists>nd. path_lookup tree_example (tree_nd ''/d/'') =
     Some (0, nd, tree_example\<lparr>ilocked := (\<lambda>_. False)(2 := False, 3 := True)\<rparr>) \<and> nd_current nd = SHM_BASE + 128"
  "\<exists>nd s. path_lookup tree_example (tree_nd ''d/x'') = Some (- ENOENT, nd, s)"
  by (simp_all add: walk_eval tree_nd_def fun_upd_twist)

theorem path_lookup_locks_witness:
  "(\<exists>nd s. path_lookup tree_example (tree_nd ''/d/'') = Some (0, nd, s) \<and> nd_current nd = SHM_BASE + 128 \<and>
      ilocked s = (\<lambda>i. i = 3)) \<and>
   (\<exists>nd s. path_lookup tree_example (tree_nd ''d/x'') = Some (- ENOENT, nd, s) \<and> ilocked s = (\<lambda>_. False))"
proof (intro conjI)
  have start: "nd_start (tree_nd p) = SHM_BASE" "nd_flags (tree_nd p) AND ND_PARENT = 0" for p
    by (simp_all add: tree_nd_def)
  note locks = path_lookup_locks [OF tree_ok(1,2) _ start(2), unfolded start(1), OF tree_ok(3)]
  have free: "ilocked tree_example = (\<lambda>_. False)"
    by (simp add: tree_example_def blank_fs_def)
  obtain nd s where 1: "path_lookup tree_example (tree_nd ''/d/'') = Some (0, nd, s)" "nd_current nd = SHM_BASE + 128" "inum s (SHM_BASE + 128) = 3"
    using tree_lookup(1) by (auto simp: zero_inode_def)
  then show "\<exists>nd s. path_lookup tree_example (tree_nd ''/d/'') = Some (0, nd, s) \<and> nd_current nd = SHM_BASE + 128 \<and> ilocked s = (\<lambda>i. i = 3)"
    using locks [OF 1(1)] free by (auto simp: fun_upd_def)
  obtain nd s where 2: "path_lookup tree_example (tree_nd ''d/x'') = Some (- ENOENT, nd, s)"
    using tree_lookup(2) by blast
  then show "\<exists>nd s. path_lookup tree_example (tree_nd ''d/x'') = Some (- ENOENT, nd, s) \<and> ilocked s = (\<lambda>_. False)"
    using locks [OF 2] free by (auto simp: ENOENT_def)
qed

end
