(* ===== verification/Fs_Calls.thy ===== *)
theory Fs_Calls
  imports Vfs_Locks Fs_Func
begin

text \<open>
  The calls of a process. The table of open files is a \<open>slot_allocator\<close>; a call that resolves a path
  releases the locks that it takes and keeps the process consistent: its directory and its open files are inodes of the cache.
\<close>

subsection \<open>Descriptors\<close>

definition open_fds :: "sys \<Rightarrow> nat set" where
  "open_fds y = {i. i < FD_MAX \<and> fh_valid (f_table y i)}"

lemma FD_MAX_pos [simp]: "0 < FD_MAX"
  by (simp add: FD_MAX_def)

lemma fd_scan_find: "fd_scan tab h is = List.find (\<lambda>i. \<not> fh_valid (tab i)) (map (\<lambda>i. (h + i) mod FD_MAX) is)"
  by (induction "is") (simp_all add: Let_def)

lemma fd_order: "set (map (\<lambda>i. (h + i) mod FD_MAX) [0..<FD_MAX]) = {0..<FD_MAX}"
  using probe_order_set [OF FD_MAX_pos, of h] by (simp add: probe_order_def atLeast0LessThan)

lemma fd_scan_some:
  assumes "fd_scan tab h [0..<FD_MAX] = Some i"
  shows "i < FD_MAX" "\<not> fh_valid (tab i)"
proof -
  from assms have "i \<in> set (map (\<lambda>i. (h + i) mod FD_MAX) [0..<FD_MAX])" "\<not> fh_valid (tab i)"
    unfolding fd_scan_find find_Some_iff by (metis nth_mem)+
  then show "i < FD_MAX" "\<not> fh_valid (tab i)"
    unfolding fd_order by auto
qed

lemma fd_scan_none: "fd_scan tab h [0..<FD_MAX] = None \<longleftrightarrow> (\<forall>i < FD_MAX. fh_valid (tab i))"
  unfolding fd_scan_find find_None_iff fd_order by auto

definition fresh_fh :: "nat \<Rightarrow> f_header" where
  "fresh_fh i = \<lparr>fh_fd = int i, fh_file = 0, fh_offset = 0, fh_flags = 0, fh_valid = True, fh_temp_dirent = 0\<rparr>"

lemma fd_alloc_cases:
  obtains (full) "fd_alloc y = (None, y)" "open_fds y = {0..<FD_MAX}"
    | (got) i where "fd_alloc y = (Some i, y\<lparr>fd_hint := (i + 1) mod FD_MAX, f_table := (f_table y)(i := fresh_fh i)\<rparr>)"
        "i < FD_MAX" "i \<notin> open_fds y"
proof (cases "fd_scan (f_table y) (fd_hint y) [0..<FD_MAX]")
  case None
  then show ?thesis
    by (intro full) (simp_all add: fd_alloc_def, auto simp: open_fds_def fd_scan_none)
next
  case (Some i)
  show ?thesis
  proof (rule got)
    show "fd_alloc y = (Some i, y\<lparr>fd_hint := (i + 1) mod FD_MAX, f_table := (f_table y)(i := fresh_fh i)\<rparr>)"
      using Some by (cases "f_table y i") (simp add: fd_alloc_def upd_fh_def fresh_fh_def)
  qed (use fd_scan_some [OF Some] in \<open>auto simp: open_fds_def\<close>)
qed

text \<open>The table in the form of the contract: the number of the descriptor or \<open>-1\<close>.\<close>

definition fd_take :: "sys \<Rightarrow> int \<times> sys" where
  "fd_take y = (case fd_alloc y of (None, y') \<Rightarrow> (- 1, y') | (Some i, y') \<Rightarrow> (int i, y'))"

definition fd_give :: "sys \<Rightarrow> int \<Rightarrow> sys" where
  "fd_give y fd = fd_free y (nat fd)"

lemma fd_take_cases:
  obtains (full) "fd_take y = (- 1, y)" "open_fds y = {0..<FD_MAX}"
    | (got) i y' where "fd_take y = (int i, y')" "i < FD_MAX" "i \<notin> open_fds y" "open_fds y' = insert i (open_fds y)"
proof (cases y rule: fd_alloc_cases)
  case full
  with that(1) show ?thesis by (simp add: fd_take_def)
next
  case (got i)
  show ?thesis
    by (rule that(2) [OF _ got(2,3)]) (use got in \<open>auto simp: fd_take_def open_fds_def fresh_fh_def split: if_splits\<close>)
qed

interpretation fdt: slot_allocator "\<lambda>_. True" open_fds "\<lambda>_. {0..<FD_MAX}" fd_take fd_give
proof (unfold_locales, goal_cases)
  case (1 m i m')
  from 1(2,3) obtain k where "i = int k" "k < FD_MAX" "k \<notin> open_fds m" "open_fds m' = insert k (open_fds m)"
    by (cases m rule: fd_take_cases) (metis prod.inject)+
  then show ?case by simp
next
  case (2 m m')
  then show ?case by (cases m rule: fd_take_cases) simp_all
next
  case (3 m i)
  then show ?case by (simp add: fd_give_def fd_free_def upd_fh_def open_fds_def) blast
qed

text \<open>C19: The table of open files. \<open>fd_alloc\<close> fails only when all descriptors are in use, and then changes nothing; otherwise
  it returns the entry of a descriptor that was not in use, with no file and offset 0, and changes no other entry and nothing of
  the file system. \<open>fd_free\<close> gives exactly that descriptor back, and \<open>n\<close> allocations in a row that succeed give \<open>n\<close>
  different descriptors.\<close>

theorem fd_alloc_correct:
  "(case fd_alloc y of
      (None, y') \<Rightarrow> y' = y \<and> open_fds y = {0..<FD_MAX}
    | (Some i, y') \<Rightarrow> i < FD_MAX \<and> i \<notin> open_fds y \<and> open_fds y' = insert i (open_fds y) \<and> f_table y' = (f_table y)(i := fresh_fh i) \<and>
        fsys y' = fsys y \<and> open_fds (fd_free y' i) = open_fds y) \<and>
   (case alloc_seq fd_take n y of
      None \<Rightarrow> FD_MAX - card (open_fds y) < n
    | Some (fds, y') \<Rightarrow> length fds = n \<and> distinct fds \<and> open_fds y' = open_fds y \<union> nat ` set fds)"
proof (intro conjI)
  show "case fd_alloc y of
      (None, y') \<Rightarrow> y' = y \<and> open_fds y = {0..<FD_MAX}
    | (Some i, y') \<Rightarrow> i < FD_MAX \<and> i \<notin> open_fds y \<and> open_fds y' = insert i (open_fds y) \<and> f_table y' = (f_table y)(i := fresh_fh i) \<and>
        fsys y' = fsys y \<and> open_fds (fd_free y' i) = open_fds y"
  proof (cases y rule: fd_alloc_cases)
    case (got i)
    let ?y = "y\<lparr>fd_hint := (i + 1) mod FD_MAX, f_table := (f_table y)(i := fresh_fh i)\<rparr>"
    have take: "fd_take y = (int i, ?y)" "int i \<noteq> - 1"
      using got by (simp_all add: fd_take_def)
    show ?thesis
      using fdt.alloc_fresh [OF TrueI take] fdt.alloc_free_used [OF TrueI take] got by (simp add: fd_give_def)
  qed simp
  have "open_fds y \<subseteq> {0..<FD_MAX}" by (auto simp: open_fds_def)
  moreover from this have "card ({0..<FD_MAX} - open_fds y) = FD_MAX - card (open_fds y)"
    by (subst card_Diff_subset) (auto intro: finite_subset)
  ultimately show "case alloc_seq fd_take n y of
      None \<Rightarrow> FD_MAX - card (open_fds y) < n
    | Some (fds, y') \<Rightarrow> length fds = n \<and> distinct fds \<and> open_fds y' = open_fds y \<union> nat ` set fds"
    using fdt.alloc_seq_complete [where m = y and k = n] fdt.alloc_seq_fresh [where m = y and k = n]
    by (cases "alloc_seq fd_take n y") (auto simp: not_less [symmetric])
qed

subsection \<open>The process\<close>

definition proc_ok :: "sys \<Rightarrow> bool" where
  "proc_ok y \<longleftrightarrow> cache_ok (fsys y) \<and> is_cached (fsys y) (root_inode (fsys y)) \<and> (\<forall>p. cwd y = Inr p \<longrightarrow> is_cached (fsys y) p) \<and>
    (\<forall>i \<in> open_fds y. fh_file (f_table y i) = 0 \<or> is_cached (fsys y) (fh_file (f_table y i)))"

lemma proc_keeps:
  assumes "proc_ok y" "keeps (fsys y) s"
  shows "proc_ok (y\<lparr>fsys := s\<rparr>)"
  using assms keepsD [OF assms(2)] by (auto simp: proc_ok_def open_fds_def)

lemma start_ok:
  assumes "proc_ok y" "nameidata_init y dfd path flags = Inr nd"
  shows "nd_start nd = 0 \<or> is_cached (fsys y) (nd_start nd)" "nd_flags nd AND ND_PARENT = 0"
proof -
  have "p = 0 \<or> is_cached (fsys y) p" if "file_table_get y dfd = Inr p" for p
  proof -
    have "nat dfd \<in> open_fds y" "p = fh_file (f_table y (nat dfd))"
      using that by (auto simp: file_table_get_def open_fds_def nat_less_iff split: if_splits)
    with assms(1) show ?thesis by (simp add: proc_ok_def)
  qed
  then show "nd_start nd = 0 \<or> is_cached (fsys y) (nd_start nd)"
    using assms by (auto simp: nameidata_init_def Let_def proc_ok_def split: if_splits sum.splits)
  show "nd_flags nd AND ND_PARENT = 0"
    using assms by (auto simp: nameidata_init_def Let_def ND_PARENT_def ND_NOFOLLOW_def split: sum.splits if_splits)
qed

text \<open>A lookup of the calls, without \<open>ND_PARENT\<close>.\<close>

lemma call_lookup:
  assumes ok: "proc_ok y" and nd: "nameidata_init y dfd path flags = Inr nd" and run: "path_lookup (fsys y) nd = Some (ret, nd', s)"
  shows "walk_locks (fsys y) (ilocked (fsys y)) ret nd' s"
proof -
  have "is_cached (fsys y) (nd_start nd)"
    using start_ok [OF ok nd] run
    by (auto simp: path_lookup.simps [of _ nd] Let_def deref_def SHM_BASE_def split: if_splits)
  then show ?thesis
    using lookup_goodD [OF lookup_good_all run refl] start_ok [OF ok nd] ok by (simp add: proc_ok_def)
qed

lemma do_open_frame:
  assumes "do_slotfs_open y dfd path flags mode = Some (r, y')"
  shows "f_table y' = f_table y \<and> cwd y' = cwd y"
  using assms unfolding do_slotfs_open_def Let_def
  by (auto split: sum.splits if_splits Option.bind_splits)

lemma ref_inc_keeps: "cache_ok s \<Longrightarrow> keeps s (ref_inc s p)" "inum (ref_inc s p) q = inum s q" "ilocked (ref_inc s p) = ilocked s"
  by (auto simp: keeps_def cache_ok_def is_cached_def ref_inc_def upd_inode_def)

text \<open>After a lookup that succeeded, the call drops the lock of the inode it found.\<close>

lemma drop_lock:
  assumes w: "walk_locks s (ilocked s) 0 nd' s1" and k: "keeps s1 s2" "ilocked s2 = ilocked s1"
    and u: "inode_unlock s2 (inum s2 (nd_current nd')) = Some s'"
  shows "keeps s s' \<and> is_cached s' (nd_current nd') \<and> ilocked s' = ilocked s"
proof -
  have w': "keeps s s1" "is_cached s1 (nd_current nd')" "\<not> ilocked s (inum s1 (nd_current nd'))"
    "ilocked s1 = (ilocked s)(inum s1 (nd_current nd') := True)"
    using w by (auto simp: walk_locks_def)
  have "keeps s1 s'" "ilocked s' = ilocked s"
    using release_keeps [OF k(1) w'(2) u] w'(3,4) k(2) by (auto simp: fun_upd_idem)
  with w'(1,2) show ?thesis
    by (auto intro: keeps_trans dest: keepsD)
qed

lemma do_open_keeps:
  assumes ok: "proc_ok y" and flags: "flags AND O_CREAT = 0" and run: "do_slotfs_open y dfd path flags mode = Some (r, y')"
  shows "proc_ok y' \<and> ilocked (fsys y') = ilocked (fsys y) \<and> (\<forall>p. r = Inr p \<longrightarrow> is_cached (fsys y') p)"
proof (cases "nameidata_init y dfd path flags")
  case (Inl e)
  with run ok show ?thesis by (auto simp: do_slotfs_open_def)
next
  case (Inr nd)
  obtain ret nd' s where l: "path_lookup (fsys y) nd = Some (ret, nd', s)"
    using run Inr flags by (cases "path_lookup (fsys y) nd") (auto simp: do_slotfs_open_def)
  note w = call_lookup [OF ok Inr l]
  have ck: "cache_ok s"
    using w by (auto simp: walk_locks_def dest: keepsD(1))
  show ?thesis
  proof (cases "ret = 0")
    case False
    with run Inr flags l have "r = Inl ret" "y' = y\<lparr>fsys := s\<rparr>"
      by (auto simp: do_slotfs_open_def)
    with w False ok show ?thesis by (auto simp: walk_locks_def intro: proc_keeps)
  next
    case True
    let ?q = "nd_current nd'"
    obtain s2 s' where s: "s2 = s \<or> s2 = ref_inc s ?q" "inode_unlock s2 (inum s ?q) = Some s'"
      and y': "y' = y\<lparr>fsys := s'\<rparr>" "\<forall>p. r = Inr p \<longrightarrow> p = ?q"
      using run Inr flags l True by (auto simp: do_slotfs_open_def ino_of_def split: if_splits Option.bind_splits)
    have "keeps s s2" "ilocked s2 = ilocked s" "inum s2 ?q = inum s ?q"
      using s(1) ck by (auto simp: ref_inc_keeps keeps_refl)
    with drop_lock [OF w [unfolded True], of s2 s'] s(2) y' ok show ?thesis
      by (auto intro: proc_keeps)
  qed
qed

lemma proc_fresh: "proc_ok y \<Longrightarrow> proc_ok (y\<lparr>fd_hint := h, f_table := (f_table y)(i := fresh_fh i)\<rparr>)"
  by (auto simp: proc_ok_def open_fds_def fresh_fh_def)

lemma open_existing:
  assumes "proc_ok y" "flags AND O_CREAT = 0" "slotfs_open y dfd path flags mode = Some (fd, y')"
  shows "proc_ok y' \<and> ilocked (fsys y') = ilocked (fsys y) \<and>
    (fd = - 1 \<or> (\<exists>i. fd = int i \<and> i \<notin> open_fds y \<and> open_fds y' = insert i (open_fds y) \<and>
       is_cached (fsys y') (fh_file (f_table y' i)) \<and> fh_offset (f_table y' i) = 0 \<and> fh_flags (f_table y' i) = flags))"
proof (cases y rule: fd_alloc_cases)
  case full
  with assms show ?thesis
    by (auto simp: slotfs_open_def set_errno_def proc_ok_def open_fds_def)
next
  case (got i)
  let ?y = "y\<lparr>fd_hint := (i + 1) mod FD_MAX, f_table := (f_table y)(i := fresh_fh i)\<rparr>"
  obtain r y1 where 1: "do_slotfs_open ?y dfd path flags mode = Some (r, y1)"
    using assms(3) got(1) by (cases "do_slotfs_open ?y dfd path flags mode") (auto simp: slotfs_open_def)
  note k = do_open_keeps [OF proc_fresh [OF assms(1)] assms(2) 1] and f = do_open_frame [OF 1]
  show ?thesis
  proof (cases r)
    case (Inl e)
    with assms(3) got(1) 1 k show ?thesis
      by (auto simp: slotfs_open_def set_errno_def proc_ok_def open_fds_def)
  next
    case (Inr p)
    then have y': "fd = int i" "y' = upd_fh y1 i (\<lambda>f. f\<lparr>fh_file := p, fh_flags := flags\<rparr>)"
      using assms(3) got(1) 1 f by (auto simp: slotfs_open_def upd_fh_def fresh_fh_def)
    then have t: "f_table y' = (f_table y)(i := (fresh_fh i)\<lparr>fh_file := p, fh_flags := flags\<rparr>)" "fsys y' = fsys y1" "cwd y' = cwd y1"
      using f by (auto simp: upd_fh_def)
    have "open_fds y' = insert i (open_fds y)"
      using t(1) got(2) by (auto simp: open_fds_def fresh_fh_def)
    moreover have "proc_ok y'"
      using k Inr t f by (auto simp: proc_ok_def open_fds_def fresh_fh_def)
    ultimately show ?thesis
      using k Inr t y'(1) got(3) by (auto simp: fresh_fh_def)
  qed
qed

text \<open>C17: Opening a file that exists (no \<open>O_CREAT\<close>). A call that returns holds no lock that was not held before and keeps the
  process and the inode cache consistent; when it succeeds, its result is a descriptor that was not in use, which is
  now the one more in use, at offset 0 and with an inode of the cache.\<close>

theorem slotfs_open_existing:
  assumes "proc_ok y" "flags AND O_CREAT = 0" "slotfs_open y dfd path flags mode = Some (fd, y')"
  shows "proc_ok y' \<and> ilocked (fsys y') = ilocked (fsys y) \<and>
    (fd = - 1 \<or> (\<exists>i. fd = int i \<and> i \<notin> open_fds y \<and> open_fds y' = insert i (open_fds y) \<and>
       is_cached (fsys y') (fh_file (f_table y' i)) \<and> fh_offset (f_table y' i) = 0 \<and> fh_flags (f_table y' i) = flags))"
  by (rule open_existing [OF assms])

text \<open>A failed open loses its descriptor. Whenever \<open>slotfs_open\<close> takes a descriptor and then fails, for any
  reason, the descriptor stays in use; \<open>slotfs_close\<close> rejects it, because it has no file, and changes nothing
  but the error number.\<close>

theorem slotfs_open_failed_leaks:
  assumes "fd_alloc y = (Some i, y0)" "slotfs_open y dfd path flags mode = Some (- 1, y')"
  shows "i \<notin> open_fds y \<and> open_fds y' = insert i (open_fds y) \<and>
    slotfs_close y' (int i) = Some (- 1, set_errno y' (- EBADFD))"
proof (cases y rule: fd_alloc_cases)
  case (got j)
  with assms(1) have [simp]: "j = i" by simp
  let ?y = "y\<lparr>fd_hint := (i + 1) mod FD_MAX, f_table := (f_table y)(i := fresh_fh i)\<rparr>"
  obtain r y1 where 1: "do_slotfs_open ?y dfd path flags mode = Some (r, y1)"
    using assms(2) got(1) by (cases "do_slotfs_open ?y dfd path flags mode") (auto simp: slotfs_open_def)
  note f = do_open_frame [OF 1]
  then obtain e where "r = Inl e" "y' = set_errno y1 e"
    using assms(2) got(1) 1 by (cases r) (auto simp: slotfs_open_def upd_fh_def fresh_fh_def)
  then have t: "f_table y' = (f_table y)(i := fresh_fh i)"
    using f by (simp add: set_errno_def)
  then have "open_fds y' = insert i (open_fds y)"
    using got(2) by (auto simp: open_fds_def fresh_fh_def)
  with t got(2,3) show ?thesis
    by (simp add: slotfs_close_def fh_index_def fresh_fh_def)
qed (use assms(1) in simp)

subsection \<open>Calls on a name of the current directory\<close>

text \<open>A name without slashes, and a directory whose lock is free.\<close>

definition plain_name :: "string \<Rightarrow> bool" where
  "plain_name name \<longleftrightarrow> name \<noteq> [] \<and> (\<forall>c \<in> set name. \<not> is_slash c)"

definition free_lock :: "fs \<Rightarrow> nat \<Rightarrow> bool" where
  "free_lock s i \<longleftrightarrow> i < slot_num (slots_of s SLOT_INODE) \<and> \<not> ilocked s i"

definition lock_held :: "fs \<Rightarrow> nat \<Rightarrow> fs" where
  "lock_held s i = s\<lparr>ilocked := (ilocked s)(i := True)\<rparr>"

lemma lock_held_eq: "inode_lock s i = (if free_lock s i then Some (lock_held s i) else None)"
  by (simp add: inode_lock_def free_lock_def lock_held_def)

lemma plain_parts:
  assumes "plain_name name"
  shows "skip_slashes name = name" "skip_name name = []" "name_len name = length name" "is_slash (hd name) \<longleftrightarrow> False"
proof -
  obtain c cs where "name = c # cs" "\<not> is_slash c"
    using assms by (cases name) (auto simp: plain_name_def)
  then show "skip_slashes name = name" "is_slash (hd name) \<longleftrightarrow> False"
    by (simp_all add: skip_slashes_def)
  have "takeWhile (\<lambda>x. \<not> is_slash x) name = name"
    using assms by (simp add: plain_name_def)
  then show "name_len name = length name"
    unfolding name_len_def by (rule arg_cong [of _ _ length])
  show "skip_name name = []"
    using assms by (simp add: skip_name_def plain_name_def)
qed

lemma parent_plain:
  assumes n: "plain_name name" and c: "cwd y = Inr p" "SHM_BASE \<le> p" "free_lock (fsys y) (inum (fsys y) p)"
  shows "\<exists>nd. parent_lookup y name = Some (0, nd, y\<lparr>fsys := lock_held (fsys y) (inum (fsys y) p)\<rparr>) \<and> nd_parent nd = p \<and> nd_name nd = name"
proof -
  note pp = plain_parts [OF n]
  have "path_walk s nd name = Some (0, nd\<lparr>nd_last := name, nd_last_len := length name, nd_parent := p, nd_current := 0\<rparr>, s)"
    if "nd_current nd = p" "nd_flags nd AND ND_PARENT \<noteq> 0" for s nd
    using that pp c(2) unfolding path_walk.simps [of s nd name] Let_def by (simp add: deref_def skip_slashes_def)
  then show ?thesis
    using c n pp(1,4)
    by (auto simp: parent_lookup_def nameidata_init_def Let_def path_lookup.simps [of "fsys y"] lock_held_eq deref_def ND_PARENT_def
        nd_name_def plain_name_def)
qed

lemma lookup_loop_same:
  assumes "dirent_lookup_loop s t h n = Some r" "dirent_mem s' = dirent_mem s"
  shows "dirent_lookup_loop s' t h n = Some r"
proof (rule dirent_lookup_loop.raw_induct [where P = "\<lambda>s t h n r. dirent_mem s' = dirent_mem s \<longrightarrow> dirent_lookup_loop s' t h n = Some r",
      OF _ assms(1), rule_format, OF _ assms(2)])
  fix loop s t h n r
  assume IH: "\<And>s t h n r. loop s t h n = Some r \<Longrightarrow> dirent_mem s' = dirent_mem s \<Longrightarrow> dirent_lookup_loop s' t h n = Some r"
    and step: "(if n = 0 then Some 0 else if h < d_hash (dirent_mem s n) then loop s t h (left_of t n)
      else if d_hash (dirent_mem s n) < h then loop s t h (right_of t n) else Some n) = Some r"
    and same: "dirent_mem s' = dirent_mem s"
  show "dirent_lookup_loop s' t h n = Some r"
    using step IH [OF _ same] same unfolding dirent_lookup_loop.simps [of s' t h n] by (auto split: if_splits)
qed

lemma inode_lookup_same:
  assumes "inode_lookup s dir name = Some d" "dirent_mem s' = dirent_mem s" "rb_mem s' = rb_mem s" "inode_mem s' dir = inode_mem s dir"
  shows "inode_lookup s' dir name = Some d"
  using assms lookup_loop_same [OF _ assms(2)]
  by (auto simp: inode_lookup_def dirent_lookup_def rb_of_def split: if_splits)

text \<open>C35: Unlinking a directory. \<open>slotfs_unlink\<close> refuses a directory with \<open>EISDIR\<close> and leaves the name in the parent's index,
  but it has given the entry back to the arena: the next entry that any directory allocates is the same object,
  while the name still leads to it.\<close>

theorem slotfs_unlink_dir_frees:
  assumes "cwd y = Inr p" "SHM_BASE \<le> p" "free_lock (fsys y) (inum (fsys y) p)" "plain_name name"
    and "inode_lookup (fsys y) p name = Some d" "SHM_BASE \<le> d" "i = d_ino (dirent_mem (fsys y) d)" "i \<noteq> inum (fsys y) p"
    and "free_lock (fsys y) i" "itable (fsys y) i = q" "q \<noteq> 0" "inum (fsys y) q = i" "is_dir (inode_mem (fsys y) q)"
  shows "\<exists>y'. slotfs_unlink y name = Some (- EISDIR, y') \<and> ilocked (fsys y') = ilocked (fsys y) \<and>
    inode_lookup (fsys y') p name = Some d \<and> fst (dirent_alloc (fsys y')) = d"
proof -
  let ?s = "lock_held (fsys y) (inum (fsys y) p)"
  obtain nd where nd: "parent_lookup y name = Some (0, nd, y\<lparr>fsys := ?s\<rparr>)" "nd_parent nd = p" "nd_name nd = name"
    using parent_plain [OF assms(4,1-3)] by blast
  have l: "inode_lookup ?s p name = Some d"
    by (rule inode_lookup_same [OF assms(5)]) (simp_all add: lock_held_def)
  have g: "iget ?s i = Some (Inr q, lock_held ?s i)"
    using assms(8-11) by (simp add: iget_def lock_held_eq free_lock_def lock_held_def)
  have d: "d \<noteq> 0" "deref d = Some ()" "deref p = Some ()" "d_ino (dirent_mem ?s d) = i"
    using assms(2,6,7) by (simp_all add: deref_def SHM_BASE_def lock_held_def)
  let ?t = "dirent_free ((lock_held ?s i)\<lparr>ilocked := (ilocked (lock_held ?s i))(i := False)\<rparr>) d"
  have run: "slotfs_unlink y name = Some (- EISDIR, y\<lparr>fsys := ?t\<lparr>ilocked := (ilocked ?t)(inum (fsys y) p := False)\<rparr>\<rparr>)"
    using nd l g d assms(3,9,12,13)
    by (simp add: slotfs_unlink_def Let_def ino_of_def inode_unlock_def free_lock_def dirent_free_def entry_free_def) (simp add: lock_held_def)
  have "inode_lookup (?t\<lparr>ilocked := k\<rparr>) p name = Some d" for k
    by (rule inode_lookup_same [OF assms(5)]) (simp_all add: lock_held_def dirent_free_def entry_free_def)
  moreover have "(ilocked ?t)(inum (fsys y) p := False) = ilocked (fsys y)" "fst (dirent_alloc (?t\<lparr>ilocked := k\<rparr>)) = d" for k
    using assms(3,9)
    by (auto simp: lock_held_def dirent_free_def entry_free_def dirent_alloc_def entry_alloc_def pool_free_def pool_alloc_def free_lock_def
        fun_upd_idem)
  ultimately show ?thesis
    using run by simp
qed

text \<open>C36: A symbolic link over an existing name. \<open>slotfs_symlink\<close> reports \<open>EEXIST\<close> and keeps the lock of the parent directory:
  every later path resolution of the process that starts at that directory waits for a lock it holds itself and does not return.\<close>

theorem slotfs_symlink_exists_locked:
  assumes "cwd y = Inr p" "SHM_BASE \<le> p" "free_lock (fsys y) (inum (fsys y) p)" "plain_name name"
    and "inode_lookup (fsys y) p name = Some d" "d \<noteq> 0"
  shows "\<exists>y'. slotfs_symlink y target name = Some (- EEXIST, y') \<and> ilocked (fsys y') (inum (fsys y) p) \<and>
    (\<forall>path flags. path = [] \<or> \<not> is_slash (hd path) \<longrightarrow> slotfs_stat y' AT_FDCWD (Some path) flags = None)"
proof -
  let ?s = "lock_held (fsys y) (inum (fsys y) p)"
  obtain nd where nd: "parent_lookup y name = Some (0, nd, y\<lparr>fsys := ?s\<rparr>)" "nd_parent nd = p" "nd_name nd = name"
    using parent_plain [OF assms(4,1-3)] by blast
  have l: "inode_lookup ?s p name = Some d"
    by (rule inode_lookup_same [OF assms(5)]) (simp_all add: lock_held_def)
  have run: "slotfs_symlink y target name = Some (- EEXIST, y\<lparr>fsys := ?s\<rparr>)"
    using nd l assms(2,6) by (simp add: slotfs_symlink_def Let_def deref_def)
  have "path_lookup ?s nd = None" if "nd_start nd = p" "nd_flags nd AND ND_PARENT = 0" for nd
    using that by (simp add: path_lookup.simps [of ?s nd] Let_def lock_held_eq) (simp add: free_lock_def lock_held_def deref_def)
  then have "slotfs_stat (y\<lparr>fsys := ?s\<rparr>) AT_FDCWD (Some path) flags = None" if "path = [] \<or> \<not> is_slash (hd path)" for path flags
    using that assms(1)
    by (auto simp: slotfs_stat_def nameidata_init_def Let_def AT_FDCWD_def ND_PARENT_def ND_NOFOLLOW_def)
  with run show ?thesis
    by (auto simp: lock_held_def)
qed

subsection \<open>Examples\<close>

definition tree_sys :: sys where
  "tree_sys = \<lparr>fsys = tree_example, f_table = \<lambda>i. (fresh_fh i)\<lparr>fh_valid := False\<rparr>, fd_hint = 0, sys_errno = 0, cwd = Inr SHM_BASE,
     user_dirents = \<lambda>_. \<lparr>ud_ino = 0, ud_off = 0, ud_reclen = 0, ud_name = []\<rparr>\<rparr>"

lemma tree_sys_ok: "proc_ok tree_sys"
  using tree_ok by (simp add: proc_ok_def tree_sys_def open_fds_def)

lemma tree_fd: "fd_alloc tree_sys = (Some 0, tree_sys\<lparr>fd_hint := 1, f_table := (f_table tree_sys)(0 := fresh_fh 0)\<rparr>)"
proof -
  have "[0..<FD_MAX] = 0 # [1..<FD_MAX]" by (simp add: upt_conv_Cons)
  moreover have "FD_MAX > 1" by (simp add: FD_MAX_def)
  ultimately show ?thesis
    by (simp add: fd_alloc_def tree_sys_def upd_fh_def fresh_fh_def Let_def)
qed

lemma tree_open: "\<exists>y. slotfs_open tree_sys AT_FDCWD ''/d/'' 0 0 = Some (0, y)"
proof -
  let ?y = "tree_sys\<lparr>fd_hint := 1, f_table := (f_table tree_sys)(0 := fresh_fh 0)\<rparr>"
  have nd: "nameidata_init ?y AT_FDCWD ''/d/'' 0 = Inr (tree_nd ''/d/'')"
    by (simp add: nameidata_init_def tree_sys_def tree_nd_def is_slash_def)
  obtain nd where "path_lookup tree_example (tree_nd ''/d/'') =
     Some (0, nd, tree_example\<lparr>ilocked := (\<lambda>_. False)(2 := False, 3 := True)\<rparr>)" "nd_current nd = SHM_BASE + 128"
    using tree_lookup(1) by blast
  then have "\<exists>y. do_slotfs_open ?y AT_FDCWD ''/d/'' 0 0 = Some (Inr (SHM_BASE + 128), y)"
    unfolding do_slotfs_open_def nd
    by (simp add: tree_sys_def deref_def ino_of_def inode_unlock_def ref_inc_def upd_inode_def zero_inode_def)
  then obtain y where y: "do_slotfs_open ?y AT_FDCWD ''/d/'' 0 0 = Some (Inr (SHM_BASE + 128), y)" by blast
  have "fh_fd (f_table y 0) = 0"
    using do_open_frame [OF y] by (simp add: fresh_fh_def)
  with y tree_fd show ?thesis
    by (simp add: slotfs_open_def upd_fh_def)
qed

theorem slotfs_open_existing_witness:
  "\<exists>y. slotfs_open tree_sys AT_FDCWD ''/d/'' 0 0 = Some (0, y) \<and> proc_ok y \<and> ilocked (fsys y) = (\<lambda>_. False) \<and> open_fds y = {0} \<and>
     is_cached (fsys y) (fh_file (f_table y 0))"
proof -
  obtain y where y: "slotfs_open tree_sys AT_FDCWD ''/d/'' 0 0 = Some (0, y)"
    using tree_open by blast
  have "ilocked (fsys tree_sys) = (\<lambda>_. False)" "open_fds tree_sys = {}"
    by (simp_all add: tree_sys_def open_fds_def)
  with y slotfs_open_existing [OF tree_sys_ok _ y] show ?thesis by auto
qed

theorem slotfs_open_failed_leaks_witness:
  "\<exists>y. slotfs_open tree_sys AT_FDCWD ''d/x'' 0 0 = Some (- 1, y) \<and> open_fds y = {0} \<and>
     slotfs_close y 0 = Some (- 1, set_errno y (- EBADFD))"
proof -
  let ?y = "tree_sys\<lparr>fd_hint := 1, f_table := (f_table tree_sys)(0 := fresh_fh 0)\<rparr>"
  have nd: "nameidata_init ?y AT_FDCWD ''d/x'' 0 = Inr (tree_nd ''d/x'')"
    by (simp add: nameidata_init_def tree_sys_def tree_nd_def is_slash_def)
  obtain nd s where "path_lookup tree_example (tree_nd ''d/x'') = Some (- ENOENT, nd, s)"
    using tree_lookup(2) by blast
  then have "do_slotfs_open ?y AT_FDCWD ''d/x'' 0 0 = Some (Inl (- ENOENT), ?y\<lparr>fsys := s\<rparr>)"
    unfolding do_slotfs_open_def nd by (simp add: tree_sys_def ENOENT_def)
  then obtain y where y: "slotfs_open tree_sys AT_FDCWD ''d/x'' 0 0 = Some (- 1, y)"
    using tree_fd by (simp add: slotfs_open_def)
  have "open_fds tree_sys = {}"
    by (simp add: tree_sys_def open_fds_def)
  with y slotfs_open_failed_leaks [OF tree_fd y] show ?thesis by auto
qed

lemma tree_name:
  "cwd tree_sys = Inr SHM_BASE" "fsys tree_sys = tree_example" "plain_name ''d''"
  "inode_lookup tree_example SHM_BASE ''d'' = Some (SHM_BASE + 64)"
  by (simp_all add: tree_sys_def plain_name_def walk_eval)

theorem slotfs_unlink_dir_frees_witness:
  "\<exists>y. slotfs_unlink tree_sys ''d'' = Some (- EISDIR, y) \<and> inode_lookup (fsys y) SHM_BASE ''d'' = Some (SHM_BASE + 64) \<and>
     fst (dirent_alloc (fsys y)) = SHM_BASE + 64"
proof -
  have "free_lock tree_example 2" "free_lock tree_example 3" "SHM_BASE \<noteq> 0"
    by (simp_all add: free_lock_def SHM_BASE_def)
  then show ?thesis
    using slotfs_unlink_dir_frees [of tree_sys SHM_BASE "''d''" "SHM_BASE + 64" 3 "SHM_BASE + 128"]
    by (auto simp: tree_name zero_inode_def is_dir_def S_IFDIR_def S_IFMT_def)
qed

theorem slotfs_symlink_exists_locked_witness:
  "\<exists>y. slotfs_symlink tree_sys ''t'' ''d'' = Some (- EEXIST, y) \<and> slotfs_stat y AT_FDCWD (Some ''x'') 0 = None"
proof -
  have "free_lock tree_example 2" "SHM_BASE \<noteq> 0"
    by (simp_all add: free_lock_def SHM_BASE_def)
  then show ?thesis
    using slotfs_symlink_exists_locked [of tree_sys SHM_BASE "''d''" "SHM_BASE + 64" "''t''"]
    by (auto simp: tree_name zero_inode_def is_slash_def)
qed

end
