(* ===== verification/Rb_Insert.thy ===== *)
theory Rb_Insert imports Rb_Rep begin

text \<open>
  \<open>__rb_insert\<close> of \<open>rbtree.c\<close>: a round of the loop on the store is a round of \<open>ins_step\<close> on trees, the
  loop ends, keeps the in-order sequence and restores the red-black invariant.
\<close>

subsection \<open>One round, on trees\<close>

text \<open>One round of \<open>__rb_insert\<close> on a subtree and its context; the flag says whether the loop goes
  on.\<close>

fun ins_step :: "rb_frame list \<Rightarrow> rbt \<Rightarrow> bool \<times> rb_frame list \<times> rbt" where
  "ins_step [] t = (False, [], paint Black t)"
| "ins_step (LF Red p pr # LF cg g u # k) t =
    (if is_red_t u then (True, k, Node Red (Node Black t p pr) g (paint Black u))
     else (False, k, Node cg t p (Node Red (paint Black pr) g u)))"
| "ins_step (RF Red pl p # LF cg g u # k) (Node c nl n nr) =
    (if is_red_t u then (True, k, Node Red (Node Black pl p (Node c nl n nr)) g (paint Black u))
     else (False, k, Node cg (Node Red pl p (paint Black nl)) n (Node Red (paint Black nr) g u)))"
| "ins_step (RF Red pl p # RF cg u g # k) t =
    (if is_red_t u then (True, k, Node Red (paint Black u) g (Node Black pl p t))
     else (False, k, Node cg (Node Red u g (paint Black pl)) p t))"
| "ins_step (LF Red p pr # RF cg u g # k) (Node c nl n nr) =
    (if is_red_t u then (True, k, Node Red (paint Black u) g (Node Black (Node c nl n nr) p pr))
     else (False, k, Node cg (Node Red u g (paint Black nl)) n (Node Red (paint Black nr) p pr)))"
| "ins_step k t = (False, k, t)"

lemma insert_flip_L:
  assumes z: "zrep s (LF cg g u # k) (Node Red a p b)" and u: "is_red_t u"
  shows "\<exists>s'. rb_insert_step s node p = Rb_More s' g (cpar k) \<and>
    zrep s' k (Node Red (Node Black a p b) g (paint Black u))"
proof -
  have c: "crep s g k" and d: "distinct (inorder a @ p # inorder b @ g # inorder u @ cnodes k)"
    and pg: "p \<noteq> 0" "4 dvd p" "g \<noteq> 0" "4 dvd g" "pc_of s p = g + cbit Red" "pc_of s g = cpar k + cbit cg"
      "left_of s g = p"
    and r: "rep s p (left_of s p) a" "rep s p (right_of s p) b" "rep s g (right_of s g) u"
    using z by (auto simp: zrep_def)
  from u obtain ul un ur where uN: "u = Node Red ul un ur"
    by (cases u rule: is_red_t.cases) auto
  have un: "right_of s g = un" "un \<noteq> 0" "4 dvd un" "rep s un (left_of s un) ul" "rep s un (right_of s un) ur"
    using r(3) uN by auto
  let ?s1 = "rb_set_parent_color (rb_set_parent_color s un g RB_BLACK) p g RB_BLACK"
  let ?s = "rb_set_parent_color ?s1 g (cpar k) RB_RED"
  have k4: "4 dvd cpar k"
    using crep_dvd [OF c] .
  have dd: "p \<noteq> g" "p \<noteq> un" "g \<noteq> un" "p \<notin> set (cnodes k)" "g \<notin> set (cnodes k)" "un \<notin> set (cnodes k)"
    using d uN by auto
  have par: "rb_parent ?s1 g = cpar k"
    using pg dd k4 by (simp add: rb_parent_def)
  have step: "rb_insert_step s node p = Rb_More ?s g (cpar k)"
    using pg un dd par red_in_store [OF r(3)] u
    by (simp add: rb_insert_step_def rb_is_black_def Let_def)
  have "crep ?s g k"
    by (rule crep_keep [OF c]) (use dd in auto)
  moreover have "rep ?s p (left_of s p) a"
    by (rule rep_keep [OF r(1)]) (use d uN in auto)
  moreover have "rep ?s p (right_of s p) b"
    by (rule rep_keep [OF r(2)]) (use d uN in auto)
  moreover have "rep ?s un (left_of s un) ul" "rep ?s un (right_of s un) ur"
    by (rule rep_keep [OF un(4)]; use d uN in auto) (rule rep_keep [OF un(5)]; use d uN in auto)
  ultimately have "zrep ?s k (Node Red (Node Black a p b) g (paint Black u))"
    using pg un dd d k4 by (simp add: zrep_def uN)
  with step show ?thesis by blast
qed

text \<open>The right rotation at \<open>g\<close> (case 3), with \<open>p\<close> the left child that moves up.\<close>

definition rotate_right_at :: "rb_tree \<Rightarrow> nat \<Rightarrow> nat \<Rightarrow> rb_tree" where
  "rotate_right_at s g p =
    (let tmp = right_of s p; s = set_left s g tmp; s = set_right s p g;
         s = (if tmp \<noteq> 0 then rb_set_parent_color s tmp g RB_BLACK else s)
     in rb_rotate_set_parents s g p RB_RED)"

lemma insert_rotate_L:
  assumes c: "crep s g k" and d: "distinct (inorder a @ p # inorder b @ g # inorder u @ cnodes k)"
    and pg: "p \<noteq> 0" "4 dvd p" "g \<noteq> 0" "4 dvd g" "pc_of s g = cpar k + cbit cg"
    and r: "rep s p (left_of s p) a" "rep s p (right_of s p) b" "rep s g (right_of s g) u"
  shows "zrep (rotate_right_at s g p) k (Node cg a p (Node Red (paint Black b) g u))"
proof -
  define tmp where "tmp = right_of s p"
  define s3 where "s3 = (let s = set_right (set_left s g tmp) p g
     in if tmp \<noteq> 0 then rb_set_parent_color s tmp g RB_BLACK else s)"
  have tb: "tmp = ptr_of b" "tmp \<noteq> 0 \<Longrightarrow> tmp \<in> set (inorder b)" "b \<noteq> Leaf \<Longrightarrow> tmp \<noteq> 0"
    using r(2) by (cases b; simp add: tmp_def)+
  have s3: "left_of s3 x = (if x = g then tmp else left_of s x)"
    "right_of s3 x = (if x = p then g else right_of s x)"
    "pc_of s3 x = (if x = tmp \<and> tmp \<noteq> 0 then g + cbit Black else pc_of s x)" "rb_root s3 = rb_root s" for x
    using pg by (auto simp: s3_def Let_def)
  have dd: "p \<noteq> g" "p \<notin> set (cnodes k)" "g \<notin> set (cnodes k)" "tmp \<noteq> 0 \<Longrightarrow> tmp \<noteq> g" "distinct (cnodes k)"
    "tmp \<noteq> 0 \<Longrightarrow> tmp \<notin> set (cnodes k)"
    using d tb by auto
  have c3: "crep s3 g k"
    by (rule crep_keep [OF c]) (use dd in \<open>auto simp: s3\<close>)
  have e: "rotate_right_at s g p = rb_rotate_set_parents s3 g p (cbit Red)"
    by (simp add: rotate_right_at_def s3_def tmp_def Let_def)
  have pcg: "pc_of s3 g = cpar k + cbit cg"
    using pg dd by (auto simp: s3)
  note R = rotate_set_parents [OF c3 pcg pg(3) dd(1) pg(2) dd(3,2,5) e]
  have nz: "x \<noteq> 0" if "x \<in> set (inorder a) \<union> set (inorder b) \<union> set (inorder u)" for x
    using that rep_nonzero [OF r(1)] rep_nonzero [OF r(2)] rep_nonzero [OF r(3)] by auto
  let ?s = "rotate_right_at s g p"
  have rd: "left_of ?s x = left_of s3 x \<and> right_of ?s x = right_of s3 x \<and> pc_of ?s x = pc_of s3 x"
    if "x \<in> set (inorder a) \<union> set (inorder b) \<union> set (inorder u)" for x
  proof -
    have "x \<notin> set (cnodes k)" "x \<noteq> g" "x \<noteq> p"
      using that d by auto
    then show ?thesis
      using R(4,5) nz [OF that] by simp
  qed
  have "rep ?s p (left_of s p) a"
    by (rule rep_keep [OF r(1)]) (use d tb rd in \<open>auto simp: s3\<close>)
  moreover have "rep ?s g tmp (paint Black b)"
    by (rule rep_move [OF r(2) [folded tmp_def]]) (use d tb dd rd in \<open>auto simp: s3\<close>)
  moreover have "rep ?s g (right_of s g) u"
    by (rule rep_keep [OF r(3)]) (use d tb rd in \<open>auto simp: s3\<close>)
  ultimately show ?thesis
    using R(1-3) R(4) [of p] R(4) [of g] pg dd d by (simp add: zrep_def s3)
qed

lemma insert_step_LL:
  assumes z: "zrep s (LF Red p b # LF cg g u # k) t" and t: "t \<noteq> Leaf" and u: "\<not> is_red_t u"
  shows "rb_insert_step s (ptr_of t) p = Rb_Done (rotate_right_at s g p) \<and>
    zrep (rotate_right_at s g p) k (Node cg t p (Node Red (paint Black b) g u))"
proof -
  have c: "crep s g k" and d: "distinct (inorder t @ p # inorder b @ g # inorder u @ cnodes k)"
    and pg: "p \<noteq> 0" "4 dvd p" "g \<noteq> 0" "4 dvd g" "pc_of s p = g + cbit Red" "pc_of s g = cpar k + cbit cg"
      "left_of s g = p" "left_of s p = ptr_of t"
    and r: "rep s p (ptr_of t) t" "rep s p (right_of s p) b" "rep s g (right_of s g) u"
    using z by (auto simp: zrep_def)
  have tp: "ptr_of t \<in> set (inorder t)" "ptr_of t \<noteq> 0"
    using ptr_in [OF t] rep_nonzero [OF r(1)] by auto
  have "ptr_of t \<noteq> right_of s p"
    using tp r(2) d by (cases b) auto
  moreover have "p \<noteq> right_of s g"
    using pg r(3) d by (cases u) auto
  moreover have "\<not> (right_of s g \<noteq> 0 \<and> rb_is_red s (right_of s g))"
    using red_in_store [OF r(3)] pg u by simp
  ultimately have "rb_insert_step s (ptr_of t) p = Rb_Done (rotate_right_at s g p)"
    using pg by (simp add: rb_insert_step_def rb_is_black_def Let_def rotate_right_at_def)
  moreover have "zrep (rotate_right_at s g p) k (Node cg t p (Node Red (paint Black b) g u))"
    using insert_rotate_L [OF c d pg(1-4,6) _ r(2,3)] r(1) pg(8) by simp
  ultimately show ?thesis by simp
qed

text \<open>The left rotation at \<open>p\<close> (case 2); it leaves the pointer of \<open>g\<close> and the parent of \<open>n\<close> to the
  rotation that follows.\<close>

definition rotate_left_at :: "rb_tree \<Rightarrow> nat \<Rightarrow> nat \<Rightarrow> rb_tree" where
  "rotate_left_at s p n =
    (let tmp = left_of s n; s = set_right s p tmp; s = set_left s n p;
         s = (if tmp \<noteq> 0 then rb_set_parent_color s tmp p RB_BLACK else s)
     in rb_set_parent_color s p n RB_RED)"

lemma rotate_left_at_facts:
  assumes d: "distinct (inorder a @ p # inorder nl @ n # inorder nr @ ys)"
    and pn: "p \<noteq> 0" "4 dvd p" "n \<noteq> 0" "4 dvd n"
    and r: "rep s p (left_of s p) a" "rep s n (left_of s n) nl" "rep s n (right_of s n) nr"
  shows "rep (rotate_left_at s p n) n p (Node Red a p (paint Black nl))"
    "rep (rotate_left_at s p n) n (right_of s n) nr" "left_of (rotate_left_at s p n) n = p"
    "right_of (rotate_left_at s p n) n = right_of s n" "rb_root (rotate_left_at s p n) = rb_root s"
    "\<And>x. x \<in> set ys \<Longrightarrow> left_of (rotate_left_at s p n) x = left_of s x \<and>
       right_of (rotate_left_at s p n) x = right_of s x \<and> pc_of (rotate_left_at s p n) x = pc_of s x"
proof -
  define tmp where "tmp = left_of s n"
  let ?s = "rotate_left_at s p n"
  have tb: "tmp = ptr_of nl" "tmp \<noteq> 0 \<Longrightarrow> tmp \<in> set (inorder nl)" "nl \<noteq> Leaf \<Longrightarrow> tmp \<noteq> 0"
    using r(2) by (cases nl; simp add: tmp_def)+
  have dd: "p \<noteq> n" "tmp \<noteq> p" "tmp \<noteq> n"
    using d tb pn by (cases "tmp = 0"; auto)+
  have f: "left_of ?s x = (if x = n then p else left_of s x)"
    "right_of ?s x = (if x = p then tmp else right_of s x)"
    "pc_of ?s x = (if x = p then n + cbit Red else if x = tmp \<and> tmp \<noteq> 0 then p + cbit Black else pc_of s x)" for x
    using pn dd by (auto simp: rotate_left_at_def tmp_def Let_def)
  show "rb_root ?s = rb_root s"
    by (simp add: rotate_left_at_def Let_def)
  show "left_of ?s n = p" "right_of ?s n = right_of s n"
    using dd by (simp_all add: f)
  have "rep ?s p (left_of s p) a"
    by (rule rep_keep [OF r(1)]) (use d tb in \<open>auto simp: f\<close>)
  moreover have "rep ?s p tmp (paint Black nl)"
    by (rule rep_move [OF r(2) [folded tmp_def]]) (use d tb dd in \<open>auto simp: f\<close>)
  ultimately show "rep ?s n p (Node Red a p (paint Black nl))"
    using pn dd by (simp add: f)
  show "rep ?s n (right_of s n) nr"
    by (rule rep_keep [OF r(3)]) (use d tb in \<open>auto simp: f\<close>)
  show "left_of ?s x = left_of s x \<and> right_of ?s x = right_of s x \<and> pc_of ?s x = pc_of s x" if "x \<in> set ys" for x
    using that d tb by (auto simp: f)
qed

lemma insert_step_LR:
  assumes z: "zrep s (RF Red a p # LF cg g u # k) (Node c nl n nr)" and u: "\<not> is_red_t u"
  shows "rb_insert_step s n p = Rb_Done (rotate_right_at (rotate_left_at s p n) g n) \<and>
    zrep (rotate_right_at (rotate_left_at s p n) g n) k
      (Node cg (Node Red a p (paint Black nl)) n (Node Red (paint Black nr) g u))"
proof -
  have c: "crep s g k" and d: "distinct (inorder a @ p # inorder nl @ n # inorder nr @ g # inorder u @ cnodes k)"
    and pg: "p \<noteq> 0" "4 dvd p" "g \<noteq> 0" "4 dvd g" "pc_of s p = g + cbit Red" "pc_of s g = cpar k + cbit cg"
      "left_of s g = p" "right_of s p = n" "n \<noteq> 0" "4 dvd n"
    and r: "rep s p (left_of s p) a" "rep s n (left_of s n) nl" "rep s n (right_of s n) nr" "rep s g (right_of s g) u"
    using z by (auto simp: zrep_def)
  let ?s = "rotate_left_at s p n"
  note F = rotate_left_at_facts [OF d pg(1,2,9,10) r(1-3)]
  have "p \<noteq> right_of s g"
    using pg r(4) d by (cases u) auto
  moreover have "\<not> (right_of s g \<noteq> 0 \<and> rb_is_red s (right_of s g))"
    using red_in_store [OF r(4)] pg u by simp
  ultimately have step: "rb_insert_step s n p = Rb_Done (rotate_right_at ?s g n)"
    using pg F(4) by (simp add: rb_insert_step_def rb_is_black_def Let_def rotate_right_at_def rotate_left_at_def)
  have "crep ?s g k"
    by (rule crep_keep [OF c]) (use F(5,6) in auto)
  moreover have "rep ?s g (right_of s g) u"
    by (rule rep_keep [OF r(4)]) (use F(6) in auto)
  ultimately have "zrep (rotate_right_at ?s g n) k
      (Node cg (Node Red a p (paint Black nl)) n (Node Red (paint Black nr) g u))"
    using F(1-4) F(6) [of g] d pg by (intro insert_rotate_L) auto
  with step show ?thesis by blast
qed

definition rotate_left_g :: "rb_tree \<Rightarrow> nat \<Rightarrow> nat \<Rightarrow> rb_tree" where
  "rotate_left_g s g p =
    (let tmp = left_of s p; s = set_right s g tmp; s = set_left s p g;
         s = (if tmp \<noteq> 0 then rb_set_parent_color s tmp g RB_BLACK else s)
     in rb_rotate_set_parents s g p RB_RED)"

lemma mirror_rotate_left_g:
  assumes "crep s g k" "pc_of s g = cpar k + cbit c" "g \<noteq> 0" "g \<notin> set (cnodes k)" "p \<notin> set (cnodes k)"
    "left_of s p \<noteq> g" "p \<noteq> 0"
  shows "mirror (rotate_left_g s g p) = rotate_right_at (mirror s) g p"
proof -
  let ?t = "left_of s p"
  let ?s = "if ?t \<noteq> 0 then rb_set_parent_color (set_left (set_right s g ?t) p g) ?t g RB_BLACK
    else set_left (set_right s g ?t) p g"
  have par: "rb_parent ?s g = cpar k"
    using assms crep_dvd [OF assms(1)] by (auto simp: rb_parent_def)
  have "cpar k \<noteq> g" "cpar k \<noteq> p"
    using assms cpar_in [of k] by auto
  then have "one_child ?s (rb_parent ?s g) g"
    unfolding par using crep_one_child [OF assms(1,3,4)] by (simp add: one_child_def)
  from mirror_rotate_set_parents [OF this, of p RB_RED] show ?thesis
    by (simp add: rotate_left_g_def rotate_right_at_def Let_def if_distrib [of mirror])
qed

definition rotate_right_p :: "rb_tree \<Rightarrow> nat \<Rightarrow> nat \<Rightarrow> rb_tree" where
  "rotate_right_p s p n =
    (let tmp = right_of s n; s = set_left s p tmp; s = set_right s n p;
         s = (if tmp \<noteq> 0 then rb_set_parent_color s tmp p RB_BLACK else s)
     in rb_set_parent_color s p n RB_RED)"

lemma mirror_rotate_right_p: "mirror (rotate_right_p s p n) = rotate_left_at (mirror s) p n"
  by (simp add: rotate_right_p_def rotate_left_at_def Let_def)

text \<open>The right-hand cases of the loop.\<close>

lemma insert_flip_R:
  assumes z: "zrep s (RF cg u g # k) (Node Red a p b)" and u: "is_red_t u"
  shows "\<exists>s'. rb_insert_step s node p = Rb_More s' g (cpar k) \<and>
    zrep s' k (Node Red (paint Black u) g (Node Black a p b))"
proof -
  have pg: "p \<noteq> 0" "4 dvd p" "g \<noteq> 0" "4 dvd g" "pc_of s p = g + cbit Red" "right_of s g = p"
      "pc_of s g = cpar k + cbit cg"
    and c: "crep s g k" and r: "rep s g (left_of s g) u" and d: "distinct (inorder a @ p # inorder b @ g # inorder u @ cnodes k)"
    using z by (auto simp: zrep_def)
  have "zrep (mirror s) (LF cg g (mirror_t u) # map mirror_f k) (Node Red (mirror_t b) p (mirror_t a))"
    using z zrep_mirror [of s "RF cg u g # k" "Node Red a p b"] by simp
  from insert_flip_L [OF this, of node] u obtain s' where
    s': "rb_insert_step (mirror s) node p = Rb_More s' g (cpar k)"
      "zrep s' (map mirror_f k) (Node Red (Node Black (mirror_t b) p (mirror_t a)) g (paint Black (mirror_t u)))"
    by auto
  have "left_of s g \<noteq> p" "left_of s g \<noteq> g" "p \<noteq> g"
    using r d pg by (cases u; auto)+
  then have "rb_insert_step s node p = Rb_More (mirror s') g (cpar k)"
    using s'(1) pg red_in_store [OF r] u crep_dvd [OF c]
    by (auto simp: rb_insert_step_def rb_is_black_def rb_parent_def Let_def)
  moreover have "zrep (mirror s') k (Node Red (paint Black u) g (Node Black a p b))"
    using s'(2) zrep_mirror [of "mirror s'" k "Node Red (paint Black u) g (Node Black a p b)"] by simp
  ultimately show ?thesis by blast
qed

lemma insert_step_RR:
  assumes z: "zrep s (RF Red b p # RF cg u g # k) t" and t: "t \<noteq> Leaf" and u: "\<not> is_red_t u"
  shows "\<exists>s'. rb_insert_step s (ptr_of t) p = Rb_Done s' \<and>
    zrep s' k (Node cg (Node Red u g (paint Black b)) p t)"
proof -
  have pg: "p \<noteq> 0" "4 dvd p" "g \<noteq> 0" "4 dvd g" "pc_of s p = g + cbit Red" "pc_of s g = cpar k + cbit cg"
      "right_of s g = p" "right_of s p = ptr_of t" and c: "crep s g k"
    and r: "rep s p (ptr_of t) t" "rep s p (left_of s p) b" "rep s g (left_of s g) u"
    and d: "distinct (inorder t @ p # inorder b @ g # inorder u @ cnodes k)"
    using z by (auto simp: zrep_def)
  have "zrep (mirror s) (LF Red p (mirror_t b) # LF cg g (mirror_t u) # map mirror_f k) (mirror_t t)"
    using z zrep_mirror [of s "RF Red b p # RF cg u g # k" t] by simp
  from insert_step_LL [OF this] t u
  have m: "zrep (rotate_right_at (mirror s) g p) (map mirror_f k)
      (Node cg (mirror_t t) p (Node Red (paint Black (mirror_t b)) g (mirror_t u)))"
    by simp
  have tp: "ptr_of t \<in> set (inorder t)" "ptr_of t \<noteq> 0"
    using ptr_in [OF t] rep_nonzero [OF r(1)] by auto
  have "ptr_of t \<noteq> left_of s p" "left_of s p \<noteq> g"
    using tp r(2) d pg by (cases b; auto)+
  moreover have "\<not> (left_of s g \<noteq> 0 \<and> rb_is_red s (left_of s g))"
    using red_in_store [OF r(3)] pg u by simp
  ultimately have "rb_insert_step s (ptr_of t) p = Rb_Done (rotate_left_g s g p)"
    using pg by (simp add: rb_insert_step_def rb_is_black_def Let_def rotate_left_g_def)
  moreover have "mirror (rotate_left_g s g p) = rotate_right_at (mirror s) g p"
    using d \<open>left_of s p \<noteq> g\<close> pg by (intro mirror_rotate_left_g [OF c pg(6)]) auto
  moreover from this m
  have "zrep (rotate_left_g s g p) k (Node cg (Node Red u g (paint Black b)) p t)"
    using zrep_mirror [of "rotate_left_g s g p" k "Node cg (Node Red u g (paint Black b)) p t"] by simp
  ultimately show ?thesis by blast
qed

lemma insert_step_RL:
  assumes z: "zrep s (LF Red p a # RF cg u g # k) (Node c nl n nr)" and u: "\<not> is_red_t u"
  shows "\<exists>s'. rb_insert_step s n p = Rb_Done s' \<and>
    zrep s' k (Node cg (Node Red u g (paint Black nl)) n (Node Red (paint Black nr) p a))"
proof -
  have pg: "p \<noteq> 0" "4 dvd p" "g \<noteq> 0" "4 dvd g" "pc_of s p = g + cbit Red" "pc_of s g = cpar k + cbit cg"
      "right_of s g = p" "left_of s p = n" "n \<noteq> 0" "4 dvd n" and cr: "crep s g k"
    and r: "rep s n (left_of s n) nl" "rep s n (right_of s n) nr" "rep s p (right_of s p) a" "rep s g (left_of s g) u"
    and d: "distinct (inorder nl @ n # inorder nr @ p # inorder a @ g # inorder u @ cnodes k)"
    using z by (auto simp: zrep_def)
  let ?s = "rotate_right_p s p n"
  have step: "rb_insert_step s n p = Rb_Done (rotate_left_g ?s g n)"
    using pg red_in_store [OF r(4)] u
    by (simp add: rb_insert_step_def rb_is_black_def Let_def rotate_left_g_def rotate_right_p_def)
  have "zrep (mirror s) (RF Red (mirror_t a) p # LF cg g (mirror_t u) # map mirror_f k) (Node c (mirror_t nr) n (mirror_t nl))"
    using z zrep_mirror [of s "LF Red p a # RF cg u g # k" "Node c nl n nr"] by simp
  note m = insert_step_LR [OF this]
  have tmp: "right_of s n \<noteq> g" "right_of s n \<noteq> 0 \<Longrightarrow> right_of s n \<in> set (inorder nr)"
    using r(2) d pg by (cases nr; auto)+
  have F: "left_of ?s n = left_of s n" "pc_of ?s g = pc_of s g" "crep ?s g k" "left_of s n \<noteq> g"
  proof -
    show "left_of ?s n = left_of s n" "pc_of ?s g = pc_of s g"
      using d tmp pg by (auto simp: rotate_right_p_def Let_def)
    show "crep ?s g k"
      by (rule crep_keep [OF cr]) (use d tmp in \<open>auto simp: rotate_right_p_def Let_def\<close>)
    show "left_of s n \<noteq> g"
      using r(1) d pg by (cases nl) auto
  qed
  have "mirror (rotate_left_g ?s g n) = rotate_right_at (rotate_left_at (mirror s) p n) g n"
    using d F pg mirror_rotate_left_g [of ?s g k cg n] by (simp add: mirror_rotate_right_p)
  with m u have "zrep (rotate_left_g ?s g n) k (Node cg (Node Red u g (paint Black nl)) n (Node Red (paint Black nr) p a))"
    using zrep_mirror [of "rotate_left_g ?s g n" k
        "Node cg (Node Red u g (paint Black nl)) n (Node Red (paint Black nr) p a)"] by simp
  with step show ?thesis by blast
qed

subsection \<open>The balance invariant\<close>

primrec bh :: "rbt \<Rightarrow> nat" where
  "bh Leaf = 0"
| "bh (Node c l x r) = (if c = Black then Suc (bh l) else bh l)"

primrec rb_inv :: "rbt \<Rightarrow> bool" where
  "rb_inv Leaf \<longleftrightarrow> True"
| "rb_inv (Node c l x r) \<longleftrightarrow> rb_inv l \<and> rb_inv r \<and> bh l = bh r \<and> (c = Red \<longrightarrow> \<not> is_red_t l \<and> \<not> is_red_t r)"

definition rb_ok :: "rbt \<Rightarrow> bool" where
  "rb_ok t \<longleftrightarrow> rb_inv t \<and> \<not> is_red_t t"

primrec fcol :: "rb_frame \<Rightarrow> rb_col" where
  "fcol (LF c x r) = c"
| "fcol (RF c l x) = c"

definition top_black :: "rb_frame list \<Rightarrow> bool" where
  "top_black k \<longleftrightarrow> k \<noteq> [] \<and> fcol (hd k) = Black"

text \<open>\<open>kinv k n\<close>: the context \<open>k\<close> is balanced around a hole of black height \<open>n\<close>.\<close>

primrec kinv :: "rb_frame list \<Rightarrow> nat \<Rightarrow> bool" where
  "kinv [] n \<longleftrightarrow> True"
| "kinv (f # k) n \<longleftrightarrow> rb_inv (fsub f) \<and> bh (fsub f) = n \<and>
     (fcol f = Red \<longrightarrow> \<not> is_red_t (fsub f) \<and> top_black k) \<and>
     kinv k (if fcol f = Black then Suc n else n)"

lemma not_Red [simp]: "c \<noteq> Red \<longleftrightarrow> c = Black"
  by (cases c) simp_all

lemma is_red_Node [simp]: "is_red_t (Node c l x r) \<longleftrightarrow> c = Red"
  by (cases c) simp_all

lemma rb_inv_zip:
  "rb_inv (zip_up k t) \<and> \<not> is_red_t (zip_up k t) \<longleftrightarrow>
    kinv k (bh t) \<and> rb_inv t \<and> (is_red_t t \<longrightarrow> top_black k)"
proof (induction k t rule: zip_up.induct)
  case (1 t)
  then show ?case by (auto simp: top_black_def)
next
  case (2 c x r k t)
  then show ?case by (cases c) (auto simp: top_black_def)
next
  case (3 c l x k t)
  then show ?case by (cases c) (auto simp: top_black_def)
qed

lemmas rb_ok_zip = rb_inv_zip [folded rb_ok_def]

lemma bh_paint [simp]: "is_red_t t \<Longrightarrow> bh (paint Black t) = Suc (bh t)" "\<not> is_red_t t \<Longrightarrow> paint Black t = t"
  by (cases t; cases "ptr_of t"; auto split: if_splits)+

lemma rb_inv_paint [simp]: "rb_inv t \<Longrightarrow> rb_inv (paint Black t)" "\<not> is_red_t (paint Black t)"
  by (cases t; simp)+

definition zinv :: "rb_frame list \<Rightarrow> rbt \<Rightarrow> bool" where
  "zinv k t \<longleftrightarrow> kinv k (bh t) \<and> rb_inv t \<and> is_red_t t"

lemma zip_inorder_cong:
  "inorder t = inorder t' \<Longrightarrow> inorder (zip_up k t) = inorder (zip_up k t')"
  by (induction k t arbitrary: t' rule: zip_up.induct) simp_all

lemma ins_step_inorder:
  "ins_step k t = (go, k', t') \<Longrightarrow> inorder (zip_up k' t') = inorder (zip_up k t)"
  by (induction k t rule: ins_step.induct)
    (auto simp del: is_red_Node split: if_splits intro!: zip_inorder_cong)

lemma ins_step_more:
  "ins_step k t = (True, k', t') \<Longrightarrow> zinv k t \<Longrightarrow> zinv k' t' \<and> length k' < length k"
  by (induction k t rule: ins_step.induct) (auto simp: zinv_def top_black_def split: if_splits)

lemma ins_step_done:
  "ins_step k t = (False, k', t') \<Longrightarrow> zinv k t \<Longrightarrow> rb_ok (zip_up k' t')"
  unfolding rb_ok_zip
  by (induction k t rule: ins_step.induct)
    (auto simp: zinv_def top_black_def split: if_splits rb_col.splits)

lemma insert_step_root:
  assumes "zrep s [] t" "t \<noteq> Leaf"
  shows "\<exists>s'. zrep s' [] (paint Black t) \<and> rb_insert_step s (ptr_of t) 0 = Rb_Done s'"
proof -
  obtain c l x r where t: "t = Node c l x r"
    using assms(2) by (cases t) auto
  let ?s = "rb_set_parent_color s x 0 RB_BLACK"
  have "rep ?s x (left_of s x) l" "rep ?s x (right_of s x) r"
    using assms(1) unfolding t by (auto simp: zrep_def intro!: rep_keep [where s = s])
  then have "zrep ?s [] (paint Black t)"
    using assms(1) or_cbit [of 0 Black] unfolding t by (simp add: zrep_def)
  then show ?thesis
    by (auto simp: rb_insert_step_def t)
qed

lemma insert_step_black:
  assumes "zrep s (f # k) t" "fcol f = Black"
  shows "rb_insert_step s (ptr_of t) (cpar (f # k)) = Rb_Done s"
  using assms crep_dvd [of s "fnode f" k]
  by (cases f) (auto simp: zrep_def rb_insert_step_def rb_is_black_def)

text \<open>A round of \<open>__rb_insert\<close> on the store is a round of \<open>ins_step\<close>.\<close>

lemma insert_step_sim:
  assumes z: "zrep s k t" and i: "zinv k t" and st: "ins_step k t = (go, k', t')"
  shows "\<exists>s'. zrep s' k' t' \<and>
    rb_insert_step s (ptr_of t) (cpar k) = (if go then Rb_More s' (ptr_of t') (cpar k') else Rb_Done s')"
proof -
  obtain c t1 x t2 where t: "t = Node c t1 x t2" "t \<noteq> Leaf"
    using i by (cases t) (auto simp: zinv_def)
  note cases = insert_flip_L [of s _ _ _ _ _ _ _ x] insert_step_LL [of s _ _ _ _ _ _ "Node c t1 x t2"] insert_step_LR
    insert_flip_R [of s _ _ _ _ _ _ _ x] insert_step_RR [of s _ _ _ _ _ _ "Node c t1 x t2"] insert_step_RL
  consider (root) "k = []" | (black) f k1 where "k = f # k1" "fcol f = Black"
    | (red) f h k1 where "k = f # h # k1" "fcol f = Red"
    using i by (cases k; cases "tl k"; cases "fcol (hd k)") (auto simp: zinv_def top_black_def)
  then show ?thesis
  proof cases
    case root
    then show ?thesis
      using insert_step_root [of s t] z st t(2) by auto
  next
    case black
    then have "ins_step k t = (False, k, t)"
      by (cases f) (simp_all add: t)
    with black z st insert_step_black [of s f k1 t] show ?thesis by auto
  next
    case red
    then show ?thesis
      using z st t
      by (cases f; cases h; cases "is_red_t (fsub h)")
        (auto simp: zrep_LF zrep_RF dest: cases [unfolded zrep_LF zrep_RF, simplified])
  qed
qed

lemma insert_loop_sim:
  "zrep s k t \<Longrightarrow> zinv k t \<Longrightarrow> \<exists>s' t'. rb_insert_loop s (ptr_of t) (cpar k) = Some s' \<and>
    rb_rep s' t' \<and> rb_ok t' \<and> inorder t' = inorder (zip_up k t)"
proof (induction "length k" arbitrary: s k t rule: less_induct)
  case less
  obtain go k' t' where st: "ins_step k t = (go, k', t')"
    by (cases "ins_step k t") auto
  from insert_step_sim [OF less.prems st] obtain s' where s': "zrep s' k' t'"
    "rb_insert_step s (ptr_of t) (cpar k) = (if go then Rb_More s' (ptr_of t') (cpar k') else Rb_Done s')"
    by blast
  show ?case
  proof (cases go)
    case True
    with ins_step_more [of k t k' t'] less.prems(2) st have "zinv k' t'" "length k' < length k" by auto
    from less.hyps [OF this(2) s'(1) this(1)] show ?thesis
      unfolding rb_insert_loop.simps [of s] using s'(2) True ins_step_inorder [OF st] by auto
  next
    case False
    with st less.prems have "rb_ok (zip_up k' t')"
      by (auto intro: ins_step_done)
    then show ?thesis
      unfolding rb_insert_loop.simps [of s] using s' False ins_step_inorder [OF st]
      by (auto simp: zrep_zip)
  qed
qed

subsection \<open>Linking a node and rebalancing\<close>

text \<open>The pointer that the caller found the new node's place at.\<close>

fun link_at :: "rb_frame list \<Rightarrow> rb_tree \<Rightarrow> nat \<Rightarrow> rb_tree" where
  "link_at [] s v = s\<lparr>rb_root := v\<rparr>"
| "link_at (LF c x r # k) s v = set_left s x v"
| "link_at (RF c l x # k) s v = set_right s x v"

lemma link_reads [simp]:
  "pc_of (link_at k s v) y = pc_of s y"
  "y \<notin> set (cnodes k) \<Longrightarrow> left_of (link_at k s v) y = left_of s y"
  "y \<notin> set (cnodes k) \<Longrightarrow> right_of (link_at k s v) y = right_of s y"
  by (cases "(k, s, v)" rule: link_at.cases; simp)+

lemma link_crep:
  assumes "crep s h k" "distinct (cnodes k)"
  shows "crep (link_at k s v) v k"
proof (cases k)
  case Nil
  then show ?thesis by simp
next
  case (Cons f k')
  have sub: "rep (link_at k s v) (fnode f) q (fsub f) \<longleftrightarrow> rep s (fnode f) q (fsub f)" for q
    using assms(2) Cons by (cases f) (auto intro!: rep_cong)
  have up: "crep (link_at k s v) (fnode f) k'" if "crep s (fnode f) k'"
    using that by (rule crep_keep) (use assms(2) Cons in \<open>cases f; auto\<close>)+
  show ?thesis
    using assms sub up Cons by (cases f) auto
qed

lemma link_node_zrep:
  assumes z: "zrep s k Leaf" and n: "n \<noteq> 0" "4 dvd n" "n \<notin> set (cnodes k)"
  shows "zrep (rb_link_node s n (cpar k) (link_at k)) k (Node Red Leaf n Leaf)"
proof -
  let ?s = "set_left (set_right (set_pc s n (cpar k)) n 0) n 0"
  have "crep ?s 0 k"
    by (rule crep_keep [where s = s]) (use z n in \<open>auto simp: zrep_def\<close>)
  from link_crep [OF this, of n] show ?thesis
    using z n by (simp add: zrep_def rb_link_node_def Let_def)
qed

lemma insert_color_ok:
  assumes "rb_rep s (zip_up k Leaf)" "rb_ok (zip_up k Leaf)" "n \<noteq> 0" "4 dvd n" "n \<notin> set (cnodes k)"
  shows "\<exists>s' t'. rb_insert_color (rb_link_node s n (cpar k) (link_at k)) n = Some s' \<and> rb_rep s' t' \<and> rb_ok t' \<and>
    inorder t' = inorder (zip_up k (Node Red Leaf n Leaf))"
proof -
  let ?s = "rb_link_node s n (cpar k) (link_at k)"
  have z: "zrep ?s k (Node Red Leaf n Leaf)"
    using assms by (intro link_node_zrep) (simp_all add: zrep_zip)
  then have "rb_red_parent ?s n = cpar k"
    by (simp add: zrep_def)
  moreover have "zinv k (Node Red Leaf n Leaf)"
    using assms(2) by (simp add: rb_ok_zip zinv_def)
  ultimately show ?thesis
    using insert_loop_sim [OF z] by (simp add: rb_insert_color_def)
qed

text \<open>C12: Insertion into a red-black tree. The store holds a tree that satisfies the red-black invariant, with
  a free place at the end of the path \<open>k\<close>; a new node is linked there by \<open>rb_link_node\<close> and
  \<open>rb_insert_color\<close> is called. The loop of \<open>__rb_insert\<close> ends, and the store then holds a tree that
  satisfies the invariant again and whose in-order sequence is the old one with the new node at its
  place.\<close>

theorem rb_insert_correct:
  assumes "rb_rep s (zip_up k Leaf)" "rb_ok (zip_up k Leaf)" "n \<noteq> 0" "4 dvd n" "n \<notin> set (cnodes k)"
  shows "\<exists>s' t'. rb_insert_color (rb_link_node s n (cpar k) (link_at k)) n = Some s' \<and> rb_rep s' t' \<and> rb_ok t' \<and>
    inorder t' = inorder (zip_up k (Node Red Leaf n Leaf))"
  using insert_color_ok [OF assms] .

theorem rb_insert_correct_witness:
  "\<exists>s' t'. rb_insert_color (rb_link_node
      \<lparr>cells = (\<lambda>_. \<lparr>rb_pc = 0, rb_right = 0, rb_left = 0\<rparr>)
        (4 := \<lparr>rb_pc = 1, rb_right = 8, rb_left = 0\<rparr>, 8 := \<lparr>rb_pc = 4, rb_right = 0, rb_left = 0\<rparr>), rb_root = 4\<rparr>
      12 8 (link_at [RF Red Leaf 8, RF Black Leaf 4])) 12 = Some s' \<and>
    rb_rep s' t' \<and> rb_ok t' \<and> inorder t' = [4, 8, 12]"
  using rb_insert_correct [of "\<lparr>cells = (\<lambda>_. \<lparr>rb_pc = 0, rb_right = 0, rb_left = 0\<rparr>)
        (4 := \<lparr>rb_pc = 1, rb_right = 8, rb_left = 0\<rparr>, 8 := \<lparr>rb_pc = 4, rb_right = 0, rb_left = 0\<rparr>), rb_root = 4\<rparr>"
      "[RF Red Leaf 8, RF Black Leaf 4]" 12]
  by (simp add: rb_rep_def zrep_def rb_ok_def left_of_def right_of_def cbit.simps RB_RED_def RB_BLACK_def del: RB_consts)

end
