(* ===== verification/Dir_Index.thy ===== *)
theory Dir_Index
  imports Dir_Ops Rb_Insert Rb_Walk
begin

text \<open>
  The index of a directory as a map. \<open>dir_index s dir ds\<close> says that the red-black tree of the directory
  satisfies the tree's invariant and holds the entries \<open>ds\<close>, in strictly ascending order of
  the hashes of their names. Under it \<open>dirent_lookup\<close> and \<open>dir_index_insert\<close> implement a map from hashes
  to entries: the locale \<open>keyed_index\<close>.
\<close>

abbreviation hash_of :: "fs \<Rightarrow> nat \<Rightarrow> nat" where
  "hash_of s d \<equiv> d_hash (dirent_mem s d)"

definition dir_index :: "fs \<Rightarrow> nat \<Rightarrow> nat list \<Rightarrow> bool" where
  "dir_index s dir ds \<longleftrightarrow>
    (\<exists>t. rb_rep (rb_of s dir) t \<and> rb_ok t \<and> inorder t = ds) \<and> sorted_wrt (<) (map (hash_of s) ds)"

definition with_hash :: "fs \<Rightarrow> nat \<Rightarrow> nat list \<Rightarrow> nat list" where
  "with_hash s h ds = filter (\<lambda>d. hash_of s d = h) ds"

definition below_hash :: "fs \<Rightarrow> nat \<Rightarrow> nat list \<Rightarrow> nat list" where
  "below_hash s h ds = filter (\<lambda>d. hash_of s d < h) ds"

definition above_hash :: "fs \<Rightarrow> nat \<Rightarrow> nat list \<Rightarrow> nat list" where
  "above_hash s h ds = filter (\<lambda>d. h < hash_of s d) ds"

text \<open>The map that the index stands for; 0 for a hash that is not there.\<close>

definition dir_map :: "fs \<Rightarrow> nat list \<Rightarrow> nat \<Rightarrow> nat" where
  "dir_map s ds h = hd0 (with_hash s h ds)"

lemma hash_filters [simp]:
  "with_hash s h [] = []" "below_hash s h [] = []" "above_hash s h [] = []"
  "with_hash s h (xs @ ys) = with_hash s h xs @ with_hash s h ys"
  "below_hash s h (xs @ ys) = below_hash s h xs @ below_hash s h ys"
  "above_hash s h (xs @ ys) = above_hash s h xs @ above_hash s h ys"
  "with_hash s h (x # xs) = (if hash_of s x = h then x # with_hash s h xs else with_hash s h xs)"
  "below_hash s h (x # xs) = (if hash_of s x < h then x # below_hash s h xs else below_hash s h xs)"
  "above_hash s h (x # xs) = (if h < hash_of s x then x # above_hash s h xs else above_hash s h xs)"
  by (simp_all add: with_hash_def below_hash_def above_hash_def)

lemma hash_filters_trivial:
  "\<forall>x\<in>set xs. hash_of s x < h \<Longrightarrow> with_hash s h xs = [] \<and> below_hash s h xs = xs \<and> above_hash s h xs = []"
  "\<forall>x\<in>set xs. h < hash_of s x \<Longrightarrow> with_hash s h xs = [] \<and> below_hash s h xs = [] \<and> above_hash s h xs = xs"
  by (induction xs) (auto simp: less_not_sym)

lemma sorted_hashes:
  "sorted_wrt (<) (map (hash_of s) (xs @ x # ys)) \<Longrightarrow> sorted_wrt (<) (map (hash_of s) xs)"
  "sorted_wrt (<) (map (hash_of s) (xs @ x # ys)) \<Longrightarrow> sorted_wrt (<) (map (hash_of s) ys)"
  "sorted_wrt (<) (map (hash_of s) (xs @ x # ys)) \<Longrightarrow> \<forall>y\<in>set xs. hash_of s y < hash_of s x"
  "sorted_wrt (<) (map (hash_of s) (xs @ x # ys)) \<Longrightarrow> \<forall>y\<in>set ys. hash_of s x < hash_of s y"
  by (simp_all add: sorted_wrt_append)

text \<open>A binary search over a sorted sequence with the root in the middle.\<close>

lemma search_split:
  assumes "sorted_wrt (<) (map (hash_of s) (xs @ x # ys))"
  shows "h < hash_of s x \<Longrightarrow> with_hash s h (xs @ x # ys) = with_hash s h xs \<and>
      below_hash s h (xs @ x # ys) = below_hash s h xs \<and> above_hash s h (xs @ x # ys) = above_hash s h xs @ x # ys"
    and "hash_of s x < h \<Longrightarrow> with_hash s h (xs @ x # ys) = with_hash s h ys \<and>
      below_hash s h (xs @ x # ys) = xs @ x # below_hash s h ys \<and> above_hash s h (xs @ x # ys) = above_hash s h ys"
    and "with_hash s (hash_of s x) (xs @ x # ys) = [x]"
proof -
  note lo = sorted_hashes(3) [OF assms] and hi = sorted_hashes(4) [OF assms]
  {
    assume "h < hash_of s x"
    with hi have "\<forall>y\<in>set ys. h < hash_of s y" by auto
    from hash_filters_trivial(2) [OF this] \<open>h < hash_of s x\<close>
    show "with_hash s h (xs @ x # ys) = with_hash s h xs \<and> below_hash s h (xs @ x # ys) = below_hash s h xs \<and>
      above_hash s h (xs @ x # ys) = above_hash s h xs @ x # ys" by simp
  next
    assume "hash_of s x < h"
    with lo have "\<forall>y\<in>set xs. hash_of s y < h" by auto
    from hash_filters_trivial(1) [OF this] \<open>hash_of s x < h\<close>
    show "with_hash s h (xs @ x # ys) = with_hash s h ys \<and> below_hash s h (xs @ x # ys) = xs @ x # below_hash s h ys \<and>
      above_hash s h (xs @ x # ys) = above_hash s h ys" by simp
  }
  show "with_hash s (hash_of s x) (xs @ x # ys) = [x]"
    using hash_filters_trivial(1) [OF lo] hash_filters_trivial(2) [OF hi] by simp
qed

subsection \<open>Lookup\<close>

lemma lookup_loop:
  "rep tr par p t \<Longrightarrow> sorted_wrt (<) (map (hash_of s) (inorder t)) \<Longrightarrow>
    dirent_lookup_loop s tr h p = Some (hd0 (with_hash s h (inorder t)))"
proof (induction t arbitrary: par p)
  case Leaf
  then show ?case
    unfolding dirent_lookup_loop.simps [of s tr h p] by simp
next
  case (Node c l x r)
  have so: "sorted_wrt (<) (map (hash_of s) (inorder l @ x # inorder r))"
    using Node.prems(2) by simp
  have l: "dirent_lookup_loop s tr h (left_of tr x) = Some (hd0 (with_hash s h (inorder l)))"
    using Node.IH(1) [of x "left_of tr x"] Node.prems(1) sorted_hashes(1) [OF so] by simp
  have r: "dirent_lookup_loop s tr h (right_of tr x) = Some (hd0 (with_hash s h (inorder r)))"
    using Node.IH(2) [of x "right_of tr x"] Node.prems(1) sorted_hashes(2) [OF so] by simp
  have p: "p = x" "x \<noteq> 0"
    using Node.prems(1) by auto
  consider "h < hash_of s x" | "hash_of s x < h" | "h = hash_of s x" by linarith
  then show ?case
  proof cases
    case 1
    then show ?thesis
      unfolding dirent_lookup_loop.simps [of s tr h p] using l p search_split(1) [OF so 1] by simp
  next
    case 2
    then show ?thesis
      unfolding dirent_lookup_loop.simps [of s tr h p] using r p search_split(2) [OF so 2] by simp
  next
    case 3
    then show ?thesis
      unfolding dirent_lookup_loop.simps [of s tr h p] using p search_split(3) [OF so] by simp
  qed
qed

lemma lookup_ok: "dir_index s dir ds \<Longrightarrow> dirent_lookup s dir h = Some (dir_map s ds h)"
  using lookup_loop [of "rb_of s dir" 0 "rb_root (rb_of s dir)"]
  by (auto simp: dir_index_def dirent_lookup_def dir_map_def rb_rep_def zrep_def)

subsection \<open>Insertion\<close>

fun link_of :: "rb_frame list \<Rightarrow> rb_link" where
  "link_of [] = At_Root"
| "link_of (LF c x r # k) = At_Left x"
| "link_of (RF c l x # k) = At_Right x"

lemma link_of_set: "link_set (link_of k) = link_at k"
  by (cases k rule: link_of.cases) (auto simp: fun_eq_iff)

lemma link_of_get: "crep tr h k \<Longrightarrow> link_get tr (link_of k) = h"
  by (cases k rule: link_of.cases) auto

lemma insert_walk:
  "zrep tr k t \<Longrightarrow> sorted_wrt (<) (map (hash_of s) (inorder t)) \<Longrightarrow>
    if with_hash s h (inorder t) \<noteq> [] then dir_insert_walk s tr h (link_of k) (cpar k) = Some (Inl (- EEXIST))
    else \<exists>k'. dir_insert_walk s tr h (link_of k) (cpar k) = Some (Inr (link_of k', cpar k')) \<and>
      zip_up k' Leaf = zip_up k t \<and> kleft k' = kleft k @ below_hash s h (inorder t) \<and>
      kright k' = above_hash s h (inorder t) @ kright k"
proof (induction t arbitrary: k)
  case Leaf
  then have "link_get tr (link_of k) = 0"
    using link_of_get [of tr 0 k] by (simp add: zrep_def)
  then show ?case
    unfolding dir_insert_walk.simps [of s tr h "link_of k" "cpar k"] by (auto simp: Let_def)
next
  case (Node c l x r)
  have so: "sorted_wrt (<) (map (hash_of s) (inorder l @ x # inorder r))"
    using Node.prems(2) by simp
  have g: "link_get tr (link_of k) = x" "x \<noteq> 0"
    using Node.prems(1) link_of_get [of tr x k] by (auto simp: zrep_def)
  note l = Node.IH(1) [of "LF c x r # k", unfolded zrep_LF, OF Node.prems(1) sorted_hashes(1) [OF so]]
  note r = Node.IH(2) [of "RF c l x # k", unfolded zrep_RF, OF Node.prems(1) sorted_hashes(2) [OF so]]
  consider "h < hash_of s x" | "hash_of s x < h" | "h = hash_of s x" by linarith
  then show ?case
  proof cases
    case 1
    then show ?thesis
      unfolding dir_insert_walk.simps [of s tr h "link_of k" "cpar k"] using g l search_split(1) [OF so 1]
      by (auto simp: Let_def)
  next
    case 2
    then show ?thesis
      unfolding dir_insert_walk.simps [of s tr h "link_of k" "cpar k"] using g r search_split(2) [OF so 2]
      by (auto simp: Let_def)
  next
    case 3
    then show ?thesis
      unfolding dir_insert_walk.simps [of s tr h "link_of k" "cpar k"] using g search_split(3) [OF so]
      by (simp add: Let_def)
  qed
qed

definition hash_insert :: "fs \<Rightarrow> nat \<Rightarrow> nat list \<Rightarrow> nat list" where
  "hash_insert s d ds = below_hash s (hash_of s d) ds @ d # above_hash s (hash_of s d) ds"

lemma put_rb_fields [simp]:
  "dirent_mem (put_rb s dir t) = dirent_mem s" "rb_of (put_rb s dir t) dir = t"
  by (simp_all add: put_rb_def upd_inode_def rb_of_def)

lemma sorted_filter_hash:
  "sorted_wrt (<) (map (hash_of s) ds) \<Longrightarrow> sorted_wrt (<) (map (hash_of s) (filter P ds))"
  by (induction ds) auto

lemma hash_insert_sorted:
  "sorted_wrt (<) (map (hash_of s) ds) \<Longrightarrow> sorted_wrt (<) (map (hash_of s) (hash_insert s d ds))"
  by (auto simp: hash_insert_def below_hash_def above_hash_def sorted_wrt_append sorted_filter_hash)

lemma index_insert_ok:
  assumes idx: "dir_index s dir ds" and d: "d \<noteq> 0" "4 dvd d" "d \<notin> set ds"
  shows "with_hash s (hash_of s d) ds \<noteq> [] \<Longrightarrow> dir_index_insert s dir d = Some (- EEXIST, s)"
    and "with_hash s (hash_of s d) ds = [] \<Longrightarrow>
      \<exists>tr. dir_index_insert s dir d = Some (0, put_rb s dir tr) \<and> dir_index (put_rb s dir tr) dir (hash_insert s d ds)"
proof -
  obtain t where t: "rb_rep (rb_of s dir) t" "rb_ok t" "inorder t = ds" and so: "sorted_wrt (<) (map (hash_of s) ds)"
    using idx by (auto simp: dir_index_def)
  let ?h = "hash_of s d"
  note w = insert_walk [of "rb_of s dir" "[]" t s ?h, unfolded t(3), folded rb_rep_def, OF t(1) so, simplified]
  {
    assume "with_hash s ?h ds \<noteq> []"
    with w show "dir_index_insert s dir d = Some (- EEXIST, s)"
      by (simp add: dir_index_insert_def)
  next
    assume new: "with_hash s ?h ds = []"
    with w obtain k where k: "dir_insert_walk s (rb_of s dir) ?h At_Root 0 = Some (Inr (link_of k, cpar k))"
      "zip_up k Leaf = t" "kleft k = below_hash s ?h ds" "kright k = above_hash s ?h ds" by auto
    have zk: "zrep (rb_of s dir) k Leaf"
      using t(1) k(2) by (simp add: zrep_zip)
    have "set (cnodes k) = set (kleft k) \<union> set (kright k)"
      by (induction k rule: kleft.induct) auto
    then have "d \<notin> set (cnodes k)"
      using k(3,4) d(3) by (auto simp: below_hash_def above_hash_def)
    from insert_color_ok [of "rb_of s dir" k d, OF _ _ d(1,2) this] t k(2)
    obtain tr t' where tr: "rb_insert_color (rb_link_node (rb_of s dir) d (cpar k) (link_at k)) d = Some tr"
      "rb_rep tr t'" "rb_ok t'" "inorder t' = inorder (zip_up k (Node Red Leaf d Leaf))" by auto
    have "inorder t' = hash_insert s d ds"
      using tr(4) k(3,4) by (simp add: inorder_zip hash_insert_def)
    then have "dir_index (put_rb s dir tr) dir (hash_insert s d ds)"
      using tr(2,3) hash_insert_sorted [OF so, of d] by (auto simp: dir_index_def)
    moreover have "dir_index_insert s dir d = Some (0, put_rb s dir tr)"
      using k(1) tr(1) by (simp add: dir_index_insert_def link_of_set)
    ultimately show "\<exists>tr. dir_index_insert s dir d = Some (0, put_rb s dir tr) \<and>
      dir_index (put_rb s dir tr) dir (hash_insert s d ds)" by blast
  }
qed

lemma dir_map_insert:
  assumes "with_hash s (hash_of s d) ds = []"
  shows "dir_map s (hash_insert s d ds) = (dir_map s ds)(hash_of s d := d)"
proof
  fix h
  have "with_hash s h (hash_insert s d ds) = (if h = hash_of s d then [d] else with_hash s h ds)"
    using assms
  proof (induction ds)
    case Nil
    then show ?case by (simp add: hash_insert_def)
  next
    case (Cons x xs)
    then show ?case
      by (auto simp: hash_insert_def with_hash_def below_hash_def above_hash_def filter_empty_conv split: if_splits)
  qed
  then show "dir_map s (hash_insert s d ds) h = ((dir_map s ds)(hash_of s d := d)) h"
    by (simp add: dir_map_def)
qed


lemma rep_unique: "rep tr par p t \<Longrightarrow> rep tr par p t' \<Longrightarrow> t = t'"
proof (induction t arbitrary: par p t')
  case Leaf
  then show ?case by (cases t') auto
next
  case (Node c l x r)
  then obtain c' l' r' where t': "t' = Node c' l' x r'" "cbit c = cbit c'"
    "rep tr x (left_of tr x) l'" "rep tr x (right_of tr x) r'"
    by (cases t') auto
  have "c = c'"
    using t'(2) by (cases c; cases c') (auto simp: cbit.simps RB_RED_def RB_BLACK_def simp del: RB_consts)
  with Node t' show ?case by auto
qed

lemma dir_index_unique: "dir_index s dir ds' \<Longrightarrow> dir_index s dir ds \<Longrightarrow> ds' = ds"
proof -
  assume "dir_index s dir ds'" "dir_index s dir ds"
  then obtain t' t where t: "rb_rep (rb_of s dir) t'" "inorder t' = ds'" "rb_rep (rb_of s dir) t" "inorder t = ds"
    unfolding dir_index_def by blast
  then have r: "rep (rb_of s dir) 0 (ptr_of t') t'" "rep (rb_of s dir) 0 (ptr_of t) t" "ptr_of t' = ptr_of t"
    by (auto simp: rb_rep_def zrep_def)
  have "t' = t"
    by (rule rep_unique [OF r(1)]) (use r in simp)
  with t show ?thesis by simp
qed

subsection \<open>The interface\<close>

text \<open>What the callers of a directory's index rely on: it implements a map from keys to entries in which an entry
  can be put once.\<close>

locale keyed_index =
  fixes holds :: "'s \<Rightarrow> (nat \<Rightarrow> nat) \<Rightarrow> bool"
    and key :: "'s \<Rightarrow> nat \<Rightarrow> nat"
    and fresh :: "'s \<Rightarrow> nat \<Rightarrow> bool"
    and lookup :: "'s \<Rightarrow> nat \<Rightarrow> nat option"
    and put :: "'s \<Rightarrow> nat \<Rightarrow> (int \<times> 's) option"
  assumes lookup_holds: "holds s m \<Longrightarrow> lookup s k = Some (m k)"
    and put_new: "holds s m \<Longrightarrow> fresh s d \<Longrightarrow> m (key s d) = 0 \<Longrightarrow>
      \<exists>s'. put s d = Some (0, s') \<and> holds s' (m(key s d := d)) \<and> key s' = key s"
    and put_old: "holds s m \<Longrightarrow> fresh s d \<Longrightarrow> m (key s d) \<noteq> 0 \<Longrightarrow> put s d = Some (- EEXIST, s)"
begin

lemma lookup_put:
  assumes "holds s m" "fresh s d" "lookup s (key s d) = Some 0"
  shows "\<exists>s'. put s d = Some (0, s') \<and> lookup s' (key s d) = Some d \<and>
    (\<forall>k. k \<noteq> key s d \<longrightarrow> lookup s' k = lookup s k)"
proof -
  have "m (key s d) = 0"
    using assms(1,3) by (simp add: lookup_holds)
  from put_new [OF assms(1,2) this] obtain s' where "put s d = Some (0, s')" "holds s' (m(key s d := d))"
    by blast
  with lookup_holds [OF this(2)] lookup_holds [OF assms(1)] show ?thesis by auto
qed

lemma put_exists:
  assumes "holds s m" "fresh s d" "lookup s (key s d) = Some e" "e \<noteq> 0"
  shows "put s d = Some (- EEXIST, s)"
  using assms by (auto simp: lookup_holds intro: put_old)

lemma put_total:
  assumes "holds s m" "fresh s d"
  shows "\<exists>r s'. put s d = Some (r, s') \<and> r \<in> {0, - EEXIST}"
  using put_new [OF assms] put_old [OF assms] by (cases "m (key s d) = 0") auto

end

definition dir_holds :: "nat \<Rightarrow> fs \<Rightarrow> (nat \<Rightarrow> nat) \<Rightarrow> bool" where
  "dir_holds dir s m \<longleftrightarrow> (\<exists>ds. dir_index s dir ds \<and> m = dir_map s ds)"

text \<open>An entry that can be put: an aligned address that is not a node of the tree.\<close>

definition dir_fresh :: "nat \<Rightarrow> fs \<Rightarrow> nat \<Rightarrow> bool" where
  "dir_fresh dir s d \<longleftrightarrow> d \<noteq> 0 \<and> 4 dvd d \<and> (\<forall>ds. dir_index s dir ds \<longrightarrow> d \<notin> set ds)"

lemma dir_index_nonzero: "dir_index s dir ds \<Longrightarrow> d \<in> set ds \<Longrightarrow> d \<noteq> 0 \<and> 4 dvd d"
  by (auto simp: dir_index_def rb_rep_def zrep_def dest: rep_nonzero)

lemma dir_map_zero:
  assumes "dir_index s dir ds"
  shows "dir_map s ds h = 0 \<longleftrightarrow> with_hash s h ds = []"
proof (cases "with_hash s h ds")
  case Nil
  then show ?thesis by (simp add: dir_map_def)
next
  case (Cons x xs)
  then have "x \<in> set ds"
    using filter_is_subset [of "\<lambda>d. hash_of s d = h" ds] by (auto simp: with_hash_def)
  with Cons dir_index_nonzero [OF assms this] show ?thesis by (simp add: dir_map_def)
qed

interpretation dix: keyed_index "dir_holds dir" hash_of "dir_fresh dir" "\<lambda>s h. dirent_lookup s dir h"
  "\<lambda>s d. dir_index_insert s dir d" for dir
proof
  fix s m k d
  assume "dir_holds dir s m"
  then obtain ds where ds: "dir_index s dir ds" "m = dir_map s ds"
    by (auto simp: dir_holds_def)
  show "dirent_lookup s dir k = Some (m k)"
    using lookup_ok [OF ds(1)] ds(2) by simp
  assume "dir_fresh dir s d"
  with ds(1) have d: "d \<noteq> 0" "4 dvd d" "d \<notin> set ds"
    by (auto simp: dir_fresh_def)
  show "dir_index_insert s dir d = Some (- EEXIST, s)" if "m (hash_of s d) \<noteq> 0"
    using index_insert_ok(1) [OF ds(1) d] that ds dir_map_zero [OF ds(1)] by simp
  show "\<exists>s'. dir_index_insert s dir d = Some (0, s') \<and> dir_holds dir s' (m(hash_of s d := d)) \<and> hash_of s' = hash_of s"
    if "m (hash_of s d) = 0"
  proof -
    have e: "with_hash s (hash_of s d) ds = []"
      using that ds dir_map_zero [OF ds(1)] by simp
    from index_insert_ok(2) [OF ds(1) d e] obtain tr where tr: "dir_index_insert s dir d = Some (0, put_rb s dir tr)"
      "dir_index (put_rb s dir tr) dir (hash_insert s d ds)" by blast
    have "dir_map (put_rb s dir tr) = dir_map s"
      by (simp add: fun_eq_iff dir_map_def with_hash_def)
    with tr dir_map_insert [OF e] ds(2) show ?thesis
      by (auto simp: dir_holds_def)
  qed
qed


subsection \<open>The index implements a map\<close>

text \<open>C5: The index of a directory implements a map from name hashes to entries. On a well-formed index
  \<open>dirent_lookup\<close> ends and returns the entry with the given hash, or 0; \<open>dir_index_insert\<close> of an entry
  outside the tree ends too: if its hash is already there it returns \<open>-EEXIST\<close> and changes nothing, otherwise
  it returns 0, the index is well-formed again with the entry at its place in the order of hashes, and lookups
  find the entry under its hash and what they found before under every other hash.\<close>

theorem dir_index_correct:
  assumes "dir_index s dir ds" "d \<noteq> 0" "4 dvd d" "d \<notin> set ds"
  shows "dirent_lookup s dir h = Some (dir_map s ds h) \<and>
    (if dirent_lookup s dir (hash_of s d) = Some 0
     then \<exists>s'. dir_index_insert s dir d = Some (0, s') \<and> dir_index s' dir (hash_insert s d ds) \<and>
       dirent_lookup s' dir (hash_of s d) = Some d \<and>
       (\<forall>k. k \<noteq> hash_of s d \<longrightarrow> dirent_lookup s' dir k = dirent_lookup s dir k)
     else dir_index_insert s dir d = Some (- EEXIST, s))"
proof -
  have h: "dir_holds dir s (dir_map s ds)"
    using assms(1) unfolding dir_holds_def by blast
  have f: "dir_fresh dir s d"
    using assms dir_index_unique [OF assms(1)] unfolding dir_fresh_def by blast
  show ?thesis
  proof (cases "dirent_lookup s dir (hash_of s d) = Some 0")
    case True
    then have "with_hash s (hash_of s d) ds = []"
      using dir_map_zero [OF assms(1)] lookup_ok [OF assms(1)] by simp
    from index_insert_ok(2) [OF assms this] obtain s' where i: "dir_index_insert s dir d = Some (0, s')"
      "dir_index s' dir (hash_insert s d ds)" by blast
    with dix.lookup_put [OF h f True] have "dirent_lookup s' dir (hash_of s d) = Some d \<and>
      (\<forall>k. k \<noteq> hash_of s d \<longrightarrow> dirent_lookup s' dir k = dirent_lookup s dir k)" by (elim exE conjE) simp
    with i True lookup_ok [OF assms(1), of h] show ?thesis by simp
  next
    case False
    then have "dir_map s ds (hash_of s d) \<noteq> 0"
      using lookup_ok [OF assms(1)] by simp
    from dix.put_exists [OF h f lookup_ok [OF assms(1)] this] False lookup_ok [OF assms(1), of h] show ?thesis by simp
  qed
qed

definition index_example :: fs where
  "index_example = blank_fs\<lparr>inode_mem := (inode_mem blank_fs)(4 := zero_inode\<lparr>i_rb_root := 8\<rparr>),
     rb_mem := (rb_mem blank_fs)(8 := \<lparr>rb_pc = 1, rb_right = 0, rb_left = 0\<rparr>),
     dirent_mem := (dirent_mem blank_fs)(8 := \<lparr>d_idx = 2, d_ts = 0, d_ino = 3, d_hash = 50, d_ref = 0\<rparr>,
       12 := \<lparr>d_idx = 3, d_ts = 0, d_ino = 4, d_hash = 70, d_ref = 0\<rparr>)\<rparr>"

lemma index_example_ok: "dir_index index_example 4 [8]"
proof -
  have "rb_rep (rb_of index_example 4) (Node Black Leaf 8 Leaf)"
    by (simp add: rb_rep_def zrep_def rb_of_def index_example_def left_of_def right_of_def cbit.simps
        RB_BLACK_def del: RB_consts)
  moreover have "rb_ok (Node Black Leaf 8 Leaf)"
    by (simp add: rb_ok_def)
  ultimately show ?thesis
    by (auto simp: dir_index_def intro!: exI [of _ "Node Black Leaf 8 Leaf"])
qed

theorem dir_index_correct_witness:
  "dirent_lookup index_example 4 50 = Some 8 \<and> dirent_lookup index_example 4 70 = Some 0 \<and>
    (\<exists>s'. dir_index_insert index_example 4 12 = Some (0, s') \<and> dir_index s' 4 [8, 12] \<and>
      dirent_lookup s' 4 70 = Some 12 \<and> dirent_lookup s' 4 50 = Some 8)"
proof -
  have "hash_of index_example 12 = 70" "dir_map index_example [8] 50 = 8" "dir_map index_example [8] 70 = 0"
    "hash_insert index_example 12 [8] = [8, 12]"
    by (simp_all add: index_example_def dir_map_def hash_insert_def)
  note e = this
  have "dirent_lookup index_example 4 50 = Some 8" "dirent_lookup index_example 4 70 = Some 0"
    using dir_index_correct [OF index_example_ok, of 12 50] dir_index_correct [OF index_example_ok, of 12 70] e by simp_all
  moreover from dir_index_correct [OF index_example_ok, of 12 50] this(2) e
  obtain s' where "dir_index_insert index_example 4 12 = Some (0, s')" "dir_index s' 4 [8, 12]"
    "dirent_lookup s' 4 70 = Some 12" "\<forall>k. k \<noteq> 70 \<longrightarrow> dirent_lookup s' 4 k = dirent_lookup index_example 4 k"
    by fastforce
  ultimately show ?thesis by simp
qed

end
