(* ===== verification/Dir_Log.thy ===== *)
theory Dir_Log
  imports Dir_Index
begin

text \<open>
  The log of a directory. On the media the entries of a directory form a chain: \<open>log_head\<close> of the inode
  is the slot of the first entry, \<open>next\<close> of every entry is the slot of the following one, and the last
  \<open>next\<close> is the ghost slot: a slot that is reserved but not written, where the next entry will go. In memory the
  same entries are the list \<open>list\<close> of the inode. \<open>dir_ok\<close> is the invariant that ties the chain, the list and
  the index together, and \<open>dir_append_entry\<close> keeps it.
\<close>

subsection \<open>Chains of slots\<close>

primrec log_chain :: "(index_t \<Rightarrow> index_t) \<Rightarrow> index_t \<Rightarrow> index_t list \<Rightarrow> index_t \<Rightarrow> bool" where
  "log_chain nx cur [] ghost \<longleftrightarrow> cur = ghost"
| "log_chain nx cur (i # is) ghost \<longleftrightarrow> cur = i \<and> log_chain nx (nx i) is ghost"

lemma log_chain_cong:
  "(\<And>i. i \<in> set is \<Longrightarrow> nx' i = nx i) \<Longrightarrow> log_chain nx' cur is ghost \<longleftrightarrow> log_chain nx cur is ghost"
  by (induction "is" arbitrary: cur) auto

lemma log_chain_append:
  "log_chain nx cur (is @ js) ghost \<longleftrightarrow> (\<exists>m. log_chain nx cur is m \<and> log_chain nx m js ghost)"
  by (induction "is" arbitrary: cur) auto

text \<open>Writing the ghost slot and making another slot the ghost appends to the chain.\<close>

lemma log_chain_snoc:
  assumes "log_chain nx cur is ghost" "ghost \<notin> set is"
  shows "log_chain (nx(ghost := g)) cur (is @ [ghost]) g"
proof -
  have "log_chain (nx(ghost := g)) cur is ghost"
    using assms log_chain_cong [of "is" "nx(ghost := g)" nx cur ghost] by fastforce
  then show ?thesis
    by (auto simp: log_chain_append)
qed

subsection \<open>The invariant of a directory\<close>

definition dirent_next :: "fs \<Rightarrow> index_t \<Rightarrow> index_t" where
  "dirent_next s i = pd_next (pm_dirents (media s) (nat i))"

abbreviation slot_of :: "fs \<Rightarrow> nat \<Rightarrow> index_t" where
  "slot_of s d \<equiv> d_idx (dirent_mem s d)"

text \<open>The entry in memory agrees with the one on the media.\<close>

definition on_media :: "fs \<Rightarrow> nat \<Rightarrow> bool" where
  "on_media s d \<longleftrightarrow>
    (let pd = pm_dirents (media s) (nat (slot_of s d))
     in pd_ino pd = d_ino (dirent_mem s d) \<and> pd_name_len pd \<le> length (pd_name pd) \<and>
        BKDRHash (take (pd_name_len pd) (pd_name pd)) = hash_of s d)"

text \<open>Slots of the directory table that the bitmap marks as used.\<close>

definition dir_slots_ok :: "fs \<Rightarrow> index_t list \<Rightarrow> bool" where
  "dir_slots_ok s is \<longleftrightarrow> wf_maps MAP_NUM (maps s SLOT_DIR) \<and>
    all_slots (maps s SLOT_DIR) = {0..<slot_num (slots_of s SLOT_DIR)} \<and>
    distinct is \<and> (\<forall>i\<in>set is. 0 \<le> i \<and> nat i \<in> used_slots (maps s SLOT_DIR))"

definition pool_ok :: "fs \<Rightarrow> nat \<Rightarrow> nat list \<Rightarrow> bool" where
  "pool_ok s dir ds \<longleftrightarrow> distinct (entry_pool s) \<and> set (entry_pool s) \<inter> set (dir # ds) = {} \<and>
    (\<forall>p\<in>set (entry_pool s). p \<noteq> 0 \<and> 4 dvd p)"

definition dir_ok :: "fs \<Rightarrow> nat \<Rightarrow> nat list \<Rightarrow> bool" where
  "dir_ok s dir ds \<longleftrightarrow> dll (lists s) dir ds \<and> pool_ok s dir ds \<and>
    (\<exists>es. dir_index s dir es \<and> set es = set ds) \<and>
    log_chain (dirent_next s) (log_head (inode_mem s dir)) (map (slot_of s) ds) (ghost_slot (inode_mem s dir)) \<and>
    dir_slots_ok s (map (slot_of s) ds @ [ghost_slot (inode_mem s dir)]) \<and> (\<forall>d\<in>set ds. on_media s d)"

lemma used_in_all: "wf_maps n bs \<Longrightarrow> used_slots bs \<subseteq> all_slots bs"
  by (auto simp: used_slots_def all_slots_def bitmap_slots_def)

lemma dir_slot_in_table:
  assumes "dir_slots_ok s is" "i \<in> set is"
  shows "in_table s SLOT_DIR i = Some (nat i)"
  using assms used_in_all [of MAP_NUM "maps s SLOT_DIR"] by (auto simp: dir_slots_ok_def in_table_def)

lemma dir_index_cong:
  assumes "rb_of s' dir = rb_of s dir" "\<And>d. d \<in> set es \<Longrightarrow> hash_of s' d = hash_of s d"
  shows "dir_index s' dir es \<longleftrightarrow> dir_index s dir es"
  using assms by (auto simp: dir_index_def cong: map_cong)

lemma name_copy_take: "name_copy old name = Some nm \<Longrightarrow> take (length name) nm = name \<and> length name \<le> length nm"
  by (auto simp: name_copy_def split: if_splits)

subsection \<open>Appending an entry\<close>

text \<open>The state in which \<open>dir_append_entry\<close> updates the index, and the state it ends in.\<close>

definition append_mid :: "fs \<Rightarrow> nat \<Rightarrow> nat \<Rightarrow> string \<Rightarrow> nat \<Rightarrow> nat list \<Rightarrow> index_t \<Rightarrow> slot_maps \<Rightarrow> fs" where
  "append_mid s dir inode name d pool g m =
    s\<lparr>entry_pool := pool, maps := m, inode_mem := (inode_mem s)(dir := (inode_mem s dir)\<lparr>ghost_slot := g\<rparr>),
      dirent_mem := (dirent_mem s)(d := (dirent_mem s d)\<lparr>d_ino := i_ino (inode_mem s inode),
        d_ts := i_ts (inode_mem s inode), d_hash := BKDRHash name, d_idx := ghost_slot (inode_mem s dir)\<rparr>)\<rparr>"

definition append_pd :: "fs \<Rightarrow> nat \<Rightarrow> string \<Rightarrow> string \<Rightarrow> index_t \<Rightarrow> pm_dirent \<Rightarrow> pm_dirent" where
  "append_pd s inode name nm g pd = pd\<lparr>pd_ino := i_ino (inode_mem s inode), pd_ts := i_ts (inode_mem s inode),
    pd_next := g, pd_name_len := length name mod 256, pd_name := nm\<rparr>"

definition append_end :: "fs \<Rightarrow> nat \<Rightarrow> nat \<Rightarrow> nat \<Rightarrow> nat \<Rightarrow> pm_dirent \<Rightarrow> fs" where
  "append_end s dir inode d i pd =
    s\<lparr>media := (media s)\<lparr>pm_dirents := (pm_dirents (media s))(i := pd)\<rparr>,
      inode_mem := (inode_mem s)(inode := (inode_mem s inode)\<lparr>entry_num := size_add (entry_num (inode_mem s inode)) 1\<rparr>),
      lists := list_add_tail (lists s) d dir\<rparr>"

lemma append_entry_eq:
  assumes "inode \<noteq> dir" and pool: "entry_pool s = d # pool" "d \<noteq> 0"
    and alloc: "slot_dirent_alloc (cpu s) (maps s) = (g, m)" "- 1 \<le> g"
    and ins: "dir_index_insert (append_mid s dir inode name d pool g m) dir d = Some (r, put_rb (append_mid s dir inode name d pool g m) dir tr)"
    and slot: "in_table s SLOT_DIR (ghost_slot (inode_mem s dir)) = Some i"
    and nm: "name_copy (pd_name (pm_dirents (media s) i)) name = Some nm"
  shows "dir_append_entry s dir inode name =
    Some (Inr d, append_end (put_rb (append_mid s dir inode name d pool g m) dir tr) dir inode d i
      (append_pd s inode name nm g (pm_dirents (media s) i)))"
proof -
  let ?m = "append_mid s dir inode name d pool g m"
  have mid: "upd_dirent (upd_inode (s\<lparr>entry_pool := pool, maps := m\<rparr>) dir (\<lambda>i. i\<lparr>ghost_slot := g\<rparr>)) d
      (\<lambda>e. e\<lparr>d_ino := i_ino (inode_mem s inode), d_ts := i_ts (inode_mem s inode), d_hash := BKDRHash name,
        d_idx := ghost_slot (inode_mem s dir)\<rparr>) = ?m"
    by (simp add: append_mid_def upd_inode_def upd_dirent_def)
  have hdr: "i_ino (inode_mem ?m x) = i_ino (inode_mem s x)" "i_ts (inode_mem ?m x) = i_ts (inode_mem s x)"
    "i_ino (inode_mem (put_rb ?m dir tr) x) = i_ino (inode_mem s x)"
    "i_ts (inode_mem (put_rb ?m dir tr) x) = i_ts (inode_mem s x)"
    "ghost_slot (inode_mem (put_rb ?m dir tr) dir) = g" "media (put_rb ?m dir tr) = media s" for x
    by (simp_all add: append_mid_def put_rb_def upd_inode_def)
  show ?thesis
    using assms hdr mid
    by (simp add: dir_append_entry_def dirent_alloc_def entry_alloc_def pool_alloc_def Let_def upd_inode_def
        upd_dirent_def pm_dirent_at_def upd_pm_dirent_def in_table_def append_end_def append_pd_def)
qed


lemma dir_slots_snoc:
  assumes ok: "dir_slots_ok s is" and full: "used_slots (maps s SLOT_DIR) \<noteq> all_slots (maps s SLOT_DIR)"
    and alloc: "slot_dirent_alloc (cpu s) (maps s) = (g, m)"
  shows "0 \<le> g" "dir_slots_ok (s\<lparr>maps := m\<rparr>) (is @ [g])"
proof -
  obtain bs where bs: "do_slot_alloc (cpu s) MAP_NUM (maps s SLOT_DIR) = (g, bs)" "m = (maps s)(SLOT_DIR := bs)"
    using alloc by (auto simp: slot_dirent_alloc_def Let_def split: prod.splits)
  have wf: "wf_maps MAP_NUM (maps s SLOT_DIR)"
    using ok by (simp add: dir_slots_ok_def)
  have "g \<noteq> - 1"
    using sa.alloc_full [OF wf, of "cpu s"] full bs(1) by auto
  from sa.alloc_fresh [OF wf bs(1) this] ok
  show "0 \<le> g" "dir_slots_ok (s\<lparr>maps := m\<rparr>) (is @ [g])"
    by (auto simp: dir_slots_ok_def bs(2) nat_eq_iff2)
qed

lemma set_hash_insert: "with_hash s (hash_of s d) es = [] \<Longrightarrow> set (hash_insert s d es) = insert d (set es)"
  by (auto simp: hash_insert_def with_hash_def below_hash_def above_hash_def filter_empty_conv)

text \<open>The end state satisfies the invariant again.\<close>

lemma append_end_ok:
  fixes s dir inode name d pool g m tr nm
  defines "mid \<equiv> append_mid s dir inode name d pool g m" and "ghost \<equiv> ghost_slot (inode_mem s dir)"
  defines "s' \<equiv> append_end (put_rb mid dir tr) dir inode d (nat ghost)
    (append_pd s inode name nm g (pm_dirents (media s) (nat ghost)))"
  assumes ok: "dir_ok s dir ds" and inode: "inode \<noteq> dir" and pool: "entry_pool s = d # pool"
    and slots: "dir_slots_ok (s\<lparr>maps := m\<rparr>) (map (slot_of s) ds @ [ghost, g])"
    and ix: "dir_index (put_rb mid dir tr) dir es" "set es = insert d (set ds)"
    and nm: "name_copy (pd_name (pm_dirents (media s) (nat ghost))) name = Some nm"
  shows "dir_ok s' dir (ds @ [d])"
proof -
  have d: "d \<notin> set (dir # ds)" "d \<notin> set pool"
    using ok pool by (auto simp: dir_ok_def pool_ok_def)
  have f: "lists s' = list_add_tail (lists s) d dir" "entry_pool s' = pool" "maps s' = m"
    "log_head (inode_mem s' dir) = log_head (inode_mem s dir)" "ghost_slot (inode_mem s' dir) = g"
    "dirent_mem s' = dirent_mem mid" "slots_of s' = slots_of s" "rb_of s' dir = rb_of (put_rb mid dir tr) dir"
    "pm_dirents (media s') = (pm_dirents (media s))(nat ghost := append_pd s inode name nm g (pm_dirents (media s) (nat ghost)))"
    using inode by (simp_all add: s'_def mid_def append_end_def append_mid_def put_rb_def upd_inode_def rb_of_def)
  have mid: "\<And>x. x \<in> set ds \<Longrightarrow> dirent_mem mid x = dirent_mem s x" "slot_of mid d = ghost"
    "d_ino (dirent_mem mid d) = i_ino (inode_mem s inode)" "hash_of mid d = BKDRHash name"
    using d(1) by (auto simp: mid_def append_mid_def ghost_def)
  have sl: "map (slot_of s') (ds @ [d]) = map (slot_of s) ds @ [ghost]"
    using mid(1,2) by (simp add: f(6))
  have pos: "0 \<le> ghost" "\<forall>x\<in>set ds. 0 \<le> slot_of s x \<and> slot_of s x \<noteq> ghost" "ghost \<notin> set (map (slot_of s) ds)"
    using slots by (auto simp: dir_slots_ok_def)
  have nx: "dirent_next s' i = ((dirent_next s)(ghost := g)) i" if "0 \<le> i" for i
    using that pos(1) by (auto simp: dirent_next_def f(9) append_pd_def)
  have "log_chain ((dirent_next s)(ghost := g)) (log_head (inode_mem s dir)) (map (slot_of s) ds @ [ghost]) g"
    using ok pos(3) by (intro log_chain_snoc) (auto simp: dir_ok_def ghost_def)
  then have c: "log_chain (dirent_next s') (log_head (inode_mem s' dir)) (map (slot_of s') (ds @ [d])) g"
    using pos(1,2) unfolding sl f(4) by (subst log_chain_cong [OF nx]) auto
  have "on_media s' x" if "x \<in> set ds" for x
    using ok that pos(1,2) mid(1) by (simp add: dir_ok_def on_media_def f(6,9) eq_nat_nat_iff)
  moreover have "on_media s' d"
    using name_copy_take [OF nm] nm mid(2-) by (simp add: on_media_def f(6,9) append_pd_def name_copy_def MAX_NAME_LEN_def split: if_splits)
  moreover have "dir_slots_ok s' (map (slot_of s') (ds @ [d]) @ [g])"
    using slots unfolding sl by (simp add: dir_slots_ok_def f(3,7))
  moreover have "dll (lists s') dir (ds @ [d])"
    unfolding f(1) using ok d(1) by (intro list_add_tail_dll) (auto simp: dir_ok_def)
  moreover have "pool_ok s' dir (ds @ [d])"
    using ok pool d(2) by (auto simp: dir_ok_def pool_ok_def f(2))
  moreover have "dir_index s' dir es"
    using ix(1) f(6,8) by (subst dir_index_cong [of _ _ "put_rb mid dir tr"]) auto
  ultimately show ?thesis
    using c ix(2) by (auto simp: dir_ok_def f(5))
qed

lemma append_keeps:
  assumes ok: "dir_ok s dir ds" and inode: "inode \<noteq> dir" and len: "length name \<le> MAX_NAME_LEN"
    and new: "BKDRHash name \<notin> hash_of s ` set ds" and pool: "entry_pool s = d # pool"
    and room: "used_slots (maps s SLOT_DIR) \<noteq> all_slots (maps s SLOT_DIR)"
  shows "\<exists>s'. dir_append_entry s dir inode name = Some (Inr d, s') \<and> dir_ok s' dir (ds @ [d]) \<and>
    slot_of s' d = ghost_slot (inode_mem s dir) \<and> hash_of s' d = BKDRHash name \<and>
    d_ino (dirent_mem s' d) = i_ino (inode_mem s inode) \<and>
    (\<forall>i. i \<noteq> nat (ghost_slot (inode_mem s dir)) \<longrightarrow> pm_dirents (media s') i = pm_dirents (media s) i)"
proof -
  let ?ghost = "ghost_slot (inode_mem s dir)" and ?h = "BKDRHash name"
  obtain es where es: "dir_index s dir es" "set es = set ds"
    using ok by (auto simp: dir_ok_def)
  have d: "d \<noteq> 0" "4 dvd d" "d \<notin> set ds"
    using ok pool by (auto simp: dir_ok_def pool_ok_def)
  obtain g m where a: "slot_dirent_alloc (cpu s) (maps s) = (g, m)" by fastforce
  have so: "dir_slots_ok s (map (slot_of s) ds @ [?ghost])"
    using ok by (simp add: dir_ok_def)
  note g = dir_slots_snoc [OF so room a]
  let ?m = "append_mid s dir inode name d pool g m"
  have mid: "hash_of ?m d = ?h" "\<And>x. x \<in> set ds \<Longrightarrow> dirent_mem ?m x = dirent_mem s x"
    using d(3) by (auto simp: append_mid_def)
  have ix: "dir_index ?m dir es"
    using es d mid(2) by (subst dir_index_cong [of _ _ s]) (auto simp: append_mid_def rb_of_def)
  have e: "with_hash ?m (hash_of ?m d) es = []"
    using new es(2) mid unfolding with_hash_def filter_empty_conv by (metis image_eqI)
  then obtain tr where tr: "dir_index_insert ?m dir d = Some (0, put_rb ?m dir tr)"
    "dir_index (put_rb ?m dir tr) dir (hash_insert ?m d es)"
    using index_insert_ok(2) [OF ix] d es(2) by auto
  obtain nm where nm: "name_copy (pd_name (pm_dirents (media s) (nat ?ghost))) name = Some nm"
    using len by (auto simp: name_copy_def)
  let ?s' = "append_end (put_rb ?m dir tr) dir inode d (nat ?ghost) (append_pd s inode name nm g (pm_dirents (media s) (nat ?ghost)))"
  have "dir_append_entry s dir inode name = Some (Inr d, ?s')"
    by (rule append_entry_eq [OF inode pool d(1) a _ tr(1) dir_slot_in_table [OF so] nm]) (use g in auto)
  moreover have "dir_ok ?s' dir (ds @ [d])"
    by (rule append_end_ok [OF ok inode pool _ tr(2) _ nm]) (use g set_hash_insert [OF e] es(2) in auto)
  moreover have "dirent_mem ?s' = dirent_mem ?m" "pm_dirents (media ?s') i = pm_dirents (media s) i" if "i \<noteq> nat ?ghost" for i
    using that by (simp_all add: append_end_def append_mid_def put_rb_def upd_inode_def)
  ultimately show ?thesis
    by (auto simp: append_end_def append_mid_def put_rb_def upd_inode_def)
qed


lemma dir_lookup_ok:
  assumes "dir_ok s dir ds"
  shows "d \<in> set ds \<Longrightarrow> dirent_lookup s dir (hash_of s d) = Some d"
    and "h \<notin> hash_of s ` set ds \<Longrightarrow> dirent_lookup s dir h = Some 0"
proof -
  obtain es where es: "dir_index s dir es" "set es = set ds"
    using assms by (auto simp: dir_ok_def)
  note l = lookup_ok [OF es(1)]
  show "dirent_lookup s dir (hash_of s d) = Some d" if d: "d \<in> set ds"
  proof -
    obtain xs ys where x: "es = xs @ d # ys"
      using d es(2) split_list by metis
    with es(1) have "with_hash s (hash_of s d) es = [d]"
      using search_split(3) [of s xs d ys] by (simp add: dir_index_def)
    then show ?thesis
      using l by (simp add: dir_map_def)
  qed
  show "dirent_lookup s dir h = Some 0" if "h \<notin> hash_of s ` set ds"
  proof -
    have "with_hash s h es = []"
      using that es(2) unfolding with_hash_def filter_empty_conv by (metis image_eqI)
    then show ?thesis
      using l by (simp add: dir_map_def)
  qed
qed

text \<open>With no free slot the new ghost slot is \<open>-1\<close>, which the check after the allocation does not catch.\<close>

lemma alloc_full_slot:
  assumes "wf_maps MAP_NUM (maps s SLOT_DIR)" "used_slots (maps s SLOT_DIR) = all_slots (maps s SLOT_DIR)"
  shows "slot_dirent_alloc (cpu s) (maps s) = (- 1, maps s)"
proof -
  obtain g bs where g: "do_slot_alloc (cpu s) MAP_NUM (maps s SLOT_DIR) = (g, bs)" by fastforce
  have "g = - 1"
    using sa.alloc_fresh [OF assms(1) g] assms(2) by auto
  with g sa.alloc_full [OF assms(1), of "cpu s" bs] show ?thesis
    by (simp add: slot_dirent_alloc_def)
qed

lemma append_full:
  assumes ok: "dir_ok s dir ds" and inode: "inode \<noteq> dir" and len: "length name \<le> MAX_NAME_LEN"
    and pool: "entry_pool s = d # pool"
    and full: "used_slots (maps s SLOT_DIR) = all_slots (maps s SLOT_DIR)"
  shows "\<exists>s'. dir_append_entry s dir inode name = Some (Inr d, s') \<and> ghost_slot (inode_mem s' dir) = - 1 \<and> maps s' = maps s \<and>
    slots_of s' = slots_of s \<and> pd_next (pm_dirents (media s') (nat (ghost_slot (inode_mem s dir)))) = - 1"
proof -
  let ?ghost = "ghost_slot (inode_mem s dir)"
  have d: "d \<noteq> 0" "4 dvd d" "d \<notin> set ds"
    using ok pool by (auto simp: dir_ok_def pool_ok_def)
  have so: "dir_slots_ok s (map (slot_of s) ds @ [?ghost])"
    using ok by (simp add: dir_ok_def)
  then have a: "slot_dirent_alloc (cpu s) (maps s) = (- 1, maps s)"
    using full by (intro alloc_full_slot) (auto simp: dir_slots_ok_def)
  let ?m = "append_mid s dir inode name d pool (- 1) (maps s)"
  obtain es where es: "dir_index s dir es" "set es = set ds"
    using ok by (auto simp: dir_ok_def)
  have "dir_index ?m dir es"
    using es d by (subst dir_index_cong [of _ _ s]) (auto simp: append_mid_def rb_of_def)
  from index_insert_ok [OF this, of d] d es(2)
  obtain r tr where tr: "dir_index_insert ?m dir d = Some (r, put_rb ?m dir tr)"
  proof (cases "with_hash ?m (hash_of ?m d) es = []")
    case False
    have "put_rb ?m dir (rb_of ?m dir) = ?m"
      by (simp add: put_rb_def rb_of_def upd_inode_def)
    with index_insert_ok(1) [OF \<open>dir_index ?m dir es\<close> _ _ _ False] d es(2) that show ?thesis by metis
  qed auto
  obtain nm where nm: "name_copy (pd_name (pm_dirents (media s) (nat ?ghost))) name = Some nm"
    using len by (auto simp: name_copy_def)
  have "dir_append_entry s dir inode name = Some (Inr d, append_end (put_rb ?m dir tr) dir inode d (nat ?ghost)
      (append_pd s inode name nm (- 1) (pm_dirents (media s) (nat ?ghost))))"
    by (rule append_entry_eq [OF inode pool d(1) a _ tr dir_slot_in_table [OF so] nm]) auto
  with inode show ?thesis
    by (simp add: append_end_def append_mid_def append_pd_def put_rb_def upd_inode_def)
qed

subsection \<open>Properties\<close>

text \<open>C2: Appending an entry keeps the log, the list and the index of a directory together. On a directory that
  satisfies the invariant, with a new name of at most 64 bytes, a free entry object and a free slot,
  \<open>dir_append_entry\<close> succeeds; the entry is the last of the log, it stands in the slot that was the ghost slot, a
  fresh slot is the new ghost slot, lookups find the entry under the hash of its name and every other entry
  as before, and no other slot of the table is written on the media. The invariant includes
  that the chain on the media, the list in memory and the index hold the same entries.\<close>

theorem dir_append_entry_correct:
  assumes "dir_ok s dir ds" "inode \<noteq> dir" "length name \<le> MAX_NAME_LEN"
    and "BKDRHash name \<notin> hash_of s ` set ds" "entry_pool s = d # pool"
    and "used_slots (maps s SLOT_DIR) \<noteq> all_slots (maps s SLOT_DIR)"
  shows "\<exists>s'. dir_append_entry s dir inode name = Some (Inr d, s') \<and> dir_ok s' dir (ds @ [d]) \<and>
    slot_of s' d = ghost_slot (inode_mem s dir) \<and> d_ino (dirent_mem s' d) = i_ino (inode_mem s inode) \<and>
    dirent_lookup s' dir (BKDRHash name) = Some d \<and>
    (\<forall>i. i \<noteq> nat (ghost_slot (inode_mem s dir)) \<longrightarrow> pm_dirents (media s') i = pm_dirents (media s) i)"
proof -
  from append_keeps [OF assms] obtain s' where s': "dir_append_entry s dir inode name = Some (Inr d, s')"
    "dir_ok s' dir (ds @ [d])" "slot_of s' d = ghost_slot (inode_mem s dir)" "hash_of s' d = BKDRHash name"
    "d_ino (dirent_mem s' d) = i_ino (inode_mem s inode)"
    "\<forall>i. i \<noteq> nat (ghost_slot (inode_mem s dir)) \<longrightarrow> pm_dirents (media s') i = pm_dirents (media s) i"
    by blast
  have "dirent_lookup s' dir (BKDRHash name) = Some d"
    using dir_lookup_ok(1) [OF s'(2), of d] s'(4) by simp
  with s' show ?thesis by blast
qed

text \<open>A directory without entries, whose ghost slot is slot 1.\<close>

definition dir_example :: fs where
  "dir_example = blank_fs\<lparr>inode_mem := (inode_mem blank_fs)(4 := zero_inode\<lparr>log_head := 1, ghost_slot := 1\<rparr>),
     lists := \<lparr>lnext = \<lambda>_. 4, lprev = \<lambda>_. 4\<rparr>, entry_pool := [8, 12]\<rparr>"

lemma blank_map_bits: "bit_at (dram blank_map) i \<longleftrightarrow> i < 2"
proof (cases "i < 8")
  case True
  then have "i \<in> {0, 1, 2, 3, 4, 5, 6, 7}" by auto
  then show ?thesis by (auto simp: bit_at_def blank_map_def bit_numeral_rec)
next
  case False
  then have "i div 8 \<noteq> 0" by auto
  with False show ?thesis by (simp add: bit_at_def blank_map_def)
qed

lemma blank_maps: "wf_maps MAP_NUM [blank_map]" "used_slots [blank_map] = {0, 1}" "all_slots [blank_map] = {0..<64}"
proof -
  have "{i. i < 64 \<and> \<not> i < 2} = {2..<64::nat}" by auto
  moreover have f: "bit_num blank_map = 64" "bit_offset blank_map = 0" "hint blank_map = 2" "remain blank_map = 62"
    by (simp_all add: blank_map_def)
  ultimately show "wf_maps MAP_NUM [blank_map]"
    by (simp add: wf_maps_def wf_bitmap_def MAP_NUM_def blank_map_bits)
  show "used_slots [blank_map] = {0, 1}" "all_slots [blank_map] = {0..<64}"
    by (auto simp: used_slots_def all_slots_def bitmap_slots_def blank_map_bits f)
qed

lemma dir_example_ok: "dir_ok dir_example 4 []"
proof -
  have "dir_index dir_example 4 []"
    by (auto simp: dir_index_def rb_rep_def zrep_def rb_of_def dir_example_def blank_fs_def zero_inode_def rb_ok_def
        intro!: exI [of _ Leaf])
  moreover have "dir_slots_ok dir_example [1]"
    using blank_maps by (simp add: dir_slots_ok_def dir_example_def blank_fs_def blank_slot_def)
  ultimately show ?thesis
    by (auto simp: dir_ok_def pool_ok_def dll_def dir_example_def zero_inode_def)
qed

theorem dir_append_entry_correct_witness:
  "\<exists>s'. dir_append_entry dir_example 4 16 ''usr'' = Some (Inr 8, s') \<and> dir_ok s' 4 [8] \<and> slot_of s' 8 = 1 \<and>
    dirent_lookup s' 4 (BKDRHash ''usr'') = Some 8"
proof -
  have "ghost_slot (inode_mem dir_example 4) = 1" "entry_pool dir_example = [8, 12]" "maps dir_example SLOT_DIR = [blank_map]"
    by (simp_all add: dir_example_def blank_fs_def)
  moreover have "used_slots [blank_map] \<noteq> all_slots [blank_map]"
    unfolding blank_maps by (auto dest!: equalityD2 [THEN subsetD, of _ _ 5])
  ultimately show ?thesis
    using dir_append_entry_correct [OF dir_example_ok, of 16 "''usr''" 8 "[12]"] by (auto simp: MAX_NAME_LEN_def)
qed

text \<open>C32: Running out of slots. When every slot of the directory table is in use, \<open>dir_append_entry\<close> still reports success (the code tests
  \<open>ghost_slot < -1\<close>, which the value \<open>-1\<close> of a failed allocation does not satisfy). The directory is left with ghost slot \<open>-1\<close>, which is also the
  successor of the new entry in the chain on the media. That is where the next append stores its entry: one slot before the directory table, which
  in the layout of \<open>mkfs\<close> is the place of the last two inodes.\<close>

theorem dir_append_entry_full:
  assumes "dir_ok s dir ds" "inode \<noteq> dir" "length name \<le> MAX_NAME_LEN" "entry_pool s = d # pool"
    and "used_slots (maps s SLOT_DIR) = all_slots (maps s SLOT_DIR)"
  shows "\<exists>s'. dir_append_entry s dir inode name = Some (Inr d, s') \<and> ghost_slot (inode_mem s' dir) = - 1 \<and> maps s' = maps s \<and>
    pd_next (pm_dirents (media s') (nat (ghost_slot (inode_mem s dir)))) = - 1 \<and>
    IDX2DENT s' (ghost_slot (inode_mem s' dir)) = IDX2DENT s 0 - int (slot_size (slots_of s SLOT_DIR)) \<and>
    (\<forall>old sz. slots_of s = mkfs_layout old sz \<and> 2 ^ 28 \<le> sz \<and> sz < 2 ^ 50 \<longrightarrow>
       IDX2DENT s' (ghost_slot (inode_mem s' dir)) = IDX2INODE s' (int (slot_num (slots_of s SLOT_INODE)) - 2))"
proof -
  from append_full [OF assms] obtain s' where s': "dir_append_entry s dir inode name = Some (Inr d, s')"
    "ghost_slot (inode_mem s' dir) = - 1" "maps s' = maps s" "slots_of s' = slots_of s"
    "pd_next (pm_dirents (media s') (nat (ghost_slot (inode_mem s dir)))) = - 1" by blast
  moreover have "IDX2DENT s' (- 1) = IDX2INODE s' (int (slot_num (slots_of s SLOT_INODE)) - 2)"
    if "slots_of s = mkfs_layout old sz" "2 ^ 28 \<le> sz" "sz < 2 ^ 50" for old sz
    using that mkfs_layout_eq(1) [OF that(2,3), of old] s'(4) by (simp add: IDX2DENT_def IDX2INODE_def)
  ultimately show ?thesis
    by (intro exI [of _ s']) (auto simp: IDX2DENT_def)
qed

text \<open>The same directory on formatted media of 1 GiB, with all slots of the directory table in use.\<close>

definition full_map :: dram_bitmap where
  "full_map = \<lparr>dram = \<lambda>_. - 1, pm = 0, bit_offset = 0, bit_num = 327680, remain = 0, hint = 0\<rparr>"

definition full_example :: fs where
  "full_example = dir_example\<lparr>maps := \<lambda>_. [full_map],
     media := (media dir_example)\<lparr>super := (super (media dir_example))\<lparr>sb_slots := mkfs_layout (\<lambda>_. blank_slot 0) (2 ^ 30)\<rparr>\<rparr>\<rparr>"

lemma full_slots: "slot_num (slots_of full_example SLOT_DIR) = 327680" "slot_num (slots_of full_example SLOT_INODE) = 327680"
  using mkfs_layout_eq(1) [of "2 ^ 30" "\<lambda>_. blank_slot 0"] by (simp_all add: full_example_def)

lemma full_maps: "wf_maps MAP_NUM [full_map]" "used_slots [full_map] = {0..<327680}" "all_slots [full_map] = {0..<327680}"
proof -
  have b: "bit_at (dram full_map) i" for i
    by (simp add: bit_at_def full_map_def)
  have f: "bit_offset full_map = 0" "bit_num full_map = 327680" "hint full_map = 0" "remain full_map = 0"
    by (simp_all add: full_map_def)
  then show "wf_maps MAP_NUM [full_map]"
    by (simp add: wf_maps_def wf_bitmap_def MAP_NUM_def b)
  show "used_slots [full_map] = {0..<327680}" "all_slots [full_map] = {0..<327680}"
    by (auto simp: used_slots_def all_slots_def bitmap_slots_def b f)
qed

lemma full_example_ok: "dir_ok full_example 4 []"
proof -
  have "dir_index full_example 4 []"
    using dir_example_ok by (subst dir_index_cong [of _ _ dir_example]) (auto simp: dir_ok_def full_example_def rb_of_def)
  moreover have "dir_slots_ok full_example [1]"
    using full_maps full_slots by (simp add: dir_slots_ok_def full_example_def)
  ultimately show ?thesis
    using dir_example_ok by (auto simp: dir_ok_def pool_ok_def full_example_def dir_example_def)
qed

theorem dir_append_entry_full_witness:
  "\<exists>s'. dir_append_entry full_example 4 16 ''usr'' = Some (Inr 8, s') \<and> ghost_slot (inode_mem s' 4) = - 1 \<and>
    IDX2DENT s' (ghost_slot (inode_mem s' 4)) = IDX2INODE s' 327678"
proof -
  have "entry_pool full_example = [8, 12]" "maps full_example SLOT_DIR = [full_map]"
    "slots_of full_example = mkfs_layout (\<lambda>_. blank_slot 0) (2 ^ 30)"
    by (simp_all add: full_example_def dir_example_def)
  with full_maps full_slots dir_append_entry_full [OF full_example_ok, of 16 "''usr''" 8 "[12]"] show ?thesis
    by (fastforce simp: MAX_NAME_LEN_def)
qed

end
