(* ===== verification/Mount.thy ===== *)
theory Mount
  imports Recover Journal_Replay Fs_Calls Dir_Log
begin

text \<open>
  Starting and stopping: \<open>shm_init\<close> of \<open>slotfs/shm.c\<close>, \<open>slotfs/slotfs.c\<close>, and one round of the thread that releases inodes.
  The device and the shared memory are mapped already (\<open>dax_map\<close> and \<open>shm_map\<close> are calls of the kernel). The
  sizes of the structures are those of the x86-64 ABI.
\<close>

subsection \<open>The shared memory (shm.c)\<close>

definition SHM_SIZE :: nat where
  "SHM_SIZE = 2 * 1024 * 1024 * 1024"

definition HEAP_SIZE :: nat where
  "HEAP_SIZE = 20 * 1024 * 1024"

definition HEAP_START :: nat where
  "HEAP_START = SHM_BASE + SHM_SIZE - HEAP_SIZE"

definition BNODE_ARENA :: nat where
  "BNODE_ARENA = 256 * 1024 * 1024"

definition INODE_ARENA :: nat where
  "INODE_ARENA = 256 * 1024 * 1024"

definition ENTRY_ARENA :: nat where
  "ENTRY_ARENA = 1024 * 1024 * 1024"

definition SIZEOF_DRAM_SB :: nat where
  "SIZEOF_DRAM_SB = 1104"

definition SIZEOF_INODE_ENTRY :: nat where
  "SIZEOF_INODE_ENTRY = 16"

definition SIZEOF_EBUF_MGR :: nat where
  "SIZEOF_EBUF_MGR = EBUF_NUM * (EBUF_SIZE * 24 + 16) + 8"

definition SIZEOF_JNL_MGR :: nat where
  "SIZEOF_JNL_MGR = 4 + JOURNAL_NUM + 4"

definition SIZEOF_BTREE_NODE :: nat where
  "SIZEOF_BTREE_NODE = 32 + BRANCH_NUM * 8"

definition SIZEOF_INODE :: nat where
  "SIZEOF_INODE = 712"

definition SIZEOF_ENTRY :: nat where
  "SIZEOF_ENTRY = 80"

definition ebuf_mgr_init :: "(nat \<Rightarrow> ebuf) \<Rightarrow> nat \<Rightarrow> ebuf" where
  "ebuf_mgr_init m = (\<lambda>i. if i < EBUF_NUM then (m i)\<lparr>eb_num := 0, eb_locked := False\<rparr> else m i)"

text \<open>Where \<open>shm_init_bitmap\<close> ends: the copies of the bitmaps, each filled up to a page (\<open>MAP_NUM\<close> is 1).\<close>

definition shm_bitmap_end :: "nat \<Rightarrow> (slot_type \<Rightarrow> pm_slot) \<Rightarrow> nat" where
  "shm_bitmap_end base slots =
    fold (\<lambda>t b. ALIGN (b + size_add (slot_num (slots t)) 7 div 8) PAGE_SIZE) [SLOT_INODE, SLOT_DIR, SLOT_FILE, SLOT_DATA] base"

text \<open>The address at which the arenas start.\<close>

definition shm_arena_base :: "(slot_type \<Rightarrow> pm_slot) \<Rightarrow> nat" where
  "shm_arena_base slots =
    (let base = SHM_BASE + SIZEOF_DRAM_SB;
         base = ALIGN base PAGE_SIZE + 4 * PAGE_SIZE;
         base = ALIGN (shm_bitmap_end base slots) PAGE_SIZE + slot_num (slots SLOT_INODE) * SIZEOF_INODE_ENTRY;
         base = ALIGN base PAGE_SIZE + SIZEOF_EBUF_MGR;
         base = ALIGN base PAGE_SIZE + SIZEOF_JNL_MGR
     in ALIGN base PAGE_SIZE)"

text \<open>\<open>rest\<close> is what the memory behind the bitmaps holds. The table of inodes has no entries but those that are cleared. When
  the root cannot be read, the code stores an error pointer in \<open>sbi->root\<close> and goes on; this is left out (\<open>None\<close>).\<close>

definition shm_init :: "bytes \<Rightarrow> fs \<Rightarrow> (int \<times> fs) option" where
  "shm_init rest s =
    (let slots = slots_of s;
         s = s\<lparr>fs_ts := sb_ts (super (media s)), rels := INIT_LIST_HEAD (rels s) SBI,
               maps := shm_init_bitmap rest (media s), itable := \<lambda>_. 0, ilocked := \<lambda>_. False, ebufs := ebuf_mgr_init (ebufs s)\<rparr>;
         s = journal_mgr_init s;
         b = shm_arena_base slots; i = b + BNODE_ARENA; e = i + INODE_ARENA; base = e + ENTRY_ARENA;
         s = s\<lparr>bheap := (bheap s)\<lparr>bpool := arena_items b BNODE_ARENA SIZEOF_BTREE_NODE\<rparr>,
               inode_pool := arena_items i INODE_ARENA SIZEOF_INODE, entry_pool := arena_items e ENTRY_ARENA SIZEOF_ENTRY\<rparr>
     in if base > HEAP_START then Some (- 1, s)
        else do {
          h \<leftarrow> heap_init (fheap s) HEAP_START HEAP_SIZE;
          (r, s) \<leftarrow> iget (s\<lparr>fheap := h\<rparr>) 0;
          case r of
            Inl _ \<Rightarrow> None
          | Inr rt \<Rightarrow> do {
              s \<leftarrow> inode_unlock (s\<lparr>root_inode := rt\<rparr>) 0;
              Some (0, s)
            }
        })"

subsection \<open>Mounting (slotfs.c)\<close>

datatype status_t = STATUS_UNINIT | STATUS_INITING | STATUS_READY | STATUS_EXIT

text \<open>The process that starts, the shared super block, and what memory holds that nobody has initialised: \<open>w_rest\<close> behind the
  bitmaps, \<open>w_sb\<close> in the local variable of \<open>mkfs\<close>, and the objects and results of \<open>malloc\<close> of the recovery.\<close>

record world =
  w_sys :: sys
  status :: status_t
  user :: int
  w_rest :: bytes
  w_sb :: pm_sb
  w_rc :: rc_mgr

definition w_fs :: "world \<Rightarrow> fs" where
  "w_fs w = fsys (w_sys w)"

definition upd_fs :: "world \<Rightarrow> fs \<Rightarrow> world" where
  "upd_fs w s = w\<lparr>w_sys := (w_sys w)\<lparr>fsys := s\<rparr>\<rparr>"

definition need_mkfs :: "world \<Rightarrow> int" where
  "need_mkfs w = 1"

definition need_recovery :: "world \<Rightarrow> bool" where
  "need_recovery w = (if status w \<noteq> STATUS_UNINIT then False else \<not> sb_umount (super (media (w_fs w))))"

definition set_umount :: "world \<Rightarrow> bool \<Rightarrow> world" where
  "set_umount w b = upd_fs w ((w_fs w)\<lparr>media := (media (w_fs w))\<lparr>super := (super (media (w_fs w)))\<lparr>sb_umount := b\<rparr>\<rparr>\<rparr>)"

text \<open>A failed assertion ends the process, and a process that waits for another to finish its initialisation is alone here: both
  are \<open>None\<close>. \<open>init_dramon\<close> starts the thread of \<open>release_round\<close>.\<close>

definition slotfs_init :: "world \<Rightarrow> (int \<times> world) option" where
  "slotfs_init w =
    do {
      let w = (if need_mkfs w \<noteq> 0
               then upd_fs w ((w_fs w)\<lparr>media := mkfs (now (w_fs w)) (w_sb w) (media (w_fs w))\<rparr>) else w);
      (recovered, w) \<leftarrow> (if need_recovery w then do {
            (ret, r) \<leftarrow> recover ((w_rc w)\<lparr>rc_media := media (w_fs w)\<rparr>);
            if ret \<noteq> 0 then None
            else Some (True, (upd_fs w ((w_fs w)\<lparr>media := rc_media r\<rparr>))\<lparr>w_rc := r\<rparr>)
          }
          else Some (False, w));
      w \<leftarrow> (if status w = STATUS_INITING then None
           else if status w = STATUS_UNINIT then do {
             (ret, s) \<leftarrow> shm_init (w_rest w) (w_fs w);
             if ret \<noteq> 0 then None
             else do {
               (ret, s) \<leftarrow> (if recovered then journal_replay s else Some (0, s));
               if ret \<noteq> 0 then None
               else do {
                 y \<leftarrow> runtime_init ((w_sys w)\<lparr>fsys := s\<rparr>);
                 Some (w\<lparr>w_sys := y, status := STATUS_READY, user := 0\<rparr>)
               }
             }
           }
           else do {
             y \<leftarrow> runtime_init (w_sys w);
             Some (w\<lparr>w_sys := y\<rparr>)
           });
      Some (0, set_umount (w\<lparr>user := user w + 1\<rparr>) False)
    }"

text \<open>\<open>crash\<close> is the environment variable \<open>SLOTFS_CRASH\<close>.\<close>

definition slotfs_exit :: "int \<Rightarrow> world \<Rightarrow> world option" where
  "slotfs_exit crash w =
    do {
      let w = w\<lparr>user := user w - 1\<rparr>;
      y \<leftarrow> runtime_exit (w_sys w);
      let w = w\<lparr>w_sys := y\<rparr>;
      if user w > 0 then Some w
      else
        let w = (if crash = 0 then set_umount w True else w)
        in Some (if user w = 0 then w\<lparr>status := STATUS_EXIT\<rparr> else w)
    }"

text \<open>One round of \<open>release_thread\<close>.\<close>

definition release_round :: "fs \<Rightarrow> fs option" where
  "release_round s =
    (if list_empty (rels s) SBI then Some s
     else
       let inode = lnext (rels s) SBI
       in do_inode_release (s\<lparr>rels := list_del (rels s) inode\<rparr>) inode)"

subsection \<open>The state after mounting\<close>

lemma arena_base: "shm_arena_base (mkfs_layout old DAX_SIZE) = SHM_BASE + 0x9d8000"
  by (simp add: shm_arena_base_def shm_bitmap_end_def dax_layout SIZEOF_DRAM_SB_def SIZEOF_INODE_ENTRY_def SIZEOF_EBUF_MGR_def
      SIZEOF_JNL_MGR_def SHM_BASE_def PAGE_SIZE_def EBUF_NUM_def EBUF_SIZE_def JOURNAL_NUM_def ALIGN_def Let_def size_add_def)

lemma arena_items_top:
  assumes "0 < sz div isz"
  obtains ps where "arena_items mem sz isz = (mem + (sz div isz - 1) * isz) # ps"
proof -
  obtain n where "sz div isz = Suc n"
    using assms gr0_implies_Suc by blast
  then show ?thesis
    using that by (simp add: arena_items_def)
qed

lemma arena_items_dvd: "k dvd mem \<Longrightarrow> k dvd isz \<Longrightarrow> p \<in> set (arena_items mem sz isz) \<Longrightarrow> mem \<le> p \<and> k dvd p"
  by (auto simp: arena_items_def)

lemma heap_init_some: "\<exists>h'. heap_init h region sz = Some h'"
proof -
  have "get_bin_index k < BIN_COUNT" for k
    by (simp add: get_bin_index_def Let_def BIN_COUNT_def BIN_MAX_IDX_def)
  then show ?thesis
    by (simp add: heap_init_def Let_def add_node_def upd_hnode_def create_foot_def)
qed

text \<open>The root of a new file system, read from the media.\<close>

lemma root_rebuild:
  assumes "pm_inode_at s 0 = Some q" "q = pm_inodes (mkfs ct sb m) 0" "inum s p = 0"
  shows "\<exists>s'. inode_rebuild s p = Some (0, s') \<and> lists s' = INIT_LIST_HEAD (lists s) p \<and> i_rb_root (inode_mem s' p) = 0 \<and>
    log_head (inode_mem s' p) = 1 \<and> ghost_slot (inode_mem s' p) = 1 \<and> is_dir (inode_mem s' p) \<and>
    media s' = media s \<and> maps s' = maps s \<and> entry_pool s' = entry_pool s"
  using assms
  by (auto simp: inode_rebuild_def Let_def inode_init_header_def upd_inode_def mkfs_root zero_pm_inode_def S_IFDIR_def S_IFMT_def is_dir_def
      dir_rebuild_def zero_inode_def)

text \<open>The invariants that the rest of the development starts from.\<close>

definition mounted :: "fs \<Rightarrow> bool" where
  "mounted s \<longleftrightarrow> cache_ok s \<and> is_cached s (root_inode s) \<and> ilocked s = (\<lambda>_. False) \<and> dir_ok s (root_inode s) [] \<and>
    (\<forall>t. wf_maps MAP_NUM (maps s t) \<and> used_slots (maps s t) = (if t = SLOT_DIR then {0, 1} else {0}) \<and>
      all_slots (maps s t) = {0..<slot_num (slots_of s t)}) \<and>
    inum s (root_inode s) = 0 \<and> is_dir (inode_mem s (root_inode s)) \<and> 0 < slot_num (slots_of s SLOT_INODE)"

lemma mounted_media:
  assumes "mounted s" "pm_dirents m = pm_dirents (media s)" "sb_slots (super m) = slots_of s"
  shows "mounted (s\<lparr>media := m\<rparr>)"
proof -
  have "dir_index (s\<lparr>media := m\<rparr>) d ds = dir_index s d ds" for d ds
    by (rule dir_index_cong) (auto simp: rb_of_def)
  then have "dir_ok (s\<lparr>media := m\<rparr>) d [] = dir_ok s d []" for d
    using assms(3) by (simp add: dir_ok_def pool_ok_def dir_slots_ok_def)
  with assms show ?thesis
    by (auto simp: mounted_def cache_ok_def is_cached_def)
qed

text \<open>What \<open>shm_init\<close> hands to \<open>iget\<close>.\<close>

definition shm_ready :: "fs \<Rightarrow> nat \<Rightarrow> bool" where
  "shm_ready s e \<longleftrightarrow> (\<exists>p ps. inode_pool s = p # ps \<and> distinct (p # ps) \<and> 0 \<notin> set (p # ps) \<and> p < e) \<and>
    itable s = (\<lambda>_. 0) \<and> ilocked s = (\<lambda>_. False) \<and> distinct (entry_pool s) \<and> (\<forall>d \<in> set (entry_pool s). e \<le> d \<and> 4 dvd d) \<and>
    (\<exists>ct sb m rest. media s = mkfs ct sb m \<and> maps s = shm_init_bitmap rest (media s))"

lemma iget_root:
  assumes "shm_ready s e"
  shows "\<exists>r s' s2. iget s 0 = Some (Inr r, s') \<and> inode_unlock (s'\<lparr>root_inode := r\<rparr>) 0 = Some s2 \<and> mounted s2 \<and> media s2 = media s"
proof -
  obtain p ps ct sb m rest where a: "inode_pool s = p # ps" "distinct (p # ps)" "0 \<notin> set (p # ps)" "p < e"
    "itable s = (\<lambda>_. 0)" "ilocked s = (\<lambda>_. False)" "distinct (entry_pool s)" "\<forall>d \<in> set (entry_pool s). e \<le> d \<and> 4 dvd d"
    "media s = mkfs ct sb m" "maps s = shm_init_bitmap rest (media s)"
    using assms by (auto simp: shm_ready_def)
  have n: "0 < slot_num (slots_of s t)" for t
    using a(9) dax_slot_num by (simp add: mkfs_super)
  define s1 where "s1 = s\<lparr>ilocked := (\<lambda>_. False)(0 := True), inode_pool := ps, inode_mem := (inode_mem s)(p := (inode_mem s p)\<lparr>i_ino := 0\<rparr>)\<rparr>"
  have "pm_inode_at s1 0 = Some (pm_inodes (mkfs ct sb m) 0)" "inum s1 p = 0"
    using n a(9) by (simp_all add: s1_def pm_inode_at_def in_table_def)
  then obtain s2 where s2: "inode_rebuild s1 p = Some (0, s2)" "lists s2 = INIT_LIST_HEAD (lists s1) p" "i_rb_root (inode_mem s2 p) = 0"
    "log_head (inode_mem s2 p) = 1" "ghost_slot (inode_mem s2 p) = 1" "is_dir (inode_mem s2 p)"
    "media s2 = media s1" "maps s2 = maps s1" "entry_pool s2 = entry_pool s1"
    using root_rebuild by blast
  note o = rebuild_only [OF s2(1)]
  have get: "iget s 0 = Some (Inr p, s2\<lparr>itable := (itable s2)(0 := p)\<rparr>)"
    using a n s2(1)
    by (simp add: iget_def inode_lock_def inode_alloc_def pool_alloc_def upd_inode_def s1_def)
  define s3 where "s3 = s2\<lparr>itable := (\<lambda>_. 0)(0 := p), root_inode := p, ilocked := \<lambda>_. False\<rparr>"
  have fields: "itable s2 = (\<lambda>_. 0)" "ilocked s2 = (\<lambda>_. False)(0 := True)" "inum s2 p = 0" "inode_pool s2 = ps"
    using o a(5) by (auto simp: only_at_def s1_def)
  have maps: "wf_maps MAP_NUM (maps s3 t) \<and> used_slots (maps s3 t) = (if t = SLOT_DIR then {0, 1} else {0}) \<and>
      all_slots (maps s3 t) = {0..<slot_num (slots_of s3 t)}" for t
    using mkfs_maps [of rest ct sb m t] a(9,10) s2(7,8) by (simp add: s3_def s1_def)
  have "p \<noteq> 0" using a(3) by auto
  have "dir_index s3 p []"
    using s2(3) by (auto simp: dir_index_def rb_rep_def zrep_def rb_of_def rb_ok_def s3_def intro!: exI [of _ Leaf])
  moreover have "pool_ok s3 p []"
    using a(4,7,8) s2(9) \<open>p \<noteq> 0\<close> by (force simp: pool_ok_def s3_def s1_def)
  moreover have "dll (lists s3) p []"
    using s2(2) by (simp add: s3_def dll_def INIT_LIST_HEAD_def Let_def)
  moreover have "dir_slots_ok s3 [1]"
    using maps [of SLOT_DIR] by (simp add: dir_slots_ok_def)
  ultimately have "dir_ok s3 p []"
    using s2(4,5) by (auto simp: dir_ok_def s3_def)
  then have "mounted s3"
    using maps a(2,3) fields s2(6,7) n [of SLOT_INODE] \<open>p \<noteq> 0\<close>
    by (auto simp: mounted_def cache_ok_def is_cached_def s3_def s1_def)
  moreover have "inode_unlock (s2\<lparr>itable := (itable s2)(0 := p), root_inode := p\<rparr>) 0 = Some s3"
    using n s2(7) fields by (simp add: inode_unlock_def s3_def s1_def fun_upd_idem)
  ultimately show ?thesis
    using get s2(7) by (intro exI [of _ p] exI [of _ "s2\<lparr>itable := (itable s2)(0 := p)\<rparr>"] exI [of _ s3]) (auto simp: s3_def s1_def)
qed

lemma shm_init_mkfs:
  assumes "media s = mkfs ct sb m"
  shows "\<exists>s'. shm_init rest s = Some (0, s') \<and> mounted s' \<and> media s' = media s"
proof -
  let ?b = "SHM_BASE + 0x9d8000"
  let ?i = "?b + BNODE_ARENA" and ?e = "?b + BNODE_ARENA + INODE_ARENA"
  have base: "shm_arena_base (slots_of s) = ?b"
    using assms arena_base by (simp add: mkfs_super)
  have fits: "\<not> HEAP_START < ?e + ENTRY_ARENA"
    by (simp add: HEAP_START_def SHM_BASE_def SHM_SIZE_def HEAP_SIZE_def BNODE_ARENA_def INODE_ARENA_def ENTRY_ARENA_def)
  obtain h where h: "heap_init (fheap s) HEAP_START HEAP_SIZE = Some h"
    using heap_init_some by blast
  define s1 where "s1 = journal_mgr_init (s\<lparr>fs_ts := sb_ts (super (media s)), rels := INIT_LIST_HEAD (rels s) SBI,
      maps := shm_init_bitmap rest (media s), itable := \<lambda>_. 0, ilocked := \<lambda>_. False, ebufs := ebuf_mgr_init (ebufs s)\<rparr>)
    \<lparr>bheap := (bheap s)\<lparr>bpool := arena_items ?b BNODE_ARENA SIZEOF_BTREE_NODE\<rparr>,
      inode_pool := arena_items ?i INODE_ARENA SIZEOF_INODE, entry_pool := arena_items ?e ENTRY_ARENA SIZEOF_ENTRY, fheap := h\<rparr>"
  obtain ps where top: "arena_items ?i INODE_ARENA SIZEOF_INODE = (?i + (INODE_ARENA div SIZEOF_INODE - 1) * SIZEOF_INODE) # ps"
    by (rule arena_items_top [of INODE_ARENA SIZEOF_INODE ?i]) (simp add: INODE_ARENA_def SIZEOF_INODE_def)
  have "distinct (arena_items ?i INODE_ARENA SIZEOF_INODE)" "distinct (arena_items ?e ENTRY_ARENA SIZEOF_ENTRY)"
    by (simp_all add: arena_items_distinct SIZEOF_INODE_def SIZEOF_ENTRY_def)
  moreover have "0 \<notin> set (arena_items ?i INODE_ARENA SIZEOF_INODE)"
    using arena_items_dvd [of 1 ?i SIZEOF_INODE 0 INODE_ARENA] by (auto simp: SHM_BASE_def)
  moreover have "?e \<le> d \<and> 4 dvd d" if "d \<in> set (arena_items ?e ENTRY_ARENA SIZEOF_ENTRY)" for d
    using arena_items_dvd [OF _ _ that, of 4] by (simp add: SHM_BASE_def BNODE_ARENA_def INODE_ARENA_def SIZEOF_ENTRY_def)
  moreover have "?i + (INODE_ARENA div SIZEOF_INODE - 1) * SIZEOF_INODE < ?e"
    by (simp add: INODE_ARENA_def SIZEOF_INODE_def)
  ultimately have "shm_ready s1 ?e"
    using assms top unfolding shm_ready_def by (auto simp: s1_def journal_mgr_init_def)
  then obtain r s2 s3 where g: "iget s1 0 = Some (Inr r, s2)" "inode_unlock (s2\<lparr>root_inode := r\<rparr>) 0 = Some s3" "mounted s3" "media s3 = media s1"
    using iget_root by blast
  have "shm_init rest s = Some (0, s3)"
    using g(1,2) h fits by (simp add: shm_init_def base Let_def s1_def journal_mgr_init_def)
  with g(3,4) show ?thesis
    by (simp add: s1_def journal_mgr_init_def)
qed

lemma runtime_init_mounted:
  assumes "mounted (fsys y)"
  shows "\<exists>y'. runtime_init y = Some y' \<and> fsys y' = fsys y \<and> proc_ok y' \<and> open_fds y' = {} \<and> cwd y' = Inr (root_inode (fsys y))"
proof -
  let ?s = "fsys y"
  have m: "itable ?s 0 = root_inode ?s" "root_inode ?s \<noteq> 0" "ilocked ?s = (\<lambda>_. False)" "0 < slot_num (slots_of ?s SLOT_INODE)"
    using assms by (auto simp: mounted_def is_cached_def)
  then have i: "iget ?s 0 = Some (Inr (root_inode ?s), ?s\<lparr>ilocked := (ilocked ?s)(0 := True)\<rparr>)"
    "inode_unlock (?s\<lparr>ilocked := (ilocked ?s)(0 := True)\<rparr>) 0 = Some (?s\<lparr>ilocked := ilocked ?s\<rparr>)"
    by (simp_all add: iget_def inode_lock_def inode_unlock_def fun_upd_idem)
  have same: "?s\<lparr>ilocked := ilocked ?s\<rparr> = ?s" by simp
  show ?thesis
    using assms i unfolding same
    by (simp add: runtime_init_def Let_def proc_ok_def open_fds_def) (simp add: mounted_def)
qed

lemma w_fs_simps [simp]:
  "w_fs (upd_fs w s) = s" "w_sys (upd_fs w s) = (w_sys w)\<lparr>fsys := s\<rparr>" "status (upd_fs w s) = status w" "user (upd_fs w s) = user w"
  "w_rc (upd_fs w s) = w_rc w" "w_rest (upd_fs w s) = w_rest w" "w_sb (upd_fs w s) = w_sb w"
  by (simp_all add: w_fs_def upd_fs_def)

text \<open>A new file system is marked as unmounted, so the recovery is skipped.\<close>

lemma init_skips_recovery:
  assumes "media (w_fs w) = mkfs ct sb m"
  shows "\<not> need_recovery w"
  using assms mkfs_root(3) by (simp add: need_recovery_def)

lemma umount_mounted:
  "mounted (w_fs w) \<Longrightarrow> mounted (w_fs (set_umount w b))"
  unfolding set_umount_def w_fs_simps by (rule mounted_media) simp_all

lemma proc_ok_media: "proc_ok (y\<lparr>fsys := (fsys y)\<lparr>media := m\<rparr>\<rparr>) = proc_ok y"
  by (simp add: proc_ok_def cache_ok_def is_cached_def open_fds_def)

text \<open>C1: Mounting. From any content of the device and of the uninitialised memory, the first process that starts gets a working file
  system: \<open>slotfs_init\<close> returns 0, all its maps are well formed with just the reserved slots in use, the inode cache is consistent,
  no lock is held, the root is an empty well-formed directory and the current directory of the process, and no
  descriptor is open.\<close>

theorem slotfs_init_mounts:
  assumes "status w = STATUS_UNINIT"
  shows "\<exists>w'. slotfs_init w = Some (0, w') \<and> status w' = STATUS_READY \<and> user w' = 1 \<and> mounted (w_fs w') \<and>
    proc_ok (w_sys w') \<and> open_fds (w_sys w') = {} \<and> cwd (w_sys w') = Inr (root_inode (w_fs w'))"
proof -
  define w1 where "w1 = upd_fs w ((w_fs w)\<lparr>media := mkfs (now (w_fs w)) (w_sb w) (media (w_fs w))\<rparr>)"
  have m: "media (w_fs w1) = mkfs (now (w_fs w)) (w_sb w) (media (w_fs w))" "status w1 = STATUS_UNINIT"
    using assms by (simp_all add: w1_def)
  obtain s where s: "shm_init (w_rest w1) (w_fs w1) = Some (0, s)" "mounted s"
    using shm_init_mkfs [OF m(1)] by blast
  obtain y where y: "runtime_init ((w_sys w1)\<lparr>fsys := s\<rparr>) = Some y" "fsys y = s" "proc_ok y" "open_fds y = {}" "cwd y = Inr (root_inode s)"
    using runtime_init_mounted [of "(w_sys w1)\<lparr>fsys := s\<rparr>"] s(2) by auto
  let ?w = "w1\<lparr>w_sys := y, status := STATUS_READY, user := 1\<rparr>"
  have "slotfs_init w = Some (0, set_umount ?w False)"
    using s(1) y(1) m(2) init_skips_recovery [OF m(1)]
    by (simp add: slotfs_init_def Let_def need_mkfs_def w1_def [symmetric])
  moreover have "mounted (w_fs (set_umount ?w False))"
    using s(2) y(2) by (intro umount_mounted) (simp add: w_fs_def)
  ultimately show ?thesis
    using y proc_ok_media [where y = y]
    by (auto simp: set_umount_def w_fs_def upd_fs_def open_fds_def)
qed

lemma insert_media: "dir_index_insert s dir d = Some (r, s') \<Longrightarrow> media s' = media s"
  by (auto simp: dir_index_insert_def put_rb_def upd_inode_def split: Option.bind_splits sum.splits)

lemma rebuild_insert_media: "dir_rebuild_insert s dir pd idx = Some (r, s') \<Longrightarrow> media s' = media s"
  by (auto simp: dir_rebuild_insert_def dirent_alloc_def entry_alloc_def dirent_free_def entry_free_def upd_dirent_def
      Let_def split: prod.splits if_splits Option.bind_splits dest!: insert_media)

lemma rebuild_loop_media: "dir_rebuild_loop n s dir pd cur = Some (r, s') \<Longrightarrow> media s' = media s"
proof (induction n arbitrary: s pd cur)
  case (Suc n)
  then obtain src ret s1 where 1: "pm_dirent_at s cur = Some src" "dir_rebuild_insert s dir (copy_80 pd src) cur = Some (ret, s1)"
    by (auto simp: Let_def split: Option.bind_splits)
  with Suc.prems show ?case
    using rebuild_insert_media [OF 1(2)]
    by (auto simp: Let_def upd_inode_def split: if_splits dest!: Suc.IH)
qed simp

lemma iget_media: "iget s ino = Some (r, s') \<Longrightarrow> media s' = media s"
  by (auto simp: iget_def inode_lock_def inode_unlock_def inode_alloc_def inode_free_def upd_inode_def inode_rebuild_def inode_init_header_def
      dir_rebuild_def file_rebuild_def Let_def split: Option.bind_splits if_splits prod.splits dest!: rebuild_loop_media)

lemma runtime_init_media: "runtime_init y = Some y' \<Longrightarrow> media (fsys y') = media (fsys y)"
  by (auto simp: runtime_init_def Let_def inode_unlock_def split: Option.bind_splits if_splits dest!: iget_media)

text \<open>Every start formats the device. Whether or not the file system is in use by other processes, after a \<open>slotfs_init\<close> that
  returns the media is that of a new file system but for the mark that it is mounted: no file is left. The
  recovery has not run.\<close>

theorem slotfs_init_formats:
  assumes "slotfs_init w = Some (ret, w')"
  shows "ret = 0 \<and> w_rc w' = w_rc w \<and>
    (let m = mkfs (now (w_fs w)) (w_sb w) (media (w_fs w)) in media (w_fs w') = m\<lparr>super := (super m)\<lparr>sb_umount := False\<rparr>\<rparr>) \<and>
    (\<forall>i. 0 < i \<and> i < slot_num (slots_of (w_fs w') SLOT_INODE) \<longrightarrow> pm_inodes (media (w_fs w')) i = zero_pm_inode) \<and>
    (\<forall>i < slot_num (slots_of (w_fs w') SLOT_DIR). pm_dirents (media (w_fs w')) i = zero_pm_dirent)"
proof -
  define m where "m = mkfs (now (w_fs w)) (w_sb w) (media (w_fs w))"
  define w1 where "w1 = upd_fs w ((w_fs w)\<lparr>media := m\<rparr>)"
  have m1: "media (w_fs w1) = mkfs (now (w_fs w)) (w_sb w) (media (w_fs w))" "w_rc w1 = w_rc w"
    by (simp_all add: w1_def m_def)
  obtain w2 where w2: "ret = 0" "w' = set_umount w2 False" "w_rc w2 = w_rc w1"
    and "(\<exists>s. shm_init (w_rest w1) (w_fs w1) = Some (0, s) \<and> runtime_init ((w_sys w1)\<lparr>fsys := s\<rparr>) = Some (w_sys w2)) \<or>
      runtime_init (w_sys w1) = Some (w_sys w2)"
    using assms init_skips_recovery [OF m1(1)]
    by (auto simp: slotfs_init_def need_mkfs_def w1_def [symmetric] m_def [symmetric] split: if_splits Option.bind_splits)
  then have "media (fsys (w_sys w2)) = media (w_fs w1)"
    using shm_init_mkfs [OF m1(1), of "w_rest w1"] by (auto simp: w_fs_def dest!: runtime_init_media)
  then have *: "media (w_fs w') = m\<lparr>super := (super m)\<lparr>sb_umount := False\<rparr>\<rparr>" "w_rc w' = w_rc w"
    using w2 m1 by (simp_all add: set_umount_def m_def) (simp_all add: w_fs_def)
  have "pm_inodes m i = zero_pm_inode" if "0 < i" "i < slot_num (sb_slots (super m) SLOT_INODE)" for i
    using that by (simp add: m_def mkfs_def mkfs_slot_def mkfs_journal_def mkfs_rootinode_def Let_def)
  moreover have "pm_dirents m i = zero_pm_dirent" if "i < slot_num (sb_slots (super m) SLOT_DIR)" for i
    using that by (simp add: m_def mkfs_def mkfs_slot_def mkfs_journal_def mkfs_rootinode_def Let_def)
  ultimately show ?thesis
    using * w2(1) by (simp add: m_def [symmetric])
qed

text \<open>A process on a machine with zeroed memory, before and after another one has mounted.\<close>

definition start_world :: "status_t \<Rightarrow> world" where
  "start_world st = \<lparr>w_sys = tree_sys, status = st, user = 1, w_rest = \<lambda>_. 0, w_sb = super (media tree_example),
     w_rc = \<lparr>rc_media = media tree_example, rc_map = \<lambda>_ _. 0, rc_table = \<lambda>_. 0,
       rc_queue = \<lparr>q_front = 0, q_rear = 0, q_data = \<lambda>_. 0, q_capacity = 0\<rparr>,
       rc_inode_mem = \<lambda>_. \<lparr>rci_log_head = 0, rci_entry_num = 0, rci_valid = False, rci_ts = 0, rci_link = 0, rci_mode = 0,
         rci_btree = \<lparr>bt_root = 0, bt_height = 0\<rparr>, rci_hint = \<lparr>bp_node = 0, bp_index = 0, bp_key = 0\<rparr>\<rparr>,
       rc_filent_mem = \<lambda>_. \<lparr>rcf_ts = 0, rcf_ref = 0, rcf_p_idx = 0, rcf_l_idx = 0, rcf_blocks = 0\<rparr>,
       rc_lists = lists blank_fs, rc_bheap = bheap blank_fs, mallocs = []\<rparr>\<rparr>"

theorem slotfs_init_mounts_witness:
  "\<exists>w. slotfs_init (start_world STATUS_UNINIT) = Some (0, w) \<and> mounted (w_fs w) \<and> open_fds (w_sys w) = {}"
  using slotfs_init_mounts [of "start_world STATUS_UNINIT"] by (auto simp: start_world_def)

text \<open>The second process: the root of the first is in the cache.\<close>

lemma start_second: "\<exists>w. slotfs_init ((start_world STATUS_READY)\<lparr>w_sys := tree_sys\<lparr>fsys := tree_example\<lparr>itable := (itable tree_example)(0 := SHM_BASE)\<rparr>\<rparr>\<rparr>) = Some (0, w)"
proof -
  have "0 < slot_num (mkfs_layout old DAX_SIZE SLOT_INODE)" for old
    by (rule dax_slot_num)
  then show ?thesis
    by (simp add: slotfs_init_def start_world_def need_mkfs_def need_recovery_def upd_fs_def w_fs_def runtime_init_def iget_def inode_lock_def
        inode_unlock_def mkfs_super tree_sys_def SHM_BASE_def Let_def)
qed

theorem slotfs_init_formats_witness:
  "\<exists>w. slotfs_init ((start_world STATUS_READY)\<lparr>w_sys := tree_sys\<lparr>fsys := tree_example\<lparr>itable := (itable tree_example)(0 := SHM_BASE)\<rparr>\<rparr>\<rparr>) = Some (0, w) \<and>
     pm_inodes (media (w_fs w)) 3 = zero_pm_inode"
proof -
  obtain w where w: "slotfs_init ((start_world STATUS_READY)\<lparr>w_sys := tree_sys\<lparr>fsys := tree_example\<lparr>itable := (itable tree_example)(0 := SHM_BASE)\<rparr>\<rparr>\<rparr>) = Some (0, w)"
    using start_second by blast
  note f = slotfs_init_formats [OF w]
  then have "slot_num (slots_of (w_fs w) SLOT_INODE) = 327680"
    by (simp add: Let_def mkfs_super dax_layout)
  with f w show ?thesis by auto
qed

end
