(* ===== verification/Glibc_File.thy ===== *)
theory Glibc_File
  imports Fs_Calls
begin

text \<open>
  Buffered files, \<open>slotfs/glibc/ffile.c\<close>: the stream functions over the calls of the file system. The library and the
  kernel below are a record that can be extended by what they need; of their state the code uses the stream objects, \<open>errno\<close>
  and \<open>malloc\<close>. \<open>errno\<close> is the interposed \<open>__errno_location\<close> of \<open>slotfs/lib.c\<close>.
\<close>

subsection \<open>Streams and errno\<close>

definition IO_MAGIC :: nat where
  "IO_MAGIC = 0xFBAD0000"

definition IO_MAGIC_SLOT :: nat where
  "IO_MAGIC_SLOT = 0xFACE0000"

definition IO_MAGIC_MASK :: nat where
  "IO_MAGIC_MASK = 0xFFFF0000"

definition IO_NO_READS :: nat where
  "IO_NO_READS = 0x0004"

definition IO_NO_WRITES :: nat where
  "IO_NO_WRITES = 0x0008"

definition IO_EOF_SEEN :: nat where
  "IO_EOF_SEEN = 0x0010"

definition IO_IS_APPENDING :: nat where
  "IO_IS_APPENDING = 0x1000"

definition O_RDONLY :: nat where
  "O_RDONLY = 0"

definition O_RDWR :: nat where
  "O_RDWR = 2"

definition O_EXCL :: nat where
  "O_EXCL = 0x80"

definition O_TRUNC :: nat where
  "O_TRUNC = 0x200"

definition O_APPEND :: nat where
  "O_APPEND = 0x400"

definition SEEK_SET :: int where
  "SEEK_SET = 0"

definition SEEK_CUR :: int where
  "SEEK_CUR = 1"

definition SEEK_END :: int where
  "SEEK_END = 2"

definition ESPIPE :: int where
  "ESPIPE = 29"

definition ENOSYS :: int where
  "ENOSYS = 38"

definition EOF :: int where
  "EOF = - 1"

record file_stream =
  s_flags :: nat
  s_fileno :: int

text \<open>\<open>c_mallocs\<close> are the results of the calls of \<open>malloc\<close> to come.\<close>

record libc =
  streams :: "nat \<Rightarrow> file_stream"
  c_errno :: int
  c_mallocs :: "nat list"

record 'k proc =
  psys :: sys
  plibc :: 'k
  perr :: int

type_synonym 'k process = "'k libc_scheme proc"

datatype errno_loc = LIBC_ERRNO | LIB_ERR

definition ERROR :: "'k process \<Rightarrow> errno_loc \<times> 'k process" where
  "ERROR p =
    (if sys_errno (psys p) = 0 then (LIBC_ERRNO, p)
     else (LIB_ERR, p\<lparr>perr := sys_errno (psys p), psys := set_errno (psys p) 0\<rparr>))"

definition store_errno :: "'k process \<Rightarrow> int \<Rightarrow> 'k process" where
  "store_errno p e =
    (case ERROR p of
       (LIBC_ERRNO, p) \<Rightarrow> p\<lparr>plibc := (plibc p)\<lparr>c_errno := e\<rparr>\<rparr>
     | (LIB_ERR, p) \<Rightarrow> p\<lparr>perr := e\<rparr>)"

definition load_errno :: "'k process \<Rightarrow> int \<times> 'k process" where
  "load_errno p =
    (case ERROR p of
       (LIBC_ERRNO, p) \<Rightarrow> (c_errno (plibc p), p)
     | (LIB_ERR, p) \<Rightarrow> (perr p, p))"

definition c_malloc :: "'k process \<Rightarrow> nat \<times> 'k process" where
  "c_malloc p =
    (case c_mallocs (plibc p) of
       [] \<Rightarrow> (0, p)
     | q # qs \<Rightarrow> (q, p\<lparr>plibc := (plibc p)\<lparr>c_mallocs := qs\<rparr>\<rparr>))"

definition upd_stream :: "'k process \<Rightarrow> nat \<Rightarrow> (file_stream \<Rightarrow> file_stream) \<Rightarrow> 'k process" where
  "upd_stream p fp f = p\<lparr>plibc := (plibc p)\<lparr>streams := (streams (plibc p))(fp := f (streams (plibc p) fp))\<rparr>\<rparr>"

abbreviation stream_at :: "'k process \<Rightarrow> nat \<Rightarrow> file_stream" where
  "stream_at p fp \<equiv> streams (plibc p) fp"

subsection \<open>Opening a stream\<close>

record open_mode =
  om_omode :: nat
  om_oflags :: nat
  om_rw :: nat
  om_last :: string
  om_unsupported :: bool

text \<open>\<open>om_last\<close> is the text behind the last recognised character.\<close>

definition fopen_kind :: "string \<Rightarrow> open_mode option" where
  "fopen_kind md =
    (case md of
       [] \<Rightarrow> None
     | c # cs \<Rightarrow>
         if c = CHR ''r'' then Some \<lparr>om_omode = O_RDONLY, om_oflags = 0, om_rw = IO_NO_WRITES, om_last = cs, om_unsupported = False\<rparr>
         else if c = CHR ''w'' then Some \<lparr>om_omode = O_WRONLY, om_oflags = O_CREAT OR O_TRUNC, om_rw = IO_NO_READS, om_last = cs,
           om_unsupported = False\<rparr>
         else if c = CHR ''a'' then Some \<lparr>om_omode = O_WRONLY, om_oflags = O_CREAT OR O_APPEND, om_rw = IO_NO_READS OR IO_IS_APPENDING,
           om_last = cs, om_unsupported = False\<rparr>
         else None)"

definition fopen_char :: "char \<Rightarrow> string \<Rightarrow> open_mode \<Rightarrow> open_mode" where
  "fopen_char c cs m =
    (if c = CHR ''+'' then m\<lparr>om_omode := O_RDWR, om_rw := om_rw m AND IO_IS_APPENDING, om_last := cs\<rparr>
     else if c = CHR ''x'' then m\<lparr>om_oflags := om_oflags m OR O_EXCL, om_last := cs\<rparr>
     else if c = CHR ''b'' then m\<lparr>om_last := cs\<rparr>
     else if c = CHR ''m'' \<or> c = CHR ''c'' \<or> c = CHR ''e'' then m\<lparr>om_unsupported := True\<rparr>
     else m)"

fun fopen_modes :: "nat \<Rightarrow> string \<Rightarrow> open_mode \<Rightarrow> open_mode" where
  "fopen_modes 0 cs m = m"
| "fopen_modes (Suc n) [] m = m"
| "fopen_modes (Suc n) (c # cs) m = fopen_modes n cs (fopen_char c cs m)"

fun strstr :: "string \<Rightarrow> string \<Rightarrow> string option" where
  "strstr [] pat = (if pat = [] then Some [] else None)"
| "strstr (c # cs) pat = (if take (length pat) (c # cs) = pat then Some (c # cs) else strstr cs pat)"

definition IO_mask_flags :: "nat \<Rightarrow> nat \<Rightarrow> nat \<Rightarrow> nat" where
  "IO_mask_flags flags f msk = (flags XOR (flags AND msk)) OR (f AND msk)"

definition glibc_fopen :: "'k process \<Rightarrow> string \<Rightarrow> string \<Rightarrow> (nat \<times> 'k process) option" where
  "glibc_fopen p filename md =
    (let (fp, p) = c_malloc p
     in if fp = 0 then Some (0, p)
        else case fopen_kind md of
          None \<Rightarrow> Some (0, store_errno p EINVAL)
        | Some m \<Rightarrow>
            let m = fopen_modes 6 (tl md) m
            in if om_unsupported m then Some (0, store_errno p ENOSYS)
               else do {
                 (fdesc, y) \<leftarrow> slotfs_open (psys p) AT_FDCWD filename (om_omode m OR om_oflags m) 438;
                 let p = p\<lparr>psys := y\<rparr>;
                 if fdesc < 0 then Some (0, p)
                 else do {
                   let p = upd_stream p fp (\<lambda>f. f\<lparr>s_fileno := fdesc,
                     s_flags := IO_mask_flags IO_MAGIC_SLOT (om_rw m) (IO_NO_READS + IO_NO_WRITES + IO_IS_APPENDING)\<rparr>);
                   (new_pos, y) \<leftarrow> slotfs_lseek (psys p) fdesc 0 SEEK_END;
                   let p = p\<lparr>psys := y\<rparr>;
                   let (bad, p) = (if new_pos = - 1 then let (e, p) = load_errno p in (e \<noteq> ESPIPE, p) else (False, p));
                   if bad then do {
                     (_, y) \<leftarrow> slotfs_close (psys p) fdesc;
                     Some (0, p\<lparr>psys := y\<rparr>)
                   }
                   else do {
                     y \<leftarrow> (if om_rw m = IO_NO_WRITES then map_option snd (slotfs_lseek (psys p) fdesc 0 SEEK_SET) else Some (psys p));
                     let p = p\<lparr>psys := y\<rparr>;
                     if strstr (om_last m) '',ccs='' \<noteq> None then Some (0, store_errno p ENOSYS)
                     else Some (fp, p)
                   }
                 }
               })"

subsection \<open>The other stream functions\<close>

definition glibc_fputs :: "'k process \<Rightarrow> string \<Rightarrow> nat \<Rightarrow> (int \<times> 'k process) option" where
  "glibc_fputs p str fp =
    (if s_fileno (stream_at p fp) < 0 then Some (- 1, p)
     else do {
       (ret, y) \<leftarrow> slotfs_write (psys p) (s_fileno (stream_at p fp)) (string_bytes str);
       Some (ret, p\<lparr>psys := y\<rparr>)
     })"

text \<open>The second result is what is stored at \<open>str\<close>. A negative length other than \<open>-1\<close> stores before the buffer.\<close>

definition glibc_fgets :: "'k process \<Rightarrow> nat \<Rightarrow> int \<Rightarrow> nat \<Rightarrow> (nat \<times> byte list \<times> 'k process) option" where
  "glibc_fgets p str n fp =
    (if s_fileno (stream_at p fp) < 0 \<or> n \<le> 0 then Some (0, [], p)
     else do {
       let fd = s_fileno (stream_at p fp);
       (original_file_ptr, y) \<leftarrow> slotfs_lseek (psys p) fd 0 SEEK_CUR;
       (read_len, bs, y) \<leftarrow> slotfs_read y fd (nat (n - 1));
       let p = p\<lparr>psys := y\<rparr>;
       if read_len = - 1 then do {
         (_, y) \<leftarrow> slotfs_lseek y fd original_file_ptr SEEK_SET;
         Some (0, bs, p\<lparr>psys := y\<rparr>)
       }
       else do {
         let eof = (read_len = 0 \<or> read_len < n - 1);
         if eof \<and> s_flags (stream_at p fp) AND IO_EOF_SEEN \<noteq> 0 \<and> read_len = 0 then Some (0, bs, p)
         else do {
           let p = (if eof then upd_stream p fp (\<lambda>f. f\<lparr>s_flags := s_flags f OR IO_EOF_SEEN\<rparr>) else p);
           if read_len < 0 then None
           else Some (str, take (nat read_len) bs @ [0], p)
         }
       }
     })"

definition glibc_fwrite :: "'k process \<Rightarrow> byte list \<Rightarrow> nat \<Rightarrow> nat \<Rightarrow> nat \<Rightarrow> (nat \<times> 'k process) option" where
  "glibc_fwrite p ptr sz nmemb fp =
    (if s_fileno (stream_at p fp) < 0 then Some (to_size (- 1), p)
     else do {
       let str_len = size_mul sz nmemb;
       if length ptr < str_len then None
       else do {
         (ret, y) \<leftarrow> slotfs_write (psys p) (s_fileno (stream_at p fp)) (take str_len ptr);
         Some (to_size ret, p\<lparr>psys := y\<rparr>)
       }
     })"

definition glibc_fread :: "'k process \<Rightarrow> nat \<Rightarrow> nat \<Rightarrow> nat \<Rightarrow> (nat \<times> byte list \<times> 'k process) option" where
  "glibc_fread p sz cnt fp =
    (if s_fileno (stream_at p fp) < 0 then Some (to_size (- 1), [], p)
     else do {
       let fd = s_fileno (stream_at p fp);
       (original_file_ptr, y) \<leftarrow> slotfs_lseek (psys p) fd 0 SEEK_CUR;
       (ret, bs, y) \<leftarrow> slotfs_read y fd (size_mul sz cnt);
       if to_size ret = to_size (- 1) then do {
         (_, y) \<leftarrow> slotfs_lseek y fd original_file_ptr SEEK_SET;
         Some (0, bs, p\<lparr>psys := y\<rparr>)
       }
       else Some (to_size ret, bs, p\<lparr>psys := y\<rparr>)
     })"

definition glibc_fclose :: "'k process \<Rightarrow> nat \<Rightarrow> (int \<times> 'k process) option" where
  "glibc_fclose p fp =
    (if s_fileno (stream_at p fp) < 0 then Some (EOF, p)
     else do {
       (_, y) \<leftarrow> slotfs_close (psys p) (s_fileno (stream_at p fp));
       Some (0, upd_stream (p\<lparr>psys := y\<rparr>) fp (\<lambda>f. f\<lparr>s_fileno := - 1\<rparr>))
     })"

definition glibc_fseek :: "'k process \<Rightarrow> nat \<Rightarrow> int \<Rightarrow> int \<Rightarrow> (int \<times> 'k process) option" where
  "glibc_fseek p fp offset whence =
    (if s_fileno (stream_at p fp) < 0 then Some (EOF, p)
     else do {
       (ret, y) \<leftarrow> slotfs_lseek (psys p) (s_fileno (stream_at p fp)) offset whence;
       Some (of_bool (ret = - 1), p\<lparr>psys := y\<rparr>)
     })"

definition glibc_fflush :: "'k process \<Rightarrow> nat \<Rightarrow> int" where
  "glibc_fflush p fp = (if s_fileno (stream_at p fp) < 0 then EOF else 0)"

end
