(* ===== verification/Lib_Calls.thy ===== *)
theory Lib_Calls
  imports Glibc_File
begin

text \<open>
  The calls that the library puts in front of those of the C library, \<open>slotfs/lib.c\<close>, and \<open>slotfs_mmap\<close>, the one call of
  \<open>slotfs/slotfs_func.c\<close> that needs the kernel. The functions that \<open>real_ops\<close> points to are a parameter \<open>ops\<close>: for a call
  with its arguments, and a state of C library and kernel, it gives the reply and the state after it.
\<close>

subsection \<open>The calls below\<close>

datatype (plugins only: code size) call =
    C_SEEK int int int
  | C_FTRUNC int int
  | C_MMAP nat nat nat nat int int
  | C_MUNMAP nat nat
  | C_FSYNC int
  | C_FDATASYNC int
  | C_SYNC_FILE_RANGE int int int nat
  | C_MKDIR string nat
  | C_OPENDIR string
  | C_READDIR nat
  | C_RENAME string string
  | C_STAT string
  | C_XSTAT int string
  | C_FSTAT int
  | C_NEWFSTATAT int string nat
  | C_LSTAT string
  | C_OPEN string nat "nat option"
  | C_OPENAT int string nat "nat option"
  | C_CLOSE int
  | C_LINK string string
  | C_UNLINK string
  | C_SYMLINK string string
  | C_READ int nat
  | C_WRITE int "byte list"
  | C_PREAD int nat int
  | C_PWRITE int "byte list" int
  | C_FOPEN string string
  | C_FPUTS string nat
  | C_FGETS nat int nat
  | C_FWRITE "byte list" nat nat nat
  | C_FREAD nat nat nat
  | C_FCLOSE nat
  | C_FSEEK nat int int
  | C_FFLUSH nat

text \<open>A reply: the returned integer or pointer, and what was stored in the buffer of the caller. \<open>slotfs_xstat\<close> stores a
  \<open>struct statx\<close> in it whatever its type.\<close>

datatype statbuf = Stat stat | Statx statx

record reply =
  r_val :: int
  r_buf :: "byte list"
  r_stat :: "statbuf option"

type_synonym 'k real_ops = "call \<Rightarrow> 'k libc_scheme \<Rightarrow> reply \<times> 'k libc_scheme"

type_synonym 'k outcome = "(reply \<times> 'k process) option"

definition call_real :: "'k real_ops \<Rightarrow> call \<Rightarrow> 'k process \<Rightarrow> 'k outcome" where
  "call_real ops c p = (let (r, l) = ops c (plibc p) in Some (r, p\<lparr>plibc := l\<rparr>))"

definition ret :: "int \<Rightarrow> reply" where
  "ret v = \<lparr>r_val = v, r_buf = [], r_stat = None\<rparr>"

definition on_sys :: "'k process \<Rightarrow> (int \<times> sys) option \<Rightarrow> 'k outcome" where
  "on_sys p m = do { (v, y) \<leftarrow> m; Some (ret v, p\<lparr>psys := y\<rparr>) }"

definition on_sys_buf :: "'k process \<Rightarrow> (int \<times> byte list \<times> sys) option \<Rightarrow> 'k outcome" where
  "on_sys_buf p m = do { (v, bs, y) \<leftarrow> m; Some ((ret v)\<lparr>r_buf := bs\<rparr>, p\<lparr>psys := y\<rparr>) }"

definition on_sys_stat :: "'k process \<Rightarrow> (int \<times> stat option \<times> sys) option \<Rightarrow> 'k outcome" where
  "on_sys_stat p m = do { (v, st, y) \<leftarrow> m; Some ((ret v)\<lparr>r_stat := map_option Stat st\<rparr>, p\<lparr>psys := y\<rparr>) }"

definition on_sys_statx :: "'k process \<Rightarrow> (int \<times> statx option \<times> sys) option \<Rightarrow> 'k outcome" where
  "on_sys_statx p m = do { (v, st, y) \<leftarrow> m; Some ((ret v)\<lparr>r_stat := map_option Statx st\<rparr>, p\<lparr>psys := y\<rparr>) }"

text \<open>The call of the file system, and on a negative result the call below when \<open>again\<close> holds.\<close>

definition or_real :: "'k real_ops \<Rightarrow> call \<Rightarrow> bool \<Rightarrow> 'k outcome \<Rightarrow> 'k outcome" where
  "or_real ops c again m = do { (r, p) \<leftarrow> m; if r_val r < 0 \<and> again then call_real ops c p else Some (r, p) }"

subsection \<open>Which calls are served here\<close>

definition FD_OFFSET :: int where
  "FD_OFFSET = 1024"

definition AT_SYMLINK_NOFOLLOW :: nat where
  "AT_SYMLINK_NOFOLLOW = 0x100"

definition slot_fd :: "int \<Rightarrow> bool" where
  "slot_fd fd \<longleftrightarrow> fd \<ge> FD_OFFSET \<and> fd < int FD_MAX + FD_OFFSET"

definition is_backslash :: "char \<Rightarrow> bool" where
  "is_backslash c \<longleftrightarrow> c = CHR 0x5C"

text \<open>\<open>*path\<close> of the empty string is the zero byte.\<close>

definition starts_backslash :: "string \<Rightarrow> bool" where
  "starts_backslash path \<longleftrightarrow> path \<noteq> [] \<and> is_backslash (hd path)"

definition slot_path :: "string \<Rightarrow> bool" where
  "slot_path path \<longleftrightarrow> starts_backslash path \<or> \<not> (path \<noteq> [] \<and> is_slash (hd path))"

definition slot_path2 :: "string \<Rightarrow> bool" where
  "slot_path2 path \<longleftrightarrow> slot_path path \<or> starts_backslash (tl path)"

definition strip_backslashes :: "string \<Rightarrow> string" where
  "strip_backslashes path = dropWhile is_backslash path"

subsection \<open>Offsets, sizes and mappings\<close>

definition SEEK :: "'k real_ops \<Rightarrow> 'k process \<Rightarrow> int \<Rightarrow> int \<Rightarrow> int \<Rightarrow> 'k outcome" where
  "SEEK ops p fd offset whence =
    (if slot_fd fd then on_sys p (slotfs_lseek (psys p) (fd - FD_OFFSET) offset whence)
     else call_real ops (C_SEEK fd offset whence) p)"

definition SEEK64 :: "'k real_ops \<Rightarrow> 'k process \<Rightarrow> int \<Rightarrow> int \<Rightarrow> int \<Rightarrow> 'k outcome" where
  "SEEK64 ops p fd offset whence = SEEK ops p fd offset whence"

definition FTRUNC :: "'k real_ops \<Rightarrow> 'k process \<Rightarrow> int \<Rightarrow> int \<Rightarrow> 'k outcome" where
  "FTRUNC ops p fd len =
    (if slot_fd fd then on_sys p (slotfs_ftruncate (psys p) (fd - FD_OFFSET) len)
     else call_real ops (C_FTRUNC fd len) p)"

definition FTRUNC64 :: "'k real_ops \<Rightarrow> 'k process \<Rightarrow> int \<Rightarrow> int \<Rightarrow> 'k outcome" where
  "FTRUNC64 ops p fd len = FTRUNC ops p fd len"

definition MAP_FAILED :: nat where
  "MAP_FAILED = 2 ^ 64 - 1"

definition MAP_FIXED :: nat where
  "MAP_FIXED = 0x10"

text \<open>The loop of \<open>slotfs_mmap\<close>. The inner \<open>mmap\<close> has no file and goes to the kernel; the address of the block on the
  device is computed but not used.\<close>

partial_function (option) mmap_loop ::
  "'k real_ops \<Rightarrow> nat \<Rightarrow> nat \<Rightarrow> nat \<Rightarrow> nat \<Rightarrow> nat \<Rightarrow> int \<Rightarrow> 'k process \<Rightarrow> nat \<Rightarrow> nat \<Rightarrow> 'k outcome" where
  [code]: "mmap_loop ops base len prot flags inode off p mapped curr_map =
    (let unlock = (\<lambda>p. inode_unlock (fsys (psys p)) (ino_of (fsys (psys p)) inode) \<bind> (\<lambda>s. Some (p\<lparr>psys := (psys p)\<lparr>fsys := s\<rparr>\<rparr>)))
     in if mapped < len then do {
          let pos = size_add (to_size off) mapped;
          fe \<leftarrow> filent_lookup (fsys (psys p)) inode (int (pos div PAGE_SIZE));
          if fe = 0 then do {
            p \<leftarrow> unlock p;
            Some (ret (int MAP_FAILED), p\<lparr>psys := set_errno (psys p) EIO\<rparr>)
          }
          else do {
            let block_offset = pos mod PAGE_SIZE;
            let extent_bytes = size_sub (size_mul (f_blocks (filent_mem (fsys (psys p)) fe)) PAGE_SIZE) block_offset;
            let to_map = (if len - mapped < extent_bytes then len - mapped else extent_bytes);
            (r, p) \<leftarrow> call_real ops (C_MMAP (if base \<noteq> 0 then size_add base mapped else 0) to_map prot (flags OR MAP_FIXED) (- 1) 0) p;
            let vaddr = to_size (r_val r);
            if vaddr = MAP_FAILED then do { p \<leftarrow> unlock p; Some (ret (int MAP_FAILED), p) }
            else if mapped > 0 \<and> size_add curr_map to_map \<noteq> vaddr then do {
              p \<leftarrow> unlock p;
              (_, p) \<leftarrow> call_real ops (C_MUNMAP base mapped) p;
              Some (ret (int MAP_FAILED), p\<lparr>psys := set_errno (psys p) EFAULT\<rparr>)
            }
            else mmap_loop ops base len prot flags inode off p (size_add mapped to_map) vaddr
          }
        }
        else do {
          p \<leftarrow> unlock p;
          Some (ret (int (if base \<noteq> 0 then base else curr_map)), p)
        })"

definition slotfs_mmap :: "'k real_ops \<Rightarrow> 'k process \<Rightarrow> nat \<Rightarrow> nat \<Rightarrow> nat \<Rightarrow> nat \<Rightarrow> int \<Rightarrow> int \<Rightarrow> 'k outcome" where
  "slotfs_mmap ops p addr len prot flags fd off =
    (case file_table_get (psys p) fd of
       Inl _ \<Rightarrow> Some (ret (int MAP_FAILED), p\<lparr>psys := set_errno (psys p) (- EBADFD)\<rparr>)
     | Inr inode \<Rightarrow> do {
         deref inode;
         s \<leftarrow> inode_lock (fsys (psys p)) (ino_of (fsys (psys p)) inode);
         mmap_loop ops addr len prot flags inode off (p\<lparr>psys := (psys p)\<lparr>fsys := s\<rparr>\<rparr>) 0 0
       })"

definition MMAP :: "'k real_ops \<Rightarrow> 'k process \<Rightarrow> nat \<Rightarrow> nat \<Rightarrow> nat \<Rightarrow> nat \<Rightarrow> int \<Rightarrow> int \<Rightarrow> 'k outcome" where
  "MMAP ops p addr len prot flags fd off =
    (if slot_fd fd then slotfs_mmap ops p addr len prot flags (fd - FD_OFFSET) off
     else call_real ops (C_MMAP addr len prot flags fd off) p)"

definition MMAP64 :: "'k real_ops \<Rightarrow> 'k process \<Rightarrow> nat \<Rightarrow> nat \<Rightarrow> nat \<Rightarrow> nat \<Rightarrow> int \<Rightarrow> int \<Rightarrow> 'k outcome" where
  "MMAP64 ops p addr len prot flags fd off = MMAP ops p addr len prot flags fd off"

subsection \<open>Synchronisation\<close>

definition FSYNC :: "'k real_ops \<Rightarrow> 'k process \<Rightarrow> int \<Rightarrow> 'k outcome" where
  "FSYNC ops p fd = (if slot_fd fd then Some (ret 0, p) else call_real ops (C_FSYNC fd) p)"

definition FDATASYNC :: "'k real_ops \<Rightarrow> 'k process \<Rightarrow> int \<Rightarrow> 'k outcome" where
  "FDATASYNC ops p fd = (if slot_fd fd then Some (ret 0, p) else call_real ops (C_FDATASYNC fd) p)"

definition SYNC_FILE_RANGE :: "'k real_ops \<Rightarrow> 'k process \<Rightarrow> int \<Rightarrow> int \<Rightarrow> int \<Rightarrow> nat \<Rightarrow> 'k outcome" where
  "SYNC_FILE_RANGE ops p fd offset nbytes flags =
    (if slot_fd fd then Some (ret 0, p) else call_real ops (C_SYNC_FILE_RANGE fd offset nbytes flags) p)"

subsection \<open>Directories\<close>

definition MKDIR :: "'k real_ops \<Rightarrow> 'k process \<Rightarrow> string \<Rightarrow> nat \<Rightarrow> 'k outcome" where
  "MKDIR ops p path mode =
    (if slot_path2 path then do {
       (v, y) \<leftarrow> slotfs_open (psys p) AT_FDCWD (strip_backslashes path) O_CREAT (mode OR S_IFDIR);
       let p = p\<lparr>psys := y\<rparr>;
       if v < 0 \<and> \<not> starts_backslash path then call_real ops (C_MKDIR path mode) p
       else Some (ret (if v \<ge> 0 then 0 else - 1), p)
     }
     else call_real ops (C_MKDIR path mode) p)"

text \<open>The path goes to \<open>slotfs_opendir\<close> with its backslashes. The result is the descriptor as a pointer: that of a failed open
  is not \<open>NULL\<close>, that of the descriptor 0 is.\<close>

definition OPENDIR :: "'k real_ops \<Rightarrow> 'k process \<Rightarrow> string \<Rightarrow> 'k outcome" where
  "OPENDIR ops p path =
    (if slot_path path then do {
       (v, y) \<leftarrow> slotfs_opendir (psys p) path;
       let p = p\<lparr>psys := y\<rparr>;
       if to_size v = 0 \<and> \<not> starts_backslash path then call_real ops (C_OPENDIR path) p
       else Some (ret (int (to_size v)), p)
     }
     else call_real ops (C_OPENDIR path) p)"

definition READDIR :: "'k real_ops \<Rightarrow> 'k process \<Rightarrow> nat \<Rightarrow> 'k outcome" where
  "READDIR ops p dirp =
    (if slot_fd (int dirp) then do {
       (d, y) \<leftarrow> slotfs_readdir (psys p) (int dirp - FD_OFFSET);
       Some (ret (int d), p\<lparr>psys := y\<rparr>)
     }
     else call_real ops (C_READDIR dirp) p)"

definition RENAME :: "'k real_ops \<Rightarrow> 'k process \<Rightarrow> string \<Rightarrow> string \<Rightarrow> 'k outcome" where
  "RENAME ops p old new =
    (if slot_path2 old \<and> slot_path2 new then
       or_real ops (C_RENAME old new) (\<not> starts_backslash old \<or> \<not> starts_backslash new)
         (on_sys p (slotfs_rename (psys p) (strip_backslashes old) (strip_backslashes new)))
     else call_real ops (C_RENAME old new) p)"

subsection \<open>Attributes\<close>

definition STAT :: "'k real_ops \<Rightarrow> 'k process \<Rightarrow> string \<Rightarrow> 'k outcome" where
  "STAT ops p path =
    (if slot_path path then
       or_real ops (C_STAT path) (\<not> starts_backslash path)
         (on_sys_stat p (slotfs_stat (psys p) AT_FDCWD (Some (strip_backslashes path)) 0))
     else call_real ops (C_STAT path) p)"

definition STAT64 :: "'k real_ops \<Rightarrow> 'k process \<Rightarrow> string \<Rightarrow> 'k outcome" where
  "STAT64 ops p path = STAT ops p path"

definition XSTAT :: "'k real_ops \<Rightarrow> 'k process \<Rightarrow> int \<Rightarrow> string \<Rightarrow> 'k outcome" where
  "XSTAT ops p val path =
    (if slot_path path then
       or_real ops (C_XSTAT 0 path) (\<not> starts_backslash path)
         (on_sys_statx p (slotfs_xstat (psys p) AT_FDCWD (Some (strip_backslashes path)) 0 0))
     else call_real ops (C_XSTAT 0 path) p)"

definition XSTAT64 :: "'k real_ops \<Rightarrow> 'k process \<Rightarrow> int \<Rightarrow> string \<Rightarrow> 'k outcome" where
  "XSTAT64 ops p val path =
    (if slot_path path then
       or_real ops (C_XSTAT 0 path) (\<not> starts_backslash path)
         (on_sys_statx p (slotfs_xstat (psys p) AT_FDCWD (Some (strip_backslashes path)) 0 0))
     else call_real ops (C_XSTAT 0 path) p)"

definition FSTAT :: "'k real_ops \<Rightarrow> 'k process \<Rightarrow> int \<Rightarrow> 'k outcome" where
  "FSTAT ops p fd =
    (if slot_fd fd then on_sys_stat p (slotfs_stat (psys p) (fd - FD_OFFSET) None 0)
     else call_real ops (C_FSTAT fd) p)"

definition FSTAT64 :: "'k real_ops \<Rightarrow> 'k process \<Rightarrow> int \<Rightarrow> 'k outcome" where
  "FSTAT64 ops p fd = FSTAT ops p fd"

definition NEWFSTATAT :: "'k real_ops \<Rightarrow> 'k process \<Rightarrow> int \<Rightarrow> string \<Rightarrow> nat \<Rightarrow> 'k outcome" where
  "NEWFSTATAT ops p dirfd path flags =
    (if slot_path path \<and> (dirfd = AT_FDCWD \<or> slot_fd dirfd) then
       or_real ops (C_NEWFSTATAT dirfd path flags) (\<not> starts_backslash path)
         (on_sys_stat p (slotfs_stat (psys p) (if dirfd = AT_FDCWD then AT_FDCWD else dirfd - FD_OFFSET)
            (Some (strip_backslashes path)) flags))
     else call_real ops (C_NEWFSTATAT dirfd path flags) p)"

definition LSTAT :: "'k real_ops \<Rightarrow> 'k process \<Rightarrow> string \<Rightarrow> 'k outcome" where
  "LSTAT ops p path =
    (if slot_path path then
       or_real ops (C_LSTAT path) (\<not> starts_backslash path)
         (on_sys_stat p (slotfs_stat (psys p) AT_FDCWD (Some (strip_backslashes path)) AT_SYMLINK_NOFOLLOW))
     else call_real ops (C_LSTAT path) p)"

definition LSTAT64 :: "'k real_ops \<Rightarrow> 'k process \<Rightarrow> string \<Rightarrow> 'k outcome" where
  "LSTAT64 ops p path = LSTAT ops p path"

subsection \<open>Opening and closing\<close>

text \<open>\<open>mode\<close> is the variable argument, which is read when \<open>O_CREAT\<close> is set.\<close>

definition OPEN :: "'k real_ops \<Rightarrow> 'k process \<Rightarrow> string \<Rightarrow> nat \<Rightarrow> nat \<Rightarrow> 'k outcome" where
  "OPEN ops p path oflag mode =
    (let creat = (oflag AND O_CREAT \<noteq> 0); c = C_OPEN path oflag (if creat then Some mode else None)
     in if slot_path2 path then do {
          (v, y) \<leftarrow> (if creat then slotfs_open (psys p) AT_FDCWD (strip_backslashes path) oflag mode
                    else slotfs_open (psys p) AT_FDCWD (if starts_backslash path then tl path else path) oflag 0);
          let p = p\<lparr>psys := y\<rparr>;
          if v < 0 \<and> \<not> starts_backslash path then call_real ops c p
          else Some (ret (if v < 0 then v else v + FD_OFFSET), p)
        }
        else call_real ops c p)"

definition OPENAT :: "'k real_ops \<Rightarrow> 'k process \<Rightarrow> int \<Rightarrow> string \<Rightarrow> nat \<Rightarrow> nat \<Rightarrow> 'k outcome" where
  "OPENAT ops p dirfd path oflag mode =
    (let creat = (oflag AND O_CREAT \<noteq> 0)
     in if slot_path path then
          if dirfd = AT_FDCWD \<or> slot_fd dirfd then do {
            let dirfd = (if dirfd = AT_FDCWD then AT_FDCWD else dirfd - FD_OFFSET);
            (v, y) \<leftarrow> slotfs_open (psys p) dirfd (strip_backslashes path) oflag (if creat then mode else 0);
            let p = p\<lparr>psys := y\<rparr>;
            if v < 0 \<and> \<not> starts_backslash path
            then call_real ops (C_OPENAT dirfd path oflag (if creat then Some mode else None)) p
            else Some (ret (v + FD_OFFSET), p)
          }
          else call_real ops (C_OPENAT dirfd path oflag (Some (if creat then mode else 0))) p
        else call_real ops (C_OPEN path oflag (if creat then Some mode else None)) p)"

definition OPEN64 :: "'k real_ops \<Rightarrow> 'k process \<Rightarrow> string \<Rightarrow> nat \<Rightarrow> nat \<Rightarrow> 'k outcome" where
  "OPEN64 ops p path oflag mode = OPEN ops p path oflag mode"

definition LIBC_OPEN64 :: "'k real_ops \<Rightarrow> 'k process \<Rightarrow> string \<Rightarrow> nat \<Rightarrow> nat \<Rightarrow> 'k outcome" where
  "LIBC_OPEN64 ops p path oflag mode = OPEN ops p path oflag mode"

definition CLOSE :: "'k real_ops \<Rightarrow> 'k process \<Rightarrow> int \<Rightarrow> 'k outcome" where
  "CLOSE ops p fd =
    (if slot_fd fd then on_sys p (slotfs_close (psys p) (fd - FD_OFFSET)) else call_real ops (C_CLOSE fd) p)"

subsection \<open>Links\<close>

definition LINK :: "'k real_ops \<Rightarrow> 'k process \<Rightarrow> string \<Rightarrow> string \<Rightarrow> 'k outcome" where
  "LINK ops p oldpath newpath =
    (if slot_path2 newpath \<and> slot_path2 oldpath then
       or_real ops (C_LINK oldpath newpath) (\<not> starts_backslash oldpath \<and> \<not> starts_backslash newpath)
         (on_sys p (slotfs_link (psys p) (strip_backslashes oldpath) (strip_backslashes newpath)))
     else call_real ops (C_LINK oldpath newpath) p)"

definition UNLINK :: "'k real_ops \<Rightarrow> 'k process \<Rightarrow> string \<Rightarrow> 'k outcome" where
  "UNLINK ops p path =
    (if slot_path2 path then
       or_real ops (C_UNLINK path) (\<not> starts_backslash path) (on_sys p (slotfs_unlink (psys p) (strip_backslashes path)))
     else call_real ops (C_UNLINK path) p)"

definition SYMLINK :: "'k real_ops \<Rightarrow> 'k process \<Rightarrow> string \<Rightarrow> string \<Rightarrow> 'k outcome" where
  "SYMLINK ops p target link =
    (if slot_path2 target \<and> slot_path2 link then
       or_real ops (C_SYMLINK target link) (\<not> starts_backslash link \<and> \<not> starts_backslash target)
         (on_sys p (slotfs_symlink (psys p) (strip_backslashes target) (strip_backslashes link)))
     else call_real ops (C_SYMLINK target link) p)"

subsection \<open>Reading and writing\<close>

definition READ :: "'k real_ops \<Rightarrow> 'k process \<Rightarrow> int \<Rightarrow> nat \<Rightarrow> 'k outcome" where
  "READ ops p fd len =
    (if slot_fd fd then on_sys_buf p (slotfs_read (psys p) (fd - FD_OFFSET) len) else call_real ops (C_READ fd len) p)"

definition WRITE :: "'k real_ops \<Rightarrow> 'k process \<Rightarrow> int \<Rightarrow> byte list \<Rightarrow> 'k outcome" where
  "WRITE ops p fd buf =
    (if slot_fd fd then on_sys p (slotfs_write (psys p) (fd - FD_OFFSET) buf) else call_real ops (C_WRITE fd buf) p)"

definition READ2 :: "'k real_ops \<Rightarrow> 'k process \<Rightarrow> int \<Rightarrow> nat \<Rightarrow> 'k outcome" where
  "READ2 ops p fd len = READ ops p fd len"

definition PREAD :: "'k real_ops \<Rightarrow> 'k process \<Rightarrow> int \<Rightarrow> nat \<Rightarrow> int \<Rightarrow> 'k outcome" where
  "PREAD ops p fd cnt offset =
    (if slot_fd fd then on_sys_buf p (slotfs_pread (psys p) (fd - FD_OFFSET) cnt offset)
     else call_real ops (C_PREAD fd cnt offset) p)"

definition PREAD64 :: "'k real_ops \<Rightarrow> 'k process \<Rightarrow> int \<Rightarrow> nat \<Rightarrow> int \<Rightarrow> 'k outcome" where
  "PREAD64 ops p fd cnt offset = PREAD ops p fd cnt offset"

definition PWRITE :: "'k real_ops \<Rightarrow> 'k process \<Rightarrow> int \<Rightarrow> byte list \<Rightarrow> int \<Rightarrow> 'k outcome" where
  "PWRITE ops p fd buf offset =
    (if slot_fd fd then on_sys p (slotfs_pwrite (psys p) (fd - FD_OFFSET) buf offset)
     else call_real ops (C_PWRITE fd buf offset) p)"

definition PWRITE64 :: "'k real_ops \<Rightarrow> 'k process \<Rightarrow> int \<Rightarrow> byte list \<Rightarrow> int \<Rightarrow> 'k outcome" where
  "PWRITE64 ops p fd buf offset = PWRITE ops p fd buf offset"

subsection \<open>Streams\<close>

text \<open>The path is stripped before it is handed to the C library as well.\<close>

definition FOPEN :: "'k real_ops \<Rightarrow> 'k process \<Rightarrow> string \<Rightarrow> string \<Rightarrow> 'k outcome" where
  "FOPEN ops p path md =
    (if slot_path path then do {
       let path = strip_backslashes path;
       (fp, p) \<leftarrow> glibc_fopen p path md;
       if fp = 0 \<and> \<not> starts_backslash path then call_real ops (C_FOPEN path md) p
       else Some (ret (int fp), p)
     }
     else call_real ops (C_FOPEN path md) p)"

definition slot_stream :: "'k process \<Rightarrow> nat \<Rightarrow> bool" where
  "slot_stream p fp \<longleftrightarrow> s_flags (stream_at p fp) AND IO_MAGIC_MASK = IO_MAGIC_SLOT"

definition FPUTS :: "'k real_ops \<Rightarrow> 'k process \<Rightarrow> string \<Rightarrow> nat \<Rightarrow> 'k outcome" where
  "FPUTS ops p str fp =
    (if fp = 0 then None
     else if slot_stream p fp then do { (v, p) \<leftarrow> glibc_fputs p str fp; Some (ret v, p) }
     else call_real ops (C_FPUTS str fp) p)"

definition FGETS :: "'k real_ops \<Rightarrow> 'k process \<Rightarrow> nat \<Rightarrow> int \<Rightarrow> nat \<Rightarrow> 'k outcome" where
  "FGETS ops p str n fp =
    (if fp \<noteq> 0 \<and> slot_stream p fp then do { (v, bs, p) \<leftarrow> glibc_fgets p str n fp; Some ((ret (int v))\<lparr>r_buf := bs\<rparr>, p) }
     else call_real ops (C_FGETS str n fp) p)"

definition FWRITE :: "'k real_ops \<Rightarrow> 'k process \<Rightarrow> byte list \<Rightarrow> nat \<Rightarrow> nat \<Rightarrow> nat \<Rightarrow> 'k outcome" where
  "FWRITE ops p buf len nmemb fp =
    (if fp = 0 then None
     else if slot_stream p fp then do { (v, p) \<leftarrow> glibc_fwrite p buf len nmemb fp; Some (ret (int v), p) }
     else call_real ops (C_FWRITE buf len nmemb fp) p)"

definition FREAD :: "'k real_ops \<Rightarrow> 'k process \<Rightarrow> nat \<Rightarrow> nat \<Rightarrow> nat \<Rightarrow> 'k outcome" where
  "FREAD ops p len nmemb fp =
    (if fp \<noteq> 0 \<and> slot_stream p fp then do { (v, bs, p) \<leftarrow> glibc_fread p len nmemb fp; Some ((ret (int v))\<lparr>r_buf := bs\<rparr>, p) }
     else call_real ops (C_FREAD len nmemb fp) p)"

definition FCLOSE :: "'k real_ops \<Rightarrow> 'k process \<Rightarrow> nat \<Rightarrow> 'k outcome" where
  "FCLOSE ops p fp =
    (if fp \<noteq> 0 \<and> slot_stream p fp then do { (v, p) \<leftarrow> glibc_fclose p fp; Some (ret v, p) }
     else call_real ops (C_FCLOSE fp) p)"

definition FSEEK :: "'k real_ops \<Rightarrow> 'k process \<Rightarrow> nat \<Rightarrow> int \<Rightarrow> int \<Rightarrow> 'k outcome" where
  "FSEEK ops p fp offset whence =
    (if fp \<noteq> 0 \<and> slot_stream p fp then do { (v, p) \<leftarrow> glibc_fseek p fp offset whence; Some (ret v, p) }
     else call_real ops (C_FSEEK fp offset whence) p)"

definition FFLUSH :: "'k real_ops \<Rightarrow> 'k process \<Rightarrow> nat \<Rightarrow> 'k outcome" where
  "FFLUSH ops p fp =
    (if fp \<noteq> 0 \<and> slot_stream p fp then Some (ret (glibc_fflush p fp), p) else call_real ops (C_FFLUSH fp) p)"

subsection \<open>Descriptors of the file system\<close>

lemma slotfs_open_range:
  assumes "slotfs_open y dfd path flags mode = Some (fd, y')" "0 \<le> fd"
  shows "\<exists>i < FD_MAX. fd = int i \<and> fh_offset (f_table y' i) = 0"
proof (cases rule: fd_alloc_cases [of y])
  case full
  with assms show ?thesis by (auto simp: slotfs_open_def)
next
  case (got i)
  with assms(1) obtain r y1 where d: "do_slotfs_open (y\<lparr>fd_hint := (i + 1) mod FD_MAX, f_table := (f_table y)(i := fresh_fh i)\<rparr>) dfd path flags mode = Some (r, y1)"
    by (auto simp: slotfs_open_def split: Option.bind_splits)
  note f = do_open_frame [OF this]
  from assms d got(1) f have "fd = int i \<and> fh_offset (f_table y' i) = 0"
    by (cases r) (auto simp: slotfs_open_def upd_fh_def fresh_fh_def)
  with got(2) show ?thesis by blast
qed

lemma slot_fd_shift: "0 \<le> fd \<Longrightarrow> slot_fd (fd + FD_OFFSET) \<longleftrightarrow> fd < int FD_MAX"
  by (simp add: slot_fd_def)

text \<open>All other descriptors go to the C library, and the file system does not change.\<close>

lemma foreign_fd:
  assumes "\<not> slot_fd fd"
  shows "READ ops q fd n = call_real ops (C_READ fd n) q" "WRITE ops q fd buf = call_real ops (C_WRITE fd buf) q"
    "CLOSE ops q fd = call_real ops (C_CLOSE fd) q" "SEEK ops q fd off whence = call_real ops (C_SEEK fd off whence) q"
  using assms by (simp_all add: READ_def WRITE_def CLOSE_def SEEK_def)

lemma call_real_sys: "call_real ops c p = Some (r, p') \<Longrightarrow> psys p' = psys p"
  by (auto simp: call_real_def split: prod.splits)

text \<open>A directory that was opened cannot be read. For a directory that the file system opens as the descriptor \<open>fd\<close>,
  \<open>opendir\<close> returns \<open>fd\<close> without the offset, or, for \<open>fd = 0\<close>, takes it for a failure and asks the C library, while
  the descriptor stays in use. \<open>readdir\<close> of the result asks the C library as well when \<open>fd < FD_OFFSET\<close>, and otherwise reads
  the descriptor \<open>fd - FD_OFFSET\<close>, which is another one.\<close>

theorem opendir_readdir_lost:
  assumes "slot_path path" "slotfs_opendir (psys p) path = Some (fd, y)" "0 \<le> fd"
  shows "OPENDIR ops p path =
      (if fd = 0 \<and> \<not> starts_backslash path then call_real ops (C_OPENDIR path) (p\<lparr>psys := y\<rparr>) else Some (ret fd, p\<lparr>psys := y\<rparr>)) \<and>
    READDIR ops q (nat fd) =
      (if fd < FD_OFFSET then call_real ops (C_READDIR (nat fd)) q
       else slotfs_readdir (psys q) (fd - FD_OFFSET) \<bind> (\<lambda>(d, y). Some (ret (int d), q\<lparr>psys := y\<rparr>)))"
proof -
  obtain i where i: "fd = int i" "i < FD_MAX"
    using slotfs_open_range [OF assms(2,3) [unfolded slotfs_opendir_def]] by blast
  then have "to_size fd = i"
    by (simp add: to_size_def FD_MAX_def)
  with assms i show ?thesis
    by (auto simp: OPENDIR_def READDIR_def slot_fd_def FD_OFFSET_def)
qed

subsection \<open>Streams start at the end\<close>

lemma and_or_other:
  assumes "b AND c = 0"
  shows "(a OR b) AND c = a AND (c :: nat)"
proof (rule bit_eqI)
  fix n
  from assms have "\<not> (bit b n \<and> bit c n)"
    by (metis bit_0_eq bit_and_iff bot_apply bot_bool_def)
  then show "bit ((a OR b) AND c) n = bit (a AND c) n"
    by (auto simp: bit_simps)
qed

lemma fopen_modes_Nil [simp]: "fopen_modes n [] m = m"
  by (cases n) simp_all

lemma do_open_trunc: "do_slotfs_open y dfd path (f OR O_TRUNC) mode = do_slotfs_open y dfd path f mode"
proof -
  have e: "(f OR O_TRUNC) AND O_CREAT = f AND O_CREAT" "(f OR O_TRUNC) AND O_DIRECTORY = f AND O_DIRECTORY"
    "(f OR O_TRUNC) AND O_NOFOLLOW = f AND O_NOFOLLOW"
    by (rule and_or_other, simp add: O_TRUNC_def O_CREAT_def O_DIRECTORY_def O_NOFOLLOW_def)+
  show ?thesis
    by (simp only: do_slotfs_open_def nameidata_init_def e)
qed

lemma slotfs_open_trunc:
  assumes "slotfs_open y dfd path (f OR O_TRUNC) mode = Some (fd, y1)"
  obtains y2 where "slotfs_open y dfd path f mode = Some (fd, y2)" "fsys y1 = fsys y2"
    "\<And>i. fh_file (f_table y1 i) = fh_file (f_table y2 i)"
proof -
  have "\<exists>y2. slotfs_open y dfd path f mode = Some (fd, y2) \<and> fsys y1 = fsys y2 \<and>
      (\<forall>i. fh_file (f_table y1 i) = fh_file (f_table y2 i))"
    using assms unfolding slotfs_open_def do_open_trunc
    by (auto simp: upd_fh_def set_errno_def Let_def split: prod.splits option.splits Option.bind_splits sum.splits)
  with that show ?thesis by blast
qed

text \<open>C39: A stream opened for writing starts at the end of the old content. \<open>fopen\<close> with the mode \<open>w\<close> leaves the file
  system as an \<open>open\<close> without \<open>O_TRUNC\<close> leaves it, and sets the offset to the size of the file: what is written is appended.\<close>

theorem fopen_w_appends:
  assumes "glibc_fopen p path ''w'' = Some (fp, p')" "fp \<noteq> 0"
  shows "\<exists>i y. slotfs_open (psys p) AT_FDCWD path (O_WRONLY OR O_CREAT) 438 = Some (int i, y) \<and> fsys (psys p') = fsys y \<and>
    slot_stream p' fp \<and> s_fileno (stream_at p' fp) = int i \<and>
    fh_offset (f_table (psys p') i) = off_t (int (i_size (inode_mem (fsys y) (fh_file (f_table y i)))))"
proof -
  have w: "fopen_kind ''w'' = Some \<lparr>om_omode = O_WRONLY, om_oflags = O_CREAT OR O_TRUNC, om_rw = IO_NO_READS, om_last = [],
      om_unsupported = False\<rparr>" "O_WRONLY OR (O_CREAT OR O_TRUNC) = (O_WRONLY OR O_CREAT) OR O_TRUNC"
    by (simp_all add: fopen_kind_def or.assoc)
  from assms obtain p1 where m: "c_malloc p = (fp, p1)"
    by (auto simp: glibc_fopen_def w Let_def split: prod.splits if_splits Option.bind_splits)
  then have py: "psys p1 = psys p"
    by (auto simp: c_malloc_def split: list.splits)
  from assms obtain fd y1 where opn: "slotfs_open (psys p) AT_FDCWD path ((O_WRONLY OR O_CREAT) OR O_TRUNC) 438 = Some (fd, y1)" "0 \<le> fd"
    by (auto simp: glibc_fopen_def m w py Let_def split: prod.splits if_splits Option.bind_splits)
  obtain i where i: "fd = int i" "i < FD_MAX"
    using slotfs_open_range [OF opn] by blast
  obtain y2 where y2: "slotfs_open (psys p) AT_FDCWD path (O_WRONLY OR O_CREAT) 438 = Some (fd, y2)" "fsys y1 = fsys y2"
    "fh_file (f_table y1 i) = fh_file (f_table y2 i)"
    using slotfs_open_trunc [OF opn(1)] by metis
  have magic: "IO_mask_flags IO_MAGIC_SLOT IO_NO_READS (IO_NO_READS + IO_NO_WRITES + IO_IS_APPENDING) AND IO_MAGIC_MASK = IO_MAGIC_SLOT"
    "IO_NO_READS \<noteq> IO_NO_WRITES"
    by (simp_all add: IO_mask_flags_def IO_MAGIC_SLOT_def IO_NO_READS_def IO_NO_WRITES_def IO_IS_APPENDING_def IO_MAGIC_MASK_def)
  show ?thesis
    using assms m opn i y2 magic
    by (auto simp: glibc_fopen_def w py Let_def slotfs_lseek_def SEEK_END_def upd_fh_def upd_stream_def slot_stream_def fh_index_def
        split: if_splits Option.bind_splits)
qed

subsection \<open>Examples\<close>

definition no_ops :: "unit real_ops" where
  "no_ops c l = (ret (- 1), l)"

definition lib_proc :: "sys \<Rightarrow> unit process" where
  "lib_proc y = \<lparr>psys = y, plibc = \<lparr>streams = \<lambda>_. \<lparr>s_flags = 0, s_fileno = 0\<rparr>, c_errno = 0, c_mallocs = [64]\<rparr>, perr = 0\<rparr>"

lemma tree_opendir: "\<exists>y. slotfs_opendir tree_sys ''d/'' = Some (0, y)"
proof -
  let ?y = "tree_sys\<lparr>fd_hint := 1, f_table := (f_table tree_sys)(0 := fresh_fh 0)\<rparr>"
  have nd: "nameidata_init ?y AT_FDCWD ''d/'' O_DIRECTORY = Inr (tree_nd ''d/'')"
    by (simp add: nameidata_init_def tree_sys_def tree_nd_def is_slash_def O_DIRECTORY_def O_NOFOLLOW_def)
  have "\<exists>nd. path_lookup tree_example (tree_nd ''d/'') =
     Some (0, nd, tree_example\<lparr>ilocked := (\<lambda>_. False)(2 := False, 3 := True)\<rparr>) \<and> nd_current nd = SHM_BASE + 128"
    by (simp add: walk_eval tree_nd_def fun_upd_twist)
  then have "\<exists>y. do_slotfs_open ?y AT_FDCWD ''d/'' O_DIRECTORY 0 = Some (Inr (SHM_BASE + 128), y)"
    unfolding do_slotfs_open_def nd
    by (auto simp: tree_sys_def deref_def ino_of_def inode_unlock_def ref_inc_def upd_inode_def zero_inode_def is_dir_def S_IFMT_def S_IFDIR_def
        O_CREAT_def O_DIRECTORY_def)
  then obtain y where y: "do_slotfs_open ?y AT_FDCWD ''d/'' O_DIRECTORY 0 = Some (Inr (SHM_BASE + 128), y)" by blast
  have "fh_fd (f_table y 0) = 0"
    using do_open_frame [OF y] by (simp add: fresh_fh_def)
  with y tree_fd show ?thesis
    by (simp add: slotfs_opendir_def slotfs_open_def upd_fh_def)
qed

theorem opendir_readdir_lost_witness:
  "\<exists>y. slotfs_opendir tree_sys ''d/'' = Some (0, y) \<and>
     OPENDIR no_ops (lib_proc tree_sys) ''d/'' = call_real no_ops (C_OPENDIR ''d/'') (lib_proc y) \<and>
     READDIR no_ops (lib_proc y) 0 = call_real no_ops (C_READDIR 0) (lib_proc y)"
proof -
  have p: "slot_path ''d/''" "\<not> starts_backslash ''d/''"
    by (simp_all add: slot_path_def starts_backslash_def is_backslash_def is_slash_def)
  obtain y where y: "slotfs_opendir (psys (lib_proc tree_sys)) ''d/'' = Some (0, y)"
    using tree_opendir by (auto simp: lib_proc_def)
  from opendir_readdir_lost [OF p(1) this, of no_ops "lib_proc y"] y p(2) show ?thesis
    by (auto simp: FD_OFFSET_def lib_proc_def)
qed

text \<open>The tree with a file of 100 bytes in the place of the directory \<open>d\<close>.\<close>

definition file_tree :: fs where
  "file_tree = tree_example\<lparr>inode_mem := (inode_mem tree_example)(SHM_BASE + 128 := zero_inode\<lparr>i_ino := 3, i_size := 100\<rparr>)\<rparr>"

definition file_sys :: sys where
  "file_sys = tree_sys\<lparr>fsys := file_tree\<rparr>"

lemma file_tree_simps [simp]:
  "root_inode file_tree = SHM_BASE" "itable file_tree = (\<lambda>_. 0)(2 := SHM_BASE, 3 := SHM_BASE + 128)"
  "inode_mem file_tree SHM_BASE = zero_inode\<lparr>i_ino := 2, i_mode := S_IFDIR, i_rb_root := SHM_BASE + 64\<rparr>"
  "inode_mem file_tree (SHM_BASE + 128) = zero_inode\<lparr>i_ino := 3, i_size := 100\<rparr>"
  "dirent_mem file_tree (SHM_BASE + 64) = \<lparr>d_idx = 1, d_ts = 0, d_ino = 3, d_hash = BKDRHash ''d'', d_ref = 0\<rparr>"
  "slot_num (slots_of file_tree t) = 64" "ilocked file_tree = (\<lambda>_. False)" "rb_mem file_tree = (\<lambda>_. \<lparr>rb_pc = 0, rb_right = 0, rb_left = 0\<rparr>)"
  by (simp_all add: file_tree_def)

lemma tree_fd_on:
  "fd_alloc (tree_sys\<lparr>fsys := s\<rparr>) = (Some 0, tree_sys\<lparr>fsys := s, fd_hint := 1, f_table := (f_table tree_sys)(0 := fresh_fh 0)\<rparr>)"
proof -
  have "[0..<FD_MAX] = 0 # [1..<FD_MAX]" "FD_MAX > 1"
    by (simp_all add: upt_conv_Cons, simp add: FD_MAX_def)
  then show ?thesis
    by (simp add: fd_alloc_def tree_sys_def upd_fh_def fresh_fh_def Let_def)
qed

lemma file_open:
  "\<exists>y. slotfs_open file_sys AT_FDCWD ''d'' (O_WRONLY OR (O_CREAT OR O_TRUNC)) 438 = Some (0, y) \<and> fh_file (f_table y 0) = SHM_BASE + 128 \<and>
     inode_mem (fsys y) = inode_mem file_tree"
proof -
  let ?f = "O_WRONLY OR (O_CREAT OR O_TRUNC)"
  let ?y = "file_sys\<lparr>fd_hint := 1, f_table := (f_table file_sys)(0 := fresh_fh 0)\<rparr>"
  have flags: "?f AND O_CREAT \<noteq> 0" "?f AND O_NOFOLLOW = 0"
    by (simp_all add: O_WRONLY_def O_CREAT_def O_TRUNC_def O_NOFOLLOW_def)
  have fd: "fd_alloc file_sys = (Some 0, ?y)"
    using tree_fd_on [of file_tree] by (simp add: file_sys_def)
  have nd: "nameidata_init ?y AT_FDCWD ''d'' ?f = Inr (tree_nd ''d'')"
    using flags by (simp add: nameidata_init_def file_sys_def tree_sys_def tree_nd_def is_slash_def)
  let ?s = "file_tree\<lparr>ilocked := (\<lambda>_. False)(2 := True)\<rparr>"
  let ?s3 = "file_tree\<lparr>ilocked := (\<lambda>_. False)(2 := True, 3 := True)\<rparr>"
  have "\<exists>nd. path_lookup file_tree ((tree_nd ''d'')\<lparr>nd_flags := ND_PARENT, nd_path := ''d''\<rparr>) = Some (0, nd, ?s) \<and> nd_parent nd = SHM_BASE \<and> nd_name nd = ''d''"
    by (simp add: walk_eval tree_nd_def nd_name_def ND_PARENT_def)
  then obtain nd where l: "path_lookup file_tree ((tree_nd ''d'')\<lparr>nd_flags := ND_PARENT, nd_path := ''d''\<rparr>) = Some (0, nd, ?s)"
    "nd_parent nd = SHM_BASE" "nd_name nd = ''d''"
    by blast
  have look: "inode_lookup ?s SHM_BASE ''d'' = Some (SHM_BASE + 64)"
    by (simp add: inode_lookup_def dirent_lookup_def dirent_lookup_loop.simps deref_def rb_of_def zero_inode_def is_dir_def S_IFMT_def S_IFDIR_def Let_def)
  have "iget ?s 3 = Some (Inr (SHM_BASE + 128), ?s3)"
    by (simp add: iget_def inode_lock_def Let_def deref_def)
  moreover have "inode_unlock ?s3 3 = Some ?s" "inode_unlock ?s 2 = Some (file_tree\<lparr>ilocked := (\<lambda>_. False)\<rparr>)"
    by (simp_all add: inode_unlock_def fun_upd_idem)
  moreover have "nd_flags (tree_nd ''d'') OR ND_PARENT = ND_PARENT" "nd_path (tree_nd ''d'') = ''d''" "skip_slashes ''d'' = ''d''"
    by (simp_all add: tree_nd_def skip_slashes_def is_slash_def)
  moreover have "fsys ?y = file_tree" "ino_of ?s3 (SHM_BASE + 128) = 3" "ino_of ?s SHM_BASE = 2"
    by (simp_all add: file_sys_def ino_of_def zero_inode_def)
  moreover have "SHM_BASE \<noteq> 0" "deref SHM_BASE = Some ()" "deref (SHM_BASE + 64) = Some ()"
    by (simp_all add: deref_def SHM_BASE_def)
  ultimately have "\<exists>y. do_slotfs_open ?y AT_FDCWD ''d'' ?f 438 = Some (Inr (SHM_BASE + 128), y) \<and> inode_mem (fsys y) = inode_mem file_tree"
    unfolding do_slotfs_open_def nd using flags l look by (simp add: Let_def)
  then obtain y where y: "do_slotfs_open ?y AT_FDCWD ''d'' ?f 438 = Some (Inr (SHM_BASE + 128), y)" "inode_mem (fsys y) = inode_mem file_tree"
    by blast
  have "fh_fd (f_table y 0) = 0"
    using do_open_frame [OF y(1)] by (simp add: fresh_fh_def)
  with y fd show ?thesis
    by (simp add: slotfs_open_def upd_fh_def)
qed

theorem fopen_w_appends_witness:
  "\<exists>p. glibc_fopen (lib_proc file_sys) ''d'' ''w'' = Some (64, p) \<and> fh_offset (f_table (psys p) 0) = 100"
proof -
  obtain y where y: "slotfs_open file_sys AT_FDCWD ''d'' (O_WRONLY OR (O_CREAT OR O_TRUNC)) 438 = Some (0, y)"
    "fh_file (f_table y 0) = SHM_BASE + 128" "inode_mem (fsys y) = inode_mem file_tree"
    using file_open by blast
  have "\<exists>p. glibc_fopen (lib_proc file_sys) ''d'' ''w'' = Some (64, p)"
    using y by (simp add: glibc_fopen_def c_malloc_def lib_proc_def fopen_kind_def slotfs_lseek_def upd_stream_def SEEK_END_def fh_index_def
        deref_def IO_NO_READS_def IO_NO_WRITES_def)
  then obtain p where p: "glibc_fopen (lib_proc file_sys) ''d'' ''w'' = Some (64, p)" by blast
  obtain i y2 where *: "slotfs_open file_sys AT_FDCWD ''d'' (O_WRONLY OR O_CREAT) 438 = Some (int i, y2)" "fsys (psys p) = fsys y2"
    "fh_offset (f_table (psys p) i) = off_t (int (i_size (inode_mem (fsys y2) (fh_file (f_table y2 i)))))"
    using fopen_w_appends [OF p] by (auto simp: lib_proc_def)
  obtain y3 where "slotfs_open file_sys AT_FDCWD ''d'' (O_WRONLY OR O_CREAT) 438 = Some (0, y3)" "fsys y = fsys y3"
    "\<And>i. fh_file (f_table y i) = fh_file (f_table y3 i)"
    using slotfs_open_trunc [of file_sys AT_FDCWD "''d''" "O_WRONLY OR O_CREAT"] y(1) by (metis or.assoc)
  with * y(2,3) p show ?thesis
    by (auto simp: off_t_def)
qed

end
