(* ===== verification/File_Resize.thy ===== *)
theory File_Resize
  imports File_Ops
begin

text \<open>
  Resizing and releasing files and directories: what \<open>inode_shrink\<close>, \<open>inode_extend\<close>, \<open>inode_resize\<close> and
  \<open>do_inode_release\<close> of \<open>inode.c\<close> do, and where they do not end or fault.
\<close>

subsection \<open>Shrinking over a hole\<close>

lemma shrink_loop_hole:
  assumes "start_blk < end_blk" "filent_lookup s inode (int start_blk) = Some 0"
  shows "shrink_loop s inode start_blk end_blk = None"
proof -
  have "\<not> (start_blk < end_blk \<and> filent_lookup s inode (int start_blk) = Some 0)"
    if "shrink_loop s inode start_blk end_blk = Some s'" for s'
  proof (rule shrink_loop.raw_induct [where P = "\<lambda>s inode b e _. \<not> (b < e \<and> filent_lookup s inode (int b) = Some 0)",
        OF _ that], goal_cases)
    case (1 go s inode b e y)
    then show ?case by auto
  qed
  with assms show ?thesis by fastforce
qed

lemma journal_lookup_frame:
  "journal_alloc s = (jnl, s1) \<Longrightarrow> bheap s1 = bheap s \<and> inode_mem s1 = inode_mem s"
  "journal_truncate s jnl ino sz = Some s2 \<Longrightarrow> bheap s2 = bheap s \<and> inode_mem s2 = inode_mem s"
  by (auto simp: journal_alloc_def journal_truncate_def upd_jnl_def split: if_splits option.splits)

definition page_up :: "nat \<Rightarrow> nat" where
  "page_up sz = size_sub (size_add sz PAGE_SIZE) 1 div PAGE_SIZE"

text \<open>C34: Shrinking a file never ends when it meets a hole. If the first block that \<open>inode_shrink\<close> has to drop is
  not mapped, the loop of \<open>inode_shrink\<close> looks up the same block again and again (the \<open>continue\<close> at \<open>if (!fe)\<close>
  does not advance \<open>start_blk\<close>).\<close>

theorem inode_shrink_hole_diverges:
  assumes "page_up new_size < page_up (i_size (inode_mem s inode))"
    and "filent_lookup s inode (int (page_up new_size)) = Some 0"
  shows "inode_shrink s inode new_size = None"
proof -
  obtain jnl s1 where j: "journal_alloc s = (jnl, s1)" by fastforce
  have "shrink_loop s2 inode (page_up new_size) (page_up (i_size (inode_mem s inode))) = None"
    if "journal_truncate s1 jnl ino new_size = Some s2" for s2 ino
    using assms journal_lookup_frame(1) [OF j] journal_lookup_frame(2) [OF that]
    by (intro shrink_loop_hole) (auto simp: filent_lookup_def)
  then show ?thesis
    by (auto simp: inode_shrink_def j page_up_def split: Option.bind_splits)
qed

text \<open>A file whose block index is one empty node, at address 16.\<close>

definition file_example :: "nat \<Rightarrow> fs" where
  "file_example sz = blank_fs\<lparr>inode_mem := (inode_mem blank_fs)(8 := zero_inode\<lparr>i_size := sz, i_mode := S_IFREG,
     i_b_root := \<lparr>bt_root = 16, bt_height = 0\<rparr>\<rparr>)\<rparr>"

lemma file_example_hole: "k < BRANCH_NUM \<Longrightarrow> filent_lookup (file_example sz) 8 (int k) = Some 0"
  unfolding filent_lookup_def btree_get_def btree_get_loop.simps [of _ _ "to_size (int k)"]
  by (simp add: file_example_def blank_fs_def zero_node_def BRANCH_NUM_def)

theorem inode_shrink_hole_diverges_witness: "inode_shrink (file_example 8192) 8 4096 = None"
  using inode_shrink_hole_diverges [of 4096 "file_example 8192" 8] file_example_hole [of 1 8192]
  by (simp add: page_up_def size_sub_def size_add_def PAGE_SIZE_def file_example_def BRANCH_NUM_def)

subsection \<open>Extending a file that does not end at a page boundary\<close>

text \<open>Extending a file whose size is not a multiple of the page size faults unless the block after its last
  block is mapped. \<open>inode_extend\<close> looks up the block number of the size rounded up, not the block that holds the end of
  the file, and uses the result without a test.\<close>

theorem inode_extend_unaligned_faults:
  assumes "i_size (inode_mem s inode) mod PAGE_SIZE \<noteq> 0"
    and "filent_lookup s inode (int (page_up (i_size (inode_mem s inode)))) = Some 0"
  shows "inode_extend s inode new_size = None"
proof -
  have "filent_lookup (s\<lparr>ilocked := l, ebufs := e\<rparr>) inode b = filent_lookup s inode b" for l e b
    by (simp add: filent_lookup_def)
  with assms show ?thesis
    by (simp add: inode_extend_def Let_def inode_lock_def ebuf_alloc_def page_up_def deref_def SHM_BASE_def)
qed

theorem inode_extend_unaligned_faults_witness: "inode_extend (file_example 100) 8 10000 = None"
  using inode_extend_unaligned_faults [of "file_example 100" 8 10000] file_example_hole [of 1 100]
  by (simp add: page_up_def size_sub_def size_add_def PAGE_SIZE_def file_example_def BRANCH_NUM_def)

subsection \<open>Releasing a directory\<close>

lemma list_del_poison: "lprev (list_del m e) e = LIST_POISON2"
  by (simp add: list_del_def list_del_between_cells Let_def)

lemma remove_after_del:
  assumes "lprev (lists s) d = LIST_POISON2"
  shows "dir_remove_entry s dir d = None"
proof -
  have "deref LIST_POISON2 = None"
    by (simp add: deref_def SHM_BASE_def LIST_POISON2_def)
  with assms show ?thesis
    by (auto simp: dir_remove_entry_def Let_def split: Option.bind_splits if_splits)
qed

text \<open>Releasing a directory that still has entries always faults. \<open>do_inode_release\<close> takes the first entry off the
  list and gives it back to the arena before it calls \<open>dir_remove_entry\<close> on it, which then follows the poisoned
  link of the entry.\<close>

theorem do_inode_release_dir_faults:
  assumes "is_dir (inode_mem s inode)" "\<not> list_empty (lists s) inode"
  shows "do_inode_release s inode = None"
proof -
  let ?d = "lnext (lists s) inode"
  have "dir_remove_entry (dirent_free (s\<lparr>lists := list_del (lists s) ?d\<rparr>) ?d) inode ?d = None"
    by (rule remove_after_del) (simp add: dirent_free_def entry_free_def list_del_poison)
  then have "release_dir_loop s inode = None"
    unfolding release_dir_loop.simps [of s inode] using assms(2) by simp
  with assms(1) show ?thesis
    by (simp add: do_inode_release_def)
qed

theorem do_inode_release_dir_faults_witness:
  "do_inode_release (blank_fs\<lparr>inode_mem := (inode_mem blank_fs)(8 := zero_inode\<lparr>i_mode := S_IFDIR\<rparr>),
     lists := \<lparr>lnext = (\<lambda>_. 8)(8 := 12), lprev = (\<lambda>_. 8)(8 := 12)\<rparr>\<rparr>) 8 = None"
  by (rule do_inode_release_dir_faults) (simp_all add: is_dir_def S_IFDIR_def S_IFMT_def list_empty_def)


subsection \<open>The size is never changed\<close>

text \<open>What the callback of a range update keeps, the update keeps.\<close>

lemma range_loop_keeps:
  assumes cb: "\<And>f p i c r c'. cb = Some f \<Longrightarrow> f p i c = (r, c') \<Longrightarrow> P c \<Longrightarrow> P c'"
    and loop: "btree_range_loop cb h node index start fin ptr ctx = Some (ret, h', ctx')" and "P ctx"
  shows "P ctx'"
proof -
  have c: "P c'" if "bt_call cb p st c = (r, c')" "P c" for p st r c c'
    using that cb by (auto simp: bt_call_def split: if_splits option.splits)
  have "cb = cb \<longrightarrow> P ctx \<longrightarrow> P (snd (snd (ret, h', ctx')))"
  proof (rule btree_range_loop.raw_induct [where P = "\<lambda>cb' h node index start fin ptr ctx y. cb' = cb \<longrightarrow> P ctx \<longrightarrow> P (snd (snd y))",
        OF _ loop], goal_cases)
    case (1 go cb' h node index start fin ptr ctx y)
    obtain r c1 where b: "bt_call cb' (children (bnodes h node) index) start ctx = (r, c1)" by fastforce
    show ?case
    proof (intro impI)
      assume "cb' = cb" "P ctx"
      with b c have "P c1" by blast
      with 1 b \<open>cb' = cb\<close> show "P (snd (snd y))"
        by (cases y) (auto simp: Let_def split: if_splits Option.bind_splits)
    qed
  qed
  with \<open>P ctx\<close> show ?thesis by simp
qed

lemma set_range_keeps:
  assumes "\<And>f p i c r c'. cb = Some f \<Longrightarrow> f p i c = (r, c') \<Longrightarrow> P c \<Longrightarrow> P c'"
    and "btree_set_range_callback cb h tree start fin ptr ctx = Some (ret, tree', h', ctx')" "P ctx"
  shows "P ctx'"
  using assms(2,3) range_loop_keeps [of cb P, OF assms(1)]
  by (auto simp: btree_set_range_callback_def split: if_splits option.splits)

abbreviation size_of :: "fs \<Rightarrow> nat \<Rightarrow> nat" where
  "size_of s p \<equiv> i_size (inode_mem s p)"

lemma index_insert_size: "file_index_insert s file fe = Some (ret, s') \<Longrightarrow> size_of s' x = size_of s x"
proof -
  assume "file_index_insert s file fe = Some (ret, s')"
  then obtain tree h s1 where r: "btree_set_range_callback (Some (filent_insert_callback file)) (bheap s) (i_b_root (inode_mem s file))
      (to_size (f_l_idx (filent_mem s fe))) (to_size (f_l_idx (filent_mem s fe) + int (f_blocks (filent_mem s fe)))) fe s
      = Some (ret, tree, h, s1)" "s' = upd_inode (s1\<lparr>bheap := h\<rparr>) file (\<lambda>i. i\<lparr>i_b_root := tree\<rparr>)"
    by (auto simp: file_index_insert_def Let_def split: Option.bind_splits)
  have "size_of s1 x = size_of s x"
    by (rule set_range_keeps [OF _ r(1), of "\<lambda>c. size_of c x = size_of s x"])
      (auto simp: filent_insert_callback_def Let_def upd_inode_def upd_filent_def split: if_splits)
  then show ?thesis
    by (auto simp: r(2) upd_inode_def)
qed

lemma dispatch_size: "filent_dispatch s inode sz = (fe, s') \<Longrightarrow> size_of s' x = size_of s x"
  by (auto simp: filent_dispatch_def filent_try_reuse_def Let_def upd_inode_def split: if_splits)

lemma append_entry_size: "file_append_entry s inode entry = Some (r, s') \<Longrightarrow> size_of s' x = size_of s x"
  by (auto simp: file_append_entry_def Let_def filent_alloc_def filent_free_def entry_alloc_def entry_free_def
      upd_inode_def upd_filent_def upd_pm_filent_def split: if_splits prod.splits Option.bind_splits
      dest!: index_insert_size [of _ _ _ _ _ x] dispatch_size [of _ _ _ _ _ x])


lemma append_units_size: "append_units n s inode e idx ts = Some (r, s') \<Longrightarrow> size_of s' x = size_of s x"
proof (induction n arbitrary: s idx)
  case (Suc n)
  from Suc.prems obtain fe s1 where a: "file_append_entry s inode \<lparr>pf_l_idx = nat (eu_l_idx (ebuf_get s e idx) mod 2 ^ 32),
      pf_p_idx = nat (eu_p_idx (ebuf_get s e idx) mod 2 ^ 32), pf_blocks = eu_blocks (ebuf_get s e idx) mod 2 ^ 32,
      pf_ts = ts, pf_next = 0, pf_csum = 0\<rparr> = Some (fe, s1)"
    by (auto simp: Let_def split: Option.bind_splits)
  from append_entry_size [OF a, of x] Suc.prems a Suc.IH [of s1] show ?case
    by (auto split: sum.splits)
qed simp

lemma remove_entry_size: "file_remove_entry s file fe = Some s' \<Longrightarrow> size_of s' x = size_of s x"
  by (auto simp: file_remove_entry_def Let_def upd_inode_def upd_pm_inode_def upd_pm_filent_def filent_free_def
      entry_free_def split: Option.bind_splits if_splits)

lemma journal_size:
  "journal_alloc s = (jnl, s1) \<Longrightarrow> inode_mem s1 = inode_mem s"
  "journal_truncate s jnl ino sz = Some s1 \<Longrightarrow> inode_mem s1 = inode_mem s"
  "journal_commit s jnl = Some s1 \<Longrightarrow> inode_mem s1 = inode_mem s"
  by (auto simp: journal_alloc_def journal_truncate_def journal_commit_def journal_free_def upd_jnl_def
      split: if_splits option.splits Option.bind_splits)

lemma shrink_loop_size:
  assumes "shrink_loop s inode b e = Some s'"
  shows "size_of s' x = size_of s x"
proof (rule shrink_loop.raw_induct [where P = "\<lambda>s inode b e s'. size_of s' x = size_of s x", OF _ assms], goal_cases)
  case (1 go s inode b e y)
  then show ?case
    by (auto simp: Let_def split: if_splits Option.bind_splits dest!: remove_entry_size [of _ _ _ _ x])
qed

lemma extend_alloc_size:
  assumes "extend_alloc_loop s e b n = Some s'"
  shows "inode_mem s' = inode_mem s"
proof (rule extend_alloc_loop.raw_induct [where P = "\<lambda>s e b n s'. inode_mem s' = inode_mem s", OF _ assms], goal_cases)
  case (1 go s e b n y)
  then show ?case
    by (auto simp: Let_def ebuf_add_def split: if_splits Option.bind_splits prod.splits)
qed

lemma shrink_size: "inode_shrink s inode n = Some (ret, s') \<Longrightarrow> size_of s' x = size_of s x"
  by (auto simp: inode_shrink_def Let_def split: prod.splits Option.bind_splits
      dest!: journal_size shrink_loop_size [of _ _ _ _ _ x])

lemma extend_size: "inode_extend s inode n = Some (ret, s') \<Longrightarrow> size_of s' x = size_of s x"
  by (auto simp: inode_extend_def Let_def inode_lock_def inode_unlock_def ebuf_alloc_def ebuf_put_def
      split: if_splits Option.bind_splits dest!: append_units_size [of _ _ _ _ _ _ _ _ x] extend_alloc_size)

text \<open>Resizing does not set the size. Whenever \<open>inode_resize\<close> returns, with success or with an error, the size
  of every inode is what it was: neither \<open>inode_shrink\<close> nor \<open>inode_extend\<close> assigns \<open>i_size\<close>, so \<open>ftruncate\<close> that
  reports success leaves the file with its old size.\<close>

theorem inode_resize_keeps_size:
  assumes "inode_resize s inode new_size = Some (ret, s')"
  shows "i_size (inode_mem s' p) = i_size (inode_mem s p)"
  using assms shrink_size [of s inode new_size ret s' p] extend_size [of s inode new_size ret s' p]
  by (auto simp: inode_resize_def split: if_splits)

text \<open>Shrinking a file of 100 bytes to 50: the last block stays, no entry is removed and 0 is returned.\<close>

theorem inode_resize_keeps_size_witness:
  "\<exists>s'. inode_resize (file_example 100) 8 50 = Some (0, s') \<and> i_size (inode_mem s' 8) = 100"
proof -
  have "\<exists>s'. inode_resize (file_example 100) 8 50 = Some (0, s')"
    unfolding inode_resize_def inode_shrink_def Let_def
    by (simp add: file_example_def blank_fs_def journal_alloc_def journal_truncate_def upd_jnl_def jnl_page_def
        JOURNAL_START_def JOURNAL_SIZE_def JOURNAL_NUM_def SUPER_BLOCK_SIZE_def SLOT_META_SIZE_def PAGE_SIZE_def
        shrink_loop.simps size_sub_def size_add_def journal_commit_def journal_free_def)
  moreover have "i_size (inode_mem (file_example 100) 8) = 100"
    by (simp add: file_example_def)
  ultimately show ?thesis
    using inode_resize_keeps_size [of "file_example 100" 8 50 0 _ 8] by auto
qed

end
