(* ===== verification/File_Read.thy ===== *)
theory File_Read
  imports File_Resize
begin

text \<open>
  Reading a file. \<open>file_byte\<close> is the content of a file as its block index says: the byte in the extent of its
  block, 0 in a hole. \<open>inode_read\<close> copies whole extents at a time and returns that content as long as
  no block of an extent has been overwritten by a later extent.
\<close>

subsection \<open>The content of a file\<close>

definition file_byte :: "fs \<Rightarrow> nat \<Rightarrow> nat \<Rightarrow> byte" where
  "file_byte s f pos =
    (case filent_lookup s f (int (pos div PAGE_SIZE)) of
       None \<Rightarrow> 0
     | Some fe \<Rightarrow> if fe = 0 then 0
         else pm_data (media s) (nat (extent_pos (filent_mem s fe) (pos div PAGE_SIZE) (pos mod PAGE_SIZE))))"

text \<open>The extent \<open>e\<close> covers block \<open>b\<close>, and it is in the data area.\<close>

definition covers :: "fs \<Rightarrow> filent \<Rightarrow> nat \<Rightarrow> bool" where
  "covers s e b \<longleftrightarrow> 0 \<le> f_l_idx e \<and> f_l_idx e \<le> int b \<and> int b < f_l_idx e + int (f_blocks e) \<and>
    f_blocks e * PAGE_SIZE < 2 ^ 64 \<and> data_ok s (data_pos (f_p_idx e) 0) (f_blocks e * PAGE_SIZE)"

text \<open>The first \<open>n\<close> blocks of a file are holes or blocks of extents that are whole: the index has the extent
  at all its blocks.\<close>

definition whole_extents :: "fs \<Rightarrow> nat \<Rightarrow> nat \<Rightarrow> bool" where
  "whole_extents s f n \<longleftrightarrow> (\<forall>b<n. \<exists>fe. filent_lookup s f (int b) = Some fe \<and>
     (fe \<noteq> 0 \<longrightarrow> covers s (filent_mem s fe) b \<and>
       (\<forall>j<f_blocks (filent_mem s fe). filent_lookup s f (f_l_idx (filent_mem s fe) + int j) = Some fe)))"

text \<open>A read that starts in a hole, at the first block of an extent, or ends in the extent that it starts in.\<close>

definition read_fits :: "fs \<Rightarrow> nat \<Rightarrow> nat \<Rightarrow> nat \<Rightarrow> bool" where
  "read_fits s f off len \<longleftrightarrow> (\<forall>fe. filent_lookup s f (int (off div PAGE_SIZE)) = Some fe \<longrightarrow> fe \<noteq> 0 \<longrightarrow>
     f_l_idx (filent_mem s fe) = int (off div PAGE_SIZE) \<or>
     int (off + len) \<le> (f_l_idx (filent_mem s fe) + int (f_blocks (filent_mem s fe))) * int PAGE_SIZE)"

lemma page_pos [simp]: "0 < PAGE_SIZE" "PAGE_SIZE \<noteq> 0"
  by (simp_all add: PAGE_SIZE_def)

lemma extent_pos_eq:
  "extent_pos e b po = data_pos (f_p_idx e) 0 + (int (b * PAGE_SIZE + po) - f_l_idx e * int PAGE_SIZE)"
  by (simp add: extent_pos_def data_pos_def algebra_simps)

text \<open>Reading \<open>nr\<close> bytes inside an extent.\<close>

lemma extent_read:
  assumes w: "whole_extents s f n" and fe: "filent_lookup s f (int (off div PAGE_SIZE)) = Some fe" "fe \<noteq> 0"
    and b: "off div PAGE_SIZE < n"
    and fit: "int (off + nr) \<le> (f_l_idx (filent_mem s fe) + int (f_blocks (filent_mem s fe))) * int PAGE_SIZE"
  shows "data_read s (extent_pos (filent_mem s fe) (off div PAGE_SIZE) (off mod PAGE_SIZE)) nr =
    Some (map (file_byte s f) [off..<off + nr])"
proof -
  let ?e = "filent_mem s fe"
  define base where "base = data_pos (f_p_idx ?e) 0"
  define l where "l = nat (f_l_idx ?e)"
  define k where "k = f_blocks ?e"
  have c: "covers s ?e (off div PAGE_SIZE)" and at: "\<And>j. j < k \<Longrightarrow> filent_lookup s f (f_l_idx ?e + int j) = Some fe"
    using w b fe by (auto simp: whole_extents_def k_def)
  have l: "f_l_idx ?e = int l" "l \<le> off div PAGE_SIZE" "off div PAGE_SIZE < l + k"
    using c by (auto simp: covers_def l_def k_def)
  have fit': "off + nr \<le> (l + k) * PAGE_SIZE"
    using fit unfolding l(1) k_def [symmetric] by (metis of_nat_add of_nat_le_iff of_nat_mult)
  have lo: "l * PAGE_SIZE \<le> off"
    using l(2) by (meson div_times_less_eq_dividend le_trans mult_le_mono1)
  have pos: "extent_pos ?e b po = base + (int (b * PAGE_SIZE + po) - int (l * PAGE_SIZE))" for b po
    by (simp add: extent_pos_eq base_def l(1))
  have start: "extent_pos ?e (off div PAGE_SIZE) (off mod PAGE_SIZE) = base + int (off - l * PAGE_SIZE)"
    using lo by (simp add: pos of_nat_diff div_mult_mod_eq)
  have data: "0 \<le> base" "base + int (k * PAGE_SIZE) \<le> int (slot_num (slots_of s SLOT_DATA) * PAGE_SIZE)"
    using c l(2,3) by (auto simp: covers_def data_ok_def base_def k_def)
  have "off - l * PAGE_SIZE + nr \<le> k * PAGE_SIZE"
    using fit' lo by (simp add: distrib_right)
  then have ok: "data_ok s (base + int (off - l * PAGE_SIZE)) nr"
    using data unfolding data_ok_def by linarith
  have byte: "file_byte s f (off + i) = pm_data (media s) (nat (base + int (off - l * PAGE_SIZE)) + i)" if "i < nr" for i
  proof -
    let ?b = "(off + i) div PAGE_SIZE"
    have "l \<le> ?b"
      using l(2) by (meson div_le_mono le_add1 le_trans)
    moreover have "?b < l + k"
      using fit' that by (intro less_mult_imp_div_less) simp
    ultimately have "filent_lookup s f (int ?b) = Some fe"
      using at [of "?b - l"] by (simp add: l(1) of_nat_diff)
    then have "file_byte s f (off + i) = pm_data (media s) (nat (extent_pos ?e ?b ((off + i) mod PAGE_SIZE)))"
      using fe(2) by (simp add: file_byte_def)
    also have "extent_pos ?e ?b ((off + i) mod PAGE_SIZE) = base + int (off - l * PAGE_SIZE) + int i"
      using lo by (simp add: pos div_mult_mod_eq of_nat_diff)
    finally show ?thesis
      using data(1) by (simp add: nat_add_distrib)
  qed
  show ?thesis
    unfolding start using ok byte by (auto simp: data_read_def intro!: nth_equalityI)
qed


subsection \<open>The loop\<close>

text \<open>A block behind a whole extent, or behind a hole, is a hole or the first block of its extent.\<close>

lemma next_extent_starts:
  assumes w: "whole_extents s f n" and b: "b < n" "filent_lookup s f (int b) = Some fe" "fe \<noteq> 0"
    and pre: "0 < b" "filent_lookup s f (int (b - 1)) \<noteq> Some fe"
  shows "f_l_idx (filent_mem s fe) = int b"
proof (rule ccontr)
  let ?e = "filent_mem s fe"
  assume ne: "f_l_idx ?e \<noteq> int b"
  have c: "covers s ?e b" and at: "\<And>j. j < f_blocks ?e \<Longrightarrow> filent_lookup s f (f_l_idx ?e + int j) = Some fe"
    using w b by (auto simp: whole_extents_def)
  have "nat (int b - 1 - f_l_idx ?e) < f_blocks ?e" "0 \<le> int b - 1 - f_l_idx ?e"
    using c ne by (auto simp: covers_def)
  with at [of "nat (int b - 1 - f_l_idx ?e)"] pre show False by (simp add: of_nat_diff)
qed

lemma whole_lookup: "whole_extents s f n \<Longrightarrow> b < n \<Longrightarrow> \<exists>fe. filent_lookup s f (int b) = Some fe"
  by (auto simp: whole_extents_def)

lemma fits_after:
  assumes w: "whole_extents s f n" and p: "off mod PAGE_SIZE = 0" "0 < off" "off + len \<le> n * PAGE_SIZE" "0 < len"
    and pre: "filent_lookup s f (int (off div PAGE_SIZE - 1)) = Some fe0"
    and end0: "fe0 \<noteq> 0 \<Longrightarrow> f_l_idx (filent_mem s fe0) + int (f_blocks (filent_mem s fe0)) = int (off div PAGE_SIZE)"
  shows "read_fits s f off len"
  unfolding read_fits_def
proof (intro allI impI disjI1)
  fix fe
  let ?b = "off div PAGE_SIZE"
  assume fe: "filent_lookup s f (int ?b) = Some fe" "fe \<noteq> 0"
  have b: "?b < n" "0 < ?b"
    using p by (auto intro: less_mult_imp_div_less simp: div_greater_zero_iff mod_eq_0_iff_dvd dvd_imp_le)
  have "fe0 \<noteq> fe"
  proof
    assume "fe0 = fe"
    with end0 fe(2) have "f_l_idx (filent_mem s fe) + int (f_blocks (filent_mem s fe)) = int ?b" by simp
    moreover have "covers s (filent_mem s fe) ?b"
      using w b(1) fe by (auto simp: whole_extents_def)
    ultimately show False by (simp add: covers_def)
  qed
  with next_extent_starts [OF w b(1) fe b(2)] pre show "f_l_idx (filent_mem s fe) = int ?b" by simp
qed

lemma same_page: "off mod p + i < p \<Longrightarrow> (off + i) div p = off div (p :: nat)"
proof (rule div_nat_eqI)
  assume a: "off mod p + i < p"
  obtain q r where e: "off div p = q" "off mod p = r" "off = p * q + r"
    using mult_div_mod_eq [of p off] by metis
  show "p * (off div p) \<le> off + i" "off + i < p * Suc (off div p)"
    using a e by simp_all
qed

lemma hole_bytes:
  assumes "filent_lookup s f (int (off div PAGE_SIZE)) = Some 0" "off mod PAGE_SIZE + nr \<le> PAGE_SIZE"
  shows "replicate nr 0 = map (file_byte s f) [off..<off + nr]"
proof (rule nth_equalityI)
  fix i
  assume "i < length (replicate nr (0 :: byte))"
  then have "off mod PAGE_SIZE + i < PAGE_SIZE"
    using assms(2) by simp
  then have "(off + i) div PAGE_SIZE = off div PAGE_SIZE"
    by (rule same_page)
  with assms(1) \<open>i < length (replicate nr 0)\<close> show "replicate nr 0 ! i = map (file_byte s f) [off..<off + nr] ! i"
    by (simp add: file_byte_def)
qed simp


text \<open>The number of bytes that one round can copy.\<close>

definition round_avail :: "fs \<Rightarrow> nat \<Rightarrow> nat \<Rightarrow> nat" where
  "round_avail s fe off = (if fe = 0 then PAGE_SIZE else f_blocks (filent_mem s fe) * PAGE_SIZE) - off mod PAGE_SIZE"

lemma round_fits:
  assumes w: "whole_extents s f n" and b: "off div PAGE_SIZE < n" and fits: "read_fits s f off left"
    and fe: "filent_lookup s f (int (off div PAGE_SIZE)) = Some fe" "fe \<noteq> 0"
    and nr: "nr = min left (round_avail s fe off)"
  shows "int (off + nr) \<le> (f_l_idx (filent_mem s fe) + int (f_blocks (filent_mem s fe))) * int PAGE_SIZE"
    and "nr < left \<Longrightarrow> f_l_idx (filent_mem s fe) = int (off div PAGE_SIZE) \<and>
      off + nr = (off div PAGE_SIZE + f_blocks (filent_mem s fe)) * PAGE_SIZE"
proof -
  let ?b = "off div PAGE_SIZE" and ?e = "filent_mem s fe"
  have c: "covers s ?e ?b"
    using w b fe by (auto simp: whole_extents_def)
  then obtain l where l: "f_l_idx ?e = int l" "l \<le> ?b" "?b < l + f_blocks ?e"
    by (cases "f_l_idx ?e") (auto simp: covers_def)
  define k where "k = f_blocks ?e"
  obtain q r P where P: "?b = q" "off mod PAGE_SIZE = r" "PAGE_SIZE = P" "off = q * P + r" "r < P"
    using div_mult_mod_eq [of off PAGE_SIZE] by (metis mod_less_divisor page_pos(1))
  have k: "P \<le> k * P"
    using l(2,3) by (simp add: k_def)
  have rk: "r \<le> k * P"
    using P(5) k by linarith
  have av: "round_avail s fe off = k * P - r"
    using fe(2) P by (simp add: round_avail_def k_def)
  from fits fe have "l = q \<or> int (off + left) \<le> (int l + int k) * int P"
    using P(1) by (auto simp: read_fits_def l(1) P(3) k_def)
  then have two: "l = q \<or> off + left \<le> (l + k) * P"
    by (metis of_nat_add of_nat_le_iff of_nat_mult)
  have ok: "off + nr \<le> (l + k) * P"
  proof (cases "l = q")
    case True
    have "nr \<le> k * P - r"
      using nr av by simp
    with rk have "r + nr \<le> k * P" by linarith
    with True P(4) show ?thesis by (simp add: distrib_right)
  qed (use two nr in auto)
  then show "int (off + nr) \<le> (f_l_idx ?e + int (f_blocks ?e)) * int PAGE_SIZE"
    by (simp only: l(1) P(3) k_def [symmetric] of_nat_add [symmetric] of_nat_mult [symmetric] of_nat_le_iff)
  assume lt: "nr < left"
  have "l = q"
  proof (rule ccontr)
    assume "l \<noteq> q"
    with two have "off + left \<le> (l + k) * P" by simp
    also have "\<dots> \<le> (q + k) * P"
      using l(2) P(1) by simp
    finally have "left \<le> k * P - r"
      using P(4) by (simp add: distrib_right)
    with lt nr av show False by simp
  qed
  moreover have "nr + r = k * P"
    using lt nr av rk by simp
  ultimately show "f_l_idx ?e = int ?b \<and> off + nr = (?b + f_blocks ?e) * PAGE_SIZE"
    using P(1,3,4) l(1) by (simp add: k_def [symmetric] distrib_right)
qed

lemma round_next:
  assumes w: "whole_extents s f n" and b: "off div PAGE_SIZE < n" and fits: "read_fits s f off left"
    and fe: "filent_lookup s f (int (off div PAGE_SIZE)) = Some fe"
    and nr: "nr = min left (round_avail s fe off)" "nr < left" and n: "off + left \<le> n * PAGE_SIZE"
  shows "read_fits s f (off + nr) (left - nr)"
proof (cases "fe = 0")
  case True
  have "off + nr = Suc (off div PAGE_SIZE) * PAGE_SIZE"
  proof -
    obtain q r P where P: "off div PAGE_SIZE = q" "off mod PAGE_SIZE = r" "PAGE_SIZE = P" "off = q * P + r" "r < P"
      using div_mult_mod_eq [of off PAGE_SIZE] by (metis mod_less_divisor page_pos(1))
    have "nr = P - r"
      using nr True P(2,3) by (simp add: round_avail_def)
    with P show ?thesis by simp
  qed
  then show ?thesis
    using fits_after [OF w, of "off + nr" "left - nr" 0] True fe nr n by simp
next
  case False
  let ?e = "filent_mem s fe"
  note r = round_fits(2) [OF w b fits fe False nr]
  have at: "\<And>j. j < f_blocks ?e \<Longrightarrow> filent_lookup s f (f_l_idx ?e + int j) = Some fe" and k: "0 < f_blocks ?e"
    using w b fe False by (auto simp: whole_extents_def covers_def)
  have d: "(off + nr) div PAGE_SIZE = off div PAGE_SIZE + f_blocks ?e" "(off + nr) mod PAGE_SIZE = 0"
    using r by simp_all
  have "filent_lookup s f (int ((off + nr) div PAGE_SIZE - 1)) = Some fe"
    unfolding d(1) using at [of "f_blocks ?e - 1"] k r by (simp add: of_nat_diff add_diff_eq)
  moreover have "0 < off + nr" "off + nr + (left - nr) \<le> n * PAGE_SIZE" "0 < left - nr"
    using r k nr(2) n by auto
  ultimately show ?thesis
    using fits_after [OF w d(2), of "left - nr" fe] r d(1) by simp
qed

lemma int_page: "int off div int PAGE_SIZE = int (off div PAGE_SIZE)" "nat (int off mod int PAGE_SIZE) = off mod PAGE_SIZE"
  by (simp_all add: zdiv_int nat_mod_distrib)

lemma off_t_int: "n < 2 ^ 63 \<Longrightarrow> off_t (int n) = int n"
  by (simp add: off_t_def)

lemma read_loop_ok:
  "whole_extents s f n \<Longrightarrow> off + left \<le> n * PAGE_SIZE \<Longrightarrow> n * PAGE_SIZE < 2 ^ 63 \<Longrightarrow> 0 < left \<Longrightarrow>
    read_fits s f off left \<Longrightarrow> inode_read_loop s f (int off) left buf = Some (buf @ map (file_byte s f) [off..<off + left])"
proof (induction left arbitrary: off buf rule: less_induct)
  case (less left)
  let ?b = "off div PAGE_SIZE" and ?po = "off mod PAGE_SIZE"
  note w = less.prems(1)
  have b: "?b < n"
    using less.prems(2,4) by (intro less_mult_imp_div_less) simp
  obtain fe where fe: "filent_lookup s f (int ?b) = Some fe"
    using whole_lookup [OF w b] by blast
  define nr where "nr = min left (round_avail s fe off)"
  have blocks: "0 < f_blocks (filent_mem s fe)" "f_blocks (filent_mem s fe) * PAGE_SIZE < 2 ^ 64" if "fe \<noteq> 0"
    using w b fe that by (auto simp: whole_extents_def covers_def)
  have po: "?po < (if fe = 0 then PAGE_SIZE else f_blocks (filent_mem s fe) * PAGE_SIZE)"
  proof (cases "fe = 0")
    case False
    then have "PAGE_SIZE \<le> f_blocks (filent_mem s fe) * PAGE_SIZE"
      using blocks(1) by simp
    then show ?thesis
      using False mod_less_divisor [of PAGE_SIZE off] by (simp add: less_le_trans del: mod_less_divisor)
  qed simp
  then have av: "(if fe = 0 then PAGE_SIZE - ?po else size_sub (size_mul (f_blocks (filent_mem s fe)) PAGE_SIZE) ?po) = round_avail s fe off"
    using blocks(2) by (auto simp: round_avail_def)
  have nr: "0 < nr" "nr \<le> left" "(if left > round_avail s fe off then round_avail s fe off else left) = nr"
    using po less.prems(4) by (auto simp: nr_def round_avail_def)
  have bytes: "(if fe = 0 then Some (replicate nr 0) else data_read s (extent_pos (filent_mem s fe) ?b ?po) nr) =
    Some (map (file_byte s f) [off..<off + nr])"
  proof (cases "fe = 0")
    case True
    have "nr \<le> PAGE_SIZE - ?po"
      using True by (simp add: nr_def round_avail_def)
    then have "?po + nr \<le> PAGE_SIZE"
      using mod_less_divisor [OF page_pos(1), of off] by linarith
    with True fe hole_bytes [of s f off nr] show ?thesis by simp
  next
    case False
    then show ?thesis
      using extent_read [OF w fe False b round_fits(1) [OF w b less.prems(5) fe False nr_def]] by simp
  qed
  have step: "inode_read_loop s f (int off) left buf = (if left - nr > 0
      then inode_read_loop s f (off_t (int off + int nr)) (left - nr) (buf @ map (file_byte s f) [off..<off + nr])
      else Some (buf @ map (file_byte s f) [off..<off + nr]))"
    unfolding inode_read_loop.simps [of s f "int off" left buf] Let_def int_page fe Option.bind.simps extent_pos_def [symmetric] av nr(3) bytes ..
  show ?case
  proof (cases "nr < left")
    case False
    with step nr(2) show ?thesis by simp
  next
    case True
    have "off_t (int off + int nr) = int (off + nr)"
      using less.prems(2,3) nr(2) by (simp add: off_t_int flip: of_nat_add)
    with less.IH [of "left - nr" "off + nr"] round_next [OF w b less.prems(5) fe nr_def True less.prems(2)]
      less.prems nr True step show ?thesis
      using upt_add_eq_append [of off "off + nr" "left - nr"] by simp
  qed
qed


subsection \<open>Properties\<close>

lemma read_content:
  assumes "whole_extents s f n" "i_size (inode_mem s f) \<le> n * PAGE_SIZE" "n * PAGE_SIZE < 2 ^ 63"
    and "off \<le> i_size (inode_mem s f)"
    and "cnt = min len (i_size (inode_mem s f) - off)" "read_fits s f off cnt"
    and "i_ino (inode_mem s f) < slot_num (slots_of s SLOT_INODE)" "\<not> ilocked s (i_ino (inode_mem s f))"
  shows "inode_read s f len (int off) = Some (int cnt, map (file_byte s f) [off..<off + cnt], s)"
proof (cases "cnt = 0")
  case True
  have "size_sub (i_size (inode_mem s f)) (to_size (int off)) = i_size (inode_mem s f) - off"
    using assms(2-4) by simp
  with True assms(5) show ?thesis
    by (simp add: inode_read_def Let_def min_def split: if_splits)
next
  case False
  let ?l = "s\<lparr>ilocked := (ilocked s)(i_ino (inode_mem s f) := True)\<rparr>"
  have frame: "filent_lookup ?l = filent_lookup s" "data_ok ?l = data_ok s"
    by (simp_all add: fun_eq_iff filent_lookup_def data_ok_def)
  have "whole_extents ?l f n" "read_fits ?l f off cnt"
    using assms(1,6) by (simp_all add: whole_extents_def read_fits_def covers_def frame)
  moreover have "off + cnt \<le> n * PAGE_SIZE"
    using assms(2,4,5) by auto
  ultimately have loop: "inode_read_loop ?l f (int off) cnt [] = Some (map (file_byte ?l f) [off..<off + cnt])"
    using read_loop_ok [of ?l f n off cnt "[]"] assms(3) False by simp
  have "file_byte ?l f = file_byte s f"
    by (simp add: fun_eq_iff file_byte_def frame split: option.split)
  moreover have "size_sub (i_size (inode_mem s f)) (to_size (int off)) = i_size (inode_mem s f) - off" "to_size (int off) = off"
    using assms(2-4) by simp_all
  moreover have "(ilocked s)(i_ino (inode_mem s f) := False) = ilocked s"
    using assms(8) by (simp add: fun_upd_idem)
  moreover have "(if len > i_size (inode_mem s f) - off then i_size (inode_mem s f) - off else len) = cnt"
    using assms(5) by auto
  ultimately show ?thesis
    using loop False assms(7,8) by (simp add: inode_read_def Let_def inode_lock_def inode_unlock_def)
qed

text \<open>C6: Reading returns the content. Let the blocks of a file up to its end be holes or blocks of whole extents,
  and let the read start in a hole, at the first block of an extent, or end inside the extent it starts in.
  Then \<open>inode_read\<close> at an offset up to the end of the file returns the number of bytes asked for, cut off at
  the end, and these bytes are the content of the file; it ends, and the state afterwards, locks included, is the state
  before.\<close>

theorem inode_read_correct:
  assumes "whole_extents s f n" "i_size (inode_mem s f) \<le> n * PAGE_SIZE" "n * PAGE_SIZE < 2 ^ 63"
    and "off \<le> i_size (inode_mem s f)"
    and "cnt = min len (i_size (inode_mem s f) - off)" "read_fits s f off cnt"
    and "i_ino (inode_mem s f) < slot_num (slots_of s SLOT_INODE)" "\<not> ilocked s (i_ino (inode_mem s f))"
  shows "inode_read s f len (int off) = Some (int cnt, map (file_byte s f) [off..<off + cnt], s)"
  by (rule read_content [OF assms])


text \<open>A file of two blocks in one extent at data slot 5.\<close>

definition read_example :: fs where
  "read_example = (file_example 8192)\<lparr>
     bheap := (bheap blank_fs)\<lparr>bnodes := (bnodes (bheap blank_fs))(16 := zero_node\<lparr>children := (\<lambda>_. 0)(0 := 32, 1 := 32)\<rparr>)\<rparr>,
     filent_mem := (filent_mem blank_fs)(32 := \<lparr>f_idx = 2, f_ts = 1, f_l_idx = 0, f_p_idx = 5, f_blocks = 2, f_ref = 2\<rparr>),
     media := (media blank_fs)\<lparr>pm_data := \<lambda>i. word_of_nat i\<rparr>\<rparr>"

lemma read_example_lookup: "k < 256 \<Longrightarrow> filent_lookup read_example 8 (int k) = Some (if k < 2 then 32 else 0)"
  unfolding filent_lookup_def btree_get_def btree_get_loop.simps [of _ _ "to_size (int k)"]
  by (auto simp: read_example_def file_example_def blank_fs_def zero_node_def BRANCH_NUM_def)

lemma read_example_whole: "whole_extents read_example 8 2"
proof -
  have c: "covers read_example (filent_mem read_example 32) b" if "b < 2" for b
    using that by (simp add: covers_def read_example_def data_ok_def data_pos_def PAGE_SIZE_def blank_fs_def blank_slot_def)
  have e: "f_blocks (filent_mem read_example 32) = 2" "f_l_idx (filent_mem read_example 32) = 0"
    by (simp_all add: read_example_def)
  show ?thesis
    unfolding whole_extents_def using c e read_example_lookup by auto
qed

theorem inode_read_correct_witness:
  "inode_read read_example 8 10 4090 = Some (10, map (file_byte read_example 8) [4090..<4100], read_example) \<and>
    file_byte read_example 8 4099 = word_of_nat (5 * 4096 + 4099)"
proof -
  have "i_size (inode_mem read_example 8) = 8192" "i_ino (inode_mem read_example 8) = 0" "\<not> ilocked read_example 0"
    "slot_num (slots_of read_example SLOT_INODE) = 64"
    by (simp_all add: read_example_def file_example_def blank_fs_def zero_inode_def blank_slot_def)
  moreover have "read_fits read_example 8 4090 10"
    using read_example_lookup [of 0] by (auto simp: read_fits_def PAGE_SIZE_def read_example_def)
  moreover have "file_byte read_example 8 4099 = word_of_nat (5 * 4096 + 4099)"
    using read_example_lookup [of 1] by (simp add: file_byte_def PAGE_SIZE_def extent_pos_def data_pos_def) (simp add: read_example_def)
  ultimately show ?thesis
    using inode_read_correct [OF read_example_whole, of 4090 10 10] by (simp add: PAGE_SIZE_def)
qed

text \<open>The bytes of an extent, from its first page on.\<close>

definition extent_bytes :: "fs \<Rightarrow> filent \<Rightarrow> nat \<Rightarrow> byte list" where
  "extent_bytes s e len = map (\<lambda>i. pm_data (media s) (nat (data_pos (f_p_idx e) 0) + i)) [0..<len]"

text \<open>C33: Stale data after an overwrite. A read of two pages that starts at the first block of an extent of at least
  two blocks returns the bytes of that extent for both pages, whatever the index has at the second block; so when
  the second block has been overwritten (the index has another extent there, with another content), the read returns the
  old data. The loop takes the length of the extent for the number of bytes it may copy without looking at
  the index again.\<close>

theorem inode_read_stale:
  assumes "filent_lookup s f (int b) = Some fe" "fe \<noteq> 0" "f_l_idx (filent_mem s fe) = int b"
    and "2 \<le> f_blocks (filent_mem s fe)" "f_blocks (filent_mem s fe) * PAGE_SIZE < 2 ^ 64"
    and "data_ok s (data_pos (f_p_idx (filent_mem s fe)) 0) (2 * PAGE_SIZE)"
    and "(b + 2) * PAGE_SIZE \<le> i_size (inode_mem s f)" "i_size (inode_mem s f) < 2 ^ 64"
    and "i_ino (inode_mem s f) < slot_num (slots_of s SLOT_INODE)" "\<not> ilocked s (i_ino (inode_mem s f))"
    and "i < PAGE_SIZE" "file_byte s f ((b + 1) * PAGE_SIZE + i) \<noteq> extent_bytes s (filent_mem s fe) (2 * PAGE_SIZE) ! (PAGE_SIZE + i)"
  shows "inode_read s f (2 * PAGE_SIZE) (int (b * PAGE_SIZE)) =
      Some (int (2 * PAGE_SIZE), extent_bytes s (filent_mem s fe) (2 * PAGE_SIZE), s) \<and>
    extent_bytes s (filent_mem s fe) (2 * PAGE_SIZE) \<noteq> map (file_byte s f) [b * PAGE_SIZE..<(b + 2) * PAGE_SIZE]"
proof
  let ?P = "PAGE_SIZE" and ?e = "filent_mem s fe"
  let ?l = "s\<lparr>ilocked := (ilocked s)(i_ino (inode_mem s f) := True)\<rparr>"
  have le: "b * ?P + 2 * ?P \<le> i_size (inode_mem s f)" "2 * ?P \<le> f_blocks ?e * ?P"
    using assms(4,7) by (simp_all add: distrib_right)
  have ts: "to_size (int (b * ?P)) = b * ?P"
    using le(1) assms(8) by (intro to_size_int) linarith
  have sz: "size_sub (i_size (inode_mem s f)) (to_size (int (b * ?P))) = i_size (inode_mem s f) - b * ?P"
    "to_size (int b * int ?P) = b * ?P" "size_sub (size_mul (f_blocks ?e) ?P) 0 = f_blocks ?e * ?P"
    unfolding ts using le(1) assms(5,8) ts by simp_all
  have "inode_read_loop ?l f (int (b * ?P)) (2 * ?P) [] = Some (extent_bytes s ?e (2 * ?P))"
    unfolding inode_read_loop.simps [of ?l f "int (b * ?P)" "2 * ?P" "[]"] int_page
    using assms(1-3,6) le(2) sz(3)
    by (simp add: Let_def filent_lookup_def data_read_def data_ok_def extent_bytes_def split del: if_split)
  moreover have "(ilocked s)(i_ino (inode_mem s f) := False) = ilocked s"
    using assms(10) by (simp add: fun_upd_idem)
  ultimately show "inode_read s f (2 * ?P) (int (b * ?P)) = Some (int (2 * ?P), extent_bytes s ?e (2 * ?P), s)"
    using assms(9,10) le(1) sz(1,2) by (simp add: inode_read_def Let_def inode_lock_def inode_unlock_def)
  have "map (file_byte s f) [b * ?P..<(b + 2) * ?P] ! (?P + i) = file_byte s f ((b + 1) * ?P + i)"
    using assms(11) by (simp add: distrib_right ac_simps)
  with assms(12) show "extent_bytes s ?e (2 * ?P) \<noteq> map (file_byte s f) [b * ?P..<(b + 2) * ?P]" by auto
qed


text \<open>The file of the last example after block 1 was overwritten by an extent at data slot 9.\<close>

definition stale_example :: fs where
  "stale_example = read_example\<lparr>
     bheap := (bheap blank_fs)\<lparr>bnodes := (bnodes (bheap blank_fs))(16 := zero_node\<lparr>children := (\<lambda>_. 0)(0 := 32, 1 := 40)\<rparr>)\<rparr>,
     filent_mem := (filent_mem read_example)(40 := \<lparr>f_idx = 3, f_ts = 2, f_l_idx = 1, f_p_idx = 9, f_blocks = 1, f_ref = 1\<rparr>),
     media := (media blank_fs)\<lparr>pm_data := (\<lambda>_. 0)(9 * 4096 := 7)\<rparr>\<rparr>"

lemma stale_example_lookup: "k < 2 \<Longrightarrow> filent_lookup stale_example 8 (int k) = Some (if k = 0 then 32 else 40)"
  unfolding filent_lookup_def btree_get_def btree_get_loop.simps [of _ _ "to_size (int k)"]
  by (auto simp: stale_example_def read_example_def file_example_def blank_fs_def zero_node_def BRANCH_NUM_def)

theorem inode_read_stale_witness:
  "file_byte stale_example 8 4096 = 7 \<and>
    (\<exists>bs. inode_read stale_example 8 8192 0 = Some (8192, bs, stale_example) \<and> bs ! 4096 = 0)"
proof -
  have f: "file_byte stale_example 8 4096 = 7"
    using stale_example_lookup [of 1] by (simp add: file_byte_def PAGE_SIZE_def extent_pos_def data_pos_def)
      (simp add: stale_example_def)
  have e: "filent_mem stale_example 32 = \<lparr>f_idx = 2, f_ts = 1, f_l_idx = 0, f_p_idx = 5, f_blocks = 2, f_ref = 2\<rparr>"
    "i_size (inode_mem stale_example 8) = 8192" "i_ino (inode_mem stale_example 8) = 0" "\<not> ilocked stale_example 0"
    "slot_num (slots_of stale_example t) = 64" for t
    by (simp_all add: stale_example_def read_example_def file_example_def blank_fs_def zero_inode_def blank_slot_def)
  have x: "extent_bytes stale_example (filent_mem stale_example 32) 8192 ! 4096 = 0"
    by (simp add: extent_bytes_def e data_pos_def PAGE_SIZE_def) (simp add: stale_example_def)
  from inode_read_stale [of stale_example 8 0 32 0] stale_example_lookup [of 0] f e x show ?thesis
    by (auto simp: PAGE_SIZE_def data_ok_def data_pos_def)
qed

end
