(* ===== verification/Lib_Read.thy ===== *)
theory Lib_Read
  imports Lib_Calls File_Read
begin

text \<open>
  A program that opens a file and reads it, through all layers: \<open>lib.c\<close> passes \<open>open\<close> and \<open>read\<close> on, \<open>slotfs_func.c\<close> keeps the offset of
  the descriptor, and \<open>inode.c\<close> copies the bytes.
\<close>

subsection \<open>Reads inside a page\<close>

lemma fits_in_page:
  assumes w: "whole_extents s f n" and b: "off div PAGE_SIZE < n" and len: "off mod PAGE_SIZE + len \<le> PAGE_SIZE"
  shows "read_fits s f off len"
  unfolding read_fits_def
proof (intro allI impI disjI2)
  fix fe
  assume fe: "filent_lookup s f (int (off div PAGE_SIZE)) = Some fe" "fe \<noteq> 0"
  define P where "P = PAGE_SIZE"
  obtain q r where q: "off div P = q" "off = q * P + r" "r + len \<le> P"
    using len div_mult_mod_eq [of off P] by (metis P_def)
  have "covers s (filent_mem s fe) q"
    using w b fe q(1) by (auto simp: whole_extents_def P_def)
  then have "int q + 1 \<le> f_l_idx (filent_mem s fe) + int (f_blocks (filent_mem s fe))"
    by (simp add: covers_def)
  moreover have "int (off + len) \<le> (int q + 1) * int P"
    using q(2,3) by (simp add: distrib_right flip: of_nat_mult of_nat_add)
  ultimately show "int (off + len) \<le> (f_l_idx (filent_mem s fe) + int (f_blocks (filent_mem s fe))) * int PAGE_SIZE"
    unfolding P_def by (meson mult_right_mono of_nat_0_le_iff order_trans)
qed

text \<open>A read of \<open>c\<close> bytes at a multiple of \<open>c\<close>, where \<open>c\<close> divides the page size, stays inside a page.\<close>

lemma piece_in_page:
  fixes c P :: nat
  assumes "c dvd P" "0 < P" "c dvd off" "len \<le> c"
  shows "off mod P + len \<le> P"
proof -
  have "c dvd off mod P"
    using assms(1,3) by (simp add: dvd_mod)
  moreover have "off mod P < P"
    using assms(2) by simp
  ultimately obtain k k' where "off mod P = c * k" "P = c * k'" "c * k < c * k'"
    using assms(1) by (metis dvd_def)
  then have "c * Suc k \<le> P"
    by (metis Suc_leI mult_le_mono2 nat_mult_less_cancel_disj)
  with \<open>off mod P = c * k\<close> assms(4) show ?thesis by simp
qed

subsection \<open>Reading from a descriptor\<close>

text \<open>Descriptor \<open>i\<close> is open at offset \<open>off\<close> on a file of whole extents whose lock is free.\<close>

definition reads_file :: "sys \<Rightarrow> nat \<Rightarrow> nat \<Rightarrow> nat \<Rightarrow> nat \<Rightarrow> bool" where
  "reads_file y i f n off \<longleftrightarrow> i < FD_MAX \<and> fh_valid (f_table y i) \<and> fh_file (f_table y i) = f \<and> f \<noteq> 0 \<and> fh_offset (f_table y i) = int off \<and>
    whole_extents (fsys y) f n \<and> i_size (inode_mem (fsys y) f) \<le> n * PAGE_SIZE \<and> n * PAGE_SIZE < 2 ^ 63 \<and>
    i_ino (inode_mem (fsys y) f) < slot_num (slots_of (fsys y) SLOT_INODE) \<and> \<not> ilocked (fsys y) (i_ino (inode_mem (fsys y) f))"

definition at_offset :: "sys \<Rightarrow> nat \<Rightarrow> nat \<Rightarrow> sys" where
  "at_offset y i off = upd_fh y i (\<lambda>h. h\<lparr>fh_offset := int off\<rparr>)"

lemma at_offset_simps:
  "at_offset (at_offset y i a) i b = at_offset y i b" "fsys (at_offset y i a) = fsys y"
  "reads_file y i f n off \<Longrightarrow> reads_file (at_offset y i a) i f n a" "fh_offset (f_table y i) = int a \<Longrightarrow> at_offset y i a = y"
  by (simp_all add: at_offset_def upd_fh_def reads_file_def fun_upd_idem)

lemma read_piece:
  assumes r: "reads_file y i f n off" and c: "c dvd PAGE_SIZE"
    and off: "c dvd off \<or> off = i_size (inode_mem (fsys y) f)" "off \<le> i_size (inode_mem (fsys y) f)"
    and cnt: "cnt = min c (i_size (inode_mem (fsys y) f) - off)"
  shows "slotfs_read y (int i) c = Some (int cnt, map (file_byte (fsys y) f) [off..<off + cnt], at_offset y i (off + cnt))"
proof -
  let ?s = "fsys y"
  have "c \<le> PAGE_SIZE"
    using c by (simp add: dvd_imp_le)
  then have small: "cnt < 2 ^ 31" "off + cnt < 2 ^ 63"
    using r cnt off(2) by (auto simp: reads_file_def PAGE_SIZE_def)
  have "inode_read ?s f c (int off) = Some (int cnt, map (file_byte ?s f) [off..<off + cnt], ?s)"
  proof (cases "cnt = 0")
    case True
    have "size_sub (i_size (inode_mem ?s f)) (to_size (int off)) = i_size (inode_mem ?s f) - off"
      using r off(2) by (simp add: reads_file_def)
    with True cnt show ?thesis
      by (simp add: inode_read_def Let_def min_def split: if_splits)
  next
    case False
    then have "c dvd off" "off < i_size (inode_mem ?s f)"
      using off(1) cnt by auto
    then have "read_fits ?s f off cnt"
      using r piece_in_page [OF c page_pos(1), of off cnt] cnt
      by (intro fits_in_page [of _ _ n]) (auto simp: reads_file_def intro: less_mult_imp_div_less)
    with r off(2) cnt show ?thesis
      unfolding reads_file_def by (intro read_content [where n = n]) simp_all
  qed
  moreover have "int_of_ssize (int cnt) = int cnt"
    using small(1) by (simp add: int_of_ssize_def)
  moreover have "advance y i (int cnt) = at_offset y i (off + cnt)"
    using r small(2) off_t_int [of "off + cnt"] at_offset_simps(4) [of y i off]
    by (cases "cnt = 0") (auto simp: advance_def at_offset_def reads_file_def upd_fh_def)
  ultimately show ?thesis
    using r by (simp add: slotfs_read_def fh_index_def reads_file_def)
qed

subsection \<open>A program that reads a file\<close>

primrec read_seq :: "'k real_ops \<Rightarrow> nat \<Rightarrow> int \<Rightarrow> nat \<Rightarrow> 'k process \<Rightarrow> (byte list \<times> 'k process) option" where
  "read_seq ops 0 fd c p = Some ([], p)"
| "read_seq ops (Suc k) fd c p =
    do {
      (r, p) \<leftarrow> READ ops p fd c;
      (bs, p) \<leftarrow> read_seq ops k fd c p;
      Some (r_buf r @ bs, p)
    }"

lemma read_seq_ok:
  assumes "c dvd PAGE_SIZE"
  shows "reads_file (psys p) i f n off \<Longrightarrow> sz = i_size (inode_mem (fsys (psys p)) f) \<Longrightarrow> off = min sz (j * c) \<Longrightarrow>
    read_seq ops k (int i + FD_OFFSET) c p =
      Some (map (file_byte (fsys (psys p)) f) [off..<min sz ((j + k) * c)], p\<lparr>psys := at_offset (psys p) i (min sz ((j + k) * c))\<rparr>)"
proof (induction k arbitrary: p off j)
  case 0
  then show ?case
    using at_offset_simps(4) [of "psys p" i off] by (simp add: reads_file_def)
next
  case (Suc k)
  let ?y = "psys p"
  define cnt where "cnt = min c (sz - off)"
  have off: "c dvd off \<or> off = sz" "off \<le> sz" "off + cnt = min sz (Suc j * c)"
    using Suc.prems(3) by (auto simp: cnt_def min_def)
  have i: "slot_fd (int i + FD_OFFSET)"
    using Suc.prems(1) by (simp add: slot_fd_shift reads_file_def)
  let ?p = "p\<lparr>psys := at_offset ?y i (off + cnt)\<rparr>"
  have "slotfs_read ?y (int i) c = Some (int cnt, map (file_byte (fsys ?y) f) [off..<off + cnt], at_offset ?y i (off + cnt))"
    by (rule read_piece [OF Suc.prems(1) assms]) (use off Suc.prems(2) in \<open>simp_all add: cnt_def\<close>)
  then have "READ ops p (int i + FD_OFFSET) c = Some ((ret (int cnt))\<lparr>r_buf := map (file_byte (fsys ?y) f) [off..<off + cnt]\<rparr>, ?p)"
    using i by (simp add: READ_def on_sys_buf_def)
  moreover have "read_seq ops k (int i + FD_OFFSET) c ?p =
      Some (map (file_byte (fsys ?y) f) [off + cnt..<min sz ((Suc j + k) * c)], p\<lparr>psys := at_offset ?y i (min sz ((Suc j + k) * c))\<rparr>)"
    using Suc.IH [of ?p "off + cnt" "Suc j"] at_offset_simps(3) [OF Suc.prems(1), of "off + cnt"] Suc.prems(2) off(3)
    by (simp add: at_offset_simps)
  moreover have "off + cnt \<le> min sz ((j + Suc k) * c)"
    using off(3) by (auto simp: min_def algebra_simps)
  ultimately show ?case
    using upt_add_eq_append [of off "off + cnt" "min sz ((j + Suc k) * c) - (off + cnt)"] by (simp flip: map_append)
qed

text \<open>C20: What a program reads is the file. A program opens an existing file through the library, without \<open>O_CREAT\<close>, and calls
  \<open>read\<close> \<open>k\<close> times with a buffer of \<open>c\<close> bytes, where \<open>c\<close> divides the page size; the blocks of the file are in whole extents and its
  lock is free. Then \<open>open\<close> returns the descriptor of the file system plus \<open>FD_OFFSET\<close>, and the buffers, one after the other, are
  the first \<open>k * c\<close> bytes of the file, or all of it when it is shorter: holes read as zeros, no byte is lost or repeated between two calls,
  and at the end of the file the calls return nothing. Neither the file system nor the C library changes; only the
  offset of the descriptor moves.\<close>

theorem open_read_through:
  assumes "proc_ok (psys p)" "slot_path2 path" "oflag AND O_CREAT = 0"
    and "slotfs_open (psys p) AT_FDCWD (if starts_backslash path then tl path else path) oflag 0 = Some (fd, y)" "0 \<le> fd"
    and "f = fh_file (f_table y (nat fd))" "whole_extents (fsys y) f n" "i_size (inode_mem (fsys y) f) \<le> n * PAGE_SIZE" "n * PAGE_SIZE < 2 ^ 63"
    and "i_ino (inode_mem (fsys y) f) < slot_num (slots_of (fsys y) SLOT_INODE)" "\<not> ilocked (fsys (psys p)) (i_ino (inode_mem (fsys y) f))"
    and "c dvd PAGE_SIZE"
  shows "\<exists>q r. OPEN ops p path oflag mode = Some (ret (fd + FD_OFFSET), q) \<and> psys q = y \<and> plibc q = plibc p \<and>
    read_seq ops k (fd + FD_OFFSET) c q = Some (map (file_byte (fsys y) f) [0..<min (i_size (inode_mem (fsys y) f)) (k * c)], r) \<and>
    fsys (psys r) = fsys y \<and> plibc r = plibc p \<and>
    f_table (psys r) = (f_table y)(nat fd := (f_table y (nat fd))\<lparr>fh_offset := int (min (i_size (inode_mem (fsys y) f)) (k * c))\<rparr>)"
proof -
  let ?q = "p\<lparr>psys := y\<rparr>"
  obtain i where i: "fd = int i" "i < FD_MAX" "open_fds y = insert i (open_fds (psys p))" "is_cached (fsys y) f" "fh_offset (f_table y i) = 0"
    and l: "ilocked (fsys y) = ilocked (fsys (psys p))"
    using open_existing [OF assms(1,3,4)] slotfs_open_range [OF assms(4,5)] assms(5,6) by auto
  have "i \<in> open_fds y"
    using i(3) by simp
  then have "reads_file (psys ?q) i f n 0"
    using assms i l by (simp add: reads_file_def open_fds_def is_cached_def)
  from read_seq_ok [OF assms(12) this refl, of 0 ops k]
  have "read_seq ops k (fd + FD_OFFSET) c ?q =
      Some (map (file_byte (fsys y) f) [0..<min (i_size (inode_mem (fsys y) f)) (k * c)], ?q\<lparr>psys := at_offset y i (min (i_size (inode_mem (fsys y) f)) (k * c))\<rparr>)"
    using i(1) by simp
  moreover have "OPEN ops p path oflag mode = Some (ret (fd + FD_OFFSET), ?q)"
    using assms by (simp add: OPEN_def)
  ultimately show ?thesis
    using i(1) by (simp add: at_offset_def upd_fh_def)
qed

subsection \<open>An example\<close>

text \<open>The tree with a file of 6000 bytes in the place of the directory \<open>d\<close>, in one extent at data slot 5.\<close>

definition doc_tree :: fs where
  "doc_tree = read_example\<lparr>root_inode := SHM_BASE, itable := (\<lambda>_. 0)(2 := SHM_BASE, 3 := SHM_BASE + 128),
     inode_mem := (inode_mem tree_example)(SHM_BASE + 128 := zero_inode\<lparr>i_ino := 3, i_size := 6000, i_mode := S_IFREG, i_b_root := \<lparr>bt_root = 16, bt_height = 0\<rparr>\<rparr>),
     dirent_mem := dirent_mem tree_example\<rparr>"

lemma doc_tree_simps [simp]:
  "root_inode doc_tree = SHM_BASE" "itable doc_tree = (\<lambda>_. 0)(2 := SHM_BASE, 3 := SHM_BASE + 128)"
  "inode_mem doc_tree SHM_BASE = zero_inode\<lparr>i_ino := 2, i_mode := S_IFDIR, i_rb_root := SHM_BASE + 64\<rparr>"
  "inode_mem doc_tree (SHM_BASE + 128) = zero_inode\<lparr>i_ino := 3, i_size := 6000, i_mode := S_IFREG, i_b_root := \<lparr>bt_root = 16, bt_height = 0\<rparr>\<rparr>"
  "dirent_mem doc_tree (SHM_BASE + 64) = \<lparr>d_idx = 1, d_ts = 0, d_ino = 3, d_hash = BKDRHash ''d'', d_ref = 0\<rparr>"
  "slot_num (slots_of doc_tree t) = 64" "ilocked doc_tree = (\<lambda>_. False)" "rb_mem doc_tree = (\<lambda>_. \<lparr>rb_pc = 0, rb_right = 0, rb_left = 0\<rparr>)"
  "inode_pool doc_tree = []"
  by (simp_all add: doc_tree_def read_example_def file_example_def blank_fs_def blank_slot_def)

definition doc_sys :: sys where
  "doc_sys = tree_sys\<lparr>fsys := doc_tree\<rparr>"

lemma doc_sys_ok: "proc_ok doc_sys"
proof -
  have "SHM_BASE \<noteq> 0" by (simp add: SHM_BASE_def)
  then show ?thesis
    by (simp add: proc_ok_def doc_sys_def tree_sys_def open_fds_def cache_ok_def is_cached_def zero_inode_def)
qed

lemma doc_open: "\<exists>y. slotfs_open doc_sys AT_FDCWD ''d'' 0 0 = Some (0, y) \<and> fh_file (f_table y 0) = SHM_BASE + 128 \<and>
  fsys y = upd_inode (doc_tree\<lparr>ilocked := \<lambda>_. False\<rparr>) (SHM_BASE + 128) (\<lambda>i. i\<lparr>i_ref := i_ref i + 1\<rparr>)"
proof -
  let ?y = "doc_sys\<lparr>fd_hint := 1, f_table := (f_table doc_sys)(0 := fresh_fh 0)\<rparr>"
  have fd: "fd_alloc doc_sys = (Some 0, ?y)"
    using tree_fd_on [of doc_tree] by (simp add: doc_sys_def)
  have nd: "nameidata_init ?y AT_FDCWD ''d'' 0 = Inr (tree_nd ''d'')"
    by (simp add: nameidata_init_def doc_sys_def tree_sys_def tree_nd_def is_slash_def)
  have "\<exists>nd. path_lookup doc_tree (tree_nd ''d'') =
     Some (0, nd, doc_tree\<lparr>ilocked := (\<lambda>_. False)(2 := False, 3 := True)\<rparr>) \<and> nd_current nd = SHM_BASE + 128"
    by (simp add: walk_eval tree_nd_def fun_upd_twist S_IFREG_def)
  then have "\<exists>y. do_slotfs_open ?y AT_FDCWD ''d'' 0 0 = Some (Inr (SHM_BASE + 128), y) \<and>
      fsys y = upd_inode (doc_tree\<lparr>ilocked := \<lambda>_. False\<rparr>) (SHM_BASE + 128) (\<lambda>i. i\<lparr>i_ref := i_ref i + 1\<rparr>)"
    unfolding do_slotfs_open_def nd
    by (auto simp: doc_sys_def deref_def ino_of_def inode_unlock_def ref_inc_def upd_inode_def zero_inode_def fun_upd_idem)
  then obtain y where y: "do_slotfs_open ?y AT_FDCWD ''d'' 0 0 = Some (Inr (SHM_BASE + 128), y)"
    "fsys y = upd_inode (doc_tree\<lparr>ilocked := \<lambda>_. False\<rparr>) (SHM_BASE + 128) (\<lambda>i. i\<lparr>i_ref := i_ref i + 1\<rparr>)" by blast
  have "fh_fd (f_table y 0) = 0"
    using do_open_frame [OF y(1)] by (simp add: fresh_fh_def)
  with y fd show ?thesis
    by (simp add: slotfs_open_def upd_fh_def)
qed

theorem open_read_through_witness:
  "\<exists>q r bs. OPEN no_ops (lib_proc doc_sys) (CHR 0x5C # ''d'') 0 0 = Some (ret 1024, q) \<and> read_seq no_ops 7 1024 1024 q = Some (bs, r) \<and>
     length bs = 6000 \<and> bs ! 5999 = word_of_nat (5 * 4096 + 5999) \<and> fh_offset (f_table (psys r) 0) = 6000"
proof -
  let ?f = "SHM_BASE + 128"
  obtain y where y: "slotfs_open doc_sys AT_FDCWD ''d'' 0 0 = Some (0, y)" "fh_file (f_table y 0) = ?f"
    "fsys y = upd_inode (doc_tree\<lparr>ilocked := \<lambda>_. False\<rparr>) ?f (\<lambda>i. i\<lparr>i_ref := i_ref i + 1\<rparr>)"
    using doc_open by blast
  have s: "inode_mem (fsys y) ?f = zero_inode\<lparr>i_ino := 3, i_size := 6000, i_mode := S_IFREG, i_b_root := \<lparr>bt_root = 16, bt_height = 0\<rparr>, i_ref := 1\<rparr>"
    "slots_of (fsys y) = slots_of doc_tree" "media (fsys y) = media read_example" "filent_mem (fsys y) = filent_mem read_example"
    "slots_of doc_tree = slots_of read_example"
    by (simp_all add: y(3) upd_inode_def zero_inode_def) (simp_all add: doc_tree_def)
  have l: "filent_lookup (fsys y) ?f b = filent_lookup read_example 8 b" for b
    using s(1) by (simp add: filent_lookup_def y(3) upd_inode_def) (simp add: doc_tree_def read_example_def file_example_def)
  have w: "whole_extents (fsys y) ?f 2"
    using read_example_whole by (simp add: whole_extents_def l s covers_def data_ok_def)
  have b: "file_byte (fsys y) ?f 5999 = word_of_nat (5 * 4096 + 5999)"
    using read_example_lookup [of 1] by (simp add: file_byte_def l s PAGE_SIZE_def extent_pos_def data_pos_def) (simp add: read_example_def)
  have "slot_path2 (CHR 0x5C # ''d'')" "starts_backslash (CHR 0x5C # ''d'')" "psys (lib_proc doc_sys) = doc_sys"
    "\<not> ilocked (fsys doc_sys) 3" "(1024::nat) dvd PAGE_SIZE" "slot_num (slots_of doc_tree SLOT_INODE) = 64"
    by (simp_all add: slot_path2_def slot_path_def starts_backslash_def is_backslash_def lib_proc_def doc_sys_def PAGE_SIZE_def)
  with open_read_through [of "lib_proc doc_sys" "CHR 0x5C # ''d''" 0 0 y ?f 2 1024 no_ops 0 7] y(1,2) w b doc_sys_ok s
  show ?thesis
    by (auto simp: zero_inode_def PAGE_SIZE_def FD_OFFSET_def)
qed

end
