(* ===== verification/Rb_Erase.thy ===== *)
theory Rb_Erase
  imports Rb_Insert Rb_Walk
begin

text \<open>
  \<open>rb_erase\<close> of \<open>rbtree.c\<close>: unlinking a node on the store removes it from the tree, and the rebalancing loop
  \<open>____rb_erase_color\<close> ends and restores the red-black invariant.
\<close>

subsection \<open>The pieces of a round\<close>

text \<open>The rotation that makes the sibling black (case 1), on the left and on the right.\<close>

definition erase_rot :: "rb_tree \<Rightarrow> nat \<Rightarrow> nat \<Rightarrow> rb_tree" where
  "erase_rot s parent sibling =
    (let tmp1 = left_of s sibling; s = set_right s parent tmp1; s = set_left s sibling parent;
         s = rb_set_parent_color s tmp1 parent RB_BLACK
     in rb_rotate_set_parents s parent sibling RB_RED)"

definition erase_rot_r :: "rb_tree \<Rightarrow> nat \<Rightarrow> nat \<Rightarrow> rb_tree" where
  "erase_rot_r s parent sibling =
    (let tmp1 = right_of s sibling; s = set_left s parent tmp1; s = set_right s sibling parent;
         s = rb_set_parent_color s tmp1 parent RB_BLACK
     in rb_rotate_set_parents s parent sibling RB_RED)"

text \<open>Both nephews are black (case 2).\<close>

definition erase_flip :: "rb_tree \<Rightarrow> nat \<Rightarrow> nat \<Rightarrow> rb_step" where
  "erase_flip s parent sibling =
    (let s = rb_set_parent_color s sibling parent RB_RED
     in if rb_is_red s parent then Rb_Done (rb_set_black s parent)
        else let node = parent; parent = rb_parent s node in if parent \<noteq> 0 then Rb_More s node parent else Rb_Done s)"

text \<open>The rotation at the sibling (case 3).\<close>

definition erase_inner :: "rb_tree \<Rightarrow> nat \<Rightarrow> nat \<Rightarrow> nat \<Rightarrow> rb_tree" where
  "erase_inner s parent sibling tmp2 =
    (let tmp1 = right_of s tmp2; s = set_left s sibling tmp1; s = set_right s tmp2 sibling; s = set_right s parent tmp2
     in if tmp1 \<noteq> 0 then rb_set_parent_color s tmp1 sibling RB_BLACK else s)"

definition erase_inner_r :: "rb_tree \<Rightarrow> nat \<Rightarrow> nat \<Rightarrow> nat \<Rightarrow> rb_tree" where
  "erase_inner_r s parent sibling tmp2 =
    (let tmp1 = left_of s tmp2; s = set_right s sibling tmp1; s = set_left s tmp2 sibling; s = set_left s parent tmp2
     in if tmp1 \<noteq> 0 then rb_set_parent_color s tmp1 sibling RB_BLACK else s)"

text \<open>The rotation at the parent (case 4).\<close>

definition erase_outer :: "rb_tree \<Rightarrow> nat \<Rightarrow> nat \<Rightarrow> nat \<Rightarrow> rb_tree" where
  "erase_outer s parent sibling tmp1 =
    (let tmp2 = left_of s sibling; s = set_right s parent tmp2; s = set_left s sibling parent;
         s = rb_set_parent_color s tmp1 sibling RB_BLACK; s = (if tmp2 \<noteq> 0 then rb_set_parent s tmp2 parent else s)
     in rb_rotate_set_parents s parent sibling RB_BLACK)"

definition erase_outer_r :: "rb_tree \<Rightarrow> nat \<Rightarrow> nat \<Rightarrow> nat \<Rightarrow> rb_tree" where
  "erase_outer_r s parent sibling tmp1 =
    (let tmp2 = right_of s sibling; s = set_left s parent tmp2; s = set_right s sibling parent;
         s = rb_set_parent_color s tmp1 sibling RB_BLACK; s = (if tmp2 \<noteq> 0 then rb_set_parent s tmp2 parent else s)
     in rb_rotate_set_parents s parent sibling RB_BLACK)"

definition erase_tail :: "rb_tree \<Rightarrow> nat \<Rightarrow> nat \<Rightarrow> rb_step" where
  "erase_tail s parent sibling =
    (let tmp1 = right_of s sibling; tmp2 = left_of s sibling
     in if (tmp1 = 0 \<or> rb_is_black s tmp1) \<and> (tmp2 = 0 \<or> rb_is_black s tmp2) then erase_flip s parent sibling
        else if tmp1 = 0 \<or> rb_is_black s tmp1 then Rb_Done (erase_outer (erase_inner s parent sibling tmp2) parent tmp2 sibling)
        else Rb_Done (erase_outer s parent sibling tmp1))"

definition erase_tail_r :: "rb_tree \<Rightarrow> nat \<Rightarrow> nat \<Rightarrow> rb_step" where
  "erase_tail_r s parent sibling =
    (let tmp1 = left_of s sibling; tmp2 = right_of s sibling
     in if (tmp1 = 0 \<or> rb_is_black s tmp1) \<and> (tmp2 = 0 \<or> rb_is_black s tmp2) then erase_flip s parent sibling
        else if tmp1 = 0 \<or> rb_is_black s tmp1 then Rb_Done (erase_outer_r (erase_inner_r s parent sibling tmp2) parent tmp2 sibling)
        else Rb_Done (erase_outer_r s parent sibling tmp1))"

lemma erase_step_left:
  "node \<noteq> right_of s parent \<Longrightarrow> rb_erase_step s node parent =
    (let sibling = right_of s parent
     in if rb_is_red s sibling then erase_tail (erase_rot s parent sibling) parent (left_of s sibling)
        else erase_tail s parent sibling)"
  unfolding rb_erase_step_def erase_tail_def erase_rot_def erase_flip_def erase_inner_def erase_outer_def
  by (simp add: Let_def)

lemma erase_step_right:
  "node = right_of s parent \<Longrightarrow> rb_erase_step s node parent =
    (let sibling = left_of s parent
     in if rb_is_red s sibling then erase_tail_r (erase_rot_r s parent sibling) parent (right_of s sibling)
        else erase_tail_r s parent sibling)"
  unfolding rb_erase_step_def erase_tail_r_def erase_rot_r_def erase_flip_def erase_inner_r_def erase_outer_r_def
  by (simp add: Let_def)

subsection \<open>The rotations on trees\<close>

lemma rotate_zrep:
  assumes c: "crep s p k" and pc: "pc_of s p = cpar k + cbit c" and py: "p \<noteq> 0" "4 dvd p" "y \<noteq> 0" "4 dvd y" "left_of s y = p"
    and d: "distinct (inorder t @ p # inorder a @ y # inorder b @ cnodes k)"
    and r: "rep s p (left_of s p) t" "rep s p (right_of s p) a" "rep s y (right_of s y) b"
  shows "zrep (rb_rotate_set_parents s p y (cbit d)) k (Node c (Node d t p a) y b)"
proof -
  let ?s = "rb_rotate_set_parents s p y (cbit d)"
  have dd: "p \<noteq> y" "y \<noteq> p" "p \<notin> set (cnodes k)" "y \<notin> set (cnodes k)" "distinct (cnodes k)"
    using d by auto
  note R = rotate_set_parents [OF c pc py(1) dd(2) py(4) dd(3,4,5) refl [of ?s]]
  have rd: "left_of ?s x = left_of s x \<and> right_of ?s x = right_of s x \<and> pc_of ?s x = pc_of s x"
    if "x \<in> set (inorder t) \<union> set (inorder a) \<union> set (inorder b)" for x
  proof -
    have "x \<notin> set (cnodes k)" "x \<noteq> p" "x \<noteq> y" "x \<noteq> 0"
      using that d rep_nonzero [OF r(1)] rep_nonzero [OF r(2)] rep_nonzero [OF r(3)] by auto
    then show ?thesis using R(4,5) by simp
  qed
  have "rep ?s p (left_of s p) t" "rep ?s p (right_of s p) a" "rep ?s y (right_of s y) b"
    by (rule rep_keep [OF r(1)], use rd in auto) (rule rep_keep [OF r(2)], use rd in auto, rule rep_keep [OF r(3)], use rd in auto)
  then show ?thesis
    using R(1-3) R(4) [of p] R(4) [of y] py dd d by (simp add: zrep_def)
qed

lemma erase_rot_zrep:
  assumes z: "zrep s (LF c p (Node Red sl sb sr) # k) t" and sl: "sl \<noteq> Leaf"
  shows "zrep (erase_rot s p sb) k (Node c (Node Red t p (paint Black sl)) sb sr)"
proof -
  have cr: "crep s p k" and d: "distinct (inorder t @ p # inorder sl @ sb # inorder sr @ cnodes k)"
    and ps: "p \<noteq> 0" "4 dvd p" "sb \<noteq> 0" "4 dvd sb" "pc_of s p = cpar k + cbit c" "right_of s p = sb" "left_of s p = ptr_of t"
    and r: "rep s p (ptr_of t) t" "rep s sb (left_of s sb) sl" "rep s sb (right_of s sb) sr"
    using z by (auto simp: zrep_def)
  define tmp where "tmp = left_of s sb"
  have tmp: "tmp = ptr_of sl" "tmp \<in> set (inorder sl)" "tmp \<noteq> 0"
    using r(2) ptr_in [OF sl] rep_ptr [OF r(2)] rep_nonzero [OF r(2)] by (auto simp: tmp_def)
  define s3 where "s3 = rb_set_parent_color (set_left (set_right s p tmp) sb p) tmp p RB_BLACK"
  have s3: "left_of s3 x = (if x = sb then p else left_of s x)" "right_of s3 x = (if x = p then tmp else right_of s x)"
    "pc_of s3 x = (if x = tmp then p + cbit Black else pc_of s x)" "rb_root s3 = rb_root s" for x
    using ps by (auto simp: s3_def)
  have e: "erase_rot s p sb = rb_rotate_set_parents s3 p sb (cbit Red)"
    by (simp add: erase_rot_def s3_def tmp_def Let_def)
  have dd: "p \<noteq> sb" "tmp \<noteq> p" "tmp \<noteq> sb" "tmp \<notin> set (cnodes k)"
    using d tmp by auto
  have "crep s3 p k"
    by (rule crep_keep [OF cr]) (use d dd tmp in \<open>auto simp: s3\<close>)
  moreover have "rep s3 p (ptr_of t) t"
    by (rule rep_keep [OF r(1)]) (use d tmp in \<open>auto simp: s3\<close>)
  moreover have "rep s3 sb (right_of s sb) sr"
    by (rule rep_keep [OF r(3)]) (use d tmp in \<open>auto simp: s3\<close>)
  moreover have "rep s3 p (right_of s3 p) (paint Black sl)"
    unfolding s3 using dd(1) by (simp, intro rep_move [OF r(2) [folded tmp_def]]) (use d dd in \<open>auto simp: s3\<close>)
  ultimately show ?thesis
    unfolding e using ps dd d tmp by (intro rotate_zrep) (auto simp: s3)
qed

lemma erase_outer_zrep:
  assumes cr: "crep s p k" and d: "distinct (inorder t @ p # inorder a @ y # inorder l @ w # inorder r @ cnodes k)"
    and al: "p \<noteq> 0" "4 dvd p" "y \<noteq> 0" "4 dvd y" "w \<noteq> 0" "4 dvd w" "pc_of s p = cpar k + cbit c" "right_of s y = w"
    and rp: "rep s p (left_of s p) t" "rep s y (left_of s y) a" "rep s w (left_of s w) l" "rep s w (right_of s w) r"
  shows "zrep (erase_outer s p y w) k (Node c (Node Black t p a) y (Node Black l w r))"
proof -
  define tmp where "tmp = left_of s y"
  have tmp: "tmp = ptr_of a" "tmp \<noteq> 0 \<Longrightarrow> tmp \<in> set (inorder a)" "a \<noteq> Leaf \<Longrightarrow> tmp \<noteq> 0"
    using rp(2) by (cases a; simp add: tmp_def)+
  have dd: "p \<noteq> y" "p \<noteq> w" "y \<noteq> w" "tmp \<noteq> p" "tmp \<noteq> y" "tmp \<noteq> w" "tmp \<noteq> 0 \<Longrightarrow> tmp \<notin> set (cnodes k)"
    using d tmp al by (cases "tmp = 0"; auto)+
  obtain ca where ca: "paint ca a = a" "tmp \<noteq> 0 \<Longrightarrow> pc_of s tmp = y + cbit ca"
    using rp(2) by (cases a) (auto simp: tmp_def)
  define s3 where "s3 = (let s = rb_set_parent_color (set_left (set_right s p tmp) y p) w y RB_BLACK
     in if tmp \<noteq> 0 then rb_set_parent s tmp p else s)"
  have col: "rb_color (rb_set_parent_color (set_left (set_right s p tmp) y p) w y RB_BLACK) tmp OR p = p + cbit ca" if "tmp \<noteq> 0"
    using that ca(2) al dd by (simp add: rb_color_def)
  have s3: "left_of s3 x = (if x = y then p else left_of s x)" "right_of s3 x = (if x = p then tmp else right_of s x)"
    "pc_of s3 x = (if x = tmp \<and> tmp \<noteq> 0 then p + cbit ca else if x = w then y + cbit Black else pc_of s x)" "rb_root s3 = rb_root s" for x
    using al col dd by (auto simp: s3_def Let_def)
  have e: "erase_outer s p y w = rb_rotate_set_parents s3 p y (cbit Black)"
    by (simp add: erase_outer_def s3_def tmp_def Let_def)
  have "crep s3 p k"
    by (rule crep_keep [OF cr]) (use d dd tmp in \<open>auto simp: s3\<close>)
  moreover have "rep s3 p (left_of s p) t"
    by (rule rep_keep [OF rp(1)]) (use d tmp in \<open>auto simp: s3\<close>)
  moreover have "rep s3 w (left_of s w) l"
    by (rule rep_keep [OF rp(3)]) (use d tmp in \<open>auto simp: s3\<close>)
  moreover have "rep s3 w (right_of s w) r"
    by (rule rep_keep [OF rp(4)]) (use d tmp in \<open>auto simp: s3\<close>)
  moreover have "rep s3 p tmp (paint ca a)"
    by (rule rep_move [OF rp(2) [folded tmp_def]]) (use d dd tmp in \<open>auto simp: s3\<close>)
  ultimately show ?thesis
    unfolding e using al dd d tmp ca(1) by (intro rotate_zrep) (auto simp: s3)
qed

lemma recolor:
  assumes "zrep s k (Node c l x r)"
  shows "zrep (set_pc s x (cpar k + cbit d)) k (Node d l x r)"
proof -
  have f: "crep s x k" "rep s x (left_of s x) l" "rep s x (right_of s x) r" "distinct (inorder l @ x # inorder r @ cnodes k)" "x \<noteq> 0" "4 dvd x"
    using assms by (auto simp: zrep_def)
  let ?s = "set_pc s x (cpar k + cbit d)"
  have "crep ?s x k"
    by (rule crep_keep [OF f(1)]) (use f(4) in auto)
  moreover have "rep ?s x (left_of s x) l"
    by (rule rep_keep [OF f(2)]) (use f(4) in auto)
  moreover have "rep ?s x (right_of s x) r"
    by (rule rep_keep [OF f(3)]) (use f(4) in auto)
  ultimately show ?thesis
    using f by (simp add: zrep_def)
qed

lemma erase_flip_zrep:
  assumes z: "zrep s k (Node c t p (Node Black l w r))"
  shows "\<exists>s'. zrep s' k (Node Black t p (Node Red l w r)) \<and>
    erase_flip s p w = (if c = Red \<or> k = [] then Rb_Done s' else Rb_More s' p (cpar k))"
proof -
  have k4: "4 dvd cpar k" "4 dvd p" "p \<noteq> w" "pc_of s p = cpar k + cbit c"
    using z crep_dvd by (auto simp: zrep_def)
  have k0: "cpar k = 0 \<longleftrightarrow> k = []"
    using z by (cases k; cases "hd k") (auto simp: zrep_def)
  let ?s = "set_pc s w (p + cbit Red)"
  have "zrep s (RF c t p # k) (Node Black l w r)"
    using z by (simp add: zrep_RF)
  from recolor [OF this, of Red] have s1: "zrep ?s k (Node c t p (Node Red l w r))"
    by (simp add: zrep_RF)
  have e: "rb_set_parent_color s w p RB_RED = ?s"
    using k4 by (simp add: rb_set_parent_color_def)
  have pc: "pc_of ?s p = cpar k + cbit c" "rb_parent ?s p = cpar k" "rb_is_red ?s p \<longleftrightarrow> c = Red"
    using k4 by (cases c; auto simp: rb_parent_def rb_is_red_def rb_is_black_def)+
  have "rb_set_black ?s p = set_pc ?s p (cpar k + cbit Black)" if "c = Red"
  proof -
    have "cpar k + cbit Red = cpar k"
      by simp
    then show ?thesis
      unfolding rb_set_black_def pc(1) that RB_consts using k4(1) or_cbit(1) [of "cpar k" Black] by metis
  qed
  with s1 recolor [OF s1, of Black] pc(2,3) e k0 show ?thesis
    by (cases c) (auto simp: erase_flip_def Let_def)
qed

text \<open>The rotation at the sibling \<open>w\<close>, whose red left child \<open>y\<close> moves up; the pointers of \<open>p\<close> and \<open>y\<close> to their parents are left to
  the rotation that follows.\<close>

lemma erase_inner_zrep:
  assumes z: "zrep s k (Node c t p (Node Black (Node Red a y b) w r))"
  shows "zrep (erase_outer (erase_inner s p w y) p y w) k (Node c (Node Black t p a) y (Node Black (paint Black b) w r))"
proof -
  have cr: "crep s p k" and d: "distinct (inorder t @ p # inorder a @ y # inorder b @ w # inorder r @ cnodes k)"
    and al: "p \<noteq> 0" "4 dvd p" "y \<noteq> 0" "4 dvd y" "w \<noteq> 0" "4 dvd w" "pc_of s p = cpar k + cbit c" "right_of s p = w" "left_of s w = y"
    and rp: "rep s p (left_of s p) t" "rep s y (left_of s y) a" "rep s y (right_of s y) b" "rep s w (right_of s w) r"
    using z by (auto simp: zrep_def)
  define tmp where "tmp = right_of s y"
  have tmp: "tmp = ptr_of b" "tmp \<noteq> 0 \<Longrightarrow> tmp \<in> set (inorder b)" "b \<noteq> Leaf \<Longrightarrow> tmp \<noteq> 0"
    using rp(3) by (cases b; simp add: tmp_def)+
  let ?s = "erase_inner s p w y"
  have f: "left_of ?s x = (if x = w then tmp else left_of s x)" "rb_root ?s = rb_root s"
    "right_of ?s x = (if x = p then y else if x = y then w else right_of s x)"
    "pc_of ?s x = (if x = tmp \<and> tmp \<noteq> 0 then w + cbit Black else pc_of s x)" for x
    using al by (auto simp: erase_inner_def tmp_def Let_def)
  have dd: "p \<noteq> y" "p \<noteq> w" "y \<noteq> w" "tmp \<noteq> p"
    using d tmp al by (cases "tmp = 0"; auto)+
  have "crep ?s p k"
    by (rule crep_keep [OF cr]) (use d tmp in \<open>auto simp: f\<close>)
  moreover have "rep ?s p (left_of s p) t"
    by (rule rep_keep [OF rp(1)]) (use d tmp in \<open>auto simp: f\<close>)
  moreover have "rep ?s y (left_of s y) a"
    by (rule rep_keep [OF rp(2)]) (use d tmp in \<open>auto simp: f\<close>)
  moreover have "rep ?s w (right_of s w) r"
    by (rule rep_keep [OF rp(4)]) (use d tmp in \<open>auto simp: f\<close>)
  moreover have "rep ?s w tmp (paint Black b)"
    by (rule rep_move [OF rp(3) [folded tmp_def]]) (use d tmp in \<open>auto simp: f\<close>)
  ultimately show ?thesis
    using al d dd by (intro erase_outer_zrep) (auto simp: f)
qed

lemma erase_tail_zrep:
  assumes z: "zrep s k (Node c t p (Node Black l w r))"
  shows "\<exists>s'. zrep s' k (if is_red_t r then Node c (Node Black t p l) w (paint Black r)
      else case l of Node Red a y b \<Rightarrow> Node c (Node Black t p a) y (Node Black (paint Black b) w r) | _ \<Rightarrow> Node Black t p (Node Red l w r)) \<and>
    erase_tail s p w = (if is_red_t l \<or> is_red_t r \<or> c = Red \<or> k = [] then Rb_Done s' else Rb_More s' p (cpar k))"
proof -
  have cr: "crep s p k" and d: "distinct (inorder t @ p # inorder l @ w # inorder r @ cnodes k)"
    and al: "p \<noteq> 0" "4 dvd p" "w \<noteq> 0" "4 dvd w" "pc_of s p = cpar k + cbit c" "right_of s p = w"
    and rp: "rep s p (left_of s p) t" "rep s w (left_of s w) l" "rep s w (right_of s w) r"
    using z by (auto simp: zrep_def)
  have col: "right_of s w = 0 \<or> rb_is_black s (right_of s w) \<longleftrightarrow> \<not> is_red_t r" "left_of s w = 0 \<or> rb_is_black s (left_of s w) \<longleftrightarrow> \<not> is_red_t l"
    using red_in_store [OF rp(3) al(4)] red_in_store [OF rp(2) al(4)] by (auto simp: rb_is_red_def)
  consider (red) rl x rr where "r = Node Red rl x rr" | (inner) a y b where "\<not> is_red_t r" "l = Node Red a y b"
    | (flip) "\<not> is_red_t r" "\<not> is_red_t l"
    by (cases l rule: is_red_t.cases; cases r rule: is_red_t.cases) auto
  then show ?thesis
  proof cases
    case red
    with rp(3) have "right_of s w = x" "x \<noteq> 0" "4 dvd x" "rep s x (left_of s x) rl" "rep s x (right_of s x) rr"
      by auto
    then show ?thesis
      using erase_outer_zrep [OF cr _ al(1-4) _ _ al(5) _ rp(1,2), of rl x rr] d red col
      by (auto simp: erase_tail_def Let_def)
  next
    case inner
    with rp(2) have "left_of s w = y" by simp
    then show ?thesis
      using erase_inner_zrep [of s k c t p a y b w r] z inner col by (auto simp: erase_tail_def Let_def)
  next
    case flip
    then have "(case l of Node Red a y b \<Rightarrow> Node c (Node Black t p a) y (Node Black (paint Black b) w r) | _ \<Rightarrow> Node Black t p (Node Red l w r)) =
        Node Black t p (Node Red l w r)"
      by (cases l rule: is_red_t.cases) auto
    with flip erase_flip_zrep [OF z] col show ?thesis
      by (auto simp: erase_tail_def Let_def)
  qed
qed

subsection \<open>One round\<close>

text \<open>The state of the loop: the subtree at the hole lacks one black node.\<close>

definition dinv :: "rb_frame list \<Rightarrow> rbt \<Rightarrow> bool" where
  "dinv k t \<longleftrightarrow> kinv k (Suc (bh t)) \<and> rb_inv t \<and> \<not> is_red_t t"

text \<open>What a round makes of the subtree \<open>t\<close> in the context \<open>k\<close>: a balanced tree, or the same state further up.\<close>

definition round_ok :: "rb_frame list \<Rightarrow> rbt \<Rightarrow> rb_step \<Rightarrow> bool" where
  "round_ok k t st \<longleftrightarrow> (\<exists>s' k' t'. zrep s' k' t' \<and> inorder (zip_up k' t') = inorder (zip_up k t) \<and>
     (st = Rb_Done s' \<and> rb_ok (zip_up k' t') \<or>
      st = Rb_More s' (ptr_of t') (cpar k') \<and> k' \<noteq> [] \<and> length k' < length k \<and> dinv k' t'))"

lemma round_okI:
  assumes "zrep s' k' t'" "inorder (zip_up k' t') = inorder (zip_up k t)"
    "st = (if fin then Rb_Done s' else Rb_More s' (ptr_of t') (cpar k'))" "fin \<Longrightarrow> rb_ok (zip_up k' t')"
    "\<not> fin \<Longrightarrow> k' \<noteq> [] \<and> length k' < length k \<and> dinv k' t'"
  shows "round_ok k t st"
  using assms unfolding round_ok_def by (cases fin) auto

lemma bh_pos: "bh t = Suc n \<Longrightarrow> \<exists>c l x r. t = Node c l x r"
  by (cases t) auto

lemma erase_tail_round:
  assumes z: "zrep s k (Node c t p (Node Black l w r))"
    and i: "dinv (LF c p (Node Black l w r) # k) t"
    and o: "inorder (zip_up k0 t0) = inorder (zip_up k (Node c t p (Node Black l w r)))" "c = Red \<or> length k < length k0"
  shows "round_ok k0 t0 (erase_tail s p w)"
proof -
  define t' where "t' = (if is_red_t r then Node c (Node Black t p l) w (paint Black r)
      else case l of Node Red a y b \<Rightarrow> Node c (Node Black t p a) y (Node Black (paint Black b) w r) | _ \<Rightarrow> Node Black t p (Node Red l w r))"
  obtain s' where s': "zrep s' k t'"
    "erase_tail s p w = (if is_red_t l \<or> is_red_t r \<or> c = Red \<or> k = [] then Rb_Done s' else Rb_More s' p (cpar k))"
    using erase_tail_zrep [OF z] unfolding t'_def by blast
  consider (red) "is_red_t r" "t' = Node c (Node Black t p l) w (paint Black r)"
    | (inner) a y b where "\<not> is_red_t r" "l = Node Red a y b" "t' = Node c (Node Black t p a) y (Node Black (paint Black b) w r)"
    | (flip) "\<not> is_red_t r" "\<not> is_red_t l" "t' = Node Black t p (Node Red l w r)"
    unfolding t'_def by (cases l rule: is_red_t.cases; cases r rule: is_red_t.cases) auto
  then show ?thesis
  proof cases
    case red
    with i have "rb_ok (zip_up k t')" "inorder t' = inorder (Node c t p (Node Black l w r))"
      unfolding rb_ok_zip by (cases c; auto simp: dinv_def)+
    with s' red zip_inorder_cong [of t' _ k] show ?thesis
      by (intro round_okI [where fin = True]) (auto simp: o(1))
  next
    case inner
    with i have "rb_ok (zip_up k t')" "inorder t' = inorder (Node c t p (Node Black l w r))"
      unfolding rb_ok_zip by (cases c; auto simp: dinv_def)+
    with s' inner zip_inorder_cong [of t' _ k] show ?thesis
      by (intro round_okI [where fin = True]) (auto simp: o(1))
  next
    case flip
    have "rb_ok (zip_up k t')" if "c = Red \<or> k = []"
      unfolding rb_ok_zip using that i flip by (cases c) (auto simp: dinv_def)
    moreover have "dinv k t'" if "c \<noteq> Red" "k \<noteq> []"
      using that i flip by (auto simp: dinv_def)
    moreover have "inorder t' = inorder (Node c t p (Node Black l w r))"
      using flip by simp
    ultimately show ?thesis
      using s' flip o(2) zip_inorder_cong [of t' _ k]
      by (intro round_okI [where fin = "c = Red \<or> k = []" and s' = s']) (auto simp: o(1))
  qed
qed

lemma erase_round_left:
  assumes z: "zrep s (LF c p sib # k) t" and i: "dinv (LF c p sib # k) t"
  shows "round_ok (LF c p sib # k) t (rb_erase_step s (ptr_of t) p)"
proof -
  from i obtain cs sl sb sr where sib: "sib = Node cs sl sb sr"
    using bh_pos [of sib "bh t"] by (auto simp: dinv_def)
  have d: "distinct (inorder t @ p # inorder sib @ cnodes k)" and r: "rep s p (right_of s p) sib" "rep s p (ptr_of t) t" "4 dvd p"
    using z by (auto simp: zrep_def)
  have right: "right_of s p = sb" "sb \<noteq> 0"
    using r sib by auto
  have "ptr_of t \<noteq> sb"
    using d sib right ptr_in [of t] by (cases t) auto
  then have step: "rb_erase_step s (ptr_of t) p =
      (if cs = Red then erase_tail (erase_rot s p sb) p (left_of s sb) else erase_tail s p sb)"
    using erase_step_left [of "ptr_of t" s p] red_in_store [OF r(1,3)] right sib by (simp add: Let_def)
  show ?thesis
  proof (cases cs)
    case Black
    with z i step show ?thesis
      unfolding sib by (auto intro!: erase_tail_round simp: zrep_LF)
  next
    case Red
    with i sib obtain l w q where sl: "sl = Node Black l w q"
      using bh_pos [of sl "bh t"] by (auto simp: dinv_def)
    have "zrep (erase_rot s p sb) k (Node c (Node Red t p (paint Black sl)) sb sr)"
      using erase_rot_zrep [of s c p sl sb sr k t] z sl by (simp add: sib Red)
    then have z': "zrep (erase_rot s p sb) (LF c sb sr # k) (Node Red t p (Node Black l w q))"
      by (simp add: zrep_LF sl)
    have w: "left_of s sb = w"
      using r(1) sib sl by auto
    have i': "dinv (LF Red p (Node Black l w q) # LF c sb sr # k) t"
      using i sib sl Red by (cases c) (auto simp: dinv_def top_black_def)
    have "inorder (zip_up (LF c p sib # k) t) = inorder (zip_up (LF c sb sr # k) (Node Red t p (Node Black l w q)))"
      unfolding zip_up.simps by (rule zip_inorder_cong) (simp add: sib sl)
    from erase_tail_round [OF z' i' this] show ?thesis
      by (simp add: step Red w)
  qed
qed

subsection \<open>The right-hand side\<close>

primrec mirror_step :: "rb_step \<Rightarrow> rb_step" where
  "mirror_step (Rb_Done s) = Rb_Done (mirror s)"
| "mirror_step (Rb_More s node parent) = Rb_More (mirror s) node parent"

lemma mirror_rotate_at:
  assumes "crep s p k" "p \<noteq> 0" "p \<notin> set (cnodes k)" "pc_of s' p = cpar k + cbit c"
    "left_of s' (cpar k) = left_of s (cpar k)" "right_of s' (cpar k) = right_of s (cpar k)"
  shows "mirror (rb_rotate_set_parents s' p y d) = rb_rotate_set_parents (mirror s') p y d"
proof -
  have "rb_parent s' p = cpar k"
    using assms(4) crep_dvd [OF assms(1)] by (simp add: rb_parent_def)
  then have "one_child s' (rb_parent s' p) p"
    using crep_one_child [OF assms(1-3)] assms(5,6) by (simp add: one_child_def)
  then show ?thesis by (rule mirror_rotate_set_parents)
qed

lemma mirror_erase_rot:
  assumes "crep s p k" "p \<noteq> 0" "p \<notin> set (cnodes k)" "pc_of s p = cpar k + cbit c" "cpar k \<noteq> p" "cpar k \<noteq> w" "right_of s w \<noteq> p"
  shows "mirror (erase_rot_r s p w) = erase_rot (mirror s) p w"
  using mirror_rotate_at [OF assms(1-3),
      of "rb_set_parent_color (set_right (set_left s p (right_of s w)) w p) (right_of s w) p RB_BLACK" c w RB_RED] assms(4-)
  by (simp add: erase_rot_r_def erase_rot_def Let_def)

lemma mirror_erase_outer:
  assumes "crep s0 p k" "p \<noteq> 0" "p \<notin> set (cnodes k)" "pc_of s p = cpar k + cbit c" "cpar k \<noteq> p" "cpar k \<noteq> y" "right_of s y \<noteq> p" "w \<noteq> p"
    "left_of s (cpar k) = left_of s0 (cpar k)" "right_of s (cpar k) = right_of s0 (cpar k)"
  shows "mirror (erase_outer_r s p y w) = erase_outer (mirror s) p y w"
  using mirror_rotate_at [OF assms(1-3),
      of "let s1 = rb_set_parent_color (set_right (set_left s p (right_of s y)) y p) w y RB_BLACK
        in if right_of s y \<noteq> 0 then rb_set_parent s1 (right_of s y) p else s1" c y RB_BLACK] assms(4-)
  by (cases "right_of s y = 0") (simp_all add: erase_outer_r_def erase_outer_def Let_def)

lemma mirror_erase_inner: "mirror (erase_inner_r s p w y) = erase_inner (mirror s) p w y"
  by (simp add: erase_inner_r_def erase_inner_def Let_def)

lemma mirror_erase_flip: "mirror_step (erase_flip s p w) = erase_flip (mirror s) p w"
proof -
  have "mirror (rb_set_parent_color s w p RB_RED) = rb_set_parent_color (mirror s) w p RB_RED"
    by simp
  then show ?thesis
    unfolding erase_flip_def Let_def
    by (auto simp del: RB_consts simp flip: mirror_queries [of "rb_set_parent_color s w p RB_RED"])
qed

lemma rep_child_neq: "rep s x q t \<Longrightarrow> p \<notin> set (inorder t) \<Longrightarrow> p \<noteq> 0 \<Longrightarrow> q \<noteq> p"
  by (cases t) auto

lemma mirror_erase_tail:
  assumes z: "zrep s k (Node c (Node cw l w r) p t)"
  shows "mirror_step (erase_tail_r s p w) = erase_tail (mirror s) p w"
proof -
  have cr: "crep s p k" and d: "distinct (inorder l @ w # inorder r @ p # inorder t @ cnodes k)"
    and al: "p \<noteq> 0" "w \<noteq> 0" "pc_of s p = cpar k + cbit c" "left_of s p = w"
    and rp: "rep s w (left_of s w) l" "rep s w (right_of s w) r"
    using z by (auto simp: zrep_def)
  have dd: "p \<notin> set (cnodes k)" "w \<noteq> p" "cpar k \<noteq> p" "cpar k \<noteq> w"
    using d al cpar_in [of k] by auto
  have nb: "left_of s w \<noteq> p" "right_of s w \<noteq> p"
    using rep_child_neq [OF rp(1)] rep_child_neq [OF rp(2)] d al by auto
  have outer: "mirror (erase_outer_r s p w (left_of s w)) = erase_outer (mirror s) p w (left_of s w)"
    using mirror_erase_outer [OF cr al(1) dd(1) al(3) dd(3,4) nb(2,1) refl refl] .
  have inner: "mirror (erase_outer_r (erase_inner_r s p w y) p y w) = erase_outer (erase_inner (mirror s) p w y) p y w"
    if y: "y = right_of s w" "y \<noteq> 0" for y
  proof -
    obtain cy a b where r: "r = Node cy a y b"
      using rp(2) y by (cases r) auto
    then have ry: "rep s y (left_of s y) a" "rep s y (right_of s y) b"
      using rp(2) y by auto
    have "cpar k \<noteq> y" "y \<noteq> w" "y \<noteq> p"
      using d r cpar_in [of k] y(2) by auto
    moreover have "left_of s y \<noteq> p" "right_of s y \<noteq> p"
      using rep_child_neq [OF ry(1)] rep_child_neq [OF ry(2)] d r al by auto
    ultimately have "mirror (erase_outer_r (erase_inner_r s p w y) p y w) = erase_outer (mirror (erase_inner_r s p w y)) p y w"
      using dd al by (intro mirror_erase_outer [OF cr]) (auto simp: erase_inner_r_def Let_def)
    then show ?thesis by (simp only: mirror_erase_inner)
  qed
  show ?thesis
    using outer inner [OF refl] mirror_erase_flip [of s p w]
    by (auto simp: erase_tail_r_def erase_tail_def Let_def)
qed

lemma mirror_erase_step:
  assumes z: "zrep s (RF c (Node cw l w r) p # k) t" and cw: "cw = Red \<Longrightarrow> r \<noteq> Leaf"
  shows "mirror_step (rb_erase_step s (ptr_of t) p) = rb_erase_step (mirror s) (ptr_of t) p"
proof -
  have cr: "crep s p k" and d: "distinct (inorder l @ w # inorder r @ p # inorder t @ cnodes k)"
    and al: "p \<noteq> 0" "4 dvd p" "w \<noteq> 0" "4 dvd w" "pc_of s p = cpar k + cbit c" "left_of s p = w" "right_of s p = ptr_of t" "pc_of s w = p + cbit cw"
    and rp: "rep s w (left_of s w) l" "rep s w (right_of s w) r"
    using z by (auto simp: zrep_def)
  have z1: "zrep s k (Node c (Node cw l w r) p t)"
    using z by (simp add: zrep_RF)
  have tw: "ptr_of t \<noteq> w"
    using d al ptr_in [of t] by (cases t) auto
  have red: "rb_is_red s w \<longleftrightarrow> cw = Red"
    using al by (cases cw) (auto simp: rb_is_red_def rb_is_black_def)
  show ?thesis
  proof (cases cw)
    case Black
    with mirror_erase_tail [OF z1] red al tw show ?thesis
      by (simp add: erase_step_right erase_step_left Let_def)
  next
    case Red
    have "cpar k \<noteq> p" "cpar k \<noteq> w" "p \<notin> set (cnodes k)" "right_of s w \<noteq> p"
      using d al cpar_in [of k] rep_child_neq [OF rp(2)] by auto
    then have m: "mirror (erase_rot_r s p w) = erase_rot (mirror s) p w"
      using mirror_erase_rot [OF cr] al by auto
    have "zrep (mirror s) (LF c p (Node Red (mirror_t r) w (mirror_t l)) # map mirror_f k) (mirror_t t)"
      using z zrep_mirror [of s "RF c (Node cw l w r) p # k" t] Red by simp
    from erase_rot_zrep [OF this] cw [OF Red]
    have "zrep (mirror (erase_rot_r s p w)) (map mirror_f k)
        (mirror_t (Node c l w (Node Red (paint Black r) p t)))"
      by (simp add: m)
    then have z2: "zrep (erase_rot_r s p w) (RF c l w # k) (Node Red (paint Black r) p t)"
      by (simp only: zrep_mirror zrep_RF)
    obtain cr' a v b where r: "r = Node cr' a v b" "right_of s w = v"
      using cw [OF Red] rp(2) by (cases r) auto
    have "mirror_step (erase_tail_r (erase_rot_r s p w) p v) = erase_tail (mirror (erase_rot_r s p w)) p v"
      using z2 r by (intro mirror_erase_tail) simp
    with red Red al tw m r show ?thesis
      by (simp add: erase_step_right erase_step_left Let_def)
  qed
qed

lemma mirror_bh: "rb_inv t \<Longrightarrow> bh (mirror_t t) = bh t"
  by (induction t) auto

lemma mirror_rb_inv: "rb_inv t \<Longrightarrow> rb_inv (mirror_t t)"
  by (induction t) (auto simp: mirror_bh)

lemma mirror_rb_ok: "rb_ok t \<Longrightarrow> rb_ok (mirror_t t)"
  by (simp add: rb_ok_def mirror_rb_inv)

lemma mirror_fcol [simp]: "fcol (mirror_f f) = fcol f"
  by (cases f) simp_all

lemma mirror_kinv: "kinv k n \<Longrightarrow> kinv (map mirror_f k) n"
  by (induction k arbitrary: n) (auto simp: mirror_bh mirror_rb_inv top_black_def hd_map)

lemma mirror_dinv: "dinv k t \<Longrightarrow> dinv (map mirror_f k) (mirror_t t)"
  by (simp add: dinv_def mirror_kinv mirror_rb_inv mirror_bh)

lemma mirror_inorder: "inorder (mirror_t t) = rev (inorder t)"
  by (induction t) simp_all

lemma mirror_zip: "zip_up (map mirror_f k) (mirror_t t) = mirror_t (zip_up k t)"
  by (induction k t rule: zip_up.induct) (simp_all flip: mirror_t.simps)

lemma round_mirror:
  assumes "round_ok (map mirror_f k) (mirror_t t) (mirror_step st)"
  shows "round_ok k t st"
proof -
  obtain s' k' t' where *: "zrep s' k' t'" "inorder (zip_up k' t') = rev (inorder (zip_up k t))"
    "mirror_step st = Rb_Done s' \<and> rb_ok (zip_up k' t') \<or>
      mirror_step st = Rb_More s' (ptr_of t') (cpar k') \<and> k' \<noteq> [] \<and> length k' < length k \<and> dinv k' t'"
    using assms by (auto simp: round_ok_def mirror_zip mirror_inorder)
  let ?s = "mirror s'" and ?k = "map mirror_f k'" and ?t = "mirror_t t'"
  have "zrep ?s ?k ?t" "inorder (zip_up ?k ?t) = inorder (zip_up k t)"
    using *(1,2) by (simp_all add: zrep_mirror mirror_zip mirror_inorder)
  moreover have "st = Rb_Done ?s \<and> rb_ok (zip_up ?k ?t) \<or>
      st = Rb_More ?s (ptr_of ?t) (cpar ?k) \<and> ?k \<noteq> [] \<and> length ?k < length k \<and> dinv ?k ?t"
    using *(3) by (cases st) (auto simp: mirror_zip mirror_rb_ok mirror_dinv)
  ultimately show ?thesis unfolding round_ok_def by blast
qed

lemma erase_round:
  assumes z: "zrep s k t" and i: "dinv k t" and k: "k \<noteq> []"
  shows "round_ok k t (rb_erase_step s (ptr_of t) (cpar k))"
proof (cases k)
  case Nil
  with k show ?thesis by simp
next
  case (Cons f k1)
  show ?thesis
  proof (cases f)
    case (LF c p sib)
    with Cons z i show ?thesis by (simp add: erase_round_left)
  next
    case (RF c sib p)
    from i Cons RF obtain cw l w r where sib: "sib = Node cw l w r"
      using bh_pos [of sib "bh t"] by (auto simp: dinv_def)
    have "r \<noteq> Leaf" if "cw = Red"
      using that i Cons RF sib by (auto simp: dinv_def)
    then have m: "mirror_step (rb_erase_step s (ptr_of t) p) = rb_erase_step (mirror s) (ptr_of t) p"
      using mirror_erase_step z Cons RF sib by blast
    have "zrep (mirror s) (map mirror_f k) (mirror_t t)" "dinv (map mirror_f k) (mirror_t t)"
      using z i by (simp_all add: zrep_mirror mirror_dinv)
    then have "round_ok (map mirror_f k) (mirror_t t) (rb_erase_step (mirror s) (ptr_of (mirror_t t)) p)"
      unfolding Cons RF list.map mirror_f.simps by (rule erase_round_left)
    then have "round_ok k t (rb_erase_step s (ptr_of t) p)"
      by (simp only: mirror_t_simps flip: m) (rule round_mirror)
    moreover have "cpar k = p"
      using Cons RF by simp
    ultimately show ?thesis by (simp only:)
  qed
qed

lemma erase_loop_ok:
  "zrep s k t \<Longrightarrow> dinv k t \<Longrightarrow> k \<noteq> [] \<Longrightarrow> \<exists>s' t'. rb_erase_loop s (ptr_of t) (cpar k) = Some s' \<and>
    rb_rep s' t' \<and> rb_ok t' \<and> inorder t' = inorder (zip_up k t)"
proof (induction "length k" arbitrary: s k t rule: less_induct)
  case less
  from erase_round [OF less.prems] obtain s1 k1 t1 where *: "zrep s1 k1 t1" "inorder (zip_up k1 t1) = inorder (zip_up k t)"
    "rb_erase_step s (ptr_of t) (cpar k) = Rb_Done s1 \<and> rb_ok (zip_up k1 t1) \<or>
      rb_erase_step s (ptr_of t) (cpar k) = Rb_More s1 (ptr_of t1) (cpar k1) \<and> k1 \<noteq> [] \<and> length k1 < length k \<and> dinv k1 t1"
    unfolding round_ok_def by blast
  from *(3) show ?case
  proof (elim disjE conjE)
    assume "rb_erase_step s (ptr_of t) (cpar k) = Rb_Done s1" "rb_ok (zip_up k1 t1)"
    with *(1,2) show ?thesis
      unfolding rb_erase_loop.simps [of s] by (auto simp: zrep_zip)
  next
    assume st: "rb_erase_step s (ptr_of t) (cpar k) = Rb_More s1 (ptr_of t1) (cpar k1)"
      and "k1 \<noteq> []" "length k1 < length k" "dinv k1 t1"
    with less.hyps [of k1 s1 t1] *(1,2) show ?thesis
      unfolding rb_erase_loop.simps [of s] by (simp add: st)
  qed
qed

subsection \<open>Unlinking\<close>

text \<open>The leftmost node of a tree: the tree with another subtree in its place, its parent (\<open>q\<close> when it is the root), and itself with its
  right subtree.\<close>

fun lput :: "rbt \<Rightarrow> rbt \<Rightarrow> rbt" where
  "lput (Node c (Node d a y b) x r) t = Node c (lput (Node d a y b) t) x r"
| "lput _ t = t"

fun lpath :: "rbt \<Rightarrow> rb_frame list" where
  "lpath (Node c (Node d a y b) x r) = lpath (Node d a y b) @ [LF c x r]"
| "lpath _ = []"

fun lmin :: "rbt \<Rightarrow> rbt" where
  "lmin (Node c (Node d a y b) x r) = lmin (Node d a y b)"
| "lmin t = t"

lemma zip_append: "zip_up (k @ k') t = zip_up k' (zip_up k t)"
  by (induction k t rule: zip_up.induct) simp_all

lemma zip_lpath: "t \<noteq> Leaf \<Longrightarrow> zip_up (lpath t) u = lput t u"
  by (induction t rule: lpath.induct) (simp_all add: zip_append)

lemma lput_lmin: "lput t (lmin t) = t"
  by (induction t rule: lpath.induct) simp_all

lemma lmin_Node: "t \<noteq> Leaf \<Longrightarrow> \<exists>c y r. lmin t = Node c Leaf y r"
  by (induction t rule: lpath.induct) auto

lemma inorder_lmin: "lmin t = Node c Leaf y r \<Longrightarrow> inorder t = y # inorder (lput t r)"
  by (induction t rule: lpath.induct) auto

lemma inorder_lput: "lmin t = Node c Leaf y r \<Longrightarrow> inorder (lput t (paint d r)) = inorder (lput t r)"
  by (induction t rule: lpath.induct) auto

lemma lmin_sub: "set (inorder (lmin t)) \<subseteq> set (inorder t)"
  by (induction t rule: lpath.induct) auto

lemma lmin_distinct: "distinct (inorder t) \<Longrightarrow> distinct (inorder (lmin t))"
  by (induction t rule: lpath.induct) auto

lemma lpath_Nil: "lpath t = [] \<Longrightarrow> lmin t = t \<and> lput t u = u"
  by (cases t rule: lpath.cases) auto

lemma lpath_root: "distinct (inorder t) \<Longrightarrow> lpath t = f # fs \<Longrightarrow> ptr_of t \<in> set (inorder t) \<and> ptr_of t \<notin> set (inorder (lmin t))"
  by (cases t rule: lpath.cases) (auto dest: subsetD [OF lmin_sub])

lemma lpath_lmin: "f \<in> set (lpath t) \<Longrightarrow> distinct (inorder t) \<Longrightarrow> fnode f \<notin> set (inorder (lmin t))"
  by (induction t rule: lpath.induct) (auto dest: subsetD [OF lmin_sub])

lemma lpath_sub: "f \<in> set (lpath t) \<Longrightarrow> fnode f \<in> set (inorder t)"
  by (induction t rule: lpath.induct) auto

text \<open>The walk to the leftmost node of \<open>t\<close>, which hangs below \<open>q\<close>.\<close>

lemma leftmost_walk:
  "rep s q p t \<Longrightarrow> t \<noteq> Leaf \<Longrightarrow> rb_leftmost s q p = Some (cpar (lpath t @ [LF Red q Leaf]), ptr_of (lmin t))"
proof (induction t arbitrary: q p rule: lpath.induct)
  case (1 c d a y b x r)
  have "rb_leftmost s x (left_of s x) = Some (cpar (lpath (Node d a y b) @ [LF Red x Leaf]), ptr_of (lmin (Node d a y b)))"
    using 1 by auto
  moreover have "cpar (lpath (Node d a y b) @ [LF Red x Leaf]) = cpar (lpath (Node c (Node d a y b) x r) @ [LF Red q Leaf])"
    by (cases "lpath (Node d a y b)") simp_all
  moreover have "left_of s x \<noteq> 0" "p = x"
    using 1 by auto
  ultimately show ?case
    by (subst rb_leftmost.simps) simp
qed (subst rb_leftmost.simps, auto)+

text \<open>Another subtree \<open>u\<close> below the parent of the leftmost node, and another parent for the root.\<close>

lemma rep_lput:
  assumes "rep s par p t" "distinct (inorder t)" "lpath t = f # fs"
    "\<And>x. x \<in> set (inorder t) \<Longrightarrow> x \<notin> set (inorder (lmin t)) \<Longrightarrow> right_of s' x = right_of s x \<and>
       left_of s' x = (if x = fnode f then ptr_of u else left_of s x) \<and> (x \<noteq> p \<longrightarrow> pc_of s' x = pc_of s x)"
    "pc_of s' p = par' + (pc_of s p - par)" "rep s' (fnode f) (ptr_of u) u"
  shows "rep s' par' p (lput t u)"
  using assms
proof (induction t arbitrary: par par' p f fs rule: lpath.induct)
  case (1 c d a y b x r)
  let ?l = "Node d a y b"
  have r: "p = x" "rep s x (left_of s x) ?l" "rep s x (right_of s x) r" "x \<noteq> 0" "4 dvd x" "pc_of s x = par + cbit c" "left_of s x = y"
    and d: "distinct (inorder ?l @ x # inorder r)"
    using "1.prems"(1,2) by auto
  have out: "z \<notin> set (inorder (lmin ?l))" if "z = x \<or> z \<in> set (inorder r)" for z
    using that d lmin_sub [of ?l] by auto
  show ?case
  proof (cases "lpath ?l")
    case Nil
    then have f: "fnode f = x" "lput ?l u = u"
      using "1.prems"(3) by (auto elim: lpath.elims)
    have "rep s' x (right_of s x) r"
      by (rule rep_keep [OF r(3)]) (use out d f r(1) "1.prems"(4) in auto)
    then show ?thesis
      using r f out [of x] "1.prems"(4) [of x] "1.prems"(5,6) by simp
  next
    case (Cons g gs)
    then have f: "f = g" and g: "fnode g \<in> set (inorder ?l)"
      using "1.prems"(3) lpath_sub [of g ?l] by auto
    have a: "a \<noteq> Leaf" "y \<notin> set (inorder (lmin ?l))"
      using Cons d lmin_sub [of a] by (cases a; auto)+
    have "rep s' x (left_of s x) (lput ?l u)"
    proof (rule "1.IH" [OF r(2) _ Cons])
      show "pc_of s' (left_of s x) = x + (pc_of s (left_of s x) - x)"
        using a r "1.prems"(4) [of y] d by auto
    qed (use d "1.prems"(4,6) f r(1) in auto)
    moreover have "rep s' x (right_of s x) r"
      by (rule rep_keep [OF r(3)]) (use out d g f r(1) "1.prems"(4) in auto)
    ultimately show ?thesis
      using r f g d out [of x] "1.prems"(4) [of x] "1.prems"(5) by auto
  qed
qed auto

lemma rep_lmin:
  "rep s q p t \<Longrightarrow> t \<noteq> Leaf \<Longrightarrow> lmin t = Node c Leaf y r \<Longrightarrow> y \<noteq> 0 \<and> 4 dvd y \<and> left_of s y = 0 \<and> rep s y (right_of s y) r"
  by (induction t arbitrary: q p rule: lpath.induct) auto

text \<open>A node with one child at most.\<close>

lemma change_child_pc: "rb_change_child (set_pc s a v) old new par = set_pc (rb_change_child s old new par) a v"
  by (rule rb_tree_eqI) (simp_all add: rb_change_child_def)

lemma unlink_one:
  assumes z: "zrep s k (Node c l x r)" and u: "l = Leaf \<and> u = r \<or> r = Leaf \<and> u = l"
  shows "zrep (if u = Leaf then rb_change_child s x (ptr_of u) (cpar k)
    else set_pc (rb_change_child s x (ptr_of u) (cpar k)) (ptr_of u) (pc_of s x)) k (paint c u)"
proof -
  have cr: "crep s x k" and d: "distinct (inorder u @ x # cnodes k)" and al: "x \<noteq> 0" "pc_of s x = cpar k + cbit c"
    and r: "rep s x (ptr_of u) u"
    using z u rep_ptr [of s x "left_of s x" l] rep_ptr [of s x "right_of s x" r] by (auto simp: zrep_def)
  let ?s1 = "rb_change_child s x (ptr_of u) (cpar k)"
  let ?s = "if u = Leaf then ?s1 else set_pc ?s1 (ptr_of u) (pc_of s x)"
  have c1: "crep ?s1 (ptr_of u) k"
    using change_child_crep [OF cr al(1)] d by auto
  have "crep ?s (ptr_of u) k"
    by (rule crep_keep [OF c1]) (use d ptr_in [of u] in auto)
  moreover have "rep ?s (cpar k) (ptr_of u) (paint c u)"
  proof (rule rep_move [OF r])
    fix a assume a: "a \<in> set (inorder u)"
    then have "a \<noteq> cpar k"
      using d rep_nonzero [OF r] cpar_in [of k] by auto
    then show "left_of ?s a = left_of s a \<and> right_of ?s a = right_of s a"
      by (simp add: change_child_reads)
  qed (use d al in \<open>auto simp: change_child_reads\<close>)
  ultimately show ?thesis
    using d by (auto simp: zrep_def)
qed

text \<open>A node \<open>x\<close> with two children: the cells of its subtrees after the leftmost node \<open>y\<close> of the right one took its place.\<close>

definition unlinked :: "rb_tree \<Rightarrow> rb_tree \<Rightarrow> rbt \<Rightarrow> nat \<Rightarrow> rbt \<Rightarrow> nat \<Rightarrow> rbt \<Rightarrow> bool" where
  "unlinked s s' l x r y yr \<longleftrightarrow> (\<forall>v \<in> set (inorder l) \<union> set (inorder r).
      left_of s' v = (if v = y then ptr_of l else if lpath r \<noteq> [] \<and> v = cpar (lpath r) then ptr_of yr else left_of s v) \<and>
      right_of s' v = (if v = y \<and> lpath r \<noteq> [] then ptr_of r else right_of s v) \<and>
      pc_of s' v = (if v = y then pc_of s x else if yr \<noteq> Leaf \<and> v = ptr_of yr then cpar (lpath r @ [RF Red l y]) + cbit Black
        else if v = ptr_of l \<or> v = ptr_of r then y + (pc_of s v - x) else pc_of s v))"

lemma unlinked_left:
  assumes u: "unlinked s s' l x r y yr" and d: "distinct (inorder l @ x # inorder r)" and r: "r \<noteq> Leaf" "lmin r = Node cy Leaf y yr"
    and rp: "rep s x (ptr_of l) l" "l \<noteq> Leaf"
  shows "rep s' y (ptr_of l) l"
proof -
  obtain cl where cl: "paint cl l = l" "pc_of s (ptr_of l) = x + cbit cl"
    using rp by (cases l) auto
  have rd: "left_of s' v = left_of s v \<and> right_of s' v = right_of s v \<and> pc_of s' v = (if v = ptr_of l then y + (pc_of s v - x) else pc_of s v)"
    if "v \<in> set (inorder l)" for v
  proof -
    have "v \<notin> set (inorder r)"
      using that d by auto
    then have "v \<noteq> y" "lpath r \<noteq> [] \<longrightarrow> v \<noteq> cpar (lpath r)" "yr \<noteq> Leaf \<longrightarrow> v \<noteq> ptr_of yr" "v \<noteq> ptr_of r"
      using lpath_sub [of "hd (lpath r)" r] lmin_sub [of r] r ptr_in [of yr] ptr_in [OF r(1)] by (cases "lpath r"; auto)+
    with u that show ?thesis by (auto simp: unlinked_def)
  qed
  have "rep s' y (ptr_of l) (paint cl l)"
    by (rule rep_move [OF rp(1)]) (use d rd cl ptr_in [OF rp(2)] in auto)
  with cl show ?thesis by simp
qed

lemma unlinked_hole:
  assumes u: "unlinked s s' l x r y yr" and d: "distinct (inorder l @ x # inorder r)" and r: "lmin r = Node cy Leaf y yr"
    and l: "l \<noteq> Leaf" and rp: "rep s y (ptr_of yr) yr"
  shows "rep s' (cpar (lpath r @ [RF Red l y])) (ptr_of yr) (paint Black yr)"
proof -
  have yr: "set (inorder yr) \<subseteq> set (inorder r)" "distinct (y # inorder yr)"
    using lmin_sub [of r] lmin_distinct [of r] r d by auto
  have root: "lpath r = [] \<Longrightarrow> ptr_of r = y"
    using lpath_Nil [of r] r by (metis ptr_of.simps(2))
  have rd: "left_of s' v = left_of s v \<and> right_of s' v = right_of s v \<and>
      pc_of s' v = (if v = ptr_of yr then cpar (lpath r @ [RF Red l y]) + cbit Black else pc_of s v)"
    if "v \<in> set (inorder yr)" for v
  proof -
    have v: "v \<in> set (inorder (lmin r))" "v \<in> set (inorder r)" "v \<noteq> y" "v \<noteq> ptr_of l" "yr \<noteq> Leaf"
      using that r yr d ptr_in [OF l] by auto
    have "lpath r \<noteq> [] \<longrightarrow> v \<noteq> cpar (lpath r)" "v \<noteq> ptr_of r"
      using v lpath_lmin [of "hd (lpath r)" r] lpath_root [of r] root d by (cases "lpath r"; auto)+
    with u v show ?thesis by (auto simp: unlinked_def)
  qed
  show ?thesis
    by (rule rep_move [OF rp]) (use rd yr in \<open>auto simp: ptr_in\<close>)
qed

lemma unlinked_right:
  assumes u: "unlinked s s' l x r y yr" and d: "distinct (inorder l @ x # inorder r)" and r: "lmin r = Node cy Leaf y yr"
    and l: "l \<noteq> Leaf" and rp: "rep s y (right_of s y) yr" "rep s x (ptr_of r) r"
  shows "rep s' y (right_of s' y) (lput r (paint Black yr))"
proof -
  note hole = unlinked_hole [OF u d r l rp(1) [unfolded rep_ptr [OF rp(1)]]]
  have y: "y \<in> set (inorder r)"
    using lmin_sub [of r] r by auto
  show ?thesis
  proof (cases "lpath r")
    case Nil
    then show ?thesis
      using hole u y lpath_Nil [of r] rep_ptr [OF rp(1)] by (auto simp: unlinked_def)
  next
    case (Cons f fs)
    have root: "ptr_of r \<in> set (inorder r)" "ptr_of r \<notin> set (inorder (lmin r))"
      using lpath_root [OF _ Cons] d by auto
    have "rep s' y (ptr_of r) (lput r (paint Black yr))"
    proof (rule rep_lput [OF rp(2) _ Cons])
      show "pc_of s' (ptr_of r) = y + (pc_of s (ptr_of r) - x)"
        using u root r ptr_in [of yr] by (auto simp: unlinked_def)
      show "right_of s' v = right_of s v \<and> left_of s' v = (if v = fnode f then ptr_of (paint Black yr) else left_of s v) \<and>
          (v \<noteq> ptr_of r \<longrightarrow> pc_of s' v = pc_of s v)" if v: "v \<in> set (inorder r)" "v \<notin> set (inorder (lmin r))" for v
      proof -
        have "v \<noteq> y" "v \<noteq> ptr_of l" "yr \<noteq> Leaf \<longrightarrow> v \<noteq> ptr_of yr"
          using v r d ptr_in [OF l] ptr_in [of yr] by auto
        with u v Cons show ?thesis by (auto simp: unlinked_def)
      qed
    qed (use d hole Cons in auto)
    then show ?thesis
      using u y Cons by (simp add: unlinked_def)
  qed
qed

lemma unlink_two:
  assumes z: "zrep s k (Node c l x r)" and lr: "l \<noteq> Leaf" "r \<noteq> Leaf" "lmin r = Node cy Leaf y yr" and cr: "crep s' y k"
    and u: "unlinked s s' l x r y yr"
  shows "zrep s' k (Node c l y (lput r (paint Black yr)))"
proof -
  have d: "distinct (inorder l @ x # inorder r @ cnodes k)" and al: "pc_of s x = cpar k + cbit c"
    and rp: "rep s x (ptr_of l) l" "rep s x (ptr_of r) r"
    using z rep_ptr [of s x "left_of s x" l] rep_ptr [of s x "right_of s x" r] by (auto simp: zrep_def)
  have ry: "y \<noteq> 0" "4 dvd y" "rep s y (right_of s y) yr"
    using rep_lmin [OF rp(2) lr(2,3)] by auto
  have io: "inorder r = y # inorder (lput r (paint Black yr))"
    using inorder_lmin [OF lr(3)] inorder_lput [OF lr(3)] by simp
  have d': "distinct (inorder l @ x # inorder r)"
    using d by auto
  have "left_of s' y = ptr_of l" "pc_of s' y = cpar k + cbit c"
    using u io al by (simp_all add: unlinked_def)
  with unlinked_left [OF u d' lr(2,3) rp(1) lr(1)] unlinked_right [OF u d' lr(3,1) ry(3) rp(2)] cr ry d io show ?thesis
    by (auto simp: zrep_def)
qed

text \<open>The writes of the source: first those that take \<open>y\<close> out of the right subtree, unless it is its root, then those that put
  it in the place of \<open>x\<close>.\<close>

definition take_out :: "rb_tree \<Rightarrow> rbt \<Rightarrow> nat \<Rightarrow> nat \<Rightarrow> rb_tree" where
  "take_out s r y child2 =
    (if lpath r = [] then s
     else rb_set_parent (set_right (set_left s (cpar (lpath r)) child2) y (ptr_of r)) (ptr_of r) y)"

definition put_in :: "rb_tree \<Rightarrow> nat \<Rightarrow> nat \<Rightarrow> nat \<Rightarrow> nat \<Rightarrow> nat \<Rightarrow> nat \<Rightarrow> nat \<Rightarrow> rb_tree" where
  "put_in s x y lp par pc child2 gp =
    (let s = set_left s y lp; s = rb_set_parent s lp y; s = rb_change_child s x y gp; s = set_pc s y pc
     in if child2 \<noteq> 0 then rb_set_parent_color s child2 par RB_BLACK else s)"

lemma set_parent_reads:
  assumes "rep s x (ptr_of t) t" "t \<noteq> Leaf" "4 dvd x" "4 dvd y"
  shows "rb_color s (ptr_of t) OR y = y + (pc_of s (ptr_of t) - x)"
  using assms by (cases t) (auto simp: rb_color_def)

lemma unlink_writes:
  assumes z: "zrep s k (Node c l x r)" and lr: "l \<noteq> Leaf" "r \<noteq> Leaf" "lmin r = Node cy Leaf y yr"
    and s': "s' = put_in (take_out s r y (ptr_of yr)) x y (ptr_of l) (cpar (lpath r @ [RF Red l y])) (pc_of s x) (ptr_of yr) (cpar k)"
  shows "crep s' y k" "unlinked s s' l x r y yr"
proof -
  have d: "distinct (inorder l @ x # inorder r @ cnodes k)" and al: "x \<noteq> 0" "4 dvd x" "pc_of s x = cpar k + cbit c"
    and rp: "rep s x (ptr_of l) l" "rep s x (ptr_of r) r" and cr: "crep s x k"
    using z rep_ptr [of s x "left_of s x" l] rep_ptr [of s x "right_of s x" r] by (auto simp: zrep_def)
  have ry: "y \<noteq> 0" "4 dvd y" "rep s y (right_of s y) yr" and y: "y \<in> set (inorder r)" "set (inorder yr) \<subseteq> set (inorder r)"
    using rep_lmin [OF rp(2) lr(2,3)] lmin_sub [of r] lr(3) by auto
  have q: "lpath r \<noteq> [] \<Longrightarrow> cpar (lpath r) \<in> set (inorder r) \<and> cpar (lpath r) \<noteq> y"
    using lpath_sub [of "hd (lpath r)" r] lpath_lmin [of "hd (lpath r)" r] d lr(3) by (cases "lpath r") auto
  have pl: "ptr_of l \<in> set (inorder l)" "ptr_of r \<in> set (inorder r)" "yr \<noteq> Leaf \<Longrightarrow> ptr_of yr \<in> set (inorder yr)"
    using lr ptr_in by auto
  have root: "lpath r = [] \<Longrightarrow> ptr_of r = y"
    using lpath_Nil [of r] lr(3) by (metis ptr_of.simps(2))
  define par where "par = cpar (lpath r @ [RF Red l y])"
  have par: "4 dvd par" "ptr_of yr \<noteq> 0 \<longleftrightarrow> yr \<noteq> Leaf"
    using q rep_nonzero [OF rp(2)] ry rep_nonzero [OF ry(3)] pl(3) by (cases "lpath r"; cases yr; auto simp: par_def)+
  define s1 where "s1 = take_out s r y (ptr_of yr)"
  have s1: "left_of s1 v = (if lpath r \<noteq> [] \<and> v = cpar (lpath r) then ptr_of yr else left_of s v)"
    "right_of s1 v = (if lpath r \<noteq> [] \<and> v = y then ptr_of r else right_of s v)"
    "pc_of s1 v = (if lpath r \<noteq> [] \<and> v = ptr_of r then y + (pc_of s v - x) else pc_of s v)" "rb_root s1 = rb_root s" for v
    using set_parent_reads [OF rp(2) lr(2) al(2) ry(2)] by (auto simp: s1_def take_out_def rb_color_def)
  define s2 where "s2 = rb_set_parent (set_left s1 y (ptr_of l)) (ptr_of l) y"
  have "ptr_of l \<noteq> ptr_of r"
    using pl d by auto
  then have s2: "left_of s2 v = (if v = y then ptr_of l else left_of s1 v)" "right_of s2 v = right_of s1 v"
    "pc_of s2 v = (if v = ptr_of l then y + (pc_of s v - x) else pc_of s1 v)" "rb_root s2 = rb_root s" for v
    using set_parent_reads [OF rp(1) lr(1) al(2) ry(2)] by (auto simp: s2_def s1 rb_color_def)
  have e: "s' = (let s = set_pc (rb_change_child s2 x y (cpar k)) y (pc_of s x) in if yr \<noteq> Leaf then rb_set_parent_color s (ptr_of yr) par RB_BLACK else s)"
    using s' par(2) by (simp add: put_in_def s2_def s1_def par_def Let_def)
  have "crep s2 x k"
    by (rule crep_keep [OF cr]) (use d y q pl in \<open>auto simp: s2 s1\<close>)
  then have "crep (rb_change_child s2 x y (cpar k)) y k"
    using al d by (intro change_child_crep) auto
  then show "crep s' y k"
    by (rule crep_keep) (use d y pl in \<open>auto simp: e Let_def\<close>)
  show "unlinked s s' l x r y yr"
    unfolding unlinked_def
  proof (intro ballI)
    fix v assume v: "v \<in> set (inorder l) \<union> set (inorder r)"
    then have "v \<noteq> cpar k"
      using d cpar_in [of k] rep_nonzero [OF rp(1)] rep_nonzero [OF rp(2)] by auto
    moreover have "yr \<noteq> Leaf \<Longrightarrow> ptr_of yr \<noteq> y"
      using lmin_distinct [of r] lr(3) pl(3) d by auto
    ultimately show "left_of s' v = (if v = y then ptr_of l else if lpath r \<noteq> [] \<and> v = cpar (lpath r) then ptr_of yr else left_of s v) \<and>
      right_of s' v = (if v = y \<and> lpath r \<noteq> [] then ptr_of r else right_of s v) \<and>
      pc_of s' v = (if v = y then pc_of s x else if yr \<noteq> Leaf \<and> v = ptr_of yr then cpar (lpath r @ [RF Red l y]) + cbit Black
        else if v = ptr_of l \<or> v = ptr_of r then y + (pc_of s v - x) else pc_of s v)"
      using par(1) root unfolding e Let_def par_def [symmetric] by (auto simp: change_child_reads s2 s1)
  qed
qed

subsection \<open>Erasing a node\<close>

text \<open>What \<open>__rb_erase_augmented\<close> leaves: a balanced tree, or one that lacks a black node at an empty place \<open>K\<close>.\<close>

definition raw_ok :: "rb_tree \<Rightarrow> nat \<Rightarrow> nat list \<Rightarrow> bool" where
  "raw_ok s x xs \<longleftrightarrow> (\<exists>rb s' K u. rb_erase_augmented_raw s x = Some (rb, s') \<and> zrep s' K u \<and> inorder (zip_up K u) = xs \<and>
     (rb = 0 \<and> rb_ok (zip_up K u) \<or> rb = cpar K \<and> rb \<noteq> 0 \<and> K \<noteq> [] \<and> u = Leaf \<and> dinv K Leaf))"

lemma raw_okI:
  assumes "rb_erase_augmented_raw s x = Some (if short then cpar K else 0, s')" "zrep s' K u" "inorder (zip_up K u) = xs"
    "\<not> short \<Longrightarrow> rb_ok (zip_up K u)" "short \<Longrightarrow> u = Leaf \<and> kinv K (Suc 0)"
  shows "raw_ok s x xs"
proof (cases "short \<and> K \<noteq> []")
  case True
  then have "cpar K \<noteq> 0"
    using assms(2) by (cases K; cases "hd K") (auto simp: zrep_def)
  with True assms show ?thesis
    unfolding raw_ok_def by (intro exI [of _ "cpar K"] exI [of _ s'] exI [of _ K] exI [of _ u]) (auto simp: dinv_def)
next
  case False
  then have "rb_ok (zip_up K u)"
    using assms(4,5) by (cases short) (auto simp: rb_ok_def)
  with False assms show ?thesis
    unfolding raw_ok_def by (intro exI [of _ 0] exI [of _ s'] exI [of _ K] exI [of _ u]) auto
qed

lemma bh_zero: "rb_inv t \<Longrightarrow> bh t = 0 \<Longrightarrow> t = Leaf \<or> is_red_t t"
  by (cases t rule: is_red_t.cases) auto

lemma erase_raw_one:
  assumes z: "zrep s k (Node c l x r)" and ok: "rb_ok (zip_up k (Node c l x r))" and lr: "l = Leaf \<or> r = Leaf"
  shows "raw_ok s x (kleft k @ inorder l @ inorder r @ kright k)"
proof -
  define u where "u = (if l = Leaf then r else l)"
  have u: "l = Leaf \<and> u = r \<or> r = Leaf \<and> u = l"
    using lr by (auto simp: u_def)
  define s' where "s' = (if u = Leaf then rb_change_child s x (ptr_of u) (cpar k)
    else set_pc (rb_change_child s x (ptr_of u) (cpar k)) (ptr_of u) (pc_of s x))"
  note z' = unlink_one [OF z u, folded s'_def]
  have al: "pc_of s x = cpar k + cbit c" "4 dvd cpar k" and rp: "rep s x (left_of s x) l" "rep s x (right_of s x) r"
    using z crep_dvd by (auto simp: zrep_def)
  have ptr: "left_of s x = ptr_of l" "right_of s x = ptr_of r" "ptr_of l = 0 \<longleftrightarrow> l = Leaf" "ptr_of r = 0 \<longleftrightarrow> r = Leaf"
    using rep_ptr [OF rp(1)] rep_ptr [OF rp(2)] rp by (cases l; cases r; auto)+
  have k: "kinv k (bh (Node c l x r))" "rb_inv (Node c l x r)" "c = Red \<Longrightarrow> top_black k"
    using ok by (auto simp: rb_ok_zip)
  have red: "u \<noteq> Leaf \<Longrightarrow> is_red_t u \<and> c = Black"
    using k(2) u bh_zero [of u] by (cases c) auto
  have "rb_erase_augmented_raw s x = Some (if u = Leaf \<and> c = Black then cpar k else 0, s')"
    using al ptr u red
    by (cases "l = Leaf"; cases "r = Leaf") (auto simp: rb_erase_augmented_raw_def s'_def u_def Let_def change_child_pc)
  moreover have "rb_ok (zip_up k (paint c u))" if "\<not> (u = Leaf \<and> c = Black)"
    using that k red u unfolding rb_ok_zip by (cases "u = Leaf"; cases c; auto)
  moreover have "kinv k (Suc 0)" if "u = Leaf" "c = Black"
    using that k(1) u by auto
  ultimately show ?thesis
    using z' u by (intro raw_okI [where short = "u = Leaf \<and> c = Black" and K = k and u = "paint c u"]) (auto simp: inorder_zip)
qed

lemma rep_lmin_black:
  "rep s q p t \<Longrightarrow> 4 dvd q \<Longrightarrow> lmin t = Node c Leaf y r \<Longrightarrow> pc_is_black (pc_of s y) \<longleftrightarrow> c = Black"
  by (induction t arbitrary: q p rule: lpath.induct) auto

lemma erase_raw_writes:
  assumes z: "zrep s k (Node c l x r)" and lr: "l \<noteq> Leaf" "r \<noteq> Leaf" "lmin r = Node cy Leaf y yr"
    and s': "s' = put_in (take_out s r y (ptr_of yr)) x y (ptr_of l) (cpar (lpath r @ [RF Red l y])) (pc_of s x) (ptr_of yr) (cpar k)"
  shows "rb_erase_augmented_raw s x = Some (if yr = Leaf \<and> cy = Black then cpar (lpath r @ [RF Red l y]) else 0, s')"
proof -
  have d: "distinct (inorder l @ x # inorder r @ cnodes k)" and al: "x \<noteq> 0" "4 dvd x" "pc_of s x = cpar k + cbit c" "4 dvd cpar k"
    and rp: "rep s x (ptr_of l) l" "rep s x (ptr_of r) r" and ch: "left_of s x = ptr_of l" "right_of s x = ptr_of r" "ptr_of l \<noteq> 0" "ptr_of r \<noteq> 0"
    using z rep_ptr [of s x "left_of s x" l] rep_ptr [of s x "right_of s x" r] lr crep_dvd by (cases l; cases r; auto simp: zrep_def)+
  have ry: "rep s y (right_of s y) yr" "y \<in> set (inorder r)" "pc_is_black (pc_of s y) \<longleftrightarrow> cy = Black" "right_of s y = ptr_of yr"
    "ptr_of yr \<noteq> 0 \<longleftrightarrow> yr \<noteq> Leaf"
    using rep_lmin [OF rp(2) lr(2,3)] lmin_sub [of r] lr(3) rep_lmin_black [OF rp(2) al(2) lr(3)] rep_ptr [of s y "right_of s y" yr]
    by (cases yr; auto)+
  have yl: "y \<noteq> ptr_of l" "x \<noteq> y" "x \<noteq> ptr_of l" "x \<noteq> ptr_of r"
    using ry(2) d ptr_in [OF lr(1)] ptr_in [OF lr(2)] by auto
  show ?thesis
  proof (cases "lpath r")
    case Nil
    then have "ptr_of r = y" "left_of s y = 0"
      using lpath_Nil [of r] lr(3) rep_lmin [OF rp(2) lr(2,3)] by (metis ptr_of.simps(2), simp)
    then show ?thesis
      using Nil ch al ry yl unfolding s'
      by (simp add: rb_erase_augmented_raw_def put_in_def take_out_def Let_def change_child_reads)
  next
    case (Cons f fs)
    then obtain cr rl rr where r: "r = Node cr rl (ptr_of r) rr" "rl \<noteq> Leaf"
      by (cases r rule: lpath.cases) auto
    have "rep s (ptr_of r) (left_of s (ptr_of r)) rl" "left_of s (ptr_of r) \<noteq> 0"
      using rp(2) r by (metis rep.simps(2), metis ptr_in rep.simps(2) rep_nonzero rep_ptr)
    with leftmost_walk [OF this(1) r(2)]
    have "rb_leftmost s (ptr_of r) (left_of s (ptr_of r)) = Some (cpar (lpath rl @ [LF Red (ptr_of r) Leaf]), ptr_of (lmin rl))"
      by simp
    moreover have "cpar (lpath rl @ [LF Red (ptr_of r) Leaf]) = cpar (lpath r)" "lmin rl = lmin r"
      using r by (cases rl; cases "lpath rl"; metis lpath.simps(1) lmin.simps(1) append.simps cpar.simps(2) fnode.simps(1))+
    moreover have "x \<noteq> cpar (lpath r)" "y \<noteq> ptr_of r" "cpar (lpath r @ [RF Red l y]) = cpar (lpath r)"
      using lpath_sub [of f r] lpath_root [OF _ Cons] Cons d lr(3) by auto
    ultimately show ?thesis
      using Cons ch al ry yl lr(3) \<open>left_of s (ptr_of r) \<noteq> 0\<close> unfolding s'
      by (simp add: rb_erase_augmented_raw_def put_in_def take_out_def Let_def change_child_reads)
  qed
qed

lemma kinv_rename: "kinv (a @ RF c l x # k) n \<longleftrightarrow> kinv (a @ RF c l y # k) n"
proof -
  have "top_black (a @ RF c l x # k) \<longleftrightarrow> top_black (a @ RF c l y # k)" for a
    by (cases a) (simp_all add: top_black_def)
  then show ?thesis
    by (induction a arbitrary: n) auto
qed

lemma top_rename: "top_black (a @ RF c l x # k) \<longleftrightarrow> top_black (a @ RF c l y # k)"
  by (cases a) (simp_all add: top_black_def)

lemma erase_raw_two:
  assumes z: "zrep s k (Node c l x r)" and ok: "rb_ok (zip_up k (Node c l x r))" and lr: "l \<noteq> Leaf" "r \<noteq> Leaf"
  shows "raw_ok s x (kleft k @ inorder l @ inorder r @ kright k)"
proof -
  obtain cy y yr where m: "lmin r = Node cy Leaf y yr"
    using lmin_Node [OF lr(2)] by blast
  define s' where "s' = put_in (take_out s r y (ptr_of yr)) x y (ptr_of l) (cpar (lpath r @ [RF Red l y])) (pc_of s x) (ptr_of yr) (cpar k)"
  let ?K = "lpath r @ RF c l y # k"
  have zip: "zip_up ?K t = zip_up k (Node c l y (lput r t))" "zip_up k (Node c l x r) = zip_up (lpath r @ RF c l x # k) (lmin r)" for t
    using zip_lpath [OF lr(2)] lput_lmin [of r] by (simp_all add: zip_append)
  have z': "zrep s' ?K (paint Black yr)"
    using unlink_two [OF z lr m unlink_writes [OF z lr m s'_def]] by (simp only: zrep_zip zip)
  have io: "inorder (zip_up ?K (paint Black yr)) = kleft k @ inorder l @ inorder r @ kright k"
    using inorder_lmin [OF m] inorder_lput [OF m] by (simp add: zip(1) inorder_zip)
  have inv: "kinv ?K (bh (lmin r))" "rb_inv (lmin r)" "is_red_t (lmin r) \<Longrightarrow> top_black ?K"
    using ok unfolding zip(2) rb_ok_zip kinv_rename [of _ c l x k _ y] top_rename [of _ c l x k y] by auto
  have red: "yr \<noteq> Leaf \<Longrightarrow> is_red_t yr \<and> cy = Black"
    using inv(2) bh_zero [of yr] m by (cases cy) auto
  have "rb_ok (zip_up ?K (paint Black yr))" if "\<not> (yr = Leaf \<and> cy = Black)"
    unfolding rb_ok_zip using that inv m red by (cases "yr = Leaf"; cases cy) auto
  moreover have "kinv ?K (Suc 0)" if "yr = Leaf" "cy = Black"
    using that inv(1) m by simp
  moreover have "cpar (lpath r @ [RF Red l y]) = cpar ?K"
    by (cases "lpath r") simp_all
  ultimately show ?thesis
    using erase_raw_writes [OF z lr m s'_def] z' io
    by (intro raw_okI [where short = "yr = Leaf \<and> cy = Black" and K = ?K and u = "paint Black yr"]) auto
qed

lemma erase_ok:
  assumes rep: "rb_rep s t" and ok: "rb_ok t" and x: "x \<in> set (inorder t)"
  shows "\<exists>s' t'. rb_erase s x = Some s' \<and> rb_rep s' t' \<and> rb_ok t' \<and> inorder t' = remove1 x (inorder t)"
proof -
  obtain k c l r where t: "t = zip_up k (Node c l x r)"
    using zipper_at [OF x, of "[]"] by auto
  have z: "zrep s k (Node c l x r)"
    using rep t by (simp add: zrep_zip)
  have "distinct (inorder t)"
    using rep by (simp add: rb_rep_def zrep_def)
  then have io: "remove1 x (inorder t) = kleft k @ inorder l @ inorder r @ kright k"
    by (auto simp: t inorder_zip remove1_append)
  have "raw_ok s x (remove1 x (inorder t))"
    unfolding io using erase_raw_one [OF z] erase_raw_two [OF z] ok t by auto
  then obtain rb s1 K u where raw: "rb_erase_augmented_raw s x = Some (rb, s1)" "zrep s1 K u" "inorder (zip_up K u) = remove1 x (inorder t)"
    "rb = 0 \<and> rb_ok (zip_up K u) \<or> rb = cpar K \<and> rb \<noteq> 0 \<and> K \<noteq> [] \<and> u = Leaf \<and> dinv K Leaf"
    unfolding raw_ok_def by blast
  from raw(4) show ?thesis
  proof (elim disjE conjE)
    assume "rb = 0" "rb_ok (zip_up K u)"
    with raw(1-3) show ?thesis
      by (auto simp: rb_erase_def zrep_zip)
  next
    assume "rb = cpar K" "rb \<noteq> 0" "K \<noteq> []" "u = Leaf" "dinv K Leaf"
    with raw(1-3) erase_loop_ok [of s1 K Leaf] show ?thesis
      by (simp add: rb_erase_def rb_erase_color_def)
  qed
qed

text \<open>C13: Deletion from a red-black tree. When the store holds a tree that satisfies the red-black invariant, \<open>rb_erase\<close> of one of
  its nodes ends, and the store then holds a tree that satisfies the invariant again and whose in-order sequence
  is the old one without the node.\<close>

theorem rb_erase_correct:
  assumes "rb_rep s t" "rb_ok t" "x \<in> set (inorder t)"
  shows "\<exists>s' t'. rb_erase s x = Some s' \<and> rb_rep s' t' \<and> rb_ok t' \<and> inorder t' = remove1 x (inorder t)"
  using erase_ok [OF assms] .

text \<open>Three black nodes: the leaf 4 leaves a black node short, and the sibling 12 has no red child.\<close>

definition erase_example :: rb_tree where
  "erase_example = \<lparr>cells = (\<lambda>_. \<lparr>rb_pc = 0, rb_right = 0, rb_left = 0\<rparr>)
     (8 := \<lparr>rb_pc = 1, rb_right = 12, rb_left = 4\<rparr>, 4 := \<lparr>rb_pc = 9, rb_right = 0, rb_left = 0\<rparr>,
      12 := \<lparr>rb_pc = 9, rb_right = 0, rb_left = 0\<rparr>), rb_root = 8\<rparr>"

theorem rb_erase_correct_witness:
  "\<exists>s' t'. rb_erase erase_example 4 = Some s' \<and> rb_rep s' t' \<and> rb_ok t' \<and> inorder t' = [8, 12]"
  using rb_erase_correct [of erase_example "Node Black (Node Black Leaf 4 Leaf) 8 (Node Black Leaf 12 Leaf)" 4]
  by (simp add: erase_example_def rb_rep_def zrep_def rb_ok_def left_of_def right_of_def cbit.simps RB_RED_def RB_BLACK_def del: RB_consts)

end
