(* ===== verification/Dir_Remove.thy ===== *)
theory Dir_Remove
  imports Dir_Log Rb_Erase
begin

text \<open>
  Removing an entry from a directory. \<open>dir_remove_entry\<close> takes the entry out of the index, links its
  predecessor on the media (the entry before it, or the head in the inode) past it, returns its slot to the bitmap,
  unlinks it from the list in memory and returns the object to the pool. Together with \<open>dir_append_entry\<close> this
  makes the directory a log whose invariant \<open>dir_ok\<close> every change keeps.
\<close>

subsection \<open>The index\<close>

lemma index_erase_ok:
  assumes ix: "dir_index s dir es" and d: "d \<in> set es"
  shows "\<exists>tr. rb_erase (rb_of s dir) d = Some tr \<and> dir_index (put_rb s dir tr) dir (remove1 d es)"
proof -
  obtain t where t: "rb_rep (rb_of s dir) t" "rb_ok t" "inorder t = es" and so: "sorted_wrt (<) (map (hash_of s) es)"
    using ix by (auto simp: dir_index_def)
  from erase_ok [OF t(1,2), of d] d t(3) obtain tr t' where tr: "rb_erase (rb_of s dir) d = Some tr" "rb_rep tr t'"
    "rb_ok t'" "inorder t' = remove1 d es" by auto
  have "distinct (map (hash_of s) es)"
    using so by (simp add: strict_sorted_iff)
  then have "sorted_wrt (<) (map (hash_of s) (remove1 d es))"
    using sorted_filter_hash [OF so, of "\<lambda>x. d \<noteq> x"] by (simp add: distinct_map distinct_remove1_removeAll removeAll_filter_not_eq)
  with tr show ?thesis
    by (auto simp: dir_index_def)
qed

lemma dir_index_distinct: "dir_index s dir es \<Longrightarrow> distinct es"
  by (auto simp: dir_index_def strict_sorted_iff distinct_map)

subsection \<open>The chain\<close>

text \<open>Linking the predecessor past a slot takes the slot out of the chain.\<close>

lemma log_chain_skip:
  assumes "log_chain nx cur (is @ i # js) ghost" "distinct (is @ i # js)"
  shows "nx i = hd (js @ [ghost])" "cur = hd (is @ [i])"
    and "is = [] \<Longrightarrow> log_chain (nx(i := v)) (nx i) js ghost"
    and "is \<noteq> [] \<Longrightarrow> log_chain (nx(last is := nx i, i := v)) cur (is @ js) ghost"
proof -
  have c: "log_chain nx cur is i" "log_chain nx (nx i) js ghost"
    using assms(1) by (auto simp: log_chain_append)
  show "nx i = hd (js @ [ghost])" "cur = hd (is @ [i])"
    using c by (cases js; simp; fail) (use c in \<open>cases "is"; simp\<close>)
  show "log_chain (nx(i := v)) (nx i) js ghost"
    using c(2) assms(2) log_chain_cong [of js "nx(i := v)" nx "nx i" ghost] by fastforce
  assume "is \<noteq> []"
  then obtain ks k where k: "is = ks @ [k]"
    by (cases "is" rule: rev_cases) auto
  let ?nx = "nx(k := nx i, i := v)"
  have "log_chain ?nx cur ks k"
    using c(1) k assms(2) log_chain_cong [of ks ?nx nx cur k] by (fastforce simp: log_chain_append)
  moreover have "log_chain ?nx (nx i) js ghost"
    using c(2) k assms(2) log_chain_cong [of js ?nx nx "nx i" ghost] by fastforce
  ultimately show "log_chain (nx(last is := nx i, i := v)) cur (is @ js) ghost"
    using k assms(2) by (simp add: log_chain_append)
qed

subsection \<open>The removal\<close>

text \<open>The slots of the directory table after the removal: \<open>i\<close> is the slot of the entry, \<open>ps\<close> the slots of the
  entries before it, \<open>nx\<close> the slot of the next entry or the ghost slot.\<close>

definition unlink_pds :: "(nat \<Rightarrow> pm_dirent) \<Rightarrow> index_t list \<Rightarrow> index_t \<Rightarrow> index_t \<Rightarrow> nat \<Rightarrow> pm_dirent" where
  "unlink_pds pds ps i nx =
    (let pds = (if ps = [] then pds else pds(nat (last ps) := (pds (nat (last ps)))\<lparr>pd_next := nx\<rparr>))
     in pds(nat i := (pds (nat i))\<lparr>pd_next := 0\<rparr>))"

lemma unlink_pds_keeps:
  "pd_ino (unlink_pds pds ps i nx j) = pd_ino (pds j)" "pd_name (unlink_pds pds ps i nx j) = pd_name (pds j)"
  "pd_name_len (unlink_pds pds ps i nx j) = pd_name_len (pds j)"
  by (auto simp: unlink_pds_def Let_def)

lemma unlink_pds_next:
  "pd_next (unlink_pds pds ps i nx j) =
    (if j = nat i then 0 else if ps \<noteq> [] \<and> j = nat (last ps) then nx else pd_next (pds j))"
  by (auto simp: unlink_pds_def Let_def)

definition slot_after :: "fs \<Rightarrow> nat \<Rightarrow> nat list \<Rightarrow> index_t" where
  "slot_after s dir ys = (if ys = [] then ghost_slot (inode_mem s dir) else slot_of s (hd ys))"

definition unlink_state :: "fs \<Rightarrow> nat \<Rightarrow> nat list \<Rightarrow> nat \<Rightarrow> nat list \<Rightarrow> rb_tree \<Rightarrow> fs" where
  "unlink_state s dir xs d ys tr =
    (let i = inode_mem s dir; nx = slot_after s dir ys
     in s\<lparr>rb_mem := cells tr,
        inode_mem := (inode_mem s)(dir := i\<lparr>i_rb_root := rb_root tr,
          log_head := if xs = [] then nx else log_head i, entry_num := size_sub (entry_num i) 1\<rparr>),
        media := (media s)\<lparr>
          pm_inodes := (if xs = [] then (pm_inodes (media s))(i_ino i := (pm_inodes (media s) (i_ino i))\<lparr>pi_log_head := nx\<rparr>)
            else pm_inodes (media s)),
          pm_dirents := unlink_pds (pm_dirents (media s)) (map (slot_of s) xs) (slot_of s d) nx\<rparr>,
        maps := slot_dirent_free (maps s) (slot_of s d),
        lists := set_next (list_del (lists s) d) d (pool_top (entry_pool s)), entry_pool := d # entry_pool s\<rparr>)"

lemma dir_ok_head:
  assumes "dir_ok s dir (xs @ d # ys)"
  shows "log_head (inode_mem s dir) = slot_of s d \<longleftrightarrow> xs = []"
proof -
  have "log_chain (dirent_next s) (log_head (inode_mem s dir)) (map (slot_of s) xs @ slot_of s d # map (slot_of s) ys)
      (ghost_slot (inode_mem s dir))" "distinct (map (slot_of s) xs @ slot_of s d # map (slot_of s) ys)"
    using assms by (auto simp: dir_ok_def dir_slots_ok_def)
  from log_chain_skip(2) [OF this] this(2) show ?thesis
    by (cases xs) auto
qed

lemma remove_entry_eq:
  assumes ok: "dir_ok s dir (xs @ d # ys)" and shm: "\<forall>p\<in>set (dir # xs @ ys). SHM_BASE \<le> p"
    and ino: "i_ino (inode_mem s dir) < slot_num (slots_of s SLOT_INODE)"
    and tr: "rb_erase (rb_of s dir) d = Some tr"
  shows "dir_remove_entry s dir d = Some (unlink_state s dir xs d ys tr)"
proof -
  have l: "lprev (lists s) d = last (dir # xs)" "lnext (lists s) d = hd (ys @ [dir])"
    using dll_split [of "lists s" dir xs d ys] ok by (simp_all add: dir_ok_def)
  have nb: "last (dir # xs) \<in> set (dir # xs @ ys)" "hd (ys @ [dir]) \<in> set (dir # xs @ ys)"
    using last_in_set [of "dir # xs"] hd_in_set [of "ys @ [dir]"] by auto
  then have de: "deref (last (dir # xs)) = Some ()" "deref (hd (ys @ [dir])) = Some ()"
    using bspec [OF shm nb(1)] bspec [OF shm nb(2)] unfolding deref_def by (simp_all only: not_less [symmetric] if_False)
  have nin: "dir \<notin> set (xs @ d # ys)"
    using ok by (auto simp: dir_ok_def dll_def)
  then have n: "hd (ys @ [dir]) = dir \<longleftrightarrow> ys = []" "ys \<noteq> [] \<Longrightarrow> hd (ys @ [dir]) = hd ys"
    "xs \<noteq> [] \<Longrightarrow> last (dir # xs) \<noteq> dir" "xs \<noteq> [] \<Longrightarrow> last (dir # xs) = last xs"
    by (cases ys; cases xs rule: rev_cases; auto)+
  have so: "dir_slots_ok s (map (slot_of s) (xs @ d # ys) @ [ghost_slot (inode_mem s dir)])"
    using ok by (simp add: dir_ok_def)
  have it: "0 \<le> slot_of s d \<and> slot_of s d < int (slot_num (slots_of s SLOT_DIR))"
    "xs \<noteq> [] \<Longrightarrow> 0 \<le> slot_of s (last xs) \<and> slot_of s (last xs) < int (slot_num (slots_of s SLOT_DIR))"
    using dir_slot_in_table [OF so, of "slot_of s d"] dir_slot_in_table [OF so, of "slot_of s (last xs)"]
    by (auto simp: in_table_def split: if_splits)
  show ?thesis
  proof (cases "xs = []")
    case True
    with de n(1,2) it(1) ino tr l dir_ok_head [OF ok] show ?thesis
      by (cases "ys = []") (simp_all add: dir_remove_entry_def Let_def put_rb_def upd_inode_def upd_pm_inode_def upd_pm_dirent_def
          in_table_def dirent_free_def entry_free_def pool_free_def unlink_state_def unlink_pds_def slot_after_def)
  next
    case False
    with de n it tr l dir_ok_head [OF ok] show ?thesis
      by (cases "ys = []") (simp_all add: dir_remove_entry_def Let_def put_rb_def upd_inode_def upd_pm_inode_def upd_pm_dirent_def
          in_table_def dirent_free_def entry_free_def pool_free_def unlink_state_def unlink_pds_def slot_after_def last_map)
  qed
qed


lemma unlink_slots:
  assumes so: "dir_slots_ok s (is @ i # js)"
  shows "used_slots (slot_dirent_free (maps s) i SLOT_DIR) = used_slots (maps s SLOT_DIR) - {nat i}"
    and "dir_slots_ok (s\<lparr>maps := slot_dirent_free (maps s) i\<rparr>) (is @ js)"
proof -
  have wf: "wf_maps MAP_NUM (maps s SLOT_DIR)" "0 \<le> i" "nat i \<in> used_slots (maps s SLOT_DIR)"
    using so by (auto simp: dir_slots_ok_def)
  note f = sa.free_used [OF wf]
  show "used_slots (slot_dirent_free (maps s) i SLOT_DIR) = used_slots (maps s SLOT_DIR) - {nat i}"
    using f by (simp add: slot_dirent_free_def)
  show "dir_slots_ok (s\<lparr>maps := slot_dirent_free (maps s) i\<rparr>) (is @ js)"
    using so f by (auto simp: dir_slots_ok_def slot_dirent_free_def eq_nat_nat_iff)
qed

text \<open>The end state satisfies the invariant again.\<close>

lemma unlink_chain:
  assumes c: "log_chain (dirent_next s) cur (is @ i # js) ghost" "distinct (is @ i # js)" "\<forall>k\<in>set (is @ i # js). 0 \<le> k"
    and pds: "pm_dirents (media s') = unlink_pds (pm_dirents (media s)) is i (hd (js @ [ghost]))"
  shows "log_chain (dirent_next s') (if is = [] then hd (js @ [ghost]) else cur) (is @ js) ghost"
proof -
  note k = log_chain_skip(1) [OF c(1,2)] log_chain_skip(3,4) [OF c(1,2), where v = 0]
  let ?nx = "if is = [] then (dirent_next s)(i := 0) else (dirent_next s)(last is := dirent_next s i, i := 0)"
  have "dirent_next s' j = ?nx j" if "j \<in> set (is @ js)" for j
    using that c(3) k(1) last_in_set [of "is"] by (auto simp: dirent_next_def pds unlink_pds_next eq_nat_nat_iff)
  then have "log_chain (dirent_next s') x (is @ js) ghost \<longleftrightarrow> log_chain ?nx x (is @ js) ghost" for x
    by (rule log_chain_cong)
  with k show ?thesis
    by (cases "is = []") (simp_all only: if_True if_False append_Nil simp_thms)
qed

lemma unlink_state_ok:
  assumes ok: "dir_ok s dir (xs @ d # ys)" and es: "set es = set (xs @ d # ys)" "distinct es"
    and ix: "dir_index (put_rb s dir tr) dir (remove1 d es)"
  shows "dir_ok (unlink_state s dir xs d ys tr) dir (xs @ ys)"
proof -
  let ?s = "unlink_state s dir xs d ys tr" and ?sl = "map (slot_of s)" and ?g = "ghost_slot (inode_mem s dir)"
  have dist: "distinct (dir # xs @ d # ys)" and ll: "dll (lists s) dir (xs @ d # ys)"
    using ok by (auto simp: dir_ok_def dll_def)
  have so: "dir_slots_ok s (?sl xs @ slot_of s d # (?sl ys @ [?g]))"
    using ok by (simp add: dir_ok_def)
  then have di: "distinct (?sl xs @ slot_of s d # ?sl ys)" "\<forall>k\<in>set (?sl xs @ slot_of s d # ?sl ys). 0 \<le> k"
    by (auto simp: dir_slots_ok_def)
  have nx: "slot_after s dir ys = hd (?sl ys @ [?g])"
    by (cases ys) (simp_all add: slot_after_def)
  have f: "lists ?s = set_next (list_del (lists s) d) d (pool_top (entry_pool s))" "entry_pool ?s = d # entry_pool s"
    "maps ?s = slot_dirent_free (maps s) (slot_of s d)" "ghost_slot (inode_mem ?s dir) = ?g"
    "log_head (inode_mem ?s dir) = (if ?sl xs = [] then hd (?sl ys @ [?g]) else log_head (inode_mem s dir))"
    "dirent_mem ?s = dirent_mem s" "slots_of ?s = slots_of s" "rb_of ?s dir = tr"
    "pm_dirents (media ?s) = unlink_pds (pm_dirents (media s)) (?sl xs) (slot_of s d) (hd (?sl ys @ [?g]))"
    by (simp_all add: unlink_state_def Let_def nx rb_of_def)
  have "dll (lists ?s) dir (xs @ ys)"
    unfolding f(1) by (rule dll_unlink [OF ll]) (auto simp: list_del_def list_del_between_cells Let_def)
  moreover have "pool_ok ?s dir (xs @ ys)"
  proof -
    obtain es' where "dir_index s dir es'" "set es' = set (xs @ d # ys)"
      using ok by (auto simp: dir_ok_def)
    with dir_index_nonzero [of s dir es' d] have "d \<noteq> 0" "4 dvd d" by auto
    with ok dist show ?thesis
      by (auto simp: dir_ok_def pool_ok_def f(2))
  qed
  moreover have "dir_index ?s dir (remove1 d es)" "set (remove1 d es) = set (xs @ ys)"
    using ix es dist f(6,8) by (auto simp: dir_index_cong [of ?s dir "put_rb s dir tr"])
  moreover have "log_chain (dirent_next ?s) (log_head (inode_mem ?s dir)) (?sl (xs @ ys)) ?g"
    unfolding f(5) map_append by (rule unlink_chain [OF _ di f(9)]) (use ok in \<open>simp add: dir_ok_def\<close>)
  moreover have "dir_slots_ok ?s (?sl (xs @ ys) @ [?g])"
    using unlink_slots(2) [OF so] by (simp add: dir_slots_ok_def f(3,7))
  moreover have "\<forall>x\<in>set (xs @ ys). on_media ?s x"
    using ok by (auto simp: dir_ok_def on_media_def f(6,9) unlink_pds_keeps Let_def)
  ultimately show ?thesis
    unfolding dir_ok_def f(4,6) by blast
qed

lemma remove_keeps:
  assumes ok: "dir_ok s dir (xs @ d # ys)" and shm: "\<forall>p\<in>set (dir # xs @ ys). SHM_BASE \<le> p"
    and ino: "i_ino (inode_mem s dir) < slot_num (slots_of s SLOT_INODE)"
  obtains tr where "dir_remove_entry s dir d = Some (unlink_state s dir xs d ys tr)"
    "dir_ok (unlink_state s dir xs d ys tr) dir (xs @ ys)"
proof -
  obtain es where es: "dir_index s dir es" "set es = set (xs @ d # ys)"
    using ok by (auto simp: dir_ok_def)
  then obtain tr where tr: "rb_erase (rb_of s dir) d = Some tr" "dir_index (put_rb s dir tr) dir (remove1 d es)"
    using index_erase_ok [OF es(1), of d] by auto
  show ?thesis
    by (rule that [OF remove_entry_eq [OF assms tr(1)] unlink_state_ok [OF ok es(2) dir_index_distinct [OF es(1)] tr(2)]])
qed

text \<open>Two entries of a directory never have the same hash, so a removal leaves no other entry under its hash.\<close>

lemma lookup_after_remove:
  assumes ok: "dir_ok s dir (xs @ d # ys)" "dir_ok s' dir (xs @ ys)" and h: "dirent_mem s' = dirent_mem s"
  shows "dirent_lookup s' dir k = (if k = hash_of s d then Some 0 else dirent_lookup s dir k)"
proof -
  have new: "hash_of s d \<notin> hash_of s ` set (xs @ ys)"
  proof
    assume "hash_of s d \<in> hash_of s ` set (xs @ ys)"
    then obtain e where "hash_of s d = hash_of s e" "e \<in> set (xs @ ys)" by (rule imageE)
    with dir_lookup_ok(1) [OF ok(1), of e] dir_lookup_ok(1) [OF ok(1), of d] have "d \<in> set (xs @ ys)" by simp
    moreover have "distinct (xs @ d # ys)"
      using ok(1) by (simp add: dir_ok_def dll_def)
    ultimately show False by simp
  qed
  consider "k = hash_of s d" | e where "e \<in> set (xs @ ys)" "k = hash_of s e" | "k \<notin> hash_of s ` set (xs @ d # ys)"
    unfolding image_iff by auto
  then show ?thesis
  proof cases
    case 1
    then show ?thesis
      using new dir_lookup_ok(2) [OF ok(2), of k] h by simp
  next
    case 2
    have "k \<noteq> hash_of s d"
    proof
      assume "k = hash_of s d"
      then have "hash_of s d = hash_of s e" using 2(2) by simp
      with new show False by (rule notE [OF _ image_eqI [OF _ 2(1)]])
    qed
    moreover have "e \<in> set (xs @ d # ys)"
      using 2(1) by auto
    ultimately show ?thesis
      using 2 dir_lookup_ok(1) [OF ok(1), of e] dir_lookup_ok(1) [OF ok(2), of e] h by simp
  next
    case 3
    then show ?thesis
      using dir_lookup_ok(2) [OF ok(1), of k] dir_lookup_ok(2) [OF ok(2), of k] h by (simp add: image_iff)
  qed
qed

subsection \<open>Properties\<close>

text \<open>C3: Removing an entry from a directory. On a directory that satisfies the invariant, whose inode and
  entries lie in the shared memory, \<open>dir_remove_entry\<close> of any entry ends and keeps the invariant
  for the remaining entries in their order: the chain on the media skips the slot of the entry (an entry that
  was the first is skipped by the head of the log, in memory and in the inode on the media), the list and the index
  no longer hold it. A lookup of its hash finds nothing, every other lookup gives what it gave, exactly the slot of
  the entry is free again, the object is at the top of the pool, and the entry count is one less.\<close>

theorem dir_remove_entry_correct:
  assumes "dir_ok s dir (xs @ d # ys)" "\<forall>p\<in>set (dir # xs @ ys). SHM_BASE \<le> p"
    and "i_ino (inode_mem s dir) < slot_num (slots_of s SLOT_INODE)"
  shows "\<exists>s'. dir_remove_entry s dir d = Some s' \<and> dir_ok s' dir (xs @ ys) \<and>
    (\<forall>k. dirent_lookup s' dir k = (if k = hash_of s d then Some 0 else dirent_lookup s dir k)) \<and>
    used_slots (maps s' SLOT_DIR) = used_slots (maps s SLOT_DIR) - {nat (slot_of s d)} \<and>
    entry_pool s' = d # entry_pool s \<and> entry_num (inode_mem s' dir) = size_sub (entry_num (inode_mem s dir)) 1 \<and>
    pi_log_head (pm_inodes (media s') (i_ino (inode_mem s dir))) =
      (if xs = [] then log_head (inode_mem s' dir) else pi_log_head (pm_inodes (media s) (i_ino (inode_mem s dir))))"
proof -
  obtain tr where tr: "dir_remove_entry s dir d = Some (unlink_state s dir xs d ys tr)"
    "dir_ok (unlink_state s dir xs d ys tr) dir (xs @ ys)"
    by (rule remove_keeps [OF assms])
  let ?s = "unlink_state s dir xs d ys tr"
  have "dir_slots_ok s (map (slot_of s) xs @ slot_of s d # (map (slot_of s) ys @ [ghost_slot (inode_mem s dir)]))"
    using assms(1) by (simp add: dir_ok_def)
  from unlink_slots(1) [OF this]
  have "used_slots (maps ?s SLOT_DIR) = used_slots (maps s SLOT_DIR) - {nat (slot_of s d)}"
    by (simp add: unlink_state_def Let_def)
  moreover have "dirent_mem ?s = dirent_mem s"
    by (simp add: unlink_state_def Let_def)
  note lookup_after_remove [OF assms(1) tr(2) this]
  moreover have "entry_pool ?s = d # entry_pool s" "entry_num (inode_mem ?s dir) = size_sub (entry_num (inode_mem s dir)) 1"
    "pi_log_head (pm_inodes (media ?s) (i_ino (inode_mem s dir))) =
      (if xs = [] then log_head (inode_mem ?s dir) else pi_log_head (pm_inodes (media s) (i_ino (inode_mem s dir))))"
    by (simp_all add: unlink_state_def Let_def)
  ultimately show ?thesis
    using tr by blast
qed


text \<open>A directory with the entries \<open>''a''\<close> and \<open>''b''\<close> in the slots 0 and 1, and ghost slot 2.\<close>

definition two_map :: dram_bitmap where
  "two_map = blank_map\<lparr>dram := (\<lambda>_. 0)(0 := 7), remain := 61, hint := 3\<rparr>"

definition two_example :: fs where
  "two_example = blank_fs\<lparr>inode_mem := (inode_mem blank_fs)(SHM_BASE := zero_inode\<lparr>i_ino := 5, entry_num := 2,
       i_rb_root := SHM_BASE + 8, log_head := 0, ghost_slot := 2\<rparr>),
     maps := \<lambda>_. [two_map],
     media := (media blank_fs)\<lparr>pm_dirents := (pm_dirents (media blank_fs))(
       0 := zero_pm_dirent\<lparr>pd_next := 1, pd_name := ''a'', pd_name_len := 1\<rparr>,
       1 := zero_pm_dirent\<lparr>pd_next := 2, pd_name := ''b'', pd_name_len := 1\<rparr>)\<rparr>,
     dirent_mem := (dirent_mem blank_fs)(SHM_BASE + 8 := (dirent_mem blank_fs 0)\<lparr>d_hash := 97\<rparr>,
       SHM_BASE + 16 := (dirent_mem blank_fs 0)\<lparr>d_hash := 98, d_idx := 1\<rparr>),
     rb_mem := (rb_mem blank_fs)(SHM_BASE + 8 := \<lparr>rb_pc = 1, rb_right = SHM_BASE + 16, rb_left = 0\<rparr>,
       SHM_BASE + 16 := \<lparr>rb_pc = SHM_BASE + 8, rb_right = 0, rb_left = 0\<rparr>),
     lists := \<lparr>lnext = (\<lambda>_. SHM_BASE)(SHM_BASE := SHM_BASE + 8, SHM_BASE + 8 := SHM_BASE + 16),
       lprev = (\<lambda>_. SHM_BASE)(SHM_BASE := SHM_BASE + 16, SHM_BASE + 16 := SHM_BASE + 8)\<rparr>\<rparr>"

lemma two_map_bits: "bit_at (dram two_map) i \<longleftrightarrow> i < 3"
proof (cases "i < 8")
  case True
  then have "i \<in> {0, 1, 2, 3, 4, 5, 6, 7}" by auto
  then show ?thesis by (auto simp: bit_at_def two_map_def bit_numeral_rec)
next
  case False
  then have "i div 8 \<noteq> 0" by auto
  with False show ?thesis by (simp add: bit_at_def two_map_def)
qed

lemma two_maps: "wf_maps MAP_NUM [two_map]" "used_slots [two_map] = {0, 1, 2}" "all_slots [two_map] = {0..<64}"
proof -
  have "{i. i < 64 \<and> \<not> i < 3} = {3..<64::nat}" by auto
  moreover have f: "bit_num two_map = 64" "bit_offset two_map = 0" "hint two_map = 3" "remain two_map = 61"
    by (simp_all add: two_map_def blank_map_def)
  ultimately show "wf_maps MAP_NUM [two_map]"
    by (simp add: wf_maps_def wf_bitmap_def MAP_NUM_def two_map_bits)
  show "used_slots [two_map] = {0, 1, 2}" "all_slots [two_map] = {0..<64}"
    by (auto simp: used_slots_def all_slots_def bitmap_slots_def two_map_bits f)
qed

lemma two_example_index: "dir_index two_example SHM_BASE [SHM_BASE + 8, SHM_BASE + 16]"
proof -
  have "rb_rep (rb_of two_example SHM_BASE) (Node Black Leaf (SHM_BASE + 8) (Node Red Leaf (SHM_BASE + 16) Leaf))"
    by (simp add: rb_rep_def zrep_def rb_of_def two_example_def left_of_def right_of_def cbit.simps
        RB_RED_def RB_BLACK_def SHM_BASE_def del: RB_consts)
  moreover have "rb_ok (Node Black Leaf (SHM_BASE + 8) (Node Red Leaf (SHM_BASE + 16) Leaf))"
    by (simp add: rb_ok_def)
  moreover have "sorted_wrt (<) (map (hash_of two_example) [SHM_BASE + 8, SHM_BASE + 16])"
    by (simp add: two_example_def)
  ultimately show ?thesis
    unfolding dir_index_def
    by (intro conjI exI [of _ "Node Black Leaf (SHM_BASE + 8) (Node Red Leaf (SHM_BASE + 16) Leaf)"]) simp_all
qed

lemma two_example_ok: "dir_ok two_example SHM_BASE [SHM_BASE + 8, SHM_BASE + 16]"
proof -
  have "dir_slots_ok two_example [0, 1, 2]"
    using two_maps by (simp add: dir_slots_ok_def two_example_def blank_fs_def blank_slot_def)
  moreover have "dll (lists two_example) SHM_BASE [SHM_BASE + 8, SHM_BASE + 16]"
    by (simp add: dll_def two_example_def)
  moreover have "on_media two_example (SHM_BASE + 8)" "on_media two_example (SHM_BASE + 16)"
    by (simp_all add: on_media_def two_example_def blank_fs_def zero_pm_dirent_def BKDRHash_def schar_def to_size_def)
  moreover have "slot_of two_example (SHM_BASE + 8) = 0" "slot_of two_example (SHM_BASE + 16) = 1"
    "log_head (inode_mem two_example SHM_BASE) = 0" "ghost_slot (inode_mem two_example SHM_BASE) = 2"
    "dirent_next two_example 0 = 1" "dirent_next two_example 1 = 2" "entry_pool two_example = []"
    by (simp_all add: two_example_def blank_fs_def dirent_next_def)
  ultimately show ?thesis
    using two_example_index unfolding dir_ok_def pool_ok_def by auto
qed

theorem dir_remove_entry_correct_witness:
  "\<exists>s'. dir_remove_entry two_example SHM_BASE (SHM_BASE + 8) = Some s' \<and> dir_ok s' SHM_BASE [SHM_BASE + 16] \<and>
    dirent_lookup s' SHM_BASE 97 = Some 0 \<and> used_slots (maps s' SLOT_DIR) = {1, 2}"
proof -
  have "SHM_BASE \<le> SHM_BASE + 16" "i_ino (inode_mem two_example SHM_BASE) < slot_num (slots_of two_example SLOT_INODE)"
    "hash_of two_example (SHM_BASE + 8) = 97" "slot_of two_example (SHM_BASE + 8) = 0" "maps two_example SLOT_DIR = [two_map]"
    by (simp_all add: two_example_def blank_fs_def blank_slot_def)
  with dir_remove_entry_correct [of two_example SHM_BASE "[]" "SHM_BASE + 8" "[SHM_BASE + 16]"] two_example_ok two_maps(2)
  show ?thesis by auto
qed

end
