(* ===== verification/Unlink.thy ===== *)
theory Unlink
  imports Dir_Remove Fs_Calls
begin

text \<open>
  Unlinking a file by its name: path resolution, the inode cache, the index, the log and the allocator of a
  directory and the release queue together.
\<close>

lemma dir_ok_cong:
  assumes "lists s' = lists s" "entry_pool s' = entry_pool s" "dirent_mem s' = dirent_mem s" "rb_mem s' = rb_mem s"
    "inode_mem s' dir = inode_mem s dir" "media s' = media s" "maps s' = maps s"
  shows "dir_ok s' dir ds \<longleftrightarrow> dir_ok s dir ds"
  using assms
  by (simp add: dir_ok_def pool_ok_def dir_index_def rb_of_def dir_slots_ok_def on_media_def Let_def dirent_next_def [abs_def])

lemma unlink_state_frame:
  "ilocked (unlink_state s dir xs d ys tr) = ilocked s" "rels (unlink_state s dir xs d ys tr) = rels s"
  "slots_of (unlink_state s dir xs d ys tr) = slots_of s"
  "i_ino (inode_mem (unlink_state s dir xs d ys tr) dir) = i_ino (inode_mem s dir)"
  "i_mode (inode_mem (unlink_state s dir xs d ys tr) dir) = i_mode (inode_mem s dir)"
  "q \<noteq> dir \<Longrightarrow> inode_mem (unlink_state s dir xs d ys tr) q = inode_mem s q"
  "dirent_mem (unlink_state s dir xs d ys tr) = dirent_mem s"
  by (simp_all add: unlink_state_def Let_def)

text \<open>The state at the end of a successful \<open>slotfs_unlink\<close>: \<open>t\<close> is the state after the removal of the entry, in
  which the locks of the parent \<open>p\<close> and of the file \<open>q\<close> are held.\<close>

definition unlinked_file :: "fs \<Rightarrow> nat \<Rightarrow> nat \<Rightarrow> fs" where
  "unlinked_file t p q =
    (let t = upd_inode t q (\<lambda>i. i\<lparr>i_link := size_sub (i_link i) 1\<rparr>);
         t = (if i_ref (inode_mem t q) = 0 \<and> i_link (inode_mem t q) = 0 then inode_release t q else t)
     in t\<lparr>ilocked := (ilocked t)(inum t q := False, inum t p := False)\<rparr>)"

lemma unlink_run:
  fixes y p q
  defines "s \<equiv> lock_held (lock_held (fsys y) (inum (fsys y) p)) (inum (fsys y) q)"
  assumes "cwd y = Inr p" "SHM_BASE \<le> p" "free_lock (fsys y) (inum (fsys y) p)" "plain_name name"
    and "inode_lookup (fsys y) p name = Some d" "SHM_BASE \<le> d" "d_ino (dirent_mem (fsys y) d) = inum (fsys y) q"
    and "inum (fsys y) q \<noteq> inum (fsys y) p" "free_lock (fsys y) (inum (fsys y) q)" "itable (fsys y) (inum (fsys y) q) = q" "q \<noteq> 0"
    and "\<not> is_dir (inode_mem (fsys y) q)"
    and t: "dir_remove_entry s p d = Some t" "slots_of t = slots_of s" "inum t p = inum s p" "inode_mem t q = inode_mem s q"
  shows "slotfs_unlink y name = Some (0, y\<lparr>fsys := unlinked_file t p q\<rparr>)"
proof -
  let ?s = "lock_held (fsys y) (inum (fsys y) p)"
  obtain nd where nd: "parent_lookup y name = Some (0, nd, y\<lparr>fsys := ?s\<rparr>)" "nd_parent nd = p" "nd_name nd = name"
    using parent_plain [OF assms(5,2-4)] by blast
  have l: "inode_lookup ?s p name = Some d"
    by (rule inode_lookup_same [OF assms(6)]) (simp_all add: lock_held_def)
  have g: "iget ?s (inum (fsys y) q) = Some (Inr q, s)"
    using assms(9-12) by (simp add: iget_def lock_held_eq free_lock_def lock_held_def s_def)
  have d: "d \<noteq> 0" "deref d = Some ()" "deref p = Some ()" "d_ino (dirent_mem ?s d) = inum (fsys y) q"
    using assms(3,7,8) by (simp_all add: deref_def SHM_BASE_def lock_held_def)
  have s: "inode_mem s = inode_mem (fsys y)" "slots_of s = slots_of (fsys y)"
    by (simp_all add: s_def lock_held_def)
  have "q \<noteq> p"
    using assms(9) by auto
  with nd l g d s assms(4,10,13) t show ?thesis
    by (simp add: slotfs_unlink_def Let_def inode_remove_def ino_of_def inode_unlock_def free_lock_def unlinked_file_def
        upd_inode_def inode_release_def)
qed

text \<open>C4: Unlinking a file. For a name of the current directory that leads to a cached file that is not a directory, with
  the directory satisfying its invariant and the two locks free, \<open>slotfs_unlink\<close> ends and returns 0; the directory
  satisfies its invariant with the entry taken out and the others in their order, the name is not found any more
  and every other name leads where it led; the link count of the file is one less, the file is queued for release
  exactly if no link and no reference is left, and the locks are as before.\<close>

theorem slotfs_unlink_file:
  assumes "cwd y = Inr p" "\<forall>a\<in>set (p # xs @ d # ys). SHM_BASE \<le> a" "free_lock (fsys y) (inum (fsys y) p)" "plain_name name"
    and "is_dir (inode_mem (fsys y) p)" "dir_ok (fsys y) p (xs @ d # ys)" "hash_of (fsys y) d = BKDRHash name"
    and "d_ino (dirent_mem (fsys y) d) = inum (fsys y) q" "inum (fsys y) q \<noteq> inum (fsys y) p"
    and "free_lock (fsys y) (inum (fsys y) q)" "itable (fsys y) (inum (fsys y) q) = q" "q \<noteq> 0" "\<not> is_dir (inode_mem (fsys y) q)"
  shows "\<exists>s. slotfs_unlink y name = Some (0, y\<lparr>fsys := s\<rparr>) \<and> dir_ok s p (xs @ ys) \<and>
    (\<forall>n. inode_lookup s p n = (if BKDRHash n = BKDRHash name then Some 0 else inode_lookup (fsys y) p n)) \<and>
    i_link (inode_mem s q) = size_sub (i_link (inode_mem (fsys y) q)) 1 \<and>
    rels s = (if i_ref (inode_mem (fsys y) q) = 0 \<and> i_link (inode_mem s q) = 0 then list_add (rels (fsys y)) q SBI else rels (fsys y)) \<and>
    ilocked s = ilocked (fsys y)"
proof -
  let ?y = "fsys y"
  let ?s = "lock_held (lock_held ?y (inum ?y p)) (inum ?y q)"
  have ok: "dir_ok ?s p (xs @ d # ys)"
    using assms(6) by (subst dir_ok_cong [of _ ?y]) (simp_all add: lock_held_def)
  have shm: "\<forall>a\<in>set (p # xs @ ys). SHM_BASE \<le> a" "SHM_BASE \<le> p" "SHM_BASE \<le> d"
    using assms(2) by simp_all
  have ino: "i_ino (inode_mem ?s p) < slot_num (slots_of ?s SLOT_INODE)"
    using assms(3) by (simp add: free_lock_def lock_held_def)
  obtain tr where tr: "dir_remove_entry ?s p d = Some (unlink_state ?s p xs d ys tr)"
    "dir_ok (unlink_state ?s p xs d ys tr) p (xs @ ys)"
    by (rule remove_keeps [OF ok shm(1) ino])
  let ?t = "unlink_state ?s p xs d ys tr" and ?e = "unlinked_file (unlink_state ?s p xs d ys tr) p q"
  have q: "q \<noteq> p"
    using assms(9) by auto
  note f = unlink_state_frame [where s = ?s and dir = p and xs = xs and d = d and ys = ys and tr = tr]
  have l: "inode_lookup ?y p name = Some d"
    using dir_lookup_ok(1) [OF assms(6), of d] assms(5,7) by (simp add: inode_lookup_def)
  have run: "slotfs_unlink y name = Some (0, y\<lparr>fsys := ?e\<rparr>)"
    by (rule unlink_run [OF assms(1) shm(2) assms(3,4) l shm(3) assms(8-13) tr(1)]) (use f(3,4) f(6) [OF q] in simp_all)
  have e: "lists ?e = lists ?t" "entry_pool ?e = entry_pool ?t" "dirent_mem ?e = dirent_mem ?t" "rb_mem ?e = rb_mem ?t"
    "inode_mem ?e p = inode_mem ?t p" "media ?e = media ?t" "maps ?e = maps ?t"
    using q by (simp_all add: unlinked_file_def Let_def upd_inode_def inode_release_def)
  have ok': "dir_ok ?e p (xs @ ys)"
    using tr(2) e by (subst dir_ok_cong [of _ ?t])
  have dm: "dirent_mem ?e = dirent_mem ?y"
    using e(3) f(7) by (simp add: lock_held_def)
  have "inode_lookup ?e p n = (if BKDRHash n = BKDRHash name then Some 0 else inode_lookup ?y p n)" for n
    using lookup_after_remove [OF assms(6) ok' dm, of "BKDRHash n"] assms(5,7) e(5) f(5)
    by (simp add: inode_lookup_def is_dir_def lock_held_def)
  moreover have "i_link (inode_mem ?e q) = size_sub (i_link (inode_mem ?y q)) 1"
    "rels ?e = (if i_ref (inode_mem ?y q) = 0 \<and> i_link (inode_mem ?e q) = 0 then list_add (rels ?y) q SBI else rels ?y)"
    using f(2) f(6) [OF q] by (simp_all add: unlinked_file_def Let_def upd_inode_def inode_release_def lock_held_def)
  moreover have "ilocked ?e = ilocked ?y"
    using f(1,4) f(6) [OF q] q assms(3,10)
    by (simp add: unlinked_file_def Let_def upd_inode_def inode_release_def lock_held_def free_lock_def fun_eq_iff)
  ultimately show ?thesis
    using run ok' by blast
qed

text \<open>The directory of two entries is the current directory; its first entry is a file with one link.\<close>

definition unlink_example :: fs where
  "unlink_example = two_example\<lparr>inode_mem := (inode_mem two_example)(
       SHM_BASE := (inode_mem two_example SHM_BASE)\<lparr>i_mode := S_IFDIR\<rparr>,
       SHM_BASE + 64 := zero_inode\<lparr>i_ino := 7, i_mode := S_IFREG, i_link := 1\<rparr>),
     dirent_mem := (dirent_mem two_example)(SHM_BASE + 8 := (dirent_mem two_example (SHM_BASE + 8))\<lparr>d_ino := 7\<rparr>),
     media := (media two_example)\<lparr>pm_dirents := (pm_dirents (media two_example))(
       0 := (pm_dirents (media two_example) 0)\<lparr>pd_ino := 7\<rparr>)\<rparr>,
     itable := (itable two_example)(7 := SHM_BASE + 64)\<rparr>"

lemma unlink_example_ok: "dir_ok unlink_example SHM_BASE [SHM_BASE + 8, SHM_BASE + 16]"
proof -
  have f: "rb_of unlink_example SHM_BASE = rb_of two_example SHM_BASE" "hash_of unlink_example x = hash_of two_example x"
    "slot_of unlink_example x = slot_of two_example x" "dirent_next unlink_example = dirent_next two_example" for x
    by (auto simp: unlink_example_def rb_of_def dirent_next_def)
  have "dir_index unlink_example SHM_BASE [SHM_BASE + 8, SHM_BASE + 16]"
    using two_example_index f(1,2) by (subst dir_index_cong [of _ _ two_example]) auto
  moreover have "on_media unlink_example (SHM_BASE + 8)" "on_media unlink_example (SHM_BASE + 16)"
    by (simp_all add: on_media_def unlink_example_def two_example_def blank_fs_def zero_pm_dirent_def BKDRHash_def schar_def to_size_def)
  ultimately show ?thesis
    using two_example_ok f unfolding dir_ok_def pool_ok_def
    by (auto simp: unlink_example_def dir_slots_ok_def)
qed

theorem slotfs_unlink_file_witness:
  "\<exists>s. slotfs_unlink (tree_sys\<lparr>fsys := unlink_example\<rparr>) ''a'' = Some (0, tree_sys\<lparr>fsys := s\<rparr>) \<and>
    dir_ok s SHM_BASE [SHM_BASE + 16] \<and> inode_lookup s SHM_BASE ''a'' = Some 0 \<and>
    rels s = list_add (rels two_example) (SHM_BASE + 64) SBI"
proof -
  let ?y = "tree_sys\<lparr>fsys := unlink_example\<rparr>"
  have e: "inum unlink_example SHM_BASE = 5" "inum unlink_example (SHM_BASE + 64) = 7"
    "itable unlink_example 7 = SHM_BASE + 64" "d_ino (dirent_mem unlink_example (SHM_BASE + 8)) = 7"
    "hash_of unlink_example (SHM_BASE + 8) = BKDRHash ''a''" "i_link (inode_mem unlink_example (SHM_BASE + 64)) = 1"
    "rels unlink_example = rels two_example"
    by (simp_all add: unlink_example_def two_example_def BKDRHash_def schar_def to_size_def)
  have c: "is_dir (inode_mem unlink_example SHM_BASE)" "\<not> is_dir (inode_mem unlink_example (SHM_BASE + 64))"
    "free_lock unlink_example 5" "free_lock unlink_example 7" "plain_name ''a''"
    by (simp_all add: unlink_example_def two_example_def is_dir_def S_IFMT_def S_IFDIR_def S_IFREG_def free_lock_def
        blank_fs_def blank_slot_def plain_name_def is_slash_def)
  have y: "cwd ?y = Inr SHM_BASE" "fsys ?y = unlink_example"
    by (simp_all add: tree_sys_def)
  have ok: "dir_ok unlink_example SHM_BASE ([] @ (SHM_BASE + 8) # [SHM_BASE + 16])"
    using unlink_example_ok by simp
  obtain s where s: "slotfs_unlink ?y ''a'' = Some (0, ?y\<lparr>fsys := s\<rparr>)" "dir_ok s SHM_BASE ([] @ [SHM_BASE + 16])"
    "\<forall>n. inode_lookup s SHM_BASE n = (if BKDRHash n = BKDRHash ''a'' then Some 0 else inode_lookup unlink_example SHM_BASE n)"
    "i_link (inode_mem s (SHM_BASE + 64)) = size_sub (i_link (inode_mem unlink_example (SHM_BASE + 64))) 1"
    "rels s = (if i_ref (inode_mem unlink_example (SHM_BASE + 64)) = 0 \<and> i_link (inode_mem s (SHM_BASE + 64)) = 0
      then list_add (rels unlink_example) (SHM_BASE + 64) SBI else rels unlink_example)"
    using slotfs_unlink_file [of ?y SHM_BASE "[]" "SHM_BASE + 8" "[SHM_BASE + 16]" "''a''" "SHM_BASE + 64", unfolded y e(1-3)]
      c e(4,5) ok by auto
  moreover have "i_ref (inode_mem unlink_example (SHM_BASE + 64)) = 0" "size_sub 1 1 = 0"
    by (simp_all add: unlink_example_def zero_inode_def size_sub_def)
  ultimately show ?thesis
    using e(6,7) by (intro exI [of _ s]) simp
qed

end
