(* ===== verification/Pmfs_State.thy ===== *)
theory Pmfs_State
  imports Fs_State
begin

text \<open>
  PMFS (\<open>src/pmfs\<close>), the kernel file system that SlotFS is compared with: the state that its block
  allocator and its journal share. The device is a byte memory \<open>dev\<close>, addressed by the offset
  from the super block; \<open>pmfs_get_block\<close> turns an offset into a pointer, with \<open>NULL\<close> for offset 0, so an access
  through offset 0 is a fault. The list \<open>block_inuse_head\<close> of block nodes is a list in the order of the
  links, and a pointer to a node is its position. The journal's descriptor and its log entries are kept
  outside \<open>dev\<close>, since no transaction logs a range of the journal.

  Whether the slab allocator has memory for a block node is an argument \<open>ok\<close> of the operations.
  \<open>journal_info\<close> is the current transaction of the calling task; a transaction is named by its number.
  \<open>None\<close> as the result of an operation stands for a panic, a fault or a loop that does not end.
\<close>

definition EAGAIN :: int where
  "EAGAIN = 11"

definition PMFS_BLOCK_TYPE_4K :: nat where
  "PMFS_BLOCK_TYPE_4K = 0"

definition PMFS_BLOCK_TYPE_2M :: nat where
  "PMFS_BLOCK_TYPE_2M = 1"

record pmfs_blocknode =
  block_low :: nat
  block_high :: nat

text \<open>A log entry; \<open>le_data\<close> has room for 48 bytes.\<close>

record pmfs_logentry =
  addr_offset :: nat
  le_tid :: nat
  le_gen :: nat
  le_type :: nat
  le_size :: nat
  le_data :: "byte list"

record pmfs_journal =
  j_base :: nat
  j_size :: nat
  j_head :: nat
  j_tail :: nat
  j_gen :: nat
  redo_logging :: nat

record pmfs_sb =
  dev :: bytes
  block_inuse_head :: "pmfs_blocknode list"
  block_start :: nat
  block_end :: nat
  num_free_blocks :: nat
  num_blocknode_allocated :: nat
  s_blocksize_bits :: nat
  errors_panic :: bool
  errors_ro :: bool
  s_rdonly :: bool
  j_desc :: pmfs_journal
  j_log :: "nat \<Rightarrow> pmfs_logentry"
  next_transaction_id :: nat
  j_jsize :: nat
  redo_log :: bool
  journal_info :: "nat option"

definition pmfs_error_mng :: "pmfs_sb \<Rightarrow> pmfs_sb option" where
  "pmfs_error_mng s =
    (if errors_panic s then None else Some (if errors_ro s then s\<lparr>s_rdonly := True\<rparr> else s))"

text \<open>\<open>pmfs_get_block\<close>: the offset of a pointer that may be followed.\<close>

definition pmfs_get_block :: "nat \<Rightarrow> nat option" where
  "pmfs_get_block block = (if block \<noteq> 0 then Some block else None)"

definition pmfs_get_block_off :: "nat \<Rightarrow> nat" where
  "pmfs_get_block_off blocknr = size_mul blocknr (2 ^ 12)"

definition pmfs_get_numblocks :: "nat \<Rightarrow> nat" where
  "pmfs_get_numblocks btype =
    (if btype = PMFS_BLOCK_TYPE_4K then 1 else if btype = PMFS_BLOCK_TYPE_2M then 512 else 0x40000)"

definition memset_nt :: "bytes \<Rightarrow> nat \<Rightarrow> nat \<Rightarrow> bytes" where
  "memset_nt m dest len = (\<lambda>a. if dest \<le> a \<and> a < dest + len then 0 else m a)"

end
