(* ===== verification/Pmfs_Balloc.thy ===== *)
theory Pmfs_Balloc
  imports Pmfs_State
begin

text \<open>
  The block allocator of PMFS (\<open>pmfs/balloc.c\<close>) and the rebuilding of its state from bitmaps
  (\<open>pmfs/bbuild.c\<close>). The allocator keeps a sorted list of the runs of blocks that are in use. \<open>pmfs_new_block\<close> takes
  the first gap that holds an aligned run, and joins it with its neighbours; \<open>pmfs_free_block\<close> takes
  a run out of a node. The two loops that insert a run, of \<open>pmfs_new_block\<close> and of
  \<open>pmfs_alloc_insert_blocknode_map\<close>, differ only in the run they try after a node, so that they are
  one function \<open>gap_scan\<close> with that run as an argument.
\<close>

subsection \<open>Inserting a run\<close>

text \<open>One round of the loop: the run from \<open>lo\<close> to \<open>hi\<close> after the node \<open>i\<close>. \<open>Inl\<close>: skip to the next node;
  \<open>Inr\<close>: leave the loop, with the new list, the number of nodes, and whether the run was inserted.\<close>

definition take_gap ::
  "bool \<Rightarrow> nat \<Rightarrow> nat \<Rightarrow> nat \<Rightarrow> nat \<Rightarrow> pmfs_blocknode \<Rightarrow> pmfs_blocknode list \<Rightarrow> unit + (bool \<times> nat \<times> pmfs_blocknode list)"
  where
  "take_gap ok bend cnt lo hi i rest =
    (let next_low = (case rest of [] \<Rightarrow> bend | next_i # _ \<Rightarrow> block_low next_i);
         curr = \<lparr>block_low = lo, block_high = hi\<rparr>
     in if hi \<ge> next_low then Inl ()
        else if lo = size_add (block_high i) 1 \<and> hi = size_sub next_low 1 then
          (case rest of
             next_i # rest' \<Rightarrow> Inr (True, size_sub cnt 1, i\<lparr>block_high := block_high next_i\<rparr> # rest')
           | [] \<Rightarrow> Inr (True, cnt, [i\<lparr>block_high := hi\<rparr>]))
        else if lo = size_add (block_high i) 1 \<and> hi < size_sub next_low 1 then
          Inr (True, cnt, i\<lparr>block_high := hi\<rparr> # rest)
        else if lo > size_add (block_high i) 1 \<and> hi = size_sub next_low 1 then
          (case rest of
             next_i # rest' \<Rightarrow> Inr (True, cnt, i # next_i\<lparr>block_low := lo\<rparr> # rest')
           | [] \<Rightarrow> if ok then Inr (True, size_add cnt 1, [i, curr]) else Inr (False, cnt, [i]))
        else if lo > size_add (block_high i) 1 \<and> hi < size_sub next_low 1 then
          if ok then Inr (True, size_add cnt 1, i # curr # rest) else Inr (False, cnt, i # rest)
        else Inl ())"

text \<open>The loop; \<open>f\<close> gives the run to try after a node that ends with the given block. The result has the run that
  was inserted.\<close>

fun gap_scan ::
  "bool \<Rightarrow> nat \<Rightarrow> (nat \<Rightarrow> nat \<times> nat) \<Rightarrow> nat \<Rightarrow> pmfs_blocknode list \<Rightarrow> nat option \<times> nat \<times> pmfs_blocknode list"
  where
  "gap_scan ok bend f cnt [] = (None, cnt, [])"
| "gap_scan ok bend f cnt (i # rest) =
    (case take_gap ok bend cnt (fst (f (block_high i))) (snd (f (block_high i))) i rest of
       Inl _ \<Rightarrow> (let (r, cnt, nodes) = gap_scan ok bend f cnt rest in (r, cnt, i # nodes))
     | Inr (found, cnt, nodes) \<Rightarrow> (if found then Some (fst (f (block_high i))) else None, cnt, nodes))"

text \<open>The run of \<open>num_blocks\<close> aligned blocks after a block.\<close>

definition aligned_after :: "nat \<Rightarrow> nat \<Rightarrow> nat \<times> nat" where
  "aligned_after num_blocks high =
    (let lo = unat ((word_of_nat high + word_of_nat num_blocks) AND NOT (word_of_nat num_blocks - 1) :: 64 word)
     in (lo, size_sub (size_add lo num_blocks) 1))"

definition zero_size :: "nat \<Rightarrow> nat" where
  "zero_size btype =
    (if btype = PMFS_BLOCK_TYPE_4K then 2 ^ 12 else if btype = PMFS_BLOCK_TYPE_2M then 2 ^ 21 else 2 ^ 30)"

definition pmfs_new_block :: "bool \<Rightarrow> pmfs_sb \<Rightarrow> nat \<Rightarrow> bool \<Rightarrow> ((int + nat) \<times> pmfs_sb) option" where
  "pmfs_new_block ok s btype zero =
    (let num_blocks = pmfs_get_numblocks btype;
         (r, cnt, nodes) = gap_scan ok (block_end s) (aligned_after num_blocks) (num_blocknode_allocated s) (block_inuse_head s);
         s = s\<lparr>block_inuse_head := nodes, num_blocknode_allocated := cnt\<rparr>
     in case r of
          None \<Rightarrow> Some (Inl (- ENOSPC), s)
        | Some low \<Rightarrow>
            let s = s\<lparr>num_free_blocks := size_sub (num_free_blocks s) num_blocks\<rparr>
            in if zero then do {
                 bp \<leftarrow> pmfs_get_block (pmfs_get_block_off low);
                 Some (Inr low, s\<lparr>dev := memset_nt (dev s) bp (zero_size btype)\<rparr>)
               }
               else Some (Inr low, s))"

definition pmfs_alloc_insert_blocknode_map :: "bool \<Rightarrow> pmfs_sb \<Rightarrow> nat \<Rightarrow> nat \<Rightarrow> int \<times> pmfs_sb" where
  "pmfs_alloc_insert_blocknode_map ok s low high =
    (let num_blocks = size_add (size_sub high low) 1;
         (r, cnt, nodes) = gap_scan ok (block_end s) (\<lambda>_. (low, high)) (num_blocknode_allocated s) (block_inuse_head s);
         s = s\<lparr>block_inuse_head := nodes, num_blocknode_allocated := cnt\<rparr>
     in case r of
          None \<Rightarrow> (- ENOSPC, s)
        | Some _ \<Rightarrow> (0, s\<lparr>num_free_blocks := size_sub (num_free_blocks s) num_blocks\<rparr>))"

definition pmfs_init_blockmap :: "bool \<Rightarrow> pmfs_sb \<Rightarrow> nat \<Rightarrow> pmfs_sb option" where
  "pmfs_init_blockmap ok s init_used_size =
    (let num_used_block = size_sub (size_add init_used_size (2 ^ s_blocksize_bits s)) 1 div 2 ^ s_blocksize_bits s
     in if \<not> ok then None
        else Some (s\<lparr>num_blocknode_allocated := size_add (num_blocknode_allocated s) 1,
          num_free_blocks := size_sub (num_free_blocks s) num_used_block,
          block_inuse_head := \<lparr>block_low = block_start s,
            block_high = size_sub (size_add (block_start s) num_used_block) 1\<rparr> # block_inuse_head s\<rparr>))"

subsection \<open>Freeing\<close>

text \<open>The result of the loop of \<open>__pmfs_free_block\<close>: whether the end of the loop was reached, the list, the number of nodes, whether
  the blocks were freed, and what is written to \<open>*start_hint\<close> if anything is. \<open>k\<close> is the position of the first node.\<close>

record free_result =
  fr_missed :: bool
  fr_nodes :: "pmfs_blocknode list"
  fr_cnt :: nat
  fr_freed :: bool
  fr_hint :: "nat option option"

fun free_scan :: "bool \<Rightarrow> nat \<Rightarrow> nat \<Rightarrow> nat \<Rightarrow> nat \<Rightarrow> pmfs_blocknode list \<Rightarrow> free_result" where
  "free_scan ok lo hi cnt k [] = \<lparr>fr_missed = True, fr_nodes = [], fr_cnt = cnt, fr_freed = False, fr_hint = None\<rparr>"
| "free_scan ok lo hi cnt k (i # rest) =
    (let skip = (let r = free_scan ok lo hi cnt (Suc k) rest in r\<lparr>fr_nodes := i # fr_nodes r\<rparr>);
         after = (if rest = [] then None else Some (Suc k))
     in if lo > block_high i then skip
        else if lo = block_low i \<and> hi = block_high i then
          \<lparr>fr_missed = False, fr_nodes = rest, fr_cnt = size_sub cnt 1, fr_freed = True,
            fr_hint = Some (if rest = [] then None else Some k)\<rparr>
        else if lo = block_low i \<and> hi < block_high i then
          \<lparr>fr_missed = False, fr_nodes = i\<lparr>block_low := size_add hi 1\<rparr> # rest, fr_cnt = cnt, fr_freed = True,
            fr_hint = Some (Some k)\<rparr>
        else if lo > block_low i \<and> hi = block_high i then
          \<lparr>fr_missed = False, fr_nodes = i\<lparr>block_high := size_sub lo 1\<rparr> # rest, fr_cnt = cnt, fr_freed = True,
            fr_hint = Some after\<rparr>
        else if lo > block_low i \<and> hi < block_high i then
          if ok then
            \<lparr>fr_missed = False,
              fr_nodes = i\<lparr>block_high := size_sub lo 1\<rparr> # \<lparr>block_low = size_add hi 1, block_high = block_high i\<rparr> # rest,
              fr_cnt = size_add cnt 1, fr_freed = True, fr_hint = Some (Some (Suc k))\<rparr>
          else \<lparr>fr_missed = False, fr_nodes = i # rest, fr_cnt = cnt, fr_freed = False, fr_hint = None\<rparr>
        else skip)"

text \<open>\<open>start_hint\<close> is \<open>start_hint\<close>: \<open>None\<close> for a \<open>NULL\<close> pointer, \<open>Some\<close> for what it points to. The result has what it points to
  afterwards.\<close>

definition do_pmfs_free_block ::
  "bool \<Rightarrow> pmfs_sb \<Rightarrow> nat \<Rightarrow> nat \<Rightarrow> nat option option \<Rightarrow> (nat option option \<times> pmfs_sb) option" where
  "do_pmfs_free_block ok s blocknr btype start_hint =
    (let num_blocks = pmfs_get_numblocks btype; lo = blocknr; hi = size_sub (size_add blocknr num_blocks) 1;
         nodes = block_inuse_head s;
         k = (case start_hint of Some (Some h) \<Rightarrow> if lo \<ge> block_low (nodes ! h) then h else 0 | _ \<Rightarrow> 0);
         r = free_scan ok lo hi (num_blocknode_allocated s) k (drop k nodes);
         s' = s\<lparr>block_inuse_head := take k nodes @ fr_nodes r, num_blocknode_allocated := fr_cnt r,
               num_free_blocks := if fr_freed r then size_add (num_free_blocks s) num_blocks else num_free_blocks s\<rparr>;
         hint_out = (case start_hint of None \<Rightarrow> None | Some h \<Rightarrow> Some (case fr_hint r of None \<Rightarrow> h | Some h' \<Rightarrow> h'))
     in if nodes = [] then None
        else if fr_missed r then pmfs_error_mng s' \<bind> (\<lambda>s. Some (hint_out, s))
        else Some (hint_out, s'))"

definition pmfs_free_block :: "bool \<Rightarrow> pmfs_sb \<Rightarrow> nat \<Rightarrow> nat \<Rightarrow> pmfs_sb option" where
  "pmfs_free_block ok s blocknr btype = map_option snd (do_pmfs_free_block ok s blocknr btype None)"

definition pmfs_count_free_blocks :: "pmfs_sb \<Rightarrow> nat" where
  "pmfs_count_free_blocks s = num_free_blocks s"

subsection \<open>The invariant\<close>

text \<open>Nonempty runs in ascending order with at least one free block between two of them, all below \<open>bend\<close>.\<close>

definition runs_ok :: "nat \<Rightarrow> pmfs_blocknode list \<Rightarrow> bool" where
  "runs_ok bend nodes \<longleftrightarrow> (\<forall>i\<in>set nodes. block_low i \<le> block_high i \<and> block_high i < bend) \<and>
    sorted_wrt (\<lambda>i j. Suc (block_high i) < block_low j) nodes"

definition run_blocks :: "pmfs_blocknode \<Rightarrow> nat set" where
  "run_blocks i = {block_low i..block_high i}"

definition used_blocks :: "pmfs_blocknode list \<Rightarrow> nat set" where
  "used_blocks nodes = \<Union> (run_blocks ` set nodes)"

definition blockmap_ok :: "pmfs_sb \<Rightarrow> bool" where
  "blockmap_ok s \<longleftrightarrow> runs_ok (block_end s) (block_inuse_head s) \<and> block_end s < 2 ^ 52 \<and>
    num_blocknode_allocated s = length (block_inuse_head s) \<and>
    num_free_blocks s = block_end s - card (used_blocks (block_inuse_head s))"

lemma runs_ok_simps [simp]:
  "runs_ok bend []"
  "runs_ok bend (i # rest) \<longleftrightarrow> block_low i \<le> block_high i \<and> block_high i < bend \<and>
    (\<forall>j\<in>set rest. Suc (block_high i) < block_low j) \<and> runs_ok bend rest"
  by (auto simp: runs_ok_def)

lemma runs_ok_append:
  "runs_ok bend (xs @ ys) \<longleftrightarrow> runs_ok bend xs \<and> runs_ok bend ys \<and>
    (\<forall>i\<in>set xs. \<forall>j\<in>set ys. Suc (block_high i) < block_low j)"
  by (induction xs) auto

lemma used_blocks_simps [simp]:
  "used_blocks [] = {}" "used_blocks (i # rest) = {block_low i..block_high i} \<union> used_blocks rest"
  "used_blocks (xs @ ys) = used_blocks xs \<union> used_blocks ys"
  by (auto simp: used_blocks_def run_blocks_def)

lemma used_blocks_bounds:
  assumes "runs_ok bend nodes" "b \<in> used_blocks nodes"
  shows "b < bend" "\<exists>i\<in>set nodes. block_low i \<le> b"
  using assms by (auto simp: runs_ok_def used_blocks_def run_blocks_def)

lemma length_runs: "runs_ok bend nodes \<Longrightarrow> length nodes \<le> bend"
proof -
  have "runs_ok bend nodes \<Longrightarrow> \<forall>i\<in>set nodes. b \<le> block_low i \<Longrightarrow> b \<le> bend \<Longrightarrow> length nodes \<le> bend - b" for b
  proof (induction nodes arbitrary: b)
    case (Cons i rest)
    have "length rest \<le> bend - Suc (block_high i)"
      using Cons by (intro Cons.IH) auto
    with Cons.prems show ?case by auto
  qed simp
  from this [of 0] show "runs_ok bend nodes \<Longrightarrow> length nodes \<le> bend" by simp
qed

subsection \<open>Insertion keeps the invariant\<close>

definition next_low :: "nat \<Rightarrow> pmfs_blocknode list \<Rightarrow> nat" where
  "next_low bend rest = (case rest of [] \<Rightarrow> bend | i # _ \<Rightarrow> block_low i)"

lemma next_low_simps [simp]: "next_low bend [] = bend" "next_low bend (i # rest) = block_low i"
  by (simp_all add: next_low_def)

lemma next_low_after: "runs_ok bend (i # rest) \<Longrightarrow> block_high i < next_low bend rest"
  by (cases rest) auto

lemma next_low_bound: "runs_ok bend rest \<Longrightarrow> next_low bend rest \<le> bend"
  by (cases rest) auto

lemma take_gap_cases:
  assumes ok: "runs_ok bend (i # rest)" "bend < 2 ^ 64" "0 < cnt" "cnt < 2 ^ 63" and lh: "lo \<le> hi"
  shows "case take_gap al bend cnt lo hi i rest of
     Inl _ \<Rightarrow> next_low bend rest \<le> hi \<or> lo \<le> block_high i
   | Inr (found, cnt', nodes) \<Rightarrow>
       if found then block_high i < lo \<and> hi < next_low bend rest \<and> runs_ok bend nodes \<and> cnt' + Suc (length rest) = cnt + length nodes \<and>
         used_blocks nodes = used_blocks (i # rest) \<union> {lo..hi} \<and> (\<forall>n\<in>set nodes. block_low i \<le> block_low n)
       else \<not> al \<and> nodes = i # rest \<and> cnt' = cnt"
proof -
  have h: "size_add (block_high i) 1 = block_high i + 1"
    using ok by simp
  have "block_high i < next_low bend rest" "next_low bend rest < 2 ^ 64"
    using next_low_after [OF ok(1)] next_low_bound [of bend rest] ok by auto
  then have n: "size_sub (next_low bend rest) 1 = next_low bend rest - 1" "block_high i < next_low bend rest"
    by simp_all
  show ?thesis
  proof (cases rest)
    case Nil
    with ok lh h n show ?thesis
      unfolding take_gap_def by (simp add: Let_def) (auto)
  next
    case (Cons j rest')
    have c: "size_add cnt 1 = cnt + 1" "size_sub cnt 1 = cnt - 1"
      using ok(3,4) by simp_all
    have "block_low j \<le> block_high j" "\<forall>n\<in>set rest'. Suc (block_high j) < block_low n" "Suc (block_high i) < block_low j"
      using ok(1) Cons by auto
    with ok lh h n c Cons show ?thesis
      unfolding take_gap_def by (simp add: Let_def) (auto)
  qed
qed

lemma used_after:
  "runs_ok bend (i # rest) \<Longrightarrow> b \<in> used_blocks rest \<Longrightarrow> next_low bend rest \<le> b"
  by (cases rest) (auto, fastforce dest: used_blocks_bounds(2))

lemma gap_scan_ok:
  assumes "runs_ok bend nodes" "bend < 2 ^ 64" "length nodes \<le> cnt" "cnt < 2 ^ 63" "\<And>h. h < bend \<Longrightarrow> fst (f h) \<le> snd (f h)"
    and "gap_scan al bend f cnt nodes = (r, cnt', nodes')"
  shows "case r of
      Some lo \<Rightarrow> \<exists>i\<in>set nodes. let hi = snd (f (block_high i)) in lo = fst (f (block_high i)) \<and> block_high i < lo \<and> hi < bend \<and>
        {lo..hi} \<inter> used_blocks nodes = {} \<and> used_blocks nodes' = used_blocks nodes \<union> {lo..hi} \<and> runs_ok bend nodes' \<and>
        cnt' + length nodes = cnt + length nodes' \<and> (\<forall>n\<in>set nodes'. block_low (hd nodes) \<le> block_low n)
    | None \<Rightarrow> nodes' = nodes \<and> cnt' = cnt \<and>
        (al \<longrightarrow> (\<forall>xs i rest. nodes = xs @ i # rest \<longrightarrow>
           next_low bend rest \<le> snd (f (block_high i)) \<or> fst (f (block_high i)) \<le> block_high i))"
  using assms(1,3,6)
proof (induction nodes arbitrary: r cnt' nodes')
  case (Cons i rest)
  let ?lo = "fst (f (block_high i))" and ?hi = "snd (f (block_high i))"
  have lh: "?lo \<le> ?hi"
    using Cons.prems(1) assms(5) by simp
  have tg: "case take_gap al bend cnt ?lo ?hi i rest of
       Inl _ \<Rightarrow> next_low bend rest \<le> ?hi \<or> ?lo \<le> block_high i
     | Inr (found, cnt', nodes) \<Rightarrow>
         if found then block_high i < ?lo \<and> ?hi < next_low bend rest \<and> runs_ok bend nodes \<and> cnt' + Suc (length rest) = cnt + length nodes \<and>
           used_blocks nodes = used_blocks (i # rest) \<union> {?lo..?hi} \<and> (\<forall>n\<in>set nodes. block_low i \<le> block_low n)
         else \<not> al \<and> nodes = i # rest \<and> cnt' = cnt"
    by (rule take_gap_cases [OF Cons.prems(1) assms(2) _ assms(4) lh]) (use Cons.prems(2) in simp)
  show ?case
  proof (cases "take_gap al bend cnt ?lo ?hi i rest")
    case (Inl u)
    obtain r1 c1 n1 where g: "gap_scan al bend f cnt rest = (r1, c1, n1)" by (rule prod_cases3)
    have e: "r = r1" "cnt' = c1" "nodes' = i # n1"
      using Cons.prems(3) Inl g by (simp_all add: Let_def)
    have ih: "case r1 of
      Some lo \<Rightarrow> \<exists>i\<in>set rest. let hi = snd (f (block_high i)) in lo = fst (f (block_high i)) \<and> block_high i < lo \<and> hi < bend \<and>
        {lo..hi} \<inter> used_blocks rest = {} \<and> used_blocks n1 = used_blocks rest \<union> {lo..hi} \<and> runs_ok bend n1 \<and>
        c1 + length rest = cnt + length n1 \<and> (\<forall>n\<in>set n1. block_low (hd rest) \<le> block_low n)
    | None \<Rightarrow> n1 = rest \<and> c1 = cnt \<and>
        (al \<longrightarrow> (\<forall>xs i rest'. rest = xs @ i # rest' \<longrightarrow>
           next_low bend rest' \<le> snd (f (block_high i)) \<or> fst (f (block_high i)) \<le> block_high i))"
      by (rule Cons.IH [OF _ _ g]) (use Cons.prems in auto)
    show ?thesis
    proof (cases r1)
      case None
      with ih e tg Inl show ?thesis
        by (auto simp: Cons_eq_append_conv)
    next
      case (Some lo)
      with ih obtain j where j: "j \<in> set rest" "lo = fst (f (block_high j))" "block_high j < lo" "snd (f (block_high j)) < bend"
        "{lo..snd (f (block_high j))} \<inter> used_blocks rest = {}" "used_blocks n1 = used_blocks rest \<union> {lo..snd (f (block_high j))}"
        "runs_ok bend n1" "c1 + length rest = cnt + length n1" "\<forall>n\<in>set n1. block_low (hd rest) \<le> block_low n"
        by (auto simp: Let_def)
      have "Suc (block_high i) < block_low j" "block_low j \<le> block_high j" "Suc (block_high i) < block_low (hd rest)"
        using Cons.prems(1) j(1) by (auto simp: runs_ok_def) (cases rest; simp)+
      with Cons.prems(1) j e Some show ?thesis
        by (auto simp: Let_def intro!: bexI [of _ j])
    qed
  next
    case (Inr t)
    obtain found c1 n1 where t: "t = (found, c1, n1)" by (rule prod_cases3)
    have "\<forall>b\<in>used_blocks rest. next_low bend rest \<le> b" "next_low bend rest \<le> bend"
      using used_after [OF Cons.prems(1)] next_low_bound [of bend rest] Cons.prems(1) by auto
    with Cons.prems tg t Inr show ?thesis
      by (cases found) (fastforce simp: Let_def)+
  qed
qed simp

lemma numblocks_pow: obtains k where "k \<le> 18" "pmfs_get_numblocks btype = 2 ^ k"
proof -
  have "pmfs_get_numblocks btype = 2 ^ (if btype = PMFS_BLOCK_TYPE_4K then 0 else if btype = PMFS_BLOCK_TYPE_2M then 9 else 18)"
    by (simp add: pmfs_get_numblocks_def)
  then show ?thesis
    by (rule that [rotated]) simp
qed

lemma and_not_mask_word: "w AND NOT (mask k) = push_bit k (drop_bit k w)" for w :: "64 word"
  by (rule bit_eqI) (auto simp: bit_simps)

lemma aligned_after_eq:
  assumes "k \<le> 18" "h < 2 ^ 52"
  shows "aligned_after (2 ^ k) h = (let lo = (h + 2 ^ k) div 2 ^ k * 2 ^ k in (lo, lo + 2 ^ k - 1))"
proof -
  let ?w = "word_of_nat h + word_of_nat (2 ^ k) :: 64 word" and ?lo = "(h + 2 ^ k) div 2 ^ k * 2 ^ k"
  have k: "(2::nat) ^ k \<le> 2 ^ 18"
    using assms(1) by (intro power_increasing) auto
  have "?w = word_of_nat (h + 2 ^ k)"
    by simp
  then have w: "unat ?w = h + 2 ^ k"
    using assms(2) k by (simp only: unat_of_nat) simp
  have le: "?lo \<le> h + 2 ^ k"
    by (simp add: div_times_less_eq_dividend)
  have "word_of_nat (2 ^ k) - 1 = (mask k :: 64 word)"
    by (simp add: mask_eq_exp_minus_1)
  then have "unat (?w AND NOT (word_of_nat (2 ^ k) - 1)) = unat (push_bit k (drop_bit k ?w))"
    by (simp only: and_not_mask_word)
  also have "\<dots> = ?lo mod 2 ^ 64"
    by (simp only: unsigned_push_bit_eq unat_drop_bit_eq w) (simp add: take_bit_eq_mod push_bit_eq_mult drop_bit_eq_div)
  also have "\<dots> = ?lo"
    by (rule mod_less, rule le_less_trans [OF le]) (use assms(2) k in simp)
  finally have lo: "unat (?w AND NOT (word_of_nat (2 ^ k) - 1)) = ?lo" .
  have "?lo + 2 ^ k < 2 ^ 64"
    by (rule le_less_trans [OF add_le_mono [OF le k]]) (use assms(2) k in simp)
  moreover have "1 \<le> ?lo + 2 ^ k" by (simp add: Suc_leI)
  ultimately have "size_sub (size_add ?lo (2 ^ k)) 1 = ?lo + 2 ^ k - 1"
    by (simp only: size_add_small size_sub_le)
  with lo show ?thesis
    unfolding aligned_after_def Let_def by (simp only:)
qed

text \<open>Between two nodes there is an aligned free run exactly if the one that is tried is free.\<close>

lemma first_aligned:
  assumes "h < k" "2 ^ m dvd k"
  shows "(h + 2 ^ m) div 2 ^ m * 2 ^ m \<le> (k::nat)"
proof -
  obtain q where q: "k = 2 ^ m * q"
    using assms(2) by (elim dvdE)
  then have "h div 2 ^ m < q"
    using assms(1) by (simp add: less_mult_imp_div_less mult.commute)
  then have "(h + 2 ^ m) div 2 ^ m \<le> q"
    by (simp add: div_add_self2)
  then show ?thesis
    using mult_le_mono1 [of _ q "2 ^ m"] by (simp add: q mult.commute)
qed

lemma last_below:
  assumes "runs_ok bend nodes" "nodes \<noteq> []" "block_low (hd nodes) \<le> k" "k < bend"
  obtains xs i rest where "nodes = xs @ i # rest" "block_low i \<le> k" "k < next_low bend rest"
  using assms
proof (induction nodes arbitrary: thesis)
  case (Cons j rest)
  show ?case
  proof (cases "rest \<noteq> [] \<and> block_low (hd rest) \<le> k")
    case True
    obtain xs i rest' where "rest = xs @ i # rest'" "block_low i \<le> k" "k < next_low bend rest'"
      by (rule Cons.IH) (use True Cons.prems in auto)
    then show ?thesis
      using Cons.prems(1) [of "j # xs" i rest'] by simp
  next
    case False
    then have "k < next_low bend rest"
      using Cons.prems by (cases rest) auto
    then show ?thesis
      using Cons.prems(1) [of "[]" j rest] Cons.prems(4) by simp
  qed
qed simp

lemma no_run_left:
  assumes ok: "runs_ok bend nodes" "nodes \<noteq> []" "block_low (hd nodes) \<le> k" "k + 2 ^ m \<le> bend" "2 ^ m dvd k"
    and full: "\<And>xs i rest. nodes = xs @ i # rest \<Longrightarrow> next_low bend rest \<le> (block_high i + 2 ^ m) div 2 ^ m * 2 ^ m + 2 ^ m - 1"
  shows "{k..<k + 2 ^ m} \<inter> used_blocks nodes \<noteq> {}"
proof
  assume e: "{k..<k + 2 ^ m} \<inter> used_blocks nodes = {}"
  have p: "0 < (2::nat) ^ m" by simp
  then have "k < bend"
    using ok(4) by linarith
  then obtain xs i rest where x: "nodes = xs @ i # rest" "block_low i \<le> k" "k < next_low bend rest"
    by (rule last_below [OF ok(1-3)])
  have "k \<in> {k..<k + 2 ^ m}"
    using p by simp
  then have "k \<notin> used_blocks nodes"
    using e by blast
  then have "block_high i < k"
    using x by auto
  then have "(block_high i + 2 ^ m) div 2 ^ m * 2 ^ m \<le> k"
    by (rule first_aligned [OF _ ok(5)])
  with full [OF x(1)] have n: "next_low bend rest < k + 2 ^ m"
    using p by linarith
  then obtain j rest' where j: "rest = j # rest'"
    using ok(4) by (cases rest) auto
  then have "block_low j \<in> used_blocks nodes" "block_low j \<in> {k..<k + 2 ^ m}"
    using x ok(1) n by (auto simp: runs_ok_append)
  with e show False by blast
qed

lemma card_run: "card {k..k + n - 1} = n" if "0 < n" for k n :: nat
  using that by simp

lemma used_blocks_finite [simp]: "finite (used_blocks nodes)"
  by (simp add: used_blocks_def run_blocks_def)

lemma card_used_bound: "runs_ok bend nodes \<Longrightarrow> card (used_blocks nodes) \<le> bend"
  using card_mono [of "{..<bend}" "used_blocks nodes"] used_blocks_bounds(1) by auto

text \<open>Inserting a fresh run keeps the count of the free blocks.\<close>

lemma free_count_insert:
  assumes "runs_ok bend nodes'" "used_blocks nodes' = used_blocks nodes \<union> {lo..hi}" "{lo..hi} \<inter> used_blocks nodes = {}"
    and "bend < 2 ^ 64" "lo \<le> hi"
  shows "size_sub (bend - card (used_blocks nodes)) (hi - lo + 1) = bend - card (used_blocks nodes')"
proof -
  have c: "card (used_blocks nodes') = card (used_blocks nodes) + (hi - lo + 1)"
    unfolding assms(2) using assms(3,5) by (subst card_Un_disjoint) (auto simp: Int_commute)
  moreover have "card (used_blocks nodes') \<le> bend"
    by (rule card_used_bound [OF assms(1)])
  ultimately show ?thesis
    using assms(4) by simp
qed

text \<open>What an allocation of \<open>n\<close> blocks promises: a fresh aligned run, or no change and then no free aligned run above the
  first block in use.\<close>

definition run_taken :: "nat \<Rightarrow> pmfs_sb \<Rightarrow> nat \<Rightarrow> pmfs_sb \<Rightarrow> bool" where
  "run_taken n s k s' \<longleftrightarrow> blockmap_ok s' \<and> block_end s' = block_end s \<and> n dvd k \<and> k + n \<le> block_end s \<and>
    {k..<k + n} \<inter> used_blocks (block_inuse_head s) = {} \<and>
    used_blocks (block_inuse_head s') = used_blocks (block_inuse_head s) \<union> {k..<k + n}"

definition no_run :: "nat \<Rightarrow> pmfs_sb \<Rightarrow> bool" where
  "no_run n s \<longleftrightarrow> (\<forall>k. n dvd k \<and> k + n \<le> block_end s \<and> (\<exists>i\<in>set (block_inuse_head s). block_low i \<le> k) \<longrightarrow>
    {k..<k + n} \<inter> used_blocks (block_inuse_head s) \<noteq> {})"

lemma hd_lowest: "runs_ok bend nodes \<Longrightarrow> i \<in> set nodes \<Longrightarrow> nodes \<noteq> [] \<and> block_low (hd nodes) \<le> block_low i"
  by (cases nodes) auto

lemma aligned_scan:
  fixes s btype
  defines "n \<equiv> pmfs_get_numblocks btype"
  assumes ok: "blockmap_ok s"
    and g: "gap_scan al (block_end s) (aligned_after n) (num_blocknode_allocated s) (block_inuse_head s) = (r, cnt, nodes)"
  shows "case r of
      None \<Rightarrow> s\<lparr>block_inuse_head := nodes, num_blocknode_allocated := cnt\<rparr> = s \<and> (al \<longrightarrow> no_run n s)
    | Some k \<Rightarrow> 0 < k \<and> run_taken n s k (s\<lparr>block_inuse_head := nodes, num_blocknode_allocated := cnt,
        num_free_blocks := size_sub (num_free_blocks s) n\<rparr>)"
proof -
  let ?nodes = "block_inuse_head s" and ?f = "aligned_after n"
  obtain m where m: "m \<le> 18" "n = 2 ^ m"
    unfolding n_def by (rule numblocks_pow)
  have b: "runs_ok (block_end s) ?nodes" "block_end s < 2 ^ 52" "num_blocknode_allocated s = length ?nodes"
    "num_free_blocks s = block_end s - card (used_blocks ?nodes)"
    using ok by (auto simp: blockmap_ok_def)
  have f: "?f h = ((h + n) div n * n, (h + n) div n * n + n - 1)" if "h < block_end s" for h
    using aligned_after_eq [OF m(1), of h] that b(2) by (simp add: m(2) Let_def)
  have p: "0 < n" "n \<le> 2 ^ 18"
    using power_increasing [OF m(1), of "2::nat"] by (simp_all add: m(2))
  have gt: "h < (h + n) div n * n" for h
    using p(1) by (metis div_add_self2 dividend_less_div_times mult.commute mult_Suc_right add.commute Suc_eq_plus1 less_not_refl2)
  have fle: "fst (?f h) \<le> snd (?f h)" if "h < block_end s" for h
    using f [OF that] p by simp
  have len: "length ?nodes < 2 ^ 63" "block_end s < 2 ^ 64"
    using length_runs [OF b(1)] b(2) by simp_all
  note sc = gap_scan_ok [OF b(1) len(2) le_refl len(1) fle g [unfolded b(3)]]
  show ?thesis
  proof (cases r)
    case None
    have "next_low (block_end s) rest \<le> (block_high i + n) div n * n + n - 1" if "al" "?nodes = xs @ i # rest" for xs i rest
      using sc None that f [of "block_high i"] gt [of "block_high i"] b(1) by (fastforce simp: runs_ok_append)
    then have "no_run n s" if al
      using that no_run_left [OF b(1)] hd_lowest [OF b(1)] unfolding no_run_def m(2) by (meson le_trans)
    with sc None b(3) show ?thesis by simp
  next
    case (Some k)
    with sc obtain i where i: "i \<in> set ?nodes" "k = fst (?f (block_high i))" "block_high i < k"
      "snd (?f (block_high i)) < block_end s" "{k..snd (?f (block_high i))} \<inter> used_blocks ?nodes = {}"
      "used_blocks nodes = used_blocks ?nodes \<union> {k..snd (?f (block_high i))}" "runs_ok (block_end s) nodes" "cnt = length nodes"
      by (auto simp: Let_def)
    have h: "block_high i < block_end s"
      using b(1) i(1) by (auto simp: runs_ok_def)
    have e: "snd (?f (block_high i)) = k + n - 1" "n dvd k"
      using f [OF h] i(2) by simp_all
    have set: "{k..k + n - 1} = {k..<k + n}" "k + n - 1 - k + 1 = n" "k \<le> k + n - 1"
      using p(1) by auto
    have "size_sub (block_end s - card (used_blocks ?nodes)) n = block_end s - card (used_blocks nodes)"
      using free_count_insert [OF i(7,6,5) len(2)] set e by simp
    with i e set b p Some show ?thesis
      by (simp add: run_taken_def blockmap_ok_def)
  qed
qed

lemma new_block_ok:
  assumes "blockmap_ok s"
  shows "\<exists>r s'. pmfs_new_block al s btype zero = Some (r, s') \<and>
    (case r of
       Inl e \<Rightarrow> e = - ENOSPC \<and> s' = s \<and> (al \<longrightarrow> no_run (pmfs_get_numblocks btype) s)
     | Inr k \<Rightarrow> run_taken (pmfs_get_numblocks btype) s k s' \<and>
         dev s' = (if zero then memset_nt (dev s) (k * 2 ^ 12) (pmfs_get_numblocks btype * 2 ^ 12) else dev s))"
proof -
  obtain r cnt nodes where g: "gap_scan al (block_end s) (aligned_after (pmfs_get_numblocks btype)) (num_blocknode_allocated s)
    (block_inuse_head s) = (r, cnt, nodes)" by (rule prod_cases3)
  note sc = aligned_scan [OF assms g]
  show ?thesis
  proof (cases r)
    case None
    with sc g show ?thesis by (simp add: pmfs_new_block_def Let_def)
  next
    case (Some k)
    have z: "zero_size btype = pmfs_get_numblocks btype * 2 ^ 12"
      by (simp add: zero_size_def pmfs_get_numblocks_def)
    have "k < 2 ^ 52" "0 < k"
      using sc Some assms by (auto simp: run_taken_def blockmap_ok_def)
    then have "pmfs_get_block (pmfs_get_block_off k) = Some (k * 2 ^ 12)"
      by (simp add: pmfs_get_block_def pmfs_get_block_off_def)
    with sc g Some z show ?thesis
      by (auto simp: pmfs_new_block_def Let_def run_taken_def blockmap_ok_def)
  qed
qed

subsection \<open>Freeing keeps the invariant\<close>

text \<open>A run of blocks in use lies inside one node, since there is a gap after every node.\<close>

lemma run_in_node:
  assumes "runs_ok bend (i # rest)" "{lo..hi} \<subseteq> used_blocks (i # rest)" "lo \<le> hi"
  shows "if block_high i < lo then {lo..hi} \<subseteq> used_blocks rest
    else block_low i \<le> lo \<and> hi \<le> block_high i \<and> {lo..hi} \<inter> used_blocks rest = {}"
proof -
  have after: "\<forall>b\<in>used_blocks rest. Suc (block_high i) < b"
    using assms(1) by (fastforce dest: used_blocks_bounds(2))
  show ?thesis
  proof (cases "block_high i < lo")
    case False
    have "Suc (block_high i) \<notin> used_blocks (i # rest)"
      using after by auto
    then have "hi \<le> block_high i"
      using assms(2) False by (metis atLeastAtMost_iff le_Suc_eq less_or_eq_imp_le linorder_not_less not_less_eq_eq subset_iff)
    moreover have "lo \<in> used_blocks (i # rest)"
      using assms(2,3) by auto
    ultimately show ?thesis
      using after False by auto
  qed (use assms(2) after in auto)
qed

lemma free_scan_ok:
  assumes "runs_ok bend nodes" "{lo..hi} \<subseteq> used_blocks nodes" "lo \<le> hi" "bend < 2 ^ 64" "length nodes \<le> cnt" "cnt < 2 ^ 63"
  shows "let r = free_scan al lo hi cnt k nodes in \<not> fr_missed r \<and>
    (if fr_freed r then runs_ok bend (fr_nodes r) \<and> used_blocks (fr_nodes r) = used_blocks nodes - {lo..hi} \<and>
       fr_cnt r + length nodes = cnt + length (fr_nodes r) \<and> (\<forall>n\<in>set (fr_nodes r). block_low (hd nodes) \<le> block_low n) \<and>
       (\<exists>h. fr_hint r = Some h \<and> (\<forall>j. h = Some j \<longrightarrow> k \<le> j \<and> j < k + length (fr_nodes r)))
     else \<not> al \<and> fr_nodes r = nodes \<and> fr_cnt r = cnt \<and> fr_hint r = None)"
  using assms
proof (induction nodes arbitrary: k)
  case (Cons i rest)
  note rin = run_in_node [OF Cons.prems(1-3)]
  have lim: "size_sub cnt 1 = cnt - 1" "size_add cnt 1 = cnt + 1" "size_add hi 1 = hi + 1 \<or> block_high i \<le> hi" "lo = 0 \<or> size_sub lo 1 = lo - 1 \<or> block_high i < lo"
    using Cons.prems by auto
  show ?case
  proof (cases "block_high i < lo")
    case True
    have "rest \<noteq> []"
      using rin True Cons.prems(3) by (cases rest) auto
    then have "block_low i \<le> block_high i \<and> Suc (block_high i) < block_low (hd rest)"
      using Cons.prems(1) by simp
    then have "Suc (block_high i) < n \<and> block_low i \<le> n" if "block_low (hd rest) \<le> n" for n
      using that by linarith
    moreover have "{lo..hi} \<inter> {block_low i..block_high i} = {}"
      using True by auto
    ultimately show ?thesis
      using Cons.IH [of "Suc k"] Cons.prems rin True
      by (simp add: Let_def split: if_splits) (auto)
  next
    case False
    then have r: "block_low i \<le> lo" "hi \<le> block_high i" "{lo..hi} \<inter> used_blocks rest = {}"
      using rin by simp_all
    with Cons.prems lim False show ?thesis
      by (simp add: Let_def) (auto)
  qed
qed simp

definition run_freed :: "nat \<Rightarrow> pmfs_sb \<Rightarrow> nat \<Rightarrow> pmfs_sb \<Rightarrow> bool" where
  "run_freed n s k s' \<longleftrightarrow> blockmap_ok s' \<and> block_end s' = block_end s \<and> dev s' = dev s \<and>
    used_blocks (block_inuse_head s') = used_blocks (block_inuse_head s) - {k..<k + n} \<and>
    num_free_blocks s' = num_free_blocks s + n"

text \<open>A hint that \<open>__pmfs_free_block\<close> accepts: no hint or a node of the list.\<close>

definition hint_ok :: "pmfs_sb \<Rightarrow> nat option option \<Rightarrow> bool" where
  "hint_ok s h \<longleftrightarrow> (\<forall>j. h = Some (Some j) \<longrightarrow> j < length (block_inuse_head s))"

lemma used_from_node:
  assumes "runs_ok bend nodes" "k < length nodes" "block_low (nodes ! k) \<le> lo" "{lo..hi} \<subseteq> used_blocks nodes"
  shows "{lo..hi} \<subseteq> used_blocks (drop k nodes)"
proof -
  have n: "nodes = take k nodes @ drop k nodes" "nodes ! k \<in> set (drop k nodes)"
    using assms(2) by (simp_all add: in_set_conv_nth) (metis add_0_right assms(2) diff_is_0_eq' less_imp_le_nat linorder_not_le nth_drop zero_less_diff)
  then have "\<forall>i\<in>set (take k nodes). Suc (block_high i) < block_low (nodes ! k)"
    using assms(1) by (metis runs_ok_append)
  moreover have "used_blocks nodes = used_blocks (take k nodes) \<union> used_blocks (drop k nodes)"
    using n(1) used_blocks_simps(3) by metis
  ultimately show ?thesis
    using assms(3,4) by (fastforce simp: used_blocks_def run_blocks_def)
qed

lemma free_scan_from:
  assumes ok: "runs_ok bend nodes" "bend < 2 ^ 52" and j: "{lo..hi} \<subseteq> used_blocks (drop j nodes)" "lo \<le> hi"
    and r: "r = free_scan al lo hi (length nodes) j (drop j nodes)" and n: "nodes' = take j nodes @ fr_nodes r"
  shows "\<not> fr_missed r"
    and "fr_freed r \<Longrightarrow> runs_ok bend nodes' \<and> used_blocks nodes' = used_blocks nodes - {lo..hi} \<and> fr_cnt r = length nodes' \<and>
      (\<exists>h. fr_hint r = Some h \<and> (\<forall>i. h = Some i \<longrightarrow> i < length nodes'))"
    and "\<not> fr_freed r \<Longrightarrow> \<not> al \<and> nodes' = nodes \<and> fr_cnt r = length nodes \<and> fr_hint r = None"
proof -
  have tk: "runs_ok bend (take j nodes)" "runs_ok bend (drop j nodes)"
    "\<forall>i\<in>set (take j nodes). \<forall>i'\<in>set (drop j nodes). Suc (block_high i) < block_low i'"
    using ok(1) runs_ok_append [of bend "take j nodes" "drop j nodes"] by simp_all
  have len: "length nodes < 2 ^ 63" "bend < 2 ^ 64" "length (drop j nodes) \<le> length nodes"
    using length_runs [OF ok(1)] ok(2) by simp_all
  note fs = free_scan_ok [OF tk(2) j len(2,3,1), of al j, folded r, unfolded Let_def]
  have ne: "drop j nodes \<noteq> []"
    using j by auto
  then have hd: "hd (drop j nodes) \<in> set (drop j nodes)" "j \<le> length nodes"
    by (rule hd_in_set) (use ne in simp)
  have u: "used_blocks nodes = used_blocks (take j nodes) \<union> used_blocks (drop j nodes)"
    by (metis append_take_drop_id used_blocks_simps(3))
  show "\<not> fr_missed r"
    using fs by simp
  show "\<not> al \<and> nodes' = nodes \<and> fr_cnt r = length nodes \<and> fr_hint r = None" if "\<not> fr_freed r"
    using fs that n by simp
  assume f: "fr_freed r"
  have low: "Suc (block_high i) < block_low i'" if "i \<in> set (take j nodes)" "i' \<in> set (fr_nodes r)" for i i'
    using fs f that tk(3) hd(1) by (meson less_le_trans)
  have "{lo..hi} \<inter> used_blocks (take j nodes) = {}"
  proof (rule ccontr)
    assume "{lo..hi} \<inter> used_blocks (take j nodes) \<noteq> {}"
    then obtain b i where b: "b \<in> used_blocks (drop j nodes)" "i \<in> set (take j nodes)" "b \<le> block_high i"
      using j(1) by (fastforce simp: used_blocks_def run_blocks_def)
    then obtain i' where "i' \<in> set (drop j nodes)" "block_low i' \<le> b"
      using used_blocks_bounds(2) [OF tk(2)] by blast
    with b tk(3) show False by fastforce
  qed
  then have "used_blocks nodes' = used_blocks nodes - {lo..hi}"
    using fs f u n by auto
  moreover have "runs_ok bend nodes'"
    using tk(1) fs f low by (simp add: n runs_ok_append)
  moreover have "fr_cnt r + length (drop j nodes) = length nodes + length (fr_nodes r)"
    using fs f by simp
  then have "fr_cnt r = length nodes'"
    using n hd(2) by simp
  ultimately show "runs_ok bend nodes' \<and> used_blocks nodes' = used_blocks nodes - {lo..hi} \<and> fr_cnt r = length nodes' \<and>
      (\<exists>h. fr_hint r = Some h \<and> (\<forall>i. h = Some i \<longrightarrow> i < length nodes'))"
    using fs f n hd(2) by auto
qed

lemma free_count_remove:
  assumes "runs_ok bend nodes" "used_blocks nodes' = used_blocks nodes - {lo..hi}" "{lo..hi} \<subseteq> used_blocks nodes" "bend < 2 ^ 52" "lo \<le> hi"
  shows "size_add (bend - card (used_blocks nodes)) (hi - lo + 1) = bend - card (used_blocks nodes')"
    "bend - card (used_blocks nodes') = bend - card (used_blocks nodes) + (hi - lo + 1)"
proof -
  have "card (used_blocks nodes') = card (used_blocks nodes) - (hi - lo + 1)" "hi - lo + 1 \<le> card (used_blocks nodes)"
    unfolding assms(2) using assms(3,5) card_mono [OF _ assms(3)] by (simp_all add: card_Diff_subset Suc_diff_le)
  moreover have "card (used_blocks nodes) \<le> bend"
    by (rule card_used_bound [OF assms(1)])
  ultimately show "size_add (bend - card (used_blocks nodes)) (hi - lo + 1) = bend - card (used_blocks nodes')"
    "bend - card (used_blocks nodes') = bend - card (used_blocks nodes) + (hi - lo + 1)"
    using assms(4) by simp_all
qed

lemma free_block_ok:
  assumes ok: "blockmap_ok s" and used: "{k..<k + pmfs_get_numblocks btype} \<subseteq> used_blocks (block_inuse_head s)" and h: "hint_ok s h"
  shows "\<exists>h' s'. do_pmfs_free_block al s k btype h = Some (h', s') \<and>
    (if s' = s then \<not> al else run_freed (pmfs_get_numblocks btype) s k s' \<and> hint_ok s' h')"
proof -
  let ?n = "pmfs_get_numblocks btype" and ?nodes = "block_inuse_head s"
  define j where "j = (case h of Some (Some j) \<Rightarrow> if k \<ge> block_low (?nodes ! j) then j else 0 | _ \<Rightarrow> 0)"
  have "0 < ?n"
    by (simp add: pmfs_get_numblocks_def)
  then have p: "0 < ?n" "k + ?n - 1 - k + 1 = ?n" "{k..k + ?n - 1} = {k..<k + ?n}" "k \<le> k + ?n - 1" by auto
  have b: "runs_ok (block_end s) ?nodes" "block_end s < 2 ^ 52" "num_blocknode_allocated s = length ?nodes"
    "num_free_blocks s = block_end s - card (used_blocks ?nodes)"
    using ok by (auto simp: blockmap_ok_def)
  have u: "{k..k + ?n - 1} \<subseteq> used_blocks ?nodes"
    using used p(3) by simp
  then have l: "k + ?n - 1 \<in> used_blocks ?nodes"
    using p(4) by auto
  then have hi: "size_sub (size_add k ?n) 1 = k + ?n - 1" and ne: "?nodes \<noteq> []"
    using used_blocks_bounds(1) [OF b(1) l] b(2) p(1) by auto
  have j: "{k..k + ?n - 1} \<subseteq> used_blocks (drop j ?nodes)"
    using used_from_node [OF b(1) _ _ u] u h unfolding hint_ok_def j_def by (simp split: option.splits)
  define r where "r = free_scan al k (k + ?n - 1) (length ?nodes) j (drop j ?nodes)"
  define nodes where "nodes = take j ?nodes @ fr_nodes r"
  note fs = free_scan_from [OF b(1,2) j p(4) r_def nodes_def]
  have run: "do_pmfs_free_block al s k btype h = Some (case h of None \<Rightarrow> None | Some h \<Rightarrow> Some (case fr_hint r of None \<Rightarrow> h | Some h' \<Rightarrow> h'),
      s\<lparr>block_inuse_head := nodes, num_blocknode_allocated := fr_cnt r,
        num_free_blocks := if fr_freed r then size_add (num_free_blocks s) ?n else num_free_blocks s\<rparr>)" (is "_ = Some (?h, ?s)")
    using fs(1) ne unfolding do_pmfs_free_block_def hi b(3) Let_def j_def [symmetric] r_def [symmetric] nodes_def [symmetric] by simp
  show ?thesis
  proof (cases "fr_freed r")
    case False
    then have "?s = s" "\<not> al"
      using fs(3) b(3) by simp_all
    with run show ?thesis by auto
  next
    case True
    note f = fs(2) [OF True]
    then have c: "size_add (num_free_blocks s) ?n = block_end s - card (used_blocks nodes)"
      "block_end s - card (used_blocks nodes) = num_free_blocks s + ?n"
      using free_count_remove [OF b(1) _ u b(2) p(4), of nodes, unfolded p(2), folded b(4)] by simp_all
    then have "num_free_blocks ?s \<noteq> num_free_blocks s"
      using True p(1) by simp
    then have "?s \<noteq> s"
      by (rule contrapos_nn) (erule arg_cong)
    moreover have "run_freed ?n s k ?s"
      using f [unfolded p(3)] c True b(2) by (simp add: run_freed_def blockmap_ok_def)
    moreover have "hint_ok ?s ?h"
      using f by (auto simp: hint_ok_def split: option.splits)
    ultimately show ?thesis
      using run by auto
  qed
qed

subsection \<open>The interface\<close>

text \<open>What the users of a block allocator rely on: \<open>alloc\<close> hands out a run of fresh units, \<open>free\<close> takes back a run that is in use.\<close>

locale run_allocator =
  fixes inv :: "'s \<Rightarrow> bool"
    and used :: "'s \<Rightarrow> nat set"
    and len :: "'t \<Rightarrow> nat"
    and alloc :: "'s \<Rightarrow> 't \<Rightarrow> (nat \<times> 's) option"
    and free :: "'s \<Rightarrow> 't \<Rightarrow> nat \<Rightarrow> 's option"
  assumes alloc_run: "inv s \<Longrightarrow> alloc s t = Some (k, s') \<Longrightarrow>
      inv s' \<and> {k..<k + len t} \<inter> used s = {} \<and> used s' = used s \<union> {k..<k + len t}"
    and free_run: "inv s \<Longrightarrow> {k..<k + len t} \<subseteq> used s \<Longrightarrow>
      \<exists>s'. free s t k = Some s' \<and> inv s' \<and> used s' = used s - {k..<k + len t}"
begin

lemma alloc_free_same:
  assumes "inv s" "alloc s t = Some (k, s1)"
  shows "\<exists>s2. free s1 t k = Some s2 \<and> inv s2 \<and> used s2 = used s"
proof -
  note a = alloc_run [OF assms]
  with free_run [of s1 k t] obtain s2 where "free s1 t k = Some s2" "inv s2" "used s2 = used s1 - {k..<k + len t}" by auto
  with a show ?thesis by auto
qed

text \<open>A sequence of allocations, and the runs it hands out.\<close>

definition run_of :: "nat \<times> 't \<Rightarrow> nat set" where
  "run_of r = {fst r..<fst r + len (snd r)}"

fun allocs :: "'s \<Rightarrow> 't list \<Rightarrow> ((nat \<times> 't) list \<times> 's) option" where
  "allocs s [] = Some ([], s)"
| "allocs s (t # ts) = alloc s t \<bind> (\<lambda>(k, s). allocs s ts \<bind> (\<lambda>(rs, s). Some ((k, t) # rs, s)))"

lemma allocs_disjoint:
  assumes "inv s" "allocs s ts = Some (rs, s')"
  shows "inv s' \<and> (\<forall>r\<in>set rs. run_of r \<inter> used s = {}) \<and> sorted_wrt (\<lambda>r r'. run_of r \<inter> run_of r' = {}) rs \<and>
    used s' = used s \<union> (\<Union>r\<in>set rs. run_of r)"
  using assms
proof (induction ts arbitrary: s rs)
  case (Cons t ts)
  then obtain k s1 rs1 where a: "alloc s t = Some (k, s1)" "allocs s1 ts = Some (rs1, s')" "rs = (k, t) # rs1"
    by (auto split: Option.bind_splits)
  note n = alloc_run [OF Cons.prems(1) a(1)]
  then have "inv s1" by simp
  note ih = Cons.IH [OF this a(2)]
  have "run_of (k, t) = {k..<k + len t}"
    by (simp add: run_of_def)
  with ih n show ?case
    unfolding a(3) by (simp add: Int_Un_distrib Int_commute Un_assoc)
qed simp

end

definition pmfs_alloc :: "pmfs_sb \<Rightarrow> nat \<Rightarrow> (nat \<times> pmfs_sb) option" where
  "pmfs_alloc s btype = (case pmfs_new_block True s btype False of Some (Inr k, s) \<Rightarrow> Some (k, s) | _ \<Rightarrow> None)"

interpretation pba: run_allocator blockmap_ok "\<lambda>s. used_blocks (block_inuse_head s)" pmfs_get_numblocks pmfs_alloc
  "\<lambda>s btype k. pmfs_free_block True s k btype"
proof
  fix s s' :: pmfs_sb and t k
  assume ok: "blockmap_ok s"
  show "blockmap_ok s' \<and> {k..<k + pmfs_get_numblocks t} \<inter> used_blocks (block_inuse_head s) = {} \<and>
      used_blocks (block_inuse_head s') = used_blocks (block_inuse_head s) \<union> {k..<k + pmfs_get_numblocks t}"
    if "pmfs_alloc s t = Some (k, s')"
  proof -
    from new_block_ok [OF ok, of True t False] obtain r s1 where "pmfs_new_block True s t False = Some (r, s1)"
      "\<And>k. r = Inr k \<Longrightarrow> run_taken (pmfs_get_numblocks t) s k s1" by (elim exE conjE) (metis sum.simps(6))
    with that show ?thesis
      by (cases r) (auto simp: pmfs_alloc_def run_taken_def)
  qed
  show "\<exists>s'. pmfs_free_block True s k t = Some s' \<and> blockmap_ok s' \<and>
      used_blocks (block_inuse_head s') = used_blocks (block_inuse_head s) - {k..<k + pmfs_get_numblocks t}"
    if "{k..<k + pmfs_get_numblocks t} \<subseteq> used_blocks (block_inuse_head s)"
    using free_block_ok [OF ok that, of None True] by (auto simp: pmfs_free_block_def run_freed_def hint_ok_def split: if_splits)
qed

subsection \<open>Properties\<close>

text \<open>C8: Allocating a block in PMFS. On a well-formed block map \<open>pmfs_new_block\<close> does not fault; it either returns a run of the size of the
  block type that is aligned to its size, lies below \<open>block_end\<close> and was free, and then exactly this run becomes
  used, the map stays well formed (sorted runs with gaps between them, counters equal to the number of nodes
  and of free blocks) and exactly the bytes of the run are zeroed if asked for; or it returns \<open>-ENOSPC\<close> and changes nothing,
  which with memory for a node happens only if every aligned run of that size above the first block in use has a used block.\<close>

theorem pmfs_new_block_correct:
  assumes "blockmap_ok s"
  shows "\<exists>r s'. pmfs_new_block ok s btype zero = Some (r, s') \<and>
    (case r of
       Inl e \<Rightarrow> e = - ENOSPC \<and> s' = s \<and> (ok \<longrightarrow> no_run (pmfs_get_numblocks btype) s)
     | Inr k \<Rightarrow> run_taken (pmfs_get_numblocks btype) s k s' \<and>
         dev s' = (if zero then memset_nt (dev s) (k * 2 ^ 12) (pmfs_get_numblocks btype * 2 ^ 12) else dev s))"
  using new_block_ok [OF assms] .

text \<open>Blocks 0 to 9 and block 600 are in use.\<close>

definition pmfs_example :: pmfs_sb where
  "pmfs_example = \<lparr>dev = \<lambda>_. 1, block_inuse_head = [\<lparr>block_low = 0, block_high = 9\<rparr>, \<lparr>block_low = 600, block_high = 600\<rparr>],
     block_start = 0, block_end = 2000, num_free_blocks = 1989, num_blocknode_allocated = 2, s_blocksize_bits = 12,
     errors_panic = False, errors_ro = False, s_rdonly = False,
     j_desc = \<lparr>j_base = 4096, j_size = 640, j_head = 0, j_tail = 0, j_gen = 1, redo_logging = 0\<rparr>,
     j_log = \<lambda>_. \<lparr>addr_offset = 0, le_tid = 0, le_gen = 0, le_type = 0, le_size = 0, le_data = []\<rparr>,
     next_transaction_id = 0, j_jsize = 640, redo_log = False, journal_info = None\<rparr>"

lemma pmfs_example_ok: "blockmap_ok pmfs_example"
  by (simp add: blockmap_ok_def pmfs_example_def card_Un_disjoint)

theorem pmfs_new_block_correct_witness:
  "pmfs_new_block True pmfs_example PMFS_BLOCK_TYPE_2M False =
     Some (Inr 1024, pmfs_example\<lparr>block_inuse_head := [\<lparr>block_low = 0, block_high = 9\<rparr>, \<lparr>block_low = 600, block_high = 600\<rparr>,
       \<lparr>block_low = 1024, block_high = 1535\<rparr>], num_blocknode_allocated := 3, num_free_blocks := 1477\<rparr>) \<and>
   blockmap_ok (pmfs_example\<lparr>block_inuse_head := [\<lparr>block_low = 0, block_high = 9\<rparr>, \<lparr>block_low = 600, block_high = 600\<rparr>,
       \<lparr>block_low = 1024, block_high = 1535\<rparr>], num_blocknode_allocated := 3, num_free_blocks := 1477\<rparr>)" (is "?run \<and> _")
proof -
  have a: "aligned_after 512 9 = (512, 1023)" "aligned_after 512 600 = (1024, 1535)"
    using aligned_after_eq [of 9 9] aligned_after_eq [of 9 600] by simp_all
  have ?run
    by (simp add: pmfs_new_block_def pmfs_example_def pmfs_get_numblocks_def PMFS_BLOCK_TYPE_2M_def PMFS_BLOCK_TYPE_4K_def
        a take_gap_def Let_def)
  with pmfs_new_block_correct [OF pmfs_example_ok, of True PMFS_BLOCK_TYPE_2M False] show ?thesis
    by (simp add: run_taken_def)
qed

text \<open>C9: Freeing a block in PMFS. On a well-formed block map, for a run of blocks in use, \<open>__pmfs_free_block\<close> with any valid
  position hint (as \<open>pmfs_free_block\<close> calls it, or as the truncation code does with the position of the
  previous call) makes exactly the blocks of the run free, adds them to the count, keeps the map well formed and leaves a
  valid hint. Only if there is no memory for a node can the call change nothing instead.\<close>

theorem pmfs_free_block_correct:
  assumes "blockmap_ok s" "{k..<k + pmfs_get_numblocks btype} \<subseteq> used_blocks (block_inuse_head s)" "hint_ok s h"
  shows "\<exists>h' s'. do_pmfs_free_block ok s k btype h = Some (h', s') \<and>
    (if s' = s then \<not> ok else run_freed (pmfs_get_numblocks btype) s k s' \<and> hint_ok s' h')"
  using free_block_ok [OF assms] .

theorem pmfs_free_block_correct_witness:
  "\<exists>h' s'. do_pmfs_free_block True pmfs_example 5 PMFS_BLOCK_TYPE_4K (Some (Some 0)) = Some (h', s') \<and> run_freed 1 pmfs_example 5 s'"
proof -
  have "pmfs_get_numblocks PMFS_BLOCK_TYPE_4K = 1" "{5..<5 + 1} \<subseteq> used_blocks (block_inuse_head pmfs_example)" "hint_ok pmfs_example (Some (Some 0))"
    by (auto simp: pmfs_get_numblocks_def pmfs_example_def hint_ok_def)
  with pmfs_free_block_correct [OF pmfs_example_ok, of 5 PMFS_BLOCK_TYPE_4K "Some (Some 0)" True] show ?thesis
    by (auto split: if_splits)
qed

end
