(* ===== verification/Pmfs_Bbuild.thy ===== *)
theory Pmfs_Bbuild
  imports Pmfs_Balloc
begin

text \<open>
  Rebuilding the block map after a crash (\<open>pmfs/bbuild.c\<close>): the scan of the inodes marks the blocks of three sizes in three
  bitmaps, and \<open>pmfs_build_blocknode_map\<close> inserts every maximal run of marked blocks into the list of runs in use. The
  bitmaps are the input here: the scan of the block trees that fills them is not modelled.
\<close>

text \<open>The kernel's \<open>find_next_bit\<close> and \<open>find_next_zero_bit\<close>.\<close>

definition find_next_bit :: "(nat \<Rightarrow> bool) \<Rightarrow> nat \<Rightarrow> nat \<Rightarrow> nat" where
  "find_next_bit b n k = (case find b [k..<n] of Some j \<Rightarrow> j | None \<Rightarrow> n)"

definition find_next_zero_bit :: "(nat \<Rightarrow> bool) \<Rightarrow> nat \<Rightarrow> nat \<Rightarrow> nat" where
  "find_next_zero_bit b n k = find_next_bit (\<lambda>j. \<not> b j) n k"

lemma find_next_bit_spec:
  assumes "k \<le> n"
  shows "k \<le> find_next_bit b n k" "find_next_bit b n k \<le> n" "find_next_bit b n k < n \<Longrightarrow> b (find_next_bit b n k)"
    "k \<le> j \<Longrightarrow> j < find_next_bit b n k \<Longrightarrow> \<not> b j"
proof -
  have "k \<le> find_next_bit b n k \<and> find_next_bit b n k \<le> n \<and> (find_next_bit b n k < n \<longrightarrow> b (find_next_bit b n k)) \<and>
    (\<forall>j. k \<le> j \<and> j < find_next_bit b n k \<longrightarrow> \<not> b j)"
  proof (cases "find b [k..<n]")
    case None
    then have "find_next_bit b n k = n"
      by (simp add: find_next_bit_def)
    moreover have "\<forall>j. k \<le> j \<and> j < n \<longrightarrow> \<not> b j"
      using None by (simp add: find_None_iff)
    ultimately show ?thesis
      using assms by simp
  next
    case (Some m)
    then obtain i where "i < n - k" "m = k + i" "b (k + i)" "\<forall>j<i. \<not> b (k + j)"
      by (auto simp: find_Some_iff)
    moreover have "\<not> b j" if "\<forall>j<i. \<not> b (k + j)" "k \<le> j" "j < k + i" for j i
      using that(1) [rule_format, of "j - k"] that(2,3) by simp
    ultimately show ?thesis
      using Some by (auto simp: find_next_bit_def)
  qed
  then show "k \<le> find_next_bit b n k" "find_next_bit b n k \<le> n" "find_next_bit b n k < n \<Longrightarrow> b (find_next_bit b n k)"
    "k \<le> j \<Longrightarrow> j < find_next_bit b n k \<Longrightarrow> \<not> b j"
    by blast+
qed

text \<open>The loop of \<open>__pmfs_build_blocknode_map\<close>: \<open>ok\<close> tells for every run whether there is memory for a node; a run that
  cannot be inserted is reported and skipped.\<close>

function build_blocknode_loop :: "(nat \<Rightarrow> bool) \<Rightarrow> pmfs_sb \<Rightarrow> (nat \<Rightarrow> bool) \<Rightarrow> nat \<Rightarrow> nat \<Rightarrow> nat \<Rightarrow> pmfs_sb" where
  "build_blocknode_loop ok s bitmap bsize scale k =
    (let low = find_next_bit bitmap bsize k
     in if low = bsize \<or> bsize < k then s
        else
          let high = find_next_zero_bit bitmap bsize low;
              (ret, s) = pmfs_alloc_insert_blocknode_map (ok low) s (size_mul low (2 ^ scale)) (size_sub (size_mul high (2 ^ scale)) 1)
          in if high = bsize then s else build_blocknode_loop ok s bitmap bsize scale high)"
  by pat_completeness auto

termination
proof (relation "measure (\<lambda>(ok, s, bitmap, bsize, scale, k). bsize - k)")
  fix ok s bitmap and bsize scale k low high :: nat and x ret s'
  assume low: "low = find_next_bit bitmap bsize k" "\<not> (low = bsize \<or> bsize < k)"
    and high: "high = find_next_zero_bit bitmap bsize low" "high \<noteq> bsize"
  note l = find_next_bit_spec [where k = k and n = bsize and b = bitmap, folded low(1)]
  have "low < bsize" "bitmap low"
    using l low(2) by auto
  then have "low \<le> high" "high \<le> bsize" "\<not> bitmap high"
    using find_next_bit_spec [where k = low and n = bsize and b = "\<lambda>j. \<not> bitmap j"] high by (auto simp: find_next_zero_bit_def)
  moreover have "low \<noteq> high"
    using \<open>bitmap low\<close> calculation(3) by auto
  moreover have "k \<le> low"
    using l low(2) by simp
  ultimately show "((ok, s', bitmap, bsize, scale, high), ok, s, bitmap, bsize, scale, k) \<in> measure (\<lambda>(ok, s, bitmap, bsize, scale, k). bsize - k)"
    using \<open>low < bsize\<close> by simp
qed simp

declare build_blocknode_loop.simps [simp del]

record scan_bitmap =
  bitmap_4k :: "nat \<Rightarrow> bool"
  bitmap_2M :: "nat \<Rightarrow> bool"
  bitmap_1G :: "nat \<Rightarrow> bool"
  bitmap_4k_size :: nat
  bitmap_2M_size :: nat
  bitmap_1G_size :: nat

definition do_pmfs_build_blocknode_map :: "(nat \<Rightarrow> bool) \<Rightarrow> pmfs_sb \<Rightarrow> (nat \<Rightarrow> bool) \<Rightarrow> nat \<Rightarrow> nat \<Rightarrow> pmfs_sb" where
  "do_pmfs_build_blocknode_map ok s bitmap bsize scale = build_blocknode_loop ok s bitmap bsize scale 1"

definition pmfs_build_blocknode_map :: "(nat \<Rightarrow> bool) \<Rightarrow> pmfs_sb \<Rightarrow> scan_bitmap \<Rightarrow> pmfs_sb" where
  "pmfs_build_blocknode_map ok s bm =
    (let s = do_pmfs_build_blocknode_map ok s (bitmap_4k bm) (bitmap_4k_size bm * 8) 0;
         s = do_pmfs_build_blocknode_map ok s (bitmap_2M bm) (bitmap_2M_size bm * 8) 9
     in do_pmfs_build_blocknode_map ok s (bitmap_1G bm) (bitmap_1G_size bm * 8) 18)"

subsection \<open>Inserting a run\<close>

lemma insert_map_ok:
  assumes ok: "blockmap_ok s" and run: "lo \<le> hi" "hi < block_end s" "{lo..hi} \<inter> used_blocks (block_inuse_head s) = {}"
    and first: "block_inuse_head s \<noteq> []" "block_low (hd (block_inuse_head s)) \<le> lo"
  obtains s' where "pmfs_alloc_insert_blocknode_map True s lo hi = (0, s')" "blockmap_ok s'" "block_end s' = block_end s"
    "used_blocks (block_inuse_head s') = used_blocks (block_inuse_head s) \<union> {lo..hi}"
    "block_inuse_head s' \<noteq> []" "block_low (hd (block_inuse_head s')) = block_low (hd (block_inuse_head s))"
proof -
  let ?nodes = "block_inuse_head s"
  have b: "runs_ok (block_end s) ?nodes" "block_end s < 2 ^ 52" "num_blocknode_allocated s = length ?nodes"
    "num_free_blocks s = block_end s - card (used_blocks ?nodes)"
    using ok by (auto simp: blockmap_ok_def)
  have len: "length ?nodes < 2 ^ 63" "block_end s < 2 ^ 64"
    using length_runs [OF b(1)] b(2) by simp_all
  obtain r cnt nodes where g: "gap_scan True (block_end s) (\<lambda>_. (lo, hi)) (length ?nodes) ?nodes = (r, cnt, nodes)" by (rule prod_cases3)
  have lh: "fst (lo, hi) \<le> snd (lo, hi)"
    using run(1) by simp
  note sc = gap_scan_ok [OF b(1) len(2) le_refl len(1) lh g]
  have "lo < block_end s"
    using run by simp
  then obtain xs i rest where x: "?nodes = xs @ i # rest" "block_low i \<le> lo" "lo < next_low (block_end s) rest"
    by (rule last_below [OF b(1) first])
  have "lo \<notin> used_blocks ?nodes"
    using run by auto
  then have h: "block_high i < lo"
    using x by auto
  have "hi < next_low (block_end s) rest"
  proof (cases rest)
    case (Cons j rest')
    have "block_low j \<in> used_blocks ?nodes"
      using x(1) Cons b(1) by (auto simp: runs_ok_append)
    then have "block_low j \<notin> {lo..hi}"
      using run(3) by blast
    with x(3) Cons show ?thesis by simp
  qed (use run(2) in simp)
  with h sc x(1) obtain l where l: "r = Some l" by (cases r) fastforce+
  with sc have n: "used_blocks nodes = used_blocks ?nodes \<union> {lo..hi}" "runs_ok (block_end s) nodes" "cnt = length nodes"
    "\<forall>n\<in>set nodes. block_low (hd ?nodes) \<le> block_low n"
    by (auto simp: Let_def)
  have c: "size_sub (num_free_blocks s) (hi - lo + 1) = block_end s - card (used_blocks nodes)"
    using free_count_insert [OF n(2,1) run(3) len(2) run(1)] b(4) by simp
  have num: "size_add (size_sub hi lo) 1 = hi - lo + 1"
    using run(1,2) len(2) by simp
  have ne: "nodes \<noteq> []"
    using n(1) run(1) by (cases nodes) auto
  let ?s = "s\<lparr>block_inuse_head := nodes, num_blocknode_allocated := cnt, num_free_blocks := size_sub (num_free_blocks s) (hi - lo + 1)\<rparr>"
  have "block_low (hd nodes) = block_low (hd ?nodes)"
  proof (rule antisym)
    show "block_low (hd ?nodes) \<le> block_low (hd nodes)"
      using n(4) ne by simp
    have "block_low (hd ?nodes) \<in> used_blocks nodes"
      using first(1) b(1) n(1) by (cases ?nodes) auto
    then obtain j where "j \<in> set nodes" "block_low j \<le> block_low (hd ?nodes)"
      using used_blocks_bounds(2) [OF n(2)] by blast
    then show "block_low (hd nodes) \<le> block_low (hd ?nodes)"
      using hd_lowest [OF n(2), of j] by simp
  qed
  moreover have "pmfs_alloc_insert_blocknode_map True s lo hi = (0, ?s)"
    using g l unfolding pmfs_alloc_insert_blocknode_map_def b(3) num Let_def by simp
  ultimately show ?thesis
    using n c b ne by (intro that [of ?s]) (simp_all add: blockmap_ok_def)
qed

subsection \<open>The whole map\<close>

text \<open>The blocks that a bitmap marks from bit \<open>k\<close> on, for units of \<open>2 ^ scale\<close> blocks.\<close>

definition marked :: "(nat \<Rightarrow> bool) \<Rightarrow> nat \<Rightarrow> nat \<Rightarrow> nat \<Rightarrow> nat set" where
  "marked bitmap bsize scale k = {b. k \<le> b div 2 ^ scale \<and> b div 2 ^ scale < bsize \<and> bitmap (b div 2 ^ scale)}"

text \<open>A block map that starts with block 0.\<close>

definition map_from_0 :: "pmfs_sb \<Rightarrow> bool" where
  "map_from_0 s \<longleftrightarrow> blockmap_ok s \<and> block_inuse_head s \<noteq> [] \<and> block_low (hd (block_inuse_head s)) = 0"

lemma unit_range: "lo < hi \<Longrightarrow> {b. lo \<le> b div n \<and> b div n < hi} = {lo * n..hi * n - 1}" if "0 < n" for lo hi n :: nat
proof -
  assume "lo < hi"
  have "lo \<le> b div n \<longleftrightarrow> lo * n \<le> b" "b div n < hi \<longleftrightarrow> b < hi * n" for b
    using that by (simp_all add: less_eq_div_iff_mult_less_eq div_less_iff_less_mult)
  moreover have "b \<le> hi * n - 1 \<longleftrightarrow> b < hi * n" for b
    using \<open>lo < hi\<close> that by (cases "hi * n") auto
  ultimately show ?thesis by auto
qed

lemma marked_split:
  assumes "k \<le> bsize" "low = find_next_bit bitmap bsize k" "low < bsize" "high = find_next_zero_bit bitmap bsize low"
  shows "low < high" "high \<le> bsize"
    "marked bitmap bsize sc k = {low * 2 ^ sc..high * 2 ^ sc - 1} \<union> marked bitmap bsize sc high"
    "{low * 2 ^ sc..high * 2 ^ sc - 1} \<inter> marked bitmap bsize sc high = {}"
proof -
  note l = find_next_bit_spec [where b = bitmap, OF assms(1), folded assms(2)]
  have lb: "low \<le> bsize"
    using assms(3) by simp
  note h = find_next_bit_spec [where b = "\<lambda>j. \<not> bitmap j", OF lb, folded find_next_zero_bit_def, folded assms(4)]
  have "low \<noteq> high"
    using l(3) h(3) assms(3) by auto
  then show lh: "low < high" "high \<le> bsize"
    using h by auto
  have r: "{low * 2 ^ sc..high * 2 ^ sc - 1} = {b. low \<le> b div 2 ^ sc \<and> b div 2 ^ sc < high}"
    by (rule unit_range [symmetric]) (use lh in simp_all)
  have "k \<le> j \<and> j < bsize \<and> bitmap j \<longleftrightarrow> (low \<le> j \<and> j < high) \<or> (high \<le> j \<and> j < bsize \<and> bitmap j)" for j
    using l(1,4) h(1,2,4) by (meson le_trans less_le_trans not_le)
  then show "marked bitmap bsize sc k = {low * 2 ^ sc..high * 2 ^ sc - 1} \<union> marked bitmap bsize sc high"
    unfolding r marked_def by blast
  show "{low * 2 ^ sc..high * 2 ^ sc - 1} \<inter> marked bitmap bsize sc high = {}"
    unfolding r marked_def by auto
qed

lemma build_loop_ok:
  assumes "map_from_0 s" "marked bitmap bsize sc k \<subseteq> {..<block_end s}" "marked bitmap bsize sc k \<inter> used_blocks (block_inuse_head s) = {}"
    and "k \<le> bsize"
  shows "let s' = build_blocknode_loop (\<lambda>_. True) s bitmap bsize sc k in map_from_0 s' \<and> block_end s' = block_end s \<and>
    used_blocks (block_inuse_head s') = used_blocks (block_inuse_head s) \<union> marked bitmap bsize sc k"
  using assms
proof (induction "\<lambda>_::nat. True" s bitmap bsize sc k rule: build_blocknode_loop.induct)
  case (1 s bitmap bsize sc k)
  define low where "low = find_next_bit bitmap bsize k"
  note l = find_next_bit_spec [where b = bitmap, OF "1.prems"(4), folded low_def]
  show ?case
  proof (cases "low = bsize")
    case True
    then have "marked bitmap bsize sc k = {}"
      using l(4) by (auto simp: marked_def)
    then show ?thesis
      using "1.prems"(1) True by (simp add: build_blocknode_loop.simps [of _ s bitmap] low_def)
  next
    case False
    define high where "high = find_next_zero_bit bitmap bsize low"
    have lb: "low < bsize"
      using False l(2) by simp
    note m = marked_split [OF "1.prems"(4) low_def lb high_def]
    let ?lo = "low * 2 ^ sc" and ?hi = "high * 2 ^ sc - 1"
    have lh: "?lo < high * 2 ^ sc"
      using m(1) by simp
    then have le: "?lo \<le> ?hi" "?hi + 1 = high * 2 ^ sc" by linarith+
    then have "?hi \<in> marked bitmap bsize sc k"
      unfolding m(3) [of sc] by (intro UnI1) (simp only: atLeastAtMost_iff le_refl simp_thms)
    then have e: "?hi < block_end s"
      using "1.prems"(2) by blast
    have b: "blockmap_ok s" "block_inuse_head s \<noteq> []" "block_low (hd (block_inuse_head s)) \<le> ?lo"
      using "1.prems"(1) by (auto simp: map_from_0_def)
    then have "block_end s < 2 ^ 52"
      by (simp add: blockmap_ok_def)
    moreover have "(2::nat) ^ 52 < 2 ^ 64" by simp
    ultimately have "high * 2 ^ sc < 2 ^ 64" "1 \<le> high * 2 ^ sc"
      using e le(2) by linarith+
    then have sz: "size_mul low (2 ^ sc) = ?lo" "size_sub (size_mul high (2 ^ sc)) 1 = ?hi"
      using lh by (simp_all only: size_mul_small size_sub_le less_trans)
    have f: "{?lo..?hi} \<inter> used_blocks (block_inuse_head s) = {}"
      using "1.prems"(3) m(3) [of sc] by blast
    obtain s' where s': "pmfs_alloc_insert_blocknode_map True s ?lo ?hi = (0, s')" "blockmap_ok s'" "block_end s' = block_end s"
      "used_blocks (block_inuse_head s') = used_blocks (block_inuse_head s) \<union> {?lo..?hi}"
      "block_inuse_head s' \<noteq> []" "block_low (hd (block_inuse_head s')) = block_low (hd (block_inuse_head s))"
      by (rule insert_map_ok [OF b(1) le(1) e f b(2,3)])
    have ok': "map_from_0 s'"
      using s' "1.prems"(1) by (simp add: map_from_0_def)
    have step: "build_blocknode_loop (\<lambda>_. True) s bitmap bsize sc k =
      (if high = bsize then s' else build_blocknode_loop (\<lambda>_. True) s' bitmap bsize sc high)"
      using "1.prems"(4) False s'(1)
      unfolding build_blocknode_loop.simps [of _ s bitmap] Let_def low_def [symmetric] high_def [symmetric] sz by simp
    show ?thesis
    proof (cases "high = bsize")
      case True
      then have "marked bitmap bsize sc high = {}"
        by (auto simp: marked_def)
      with True ok' s' step m(3) [of sc] show ?thesis by (simp add: Let_def)
    next
      case nb: False
      have pre: "marked bitmap bsize sc high \<subseteq> {..<block_end s'}" "marked bitmap bsize sc high \<inter> used_blocks (block_inuse_head s') = {}"
        using "1.prems"(2,3) m(3,4) [of sc] s'(3,4) by auto
      have "let s'' = build_blocknode_loop (\<lambda>_. True) s' bitmap bsize sc high in map_from_0 s'' \<and> block_end s'' = block_end s' \<and>
        used_blocks (block_inuse_head s'') = used_blocks (block_inuse_head s') \<union> marked bitmap bsize sc high"
        by (rule "1.hyps" [OF low_def _ high_def _ _ nb ok' pre m(2)]) (use False "1.prems"(4) s'(1) sz in auto)
      with nb step s' m(3) [of sc] show ?thesis
        by (simp add: Let_def Un_assoc)
    qed
  qed
qed

lemma build_map_ok:
  assumes "map_from_0 s" "0 < n" "marked bitmap (n * 8) sc 1 \<subseteq> {..<block_end s}"
    and "marked bitmap (n * 8) sc 1 \<inter> used_blocks (block_inuse_head s) = {}"
  shows "map_from_0 (do_pmfs_build_blocknode_map (\<lambda>_. True) s bitmap (n * 8) sc)"
    "block_end (do_pmfs_build_blocknode_map (\<lambda>_. True) s bitmap (n * 8) sc) = block_end s"
    "used_blocks (block_inuse_head (do_pmfs_build_blocknode_map (\<lambda>_. True) s bitmap (n * 8) sc)) =
      used_blocks (block_inuse_head s) \<union> marked bitmap (n * 8) sc 1"
proof -
  have "1 \<le> n * 8"
    using assms(2) by simp
  note b = build_loop_ok [OF assms(1,3,4) this, folded do_pmfs_build_blocknode_map_def, unfolded Let_def]
  show "map_from_0 (do_pmfs_build_blocknode_map (\<lambda>_. True) s bitmap (n * 8) sc)"
    "block_end (do_pmfs_build_blocknode_map (\<lambda>_. True) s bitmap (n * 8) sc) = block_end s"
    "used_blocks (block_inuse_head (do_pmfs_build_blocknode_map (\<lambda>_. True) s bitmap (n * 8) sc)) =
      used_blocks (block_inuse_head s) \<union> marked bitmap (n * 8) sc 1"
    using b by blast+
qed

text \<open>C10: Rebuilding the block map of PMFS. For a well-formed map that starts with block 0 (what \<open>pmfs_init_blockmap\<close> makes) and bitmaps of
  4K, 2M and 1G units that mark blocks of the device that are disjoint from each other and from the map, with memory for the
  nodes, \<open>pmfs_build_blocknode_map\<close> ends, keeps the map well formed, with the count of free blocks right, and
  afterwards exactly the blocks that were in use and the marked ones are in use (bit 0 of every bitmap
  is not looked at).\<close>

theorem pmfs_build_blocknode_map_correct:
  fixes bm :: scan_bitmap
  defines "m4 \<equiv> marked (bitmap_4k bm) (bitmap_4k_size bm * 8) 0 1" and "m2 \<equiv> marked (bitmap_2M bm) (bitmap_2M_size bm * 8) 9 1"
    and "m1 \<equiv> marked (bitmap_1G bm) (bitmap_1G_size bm * 8) 18 1"
  assumes "map_from_0 s" "0 < bitmap_4k_size bm" "0 < bitmap_2M_size bm" "0 < bitmap_1G_size bm"
    and "m4 \<union> m2 \<union> m1 \<subseteq> {..<block_end s}" "(m4 \<union> m2 \<union> m1) \<inter> used_blocks (block_inuse_head s) = {}"
    and "m4 \<inter> m2 = {}" "m4 \<inter> m1 = {}" "m2 \<inter> m1 = {}"
  shows "map_from_0 (pmfs_build_blocknode_map (\<lambda>_. True) s bm) \<and>
    used_blocks (block_inuse_head (pmfs_build_blocknode_map (\<lambda>_. True) s bm)) = used_blocks (block_inuse_head s) \<union> m4 \<union> m2 \<union> m1"
proof -
  define s4 where "s4 = do_pmfs_build_blocknode_map (\<lambda>_. True) s (bitmap_4k bm) (bitmap_4k_size bm * 8) 0"
  define s2 where "s2 = do_pmfs_build_blocknode_map (\<lambda>_. True) s4 (bitmap_2M bm) (bitmap_2M_size bm * 8) 9"
  note d = assms(8-12)
  have "m4 \<subseteq> {..<block_end s}" "m4 \<inter> used_blocks (block_inuse_head s) = {}"
    using d by blast+
  note 4 = build_map_ok [OF assms(4,5) this [unfolded m4_def], folded s4_def m4_def]
  have "m2 \<subseteq> {..<block_end s4}" "m2 \<inter> used_blocks (block_inuse_head s4) = {}"
    unfolding 4(2,3) using d by blast+
  note 2 = build_map_ok [OF 4(1) assms(6) this [unfolded m2_def], folded s2_def m2_def]
  have "m1 \<subseteq> {..<block_end s2}" "m1 \<inter> used_blocks (block_inuse_head s2) = {}"
    unfolding 2(2,3) 4(2,3) using d by blast+
  note 1 = build_map_ok [OF 2(1) assms(7) this [unfolded m1_def], folded m1_def]
  have "pmfs_build_blocknode_map (\<lambda>_. True) s bm = do_pmfs_build_blocknode_map (\<lambda>_. True) s2 (bitmap_1G bm) (bitmap_1G_size bm * 8) 18"
    by (simp only: pmfs_build_blocknode_map_def Let_def s4_def s2_def)
  then show ?thesis
    using 1 2(3) 4(3) by (simp only: simp_thms)
qed

text \<open>Blocks 12 and 13 and the second 2M unit are marked.\<close>

definition bitmap_example :: scan_bitmap where
  "bitmap_example = \<lparr>bitmap_4k = \<lambda>j. j = 12 \<or> j = 13, bitmap_2M = \<lambda>j. j = 1, bitmap_1G = \<lambda>_. False,
     bitmap_4k_size = 250, bitmap_2M_size = 1, bitmap_1G_size = 1\<rparr>"

theorem pmfs_build_blocknode_map_correct_witness:
  "\<exists>s. pmfs_init_blockmap True (pmfs_example\<lparr>block_inuse_head := [], num_free_blocks := 2000, num_blocknode_allocated := 0\<rparr>) 40000 = Some s \<and>
    used_blocks (block_inuse_head (pmfs_build_blocknode_map (\<lambda>_. True) s bitmap_example)) = {0..9} \<union> {12, 13} \<union> {512..1023}"
proof -
  let ?s = "pmfs_example\<lparr>block_inuse_head := [\<lparr>block_low = 0, block_high = 9\<rparr>], num_free_blocks := 1990, num_blocknode_allocated := 1\<rparr>"
  have i: "pmfs_init_blockmap True (pmfs_example\<lparr>block_inuse_head := [], num_free_blocks := 2000, num_blocknode_allocated := 0\<rparr>) 40000 = Some ?s"
    by (simp add: pmfs_init_blockmap_def pmfs_example_def)
  have ok: "map_from_0 ?s"
    by (simp add: map_from_0_def blockmap_ok_def pmfs_example_def)
  have m: "marked (bitmap_4k bitmap_example) (bitmap_4k_size bitmap_example * 8) 0 1 = {12, 13}"
    "marked (bitmap_1G bitmap_example) (bitmap_1G_size bitmap_example * 8) 18 1 = {}"
    by (auto simp: marked_def bitmap_example_def)
  have "1 \<le> q \<and> q < 8 \<and> q = 1 \<longleftrightarrow> 1 \<le> q \<and> q < 2" for q :: nat by auto
  then have "marked (bitmap_2M bitmap_example) (bitmap_2M_size bitmap_example * 8) 9 1 = {b. 1 \<le> b div 2 ^ 9 \<and> b div 2 ^ 9 < 2}"
    unfolding marked_def bitmap_example_def by (simp only: scan_bitmap.simps mult_1)
  also have "\<dots> = {512..1023}"
    by (subst unit_range) simp_all
  finally have m2: "marked (bitmap_2M bitmap_example) (bitmap_2M_size bitmap_example * 8) 9 1 = {512..1023}" .
  have u: "used_blocks (block_inuse_head ?s) = {0..9}" "block_end ?s = 2000"
    by (simp_all add: pmfs_example_def)
  have r: "{512..1023} \<subseteq> {..<2000::nat}" by auto
  have z: "0 < bitmap_4k_size bitmap_example" "0 < bitmap_2M_size bitmap_example" "0 < bitmap_1G_size bitmap_example"
    by (simp_all add: bitmap_example_def)
  have "used_blocks (block_inuse_head (pmfs_build_blocknode_map (\<lambda>_. True) ?s bitmap_example)) = {0..9} \<union> {12, 13} \<union> {512..1023}"
    using pmfs_build_blocknode_map_correct [OF ok z, unfolded m m2 u] r by simp
  with i show ?thesis by blast
qed

end
