(* ===== verification/Pmfs_Journal.thy ===== *)
theory Pmfs_Journal
  imports Pmfs_State
begin

text \<open>
  The journal of PMFS (\<open>pmfs/journal.c\<close>). A transaction reserves a range of the log; before the file system changes
  metadata in place, \<open>pmfs_add_logentry\<close> copies the old bytes into log entries of the transaction, and
  \<open>pmfs_commit_transaction\<close> adds a commit entry. \<open>pmfs_recover_journal\<close> walks the log and copies the bytes of the
  transactions without a commit entry back. (With \<open>redo_log\<close> set, entries hold the new bytes instead.)

  A pointer to a log entry is its number, the offset in the log divided by the size of an entry; head and tail are
  offsets. An entry becomes valid when its generation number equals that of the log. Stores reach the
  media in program order: the flushes and barriers, which enforce this on the hardware, and the
  write protection of the pages have no effect in the model.
\<close>

subsection \<open>Constants and numbers\<close>

definition LOGENTRY_SIZE :: nat where
  "LOGENTRY_SIZE = 64"

definition LE_DATA :: nat where
  "LE_DATA = 0"

definition LE_START :: nat where
  "LE_START = 1"

definition LE_COMMIT :: nat where
  "LE_COMMIT = 2"

definition LE_ABORT :: nat where
  "LE_ABORT = 4"

definition MAX_GEN_ID :: nat where
  "MAX_GEN_ID = 0xFFFF"

definition u32_add :: "nat \<Rightarrow> nat \<Rightarrow> nat" where
  "u32_add a b = (a + b) mod 2 ^ 32"

definition u32_sub :: "nat \<Rightarrow> nat \<Rightarrow> nat" where
  "u32_sub a b = nat ((int a - int b) mod 2 ^ 32)"

definition next_log_entry :: "nat \<Rightarrow> nat \<Rightarrow> nat" where
  "next_log_entry jsize le_off = (let le_off = u32_add le_off LOGENTRY_SIZE in if le_off \<ge> jsize then 0 else le_off)"

definition prev_log_entry :: "nat \<Rightarrow> nat \<Rightarrow> nat" where
  "prev_log_entry jsize le_off = u32_sub (if le_off = 0 then jsize else le_off) LOGENTRY_SIZE"

definition next_gen_id :: "nat \<Rightarrow> nat" where
  "next_gen_id gen = (let gen = (gen + 1) mod 2 ^ 16 in if gen = 0 then 1 else gen)"

definition prev_gen_id :: "nat \<Rightarrow> nat" where
  "prev_gen_id gen = (let gen = (gen + 0xFFFF) mod 2 ^ 16 in if gen = 0 then 0xFFFF else gen)"

subsection \<open>Transactions\<close>

record pmfs_transaction =
  transaction_id :: nat
  num_entries :: nat
  num_used :: nat
  t_gen :: nat
  start_addr :: nat
  t_parent :: "nat option"

definition write_bytes :: "bytes \<Rightarrow> nat \<Rightarrow> byte list \<Rightarrow> bytes" where
  "write_bytes m a bs = (\<lambda>x. if a \<le> x \<and> x < a + length bs then bs ! (x - a) else m x)"

definition read_bytes :: "bytes \<Rightarrow> nat \<Rightarrow> nat \<Rightarrow> byte list" where
  "read_bytes m a n = map (\<lambda>i. m (a + i)) [0..<n]"

definition set_le :: "pmfs_sb \<Rightarrow> nat \<Rightarrow> pmfs_logentry \<Rightarrow> pmfs_sb" where
  "set_le s i e = s\<lparr>j_log := (j_log s)(i := e)\<rparr>"

text \<open>The copy of the bytes of an entry to the place they belong to.\<close>

definition apply_le :: "pmfs_sb \<Rightarrow> pmfs_logentry \<Rightarrow> pmfs_sb option" where
  "apply_le s e =
    do {
      data \<leftarrow> pmfs_get_block (addr_offset e);
      if le_size e \<le> length (le_data e) then Some (s\<lparr>dev := write_bytes (dev s) data (take (le_size e) (le_data e))\<rparr>)
      else None
    }"

definition pmfs_undo_logentry :: "pmfs_sb \<Rightarrow> pmfs_logentry \<Rightarrow> pmfs_sb option" where
  "pmfs_undo_logentry s e = (if le_size e > 0 then apply_le s e else Some s)"

primrec undo_entries :: "pmfs_sb \<Rightarrow> nat \<Rightarrow> nat \<Rightarrow> nat \<Rightarrow> pmfs_sb option" where
  "undo_entries s start gen 0 = Some s"
| "undo_entries s start gen (Suc n) =
    do {
      s \<leftarrow> (if gen = le_gen (j_log s (start + n)) then pmfs_undo_logentry s (j_log s (start + n)) else Some s);
      undo_entries s start gen n
    }"

definition pmfs_undo_transaction :: "pmfs_sb \<Rightarrow> pmfs_transaction \<Rightarrow> pmfs_sb option" where
  "pmfs_undo_transaction s t = undo_entries s (start_addr t) (t_gen t) (num_used t)"

primrec flush_entries :: "pmfs_sb \<Rightarrow> nat \<Rightarrow> nat \<Rightarrow> pmfs_sb option" where
  "flush_entries s le 0 = Some s"
| "flush_entries s le (Suc n) =
    do {
      s \<leftarrow> (if le_size (j_log s le) \<noteq> 0 then
             (if redo_log s then apply_le s (j_log s le)
              else pmfs_get_block (addr_offset (j_log s le)) \<bind> (\<lambda>_. Some s))
           else Some s);
      flush_entries s (Suc le) n
    }"

definition pmfs_flush_transaction :: "pmfs_sb \<Rightarrow> pmfs_transaction \<Rightarrow> pmfs_sb option" where
  "pmfs_flush_transaction s t = flush_entries s (start_addr t) (num_used t)"

definition invalidate_gen_id :: "pmfs_sb \<Rightarrow> nat \<Rightarrow> pmfs_sb" where
  "invalidate_gen_id s le = set_le s le ((j_log s le)\<lparr>le_gen := 0\<rparr>)"

primrec invalidate_entries :: "pmfs_sb \<Rightarrow> nat \<Rightarrow> nat \<Rightarrow> pmfs_sb" where
  "invalidate_entries s le 0 = s"
| "invalidate_entries s le (Suc n) = invalidate_entries (invalidate_gen_id s le) (Suc le) n"

definition pmfs_invalidate_logentries :: "pmfs_sb \<Rightarrow> pmfs_transaction \<Rightarrow> pmfs_sb" where
  "pmfs_invalidate_logentries s t = invalidate_entries s (start_addr t) (num_entries t)"

primrec redo_entries :: "pmfs_sb \<Rightarrow> nat \<Rightarrow> nat \<Rightarrow> bool \<Rightarrow> nat \<Rightarrow> pmfs_sb option" where
  "redo_entries s le gen recover 0 = Some s"
| "redo_entries s le gen recover (Suc n) =
    do {
      s \<leftarrow> (if gen = le_gen (j_log s le) \<and> le_size (j_log s le) > 0 then
             (if recover then apply_le s (j_log s le)
              else pmfs_get_block (addr_offset (j_log s le)) \<bind> (\<lambda>_. Some s))
           else Some s);
      redo_entries s (Suc le) gen recover n
    }"

definition pmfs_redo_transaction :: "pmfs_sb \<Rightarrow> pmfs_transaction \<Rightarrow> bool \<Rightarrow> pmfs_sb option" where
  "pmfs_redo_transaction s t recover = redo_entries s (start_addr t) (t_gen t) recover (num_entries t)"

subsection \<open>Logging\<close>

definition pmfs_commit_logentry :: "pmfs_sb \<Rightarrow> pmfs_transaction \<Rightarrow> nat \<Rightarrow> pmfs_sb option" where
  "pmfs_commit_logentry s t le =
    (let commit = (\<lambda>s. set_le s le ((j_log s le)\<lparr>le_type := le_type (j_log s le) OR LE_COMMIT, le_gen := t_gen t\<rparr>))
     in if redo_log s then pmfs_flush_transaction (commit s) t
        else pmfs_flush_transaction s t \<bind> (\<lambda>s. Some (commit s)))"

text \<open>The next entry of a transaction, before it is made valid by its generation number.\<close>

definition new_le :: "pmfs_sb \<Rightarrow> pmfs_transaction \<Rightarrow> bool \<Rightarrow> nat \<Rightarrow> nat \<Rightarrow> nat \<Rightarrow> pmfs_logentry" where
  "new_le s t first addr len type =
    (let e = j_log s (start_addr t + num_used t)
     in e\<lparr>addr_offset := addr, le_tid := transaction_id t, le_size := len,
          le_data := read_bytes (dev s) addr len @ drop len (le_data e),
          le_type := (if first \<and> num_used t = 0 then type OR LE_START else type)\<rparr>)"

text \<open>The loop over the entries of one call; \<open>n\<close> entries are left, \<open>first\<close> holds in the first round.\<close>

primrec add_entries ::
  "nat \<Rightarrow> pmfs_sb \<Rightarrow> pmfs_transaction \<Rightarrow> bool \<Rightarrow> nat \<Rightarrow> nat \<Rightarrow> nat \<Rightarrow> (pmfs_transaction \<times> pmfs_sb) option" where
  "add_entries 0 s t first addr sz type = Some (t, s)"
| "add_entries (Suc n) s t first addr sz type =
    (let i = start_addr t + num_used t;
         len = (if n = 0 then sz else 48) mod 2 ^ 8;
         e = new_le s t first addr len type;
         t = t\<lparr>num_used := (num_used t + 1) mod 2 ^ 16\<rparr>
     in if n = 0 \<and> type AND LE_COMMIT \<noteq> 0 then pmfs_commit_logentry (set_le s i e) t i \<bind> (\<lambda>s. Some (t, s))
        else add_entries n (set_le s i (e\<lparr>le_gen := t_gen t\<rparr>)) t False (addr + len) (sz - len) type)"

definition num_les :: "nat \<Rightarrow> nat \<Rightarrow> nat" where
  "num_les sz type =
    (if sz = 0 then if type AND LE_COMMIT \<noteq> 0 \<or> type AND LE_ABORT \<noteq> 0 then 1 else 0 else (sz + 47) div 48)"

definition pmfs_add_logentry ::
  "pmfs_sb \<Rightarrow> pmfs_transaction \<Rightarrow> nat \<Rightarrow> nat \<Rightarrow> nat \<Rightarrow> (int \<times> pmfs_transaction \<times> pmfs_sb) option" where
  "pmfs_add_logentry s t addr sz type =
    (if num_used t + num_les sz type > num_entries t then Some (- ENOMEM, t, s)
     else add_entries (num_les sz type) s t True (if sz = 0 then 0 else addr) sz type \<bind> (\<lambda>(t, s). Some (0, t, s)))"

definition pmfs_commit_transaction :: "pmfs_sb \<Rightarrow> pmfs_transaction option \<Rightarrow> (int \<times> pmfs_sb) option" where
  "pmfs_commit_transaction s tr =
    (case tr of
       None \<Rightarrow> Some (0, s)
     | Some t \<Rightarrow> do {
         (_, t, s) \<leftarrow> pmfs_add_logentry s t 0 0 LE_COMMIT;
         Some (0, s\<lparr>journal_info := t_parent t\<rparr>)
       })"

definition pmfs_abort_transaction :: "pmfs_sb \<Rightarrow> pmfs_transaction option \<Rightarrow> (int \<times> pmfs_sb) option" where
  "pmfs_abort_transaction s tr =
    (case tr of
       None \<Rightarrow> Some (0, s)
     | Some t \<Rightarrow> do {
         s \<leftarrow> (if \<not> redo_log s then pmfs_undo_transaction s t else Some s);
         (_, t, s) \<leftarrow> pmfs_add_logentry s t 0 0 LE_ABORT;
         Some (0, s\<lparr>journal_info := t_parent t\<rparr>)
       })"

subsection \<open>Cleaning and recovery\<close>

definition finishes :: "nat \<Rightarrow> pmfs_logentry \<Rightarrow> bool" where
  "finishes gen e \<longleftrightarrow> gen = le_gen e \<and> (le_type e AND LE_COMMIT \<noteq> 0 \<or> le_type e AND LE_ABORT \<noteq> 0)"

definition begins :: "nat \<Rightarrow> pmfs_logentry \<Rightarrow> bool" where
  "begins gen e \<longleftrightarrow> gen = le_gen e \<and> le_type e AND LE_START \<noteq> 0"

text \<open>The loop of \<open>pmfs_recover_transaction\<close>, backwards from an entry. The result has the tail, the last entry that was looked
  at, the number of entries, and whether a commit or abort and whether the start was found. A commit entry of
  the same transaction before its last entry is a bug, which stops the kernel.\<close>

partial_function (option) recover_scan ::
  "pmfs_sb \<Rightarrow> nat \<Rightarrow> nat \<Rightarrow> nat \<Rightarrow> nat \<Rightarrow> nat \<Rightarrow> nat \<Rightarrow> bool \<Rightarrow> (nat \<times> nat \<times> nat \<times> bool \<times> bool) option" where
  [code]: "recover_scan s gen tid head tail le num finished =
    (let num = (num + 1) mod 2 ^ 16;
         finished = (finished \<or> finishes gen (j_log s le))
     in if begins gen (j_log s le) then Some (tail, le, num, finished, True)
        else if tail = 0 \<or> tail = head then Some (tail, le, num, finished, False)
        else if finishes gen (j_log s (le - 1)) then
          (if tid = le_tid (j_log s (le - 1)) then None else Some (tail, le, num, finished, False))
        else recover_scan s gen tid head (prev_log_entry (j_jsize s) tail) (le - 1) num finished)"

definition pmfs_recover_transaction :: "pmfs_sb \<Rightarrow> nat \<Rightarrow> nat \<Rightarrow> nat \<Rightarrow> (nat \<times> pmfs_sb) option" where
  "pmfs_recover_transaction s head tail le =
    (let gen = le_gen (j_log s le); tid = le_tid (j_log s le)
     in do {
       (tail, le, num, finished, start_found) \<leftarrow> recover_scan s gen tid head tail le 0 False;
       let t = \<lparr>transaction_id = tid, num_entries = num, num_used = num, t_gen = gen, start_addr = le, t_parent = None\<rparr>;
       s \<leftarrow> (if start_found \<and> \<not> finished then pmfs_undo_transaction s t else Some s);
       let s = (if gen = MAX_GEN_ID then pmfs_invalidate_logentries s t else s);
       Some (tail, s)
     })"

text \<open>The loop of \<open>pmfs_process_transaction\<close>, forwards from the entry that starts a transaction. The result has the new head and the
  number of entries.\<close>

partial_function (option) process_scan ::
  "pmfs_sb \<Rightarrow> pmfs_transaction \<Rightarrow> nat \<Rightarrow> nat \<Rightarrow> nat \<Rightarrow> nat \<Rightarrow> nat \<Rightarrow> bool \<Rightarrow> (nat \<times> nat \<times> pmfs_sb) option" where
  [code]: "process_scan s t head tail new_head le handled recover =
    (let t = t\<lparr>num_entries := (num_entries t + 1) mod 2 ^ 16, num_used := (num_used t + 1) mod 2 ^ 16\<rparr>;
         new_head = next_log_entry (j_jsize s) new_head;
         handled = handled + 1;
         gen = t_gen t; e = j_log s le;
         redo = (le_type e AND LE_COMMIT \<noteq> 0 \<and> redo_log s)
     in if finishes gen e then do {
          s \<leftarrow> (if redo then pmfs_redo_transaction s t recover else Some s);
          Some (new_head, handled, if gen = MAX_GEN_ID then pmfs_invalidate_logentries s t else s)
        }
        else if new_head = tail \<or> begins gen (j_log s (Suc le)) then
          (if recover then Some (new_head, handled, if gen = MAX_GEN_ID then pmfs_invalidate_logentries s t else s)
           else Some (head, handled, s))
        else process_scan s t head tail new_head (Suc le) handled recover)"

definition pmfs_process_transaction :: "pmfs_sb \<Rightarrow> nat \<Rightarrow> nat \<Rightarrow> nat \<Rightarrow> bool \<Rightarrow> (nat \<times> nat \<times> pmfs_sb) option" where
  "pmfs_process_transaction s head tail le recover =
    (if le_type (j_log s le) AND LE_START = 0 then Some (next_log_entry (j_jsize s) head, 0, s)
     else
       let t = \<lparr>transaction_id = le_tid (j_log s le), num_entries = 0, num_used = 0, t_gen = le_gen (j_log s le),
                start_addr = le, t_parent = None\<rparr>
       in process_scan s t head tail head le 0 recover)"

partial_function (option) clean_loop :: "pmfs_sb \<Rightarrow> nat \<Rightarrow> nat \<Rightarrow> nat \<Rightarrow> nat \<Rightarrow> (nat \<times> nat \<times> pmfs_sb) option" where
  [code]: "clean_loop s gen head tail cnt =
    (if head = tail then Some (head, cnt, s)
     else
       let le = head div LOGENTRY_SIZE; turn = (\<lambda>head. if head = 0 then next_gen_id gen else gen)
       in if gen = le_gen (j_log s le) then do {
            (new_head, processed, s) \<leftarrow> pmfs_process_transaction s head tail le False;
            if new_head = head then Some (head, cnt + processed, s)
            else clean_loop s (turn new_head) new_head tail (cnt + processed)
          }
          else
            let s = (if gen = MAX_GEN_ID then invalidate_gen_id s le else s);
                head = next_log_entry (j_jsize s) head
            in clean_loop s (turn head) head tail cnt)"

definition pmfs_clean_journal :: "pmfs_sb \<Rightarrow> (nat \<times> pmfs_sb) option" where
  "pmfs_clean_journal s =
    (let head = j_head (j_desc s); tail = j_tail (j_desc s);
         gen = (if tail < head then prev_gen_id (j_gen (j_desc s)) else j_gen (j_desc s))
     in do {
       (head, cnt, s) \<leftarrow> clean_loop s gen head tail 0;
       Some (cnt, s\<lparr>j_desc := (j_desc s)\<lparr>j_head := head\<rparr>\<rparr>)
     })"

definition pmfs_free_logentries :: "pmfs_sb \<Rightarrow> (nat \<times> pmfs_sb) option" where
  "pmfs_free_logentries s = pmfs_clean_journal s \<bind> (\<lambda>(n, s). Some ((LOGENTRY_SIZE * n) mod 2 ^ 32, s))"

text \<open>Up to three attempts to free log entries.\<close>

primrec free_retries :: "nat \<Rightarrow> pmfs_sb \<Rightarrow> nat \<Rightarrow> nat \<Rightarrow> nat \<Rightarrow> (nat \<times> pmfs_sb) option" where
  "free_retries 0 s freed avail req = Some (freed, s)"
| "free_retries (Suc n) s freed avail req =
    do {
      (m, s) \<leftarrow> pmfs_free_logentries s;
      let freed = u32_add freed m;
      if u32_add avail freed \<ge> req then Some (freed, s) else free_retries n s freed avail req
    }"

text \<open>From the label \<open>again\<close> on: the entry number and the generation of the new transaction.\<close>

partial_function (option) reserve_log :: "pmfs_sb \<Rightarrow> nat \<Rightarrow> nat \<Rightarrow> nat \<Rightarrow> ((int + nat \<times> nat) \<times> pmfs_sb) option" where
  [code]: "reserve_log s head tail req =
    (let gen = j_gen (j_desc s);
         avail = u32_sub (if tail \<ge> head then u32_sub (j_jsize s) (u32_sub tail head) else u32_sub head tail) LOGENTRY_SIZE
     in do {
       (freed, s) \<leftarrow> (if avail < req then free_retries 3 s 0 avail req else Some (0, s));
       if avail < req \<and> u32_add avail freed < req then Some (Inl (- EAGAIN), s)
       else
         let new_tail = u32_add tail req
         in if new_tail \<ge> j_jsize s then
              reserve_log (s\<lparr>j_desc := (j_desc s)\<lparr>j_tail := 0, j_gen := next_gen_id (j_gen (j_desc s))\<rparr>\<rparr>) head 0 req
            else Some (Inr (tail div LOGENTRY_SIZE, gen), s\<lparr>j_desc := (j_desc s)\<lparr>j_tail := new_tail\<rparr>\<rparr>)
     })"

definition pmfs_new_transaction :: "bool \<Rightarrow> pmfs_sb \<Rightarrow> nat \<Rightarrow> ((int + pmfs_transaction) \<times> pmfs_sb) option" where
  "pmfs_new_transaction ok s max_log_entries =
    (let n = (if redo_log s then max_log_entries else max_log_entries + 1);
         tid = next_transaction_id s
     in if \<not> ok then Some (Inl (- ENOMEM), s)
        else do {
          (r, s) \<leftarrow> reserve_log (s\<lparr>next_transaction_id := u32_add tid 1\<rparr>) (j_head (j_desc s)) (j_tail (j_desc s)) ((n * 2 ^ 6) mod 2 ^ 32);
          case r of
            Inl e \<Rightarrow> Some (Inl e, s)
          | Inr (start, gen) \<Rightarrow>
              Some (Inr \<lparr>transaction_id = tid, num_entries = n mod 2 ^ 16, num_used = 0, t_gen = gen, start_addr = start,
                t_parent = journal_info s\<rparr>, s\<lparr>journal_info := Some tid\<rparr>)
        })"

subsection \<open>Start and recovery\<close>

definition pmfs_journal_soft_init :: "bool \<Rightarrow> pmfs_sb \<Rightarrow> int \<times> pmfs_sb" where
  "pmfs_journal_soft_init thread s =
    (if thread then 0 else - 1,
     s\<lparr>next_transaction_id := 0, j_jsize := j_size (j_desc s), redo_log := redo_logging (j_desc s) \<noteq> 0\<rparr>)"

definition zero_le :: pmfs_logentry where
  "zero_le = \<lparr>addr_offset = 0, le_tid = 0, le_gen = 0, le_type = 0, le_size = 0, le_data = replicate 48 0\<rparr>"

definition pmfs_journal_hard_init :: "bool \<Rightarrow> pmfs_sb \<Rightarrow> nat \<Rightarrow> nat \<Rightarrow> int \<times> pmfs_sb" where
  "pmfs_journal_hard_init thread s base sz =
    pmfs_journal_soft_init thread
      (s\<lparr>j_desc := \<lparr>j_base = base, j_size = sz, j_head = 0, j_tail = 0, j_gen = 1, redo_logging = 0\<rparr>,
         j_log := (\<lambda>i. if i < sz div LOGENTRY_SIZE then zero_le else j_log s i)\<rparr>)"

text \<open>\<open>n\<close> entries are left.\<close>

definition invalidate_remaining_journal :: "pmfs_sb \<Rightarrow> nat \<Rightarrow> nat \<Rightarrow> pmfs_sb" where
  "invalidate_remaining_journal s jtail jsize =
    invalidate_entries s (jtail div LOGENTRY_SIZE) ((jsize - jtail + LOGENTRY_SIZE - 1) div LOGENTRY_SIZE)"

definition pmfs_forward_journal :: "pmfs_sb \<Rightarrow> pmfs_sb" where
  "pmfs_forward_journal s =
    (let gen = j_gen (j_desc s);
         s = (if gen = MAX_GEN_ID then invalidate_remaining_journal s (j_tail (j_desc s)) (j_jsize s) else s)
     in s\<lparr>j_desc := (j_desc s)\<lparr>j_gen := next_gen_id gen, j_head := j_tail (j_desc s)\<rparr>\<rparr>)"

partial_function (option) recover_undo_loop :: "pmfs_sb \<Rightarrow> nat \<Rightarrow> nat \<Rightarrow> nat \<Rightarrow> pmfs_sb option" where
  [code]: "recover_undo_loop s gen head tail =
    (if head = tail then Some s
     else
       let gen = (if tail = 0 then prev_gen_id gen else gen);
           tail = prev_log_entry (j_jsize s) tail;
           le = tail div LOGENTRY_SIZE
       in if gen = le_gen (j_log s le) then do {
            (tail, s) \<leftarrow> pmfs_recover_transaction s head tail le;
            recover_undo_loop s gen head tail
          }
          else recover_undo_loop (if gen = MAX_GEN_ID then invalidate_gen_id s le else s) gen head tail)"

definition pmfs_recover_undo_journal :: "pmfs_sb \<Rightarrow> pmfs_sb option" where
  "pmfs_recover_undo_journal s =
    map_option pmfs_forward_journal (recover_undo_loop s (j_gen (j_desc s)) (j_head (j_desc s)) (j_tail (j_desc s)))"

partial_function (option) recover_redo_loop :: "pmfs_sb \<Rightarrow> nat \<Rightarrow> nat \<Rightarrow> nat \<Rightarrow> pmfs_sb option" where
  [code]: "recover_redo_loop s gen head tail =
    (if head = tail then Some s
     else
       let le = head div LOGENTRY_SIZE; turn = (\<lambda>head. if head = 0 then next_gen_id gen else gen)
       in if gen = le_gen (j_log s le) then do {
            (head, _, s) \<leftarrow> pmfs_process_transaction s head tail le True;
            recover_redo_loop s (turn head) head tail
          }
          else
            let head = next_log_entry (j_jsize s) head
            in recover_redo_loop (if gen = MAX_GEN_ID then invalidate_gen_id s le else s) (turn head) head tail)"

definition pmfs_recover_redo_journal :: "pmfs_sb \<Rightarrow> pmfs_sb option" where
  "pmfs_recover_redo_journal s =
    (let gen = (if j_tail (j_desc s) < j_head (j_desc s) then prev_gen_id (j_gen (j_desc s)) else j_gen (j_desc s))
     in map_option pmfs_forward_journal (recover_redo_loop s gen (j_head (j_desc s)) (j_tail (j_desc s))))"

definition pmfs_recover_journal :: "pmfs_sb \<Rightarrow> (int \<times> pmfs_sb) option" where
  "pmfs_recover_journal s =
    (if j_head (j_desc s) = j_tail (j_desc s) then Some (0, s)
     else if redo_log s then map_option (Pair 0) (pmfs_recover_redo_journal s)
     else map_option (Pair 0) (pmfs_recover_undo_journal s))"

end
