(* ===== verification/Pmfs_Undo.thy ===== *)
theory Pmfs_Undo
  imports Pmfs_Journal
begin

text \<open>
  The undo journal makes transactions atomic. The first part follows one transaction: \<open>txn_run\<close> are the states that
  logging and changes of logged bytes reach, and undoing the entries always gives the bytes the transaction
  started with. The second part follows the recovery: \<open>segs_at\<close> describes a log as a sequence of finished and
  unfinished transactions, and the recovery undoes exactly the unfinished ones, newest first.
\<close>

subsection \<open>Putting bytes back\<close>

definition put_le :: "pmfs_logentry \<Rightarrow> bytes \<Rightarrow> bytes" where
  "put_le e m = write_bytes m (addr_offset e) (take (le_size e) (le_data e))"

definition le_ok :: "pmfs_logentry \<Rightarrow> bool" where
  "le_ok e \<longleftrightarrow> le_size e \<le> length (le_data e) \<and> (0 < le_size e \<longrightarrow> addr_offset e \<noteq> 0)"

definition covers :: "pmfs_logentry \<Rightarrow> nat \<Rightarrow> bool" where
  "covers e a \<longleftrightarrow> addr_offset e \<le> a \<and> a < addr_offset e + le_size e"

lemma put_le_at: "le_ok e \<Longrightarrow> put_le e m a = (if covers e a then le_data e ! (a - addr_offset e) else m a)"
  by (auto simp: put_le_def write_bytes_def covers_def le_ok_def)

lemma put_le_upd: "le_ok e \<Longrightarrow> put_le e (m(a := v)) = (if covers e a then put_le e m else (put_le e m)(a := v))"
  by (auto simp: put_le_at fun_eq_iff)

lemma put_all_upd:
  "\<forall>e\<in>set es. le_ok e \<Longrightarrow> foldr put_le es (m(a := v)) = (if \<exists>e\<in>set es. covers e a then foldr put_le es m else (foldr put_le es m)(a := v))"
  by (induction es) (auto simp: put_le_upd)

lemma put_le_same: "le_ok e \<Longrightarrow> (\<And>i. i < le_size e \<Longrightarrow> le_data e ! i = m (addr_offset e + i)) \<Longrightarrow> put_le e m = m"
  by (auto simp: put_le_at fun_eq_iff covers_def)

text \<open>The entries of a log from \<open>i\<close> on.\<close>

definition entries_at :: "(nat \<Rightarrow> pmfs_logentry) \<Rightarrow> nat \<Rightarrow> nat \<Rightarrow> pmfs_logentry list" where
  "entries_at lg i n = map (\<lambda>k. lg (i + k)) [0..<n]"

lemma entries_at_simps [simp]:
  "entries_at lg i 0 = []" "entries_at lg i (Suc n) = entries_at lg i n @ [lg (i + n)]" "length (entries_at lg i n) = n"
  by (simp_all add: entries_at_def)

lemma entries_at_cong: "(\<And>k. k < n \<Longrightarrow> lg' (i + k) = lg (i + k)) \<Longrightarrow> entries_at lg' i n = entries_at lg i n"
  by (simp add: entries_at_def)

lemma set_entries_at: "set (entries_at lg i n) = (\<lambda>k. lg (i + k)) ` {..<n}"
  by (auto simp: entries_at_def)

lemma put_le_empty: "le_size e = 0 \<Longrightarrow> put_le e m = m"
  by (auto simp: put_le_def write_bytes_def fun_eq_iff)

lemma undo_logentry_eq: "le_ok e \<Longrightarrow> pmfs_undo_logentry s e = Some (s\<lparr>dev := put_le e (dev s)\<rparr>)"
proof (cases "le_size e = 0")
  case True
  then show ?thesis by (simp add: put_le_empty pmfs_undo_logentry_def)
next
  case False
  then show "le_ok e \<Longrightarrow> ?thesis"
    by (simp add: pmfs_undo_logentry_def apply_le_def le_ok_def pmfs_get_block_def put_le_def)
qed

lemma undo_entries_eq:
  "\<forall>k<n. le_gen (j_log s (i + k)) = gen \<and> le_ok (j_log s (i + k)) \<Longrightarrow>
    undo_entries s i gen n = Some (s\<lparr>dev := foldr put_le (entries_at (j_log s) i n) (dev s)\<rparr>)"
proof (induction n arbitrary: s)
  case (Suc n)
  let ?e = "j_log s (i + n)"
  have e: "le_gen ?e = gen" "le_ok ?e"
    using Suc.prems by auto
  have "undo_entries (s\<lparr>dev := put_le ?e (dev s)\<rparr>) i gen n =
      Some ((s\<lparr>dev := put_le ?e (dev s)\<rparr>)\<lparr>dev := foldr put_le (entries_at (j_log s) i n) (put_le ?e (dev s))\<rparr>)"
    using Suc.IH [of "s\<lparr>dev := put_le ?e (dev s)\<rparr>"] Suc.prems by simp
  with e show ?case
    by (simp add: undo_logentry_eq)
qed simp

subsection \<open>Logging\<close>

text \<open>What holds of a running transaction \<open>t\<close> that started in state \<open>s0\<close>.\<close>

definition txn_inv :: "pmfs_sb \<Rightarrow> pmfs_sb \<Rightarrow> pmfs_transaction \<Rightarrow> bool" where
  "txn_inv s0 s t \<longleftrightarrow> num_used t \<le> num_entries t \<and> num_entries t < 2 ^ 16 \<and>
    (\<forall>k<num_used t. let e = j_log s (start_addr t + k) in
       le_gen e = t_gen t \<and> le_ok e \<and> le_tid e = transaction_id t \<and> le_type e = (if k = 0 then LE_START else LE_DATA)) \<and>
    foldr put_le (entries_at (j_log s) (start_addr t) (num_used t)) (dev s) = dev s0 \<and>
    (\<forall>i. i < start_addr t \<or> start_addr t + num_used t \<le> i \<longrightarrow> j_log s i = j_log s0 i) \<and>
    j_desc s = j_desc s0 \<and> j_jsize s = j_jsize s0 \<and> redo_log s = redo_log s0"

definition logged :: "pmfs_sb \<Rightarrow> pmfs_transaction \<Rightarrow> nat \<Rightarrow> bool" where
  "logged s t a \<longleftrightarrow> (\<exists>k<num_used t. covers (j_log s (start_addr t + k)) a)"

lemma txn_inv_write:
  assumes "txn_inv s0 s t" "logged s t a"
  shows "txn_inv s0 (s\<lparr>dev := (dev s)(a := v)\<rparr>) t"
proof -
  let ?es = "entries_at (j_log s) (start_addr t) (num_used t)"
  have ok: "\<forall>e\<in>set ?es. le_ok e"
    using assms(1) by (auto simp: txn_inv_def Let_def set_entries_at)
  have "\<exists>e\<in>set ?es. covers e a"
    using assms(2) by (auto simp: logged_def set_entries_at)
  then have "foldr put_le ?es ((dev s)(a := v)) = foldr put_le ?es (dev s)"
    unfolding put_all_upd [OF ok] by (simp only: if_True)
  with assms(1) show ?thesis
    by (simp add: txn_inv_def)
qed

text \<open>One new entry with the bytes that are there.\<close>

lemma txn_inv_entry:
  assumes inv: "txn_inv s0 s t" and room: "num_used t < num_entries t"
    and e: "le_gen e = t_gen t" "le_ok e" "le_tid e = transaction_id t" "le_type e = (if num_used t = 0 then LE_START else LE_DATA)"
      "put_le e (dev s) = dev s"
  shows "txn_inv s0 (set_le s (start_addr t + num_used t) e) (t\<lparr>num_used := num_used t + 1\<rparr>)"
proof -
  let ?i = "start_addr t + num_used t"
  have "entries_at ((j_log s)(?i := e)) (start_addr t) (num_used t) = entries_at (j_log s) (start_addr t) (num_used t)"
    by (rule entries_at_cong) simp
  with assms show ?thesis
    by (auto simp: txn_inv_def set_le_def Let_def less_Suc_eq)
qed

lemma logged_entry:
  "logged (set_le s (start_addr t + num_used t) e) (t\<lparr>num_used := num_used t + 1\<rparr>) a \<longleftrightarrow> logged s t a \<or> covers e a"
proof -
  have "(\<exists>k<Suc n. P k) \<longleftrightarrow> (\<exists>k<n. P k) \<or> P n" for n and P :: "nat \<Rightarrow> bool"
    by (auto simp: less_Suc_eq)
  then show ?thesis
    by (simp add: logged_def set_le_def cong: conj_cong)
qed

lemma le_types: "LE_DATA AND LE_COMMIT = 0" "LE_DATA OR LE_START = LE_START" "LE_COMMIT AND LE_COMMIT \<noteq> 0" "LE_COMMIT \<noteq> 0" "LE_DATA AND LE_ABORT = 0"
  by (simp_all add: LE_DATA_def LE_COMMIT_def LE_START_def LE_ABORT_def)

lemma new_le_ok:
  assumes "addr \<noteq> 0" "num_used t = 0 \<longrightarrow> first" "e = (new_le s t first addr len LE_DATA)\<lparr>le_gen := t_gen t\<rparr>"
  shows "le_gen e = t_gen t" "le_ok e" "le_tid e = transaction_id t" "le_type e = (if num_used t = 0 then LE_START else LE_DATA)"
    "put_le e (dev s) = dev s" "covers e a \<longleftrightarrow> addr \<le> a \<and> a < addr + len"
proof -
  show ok: "le_gen e = t_gen t" "le_ok e" "le_tid e = transaction_id t" "le_type e = (if num_used t = 0 then LE_START else LE_DATA)"
    "covers e a \<longleftrightarrow> addr \<le> a \<and> a < addr + len"
    using assms by (simp_all add: new_le_def Let_def le_ok_def read_bytes_def le_types covers_def)
  show "put_le e (dev s) = dev s"
    by (rule put_le_same [OF ok(2)]) (simp add: assms(3) new_le_def Let_def read_bytes_def nth_append)
qed

lemma add_data_ok:
  "txn_inv s0 s t \<Longrightarrow> num_used t + n \<le> num_entries t \<Longrightarrow> addr \<noteq> 0 \<Longrightarrow> sz \<le> 48 * n \<Longrightarrow> 48 * n < sz + 48 \<Longrightarrow>
    num_used t = 0 \<longrightarrow> first \<Longrightarrow>
    \<exists>t' s'. add_entries n s t first addr sz LE_DATA = Some (t', s') \<and> txn_inv s0 s' t' \<and> dev s' = dev s \<and>
      t' = t\<lparr>num_used := num_used t + n\<rparr> \<and> (\<forall>a. logged s' t' a \<longleftrightarrow> logged s t a \<or> addr \<le> a \<and> a < addr + sz)"
proof (induction n arbitrary: s t first addr sz)
  case 0
  then show ?case by auto
next
  case (Suc n)
  define len where "len = (if n = 0 then sz else 48)"
  have len: "len mod 2 ^ 8 = len" "len \<le> sz" "0 < len"
    using Suc.prems(4,5) by (auto simp: len_def)
  define e where "e = (new_le s t first addr len LE_DATA)\<lparr>le_gen := t_gen t\<rparr>"
  have e: "le_gen e = t_gen t" "le_ok e" "le_tid e = transaction_id t" "le_type e = (if num_used t = 0 then LE_START else LE_DATA)"
      "put_le e (dev s) = dev s" "covers e a \<longleftrightarrow> addr \<le> a \<and> a < addr + len" for a
    by (rule new_le_ok [OF Suc.prems(3,6) e_def])+
  have u: "(num_used t + 1) mod 2 ^ 16 = num_used t + 1" "num_used t < num_entries t"
    using Suc.prems(1,2) by (auto simp: txn_inv_def)
  define s1 t1 where "s1 = set_le s (start_addr t + num_used t) e" and "t1 = t\<lparr>num_used := num_used t + 1\<rparr>"
  have inv: "txn_inv s0 s1 t1"
    unfolding s1_def t1_def by (rule txn_inv_entry [OF Suc.prems(1) u(2) e(1-5)])
  have lg: "logged s1 t1 a \<longleftrightarrow> logged s t a \<or> addr \<le> a \<and> a < addr + len" for a
    unfolding s1_def t1_def logged_entry e(6) ..
  have f: "dev s1 = dev s" "num_used t1 = num_used t + 1" "num_entries t1 = num_entries t" "t_gen t1 = t_gen t"
    by (simp_all add: s1_def t1_def set_le_def)
  have pre: "num_used t1 + n \<le> num_entries t1" "addr + len \<noteq> 0" "sz - len \<le> 48 * n" "48 * n < sz - len + 48" "num_used t1 = 0 \<longrightarrow> False"
    using Suc.prems(2-5) f(2,3) by (auto simp: len_def)
  obtain t' s' where r: "add_entries n s1 t1 False (addr + len) (sz - len) LE_DATA = Some (t', s')" "txn_inv s0 s' t'"
    "dev s' = dev s1" "t' = t1\<lparr>num_used := num_used t1 + n\<rparr>"
    "\<forall>a. logged s' t' a \<longleftrightarrow> logged s1 t1 a \<or> addr + len \<le> a \<and> a < addr + len + (sz - len)"
    using Suc.IH [OF inv pre] by blast
  have "add_entries (Suc n) s t first addr sz LE_DATA = Some (t', s')"
    using r(1) unfolding add_entries.simps Let_def len_def [symmetric] len(1) u(1) t1_def [symmetric] f(4) e_def [symmetric] s1_def [symmetric]
    by (simp add: le_types)
  moreover have "logged s' t' a \<longleftrightarrow> logged s t a \<or> addr \<le> a \<and> a < addr + sz" for a
  proof -
    have "addr \<le> a \<and> a < addr + len \<or> addr + len \<le> a \<and> a < addr + len + (sz - len) \<longleftrightarrow> addr \<le> a \<and> a < addr + sz"
      using len(2) by linarith
    then show ?thesis
      unfolding r(5) [rule_format] lg by blast
  qed
  moreover have "t' = t\<lparr>num_used := num_used t + Suc n\<rparr>"
    using r(4) by (simp add: t1_def)
  ultimately show ?case
    using r(2,3) f(1) by simp
qed

text \<open>The states of a transaction: logging, changing bytes that are logged, and changes of the state in memory.\<close>

inductive txn_run :: "pmfs_sb \<Rightarrow> pmfs_transaction \<Rightarrow> pmfs_sb \<Rightarrow> pmfs_transaction \<Rightarrow> bool" for s0 t0 where
  start: "txn_run s0 t0 s0 t0"
| log: "txn_run s0 t0 s t \<Longrightarrow> addr \<noteq> 0 \<Longrightarrow> 0 < sz \<Longrightarrow> pmfs_add_logentry s t addr sz LE_DATA = Some (r, t', s') \<Longrightarrow> txn_run s0 t0 s' t'"
| change: "txn_run s0 t0 s t \<Longrightarrow> logged s t a \<Longrightarrow> txn_run s0 t0 (s\<lparr>dev := (dev s)(a := v)\<rparr>) t"
| memory: "txn_run s0 t0 s t \<Longrightarrow> dev s' = dev s \<Longrightarrow> j_log s' = j_log s \<Longrightarrow> j_desc s' = j_desc s \<Longrightarrow> j_jsize s' = j_jsize s \<Longrightarrow>
    redo_log s' = redo_log s \<Longrightarrow> txn_run s0 t0 s' t"

lemma add_logentry_ok:
  assumes "txn_inv s0 s t" "addr \<noteq> 0" "0 < sz"
  shows "\<exists>r t' s'. pmfs_add_logentry s t addr sz LE_DATA = Some (r, t', s') \<and> txn_inv s0 s' t' \<and> dev s' = dev s \<and>
    (\<exists>n. t' = t\<lparr>num_used := n\<rparr>) \<and> (r = 0 \<longrightarrow> (\<forall>a. logged s' t' a \<longleftrightarrow> logged s t a \<or> addr \<le> a \<and> a < addr + sz))"
proof (cases "num_used t + num_les sz LE_DATA > num_entries t")
  case True
  then show ?thesis
    using assms(1) by (auto simp: pmfs_add_logentry_def ENOMEM_def intro!: exI [of _ "num_used t"])
next
  case False
  have n: "sz \<le> 48 * num_les sz LE_DATA" "48 * num_les sz LE_DATA < sz + 48"
    using assms(3) by (simp_all add: num_les_def)
  have room: "num_used t + num_les sz LE_DATA \<le> num_entries t"
    using False by simp
  obtain t' s' where r: "add_entries (num_les sz LE_DATA) s t True addr sz LE_DATA = Some (t', s')" "txn_inv s0 s' t'" "dev s' = dev s"
    "t' = t\<lparr>num_used := num_used t + num_les sz LE_DATA\<rparr>" "\<forall>a. logged s' t' a \<longleftrightarrow> logged s t a \<or> addr \<le> a \<and> a < addr + sz"
    using add_data_ok [OF assms(1) room assms(2) n, of True] by blast
  have "pmfs_add_logentry s t addr sz LE_DATA = Some (0, t', s')"
    using r(1) False assms(3) by (simp add: pmfs_add_logentry_def)
  with r show ?thesis by blast
qed

lemma txn_run_inv:
  assumes "txn_run s0 t0 s t" "num_used t0 = 0" "num_entries t0 < 2 ^ 16"
  shows "txn_inv s0 s t \<and> (\<exists>n. t = t0\<lparr>num_used := n\<rparr>)"
  using assms(1)
proof induction
  case start
  then show ?case
    using assms(2,3) by (auto simp: txn_inv_def intro!: exI [of _ 0])
next
  case (log s t addr sz r t' s')
  then show ?case
    using add_logentry_ok [of s0 s t addr sz] by auto
next
  case (change s t a v)
  then show ?case
    by (simp add: txn_inv_write)
next
  case (memory s t s')
  then show ?case
    by (simp add: txn_inv_def)
qed

subsection \<open>The shape of a log\<close>

text \<open>The part of the log of one transaction: \<open>seg_len\<close> entries are reserved, \<open>seg_used\<close> of them are written, and the last of these is
  a commit or abort entry if the transaction is finished.\<close>

record seg =
  seg_len :: nat
  seg_used :: nat
  seg_fin :: bool

definition seg_at :: "(nat \<Rightarrow> pmfs_logentry) \<Rightarrow> nat \<Rightarrow> nat \<Rightarrow> seg \<Rightarrow> bool" where
  "seg_at lg gen i x \<longleftrightarrow> seg_used x \<le> seg_len x \<and> seg_used x < 2 ^ 16 \<and>
    (\<forall>k < seg_used x. le_gen (lg (i + k)) = gen \<and> le_ok (lg (i + k)) \<and> (begins gen (lg (i + k)) \<longleftrightarrow> k = 0) \<and>
       (finishes gen (lg (i + k)) \<longleftrightarrow> seg_fin x \<and> Suc k = seg_used x)) \<and>
    (\<forall>k. seg_used x \<le> k \<and> k < seg_len x \<longrightarrow> le_gen (lg (i + k)) \<noteq> gen)"

primrec segs_at :: "(nat \<Rightarrow> pmfs_logentry) \<Rightarrow> nat \<Rightarrow> nat \<Rightarrow> seg list \<Rightarrow> bool" where
  "segs_at lg gen i [] \<longleftrightarrow> True"
| "segs_at lg gen i (x # xs) \<longleftrightarrow> seg_at lg gen i x \<and> segs_at lg gen (i + seg_len x) xs"

definition segs_len :: "seg list \<Rightarrow> nat" where
  "segs_len xs = sum_list (map seg_len xs)"

text \<open>The bytes after the unfinished transactions are undone, the last one first.\<close>

definition undo_seg :: "(nat \<Rightarrow> pmfs_logentry) \<Rightarrow> nat \<Rightarrow> seg \<Rightarrow> bytes \<Rightarrow> bytes" where
  "undo_seg lg i x m = (if seg_fin x then m else foldr put_le (entries_at lg i (seg_used x)) m)"

primrec undo_segs :: "(nat \<Rightarrow> pmfs_logentry) \<Rightarrow> nat \<Rightarrow> seg list \<Rightarrow> bytes \<Rightarrow> bytes" where
  "undo_segs lg i [] m = m"
| "undo_segs lg i (x # xs) m = undo_seg lg i x (undo_segs lg (i + seg_len x) xs m)"

lemma segs_len_simps [simp]: "segs_len [] = 0" "segs_len (x # xs) = seg_len x + segs_len xs" "segs_len (xs @ ys) = segs_len xs + segs_len ys"
  by (simp_all add: segs_len_def)

lemma segs_at_append: "segs_at lg gen i (xs @ ys) \<longleftrightarrow> segs_at lg gen i xs \<and> segs_at lg gen (i + segs_len xs) ys"
  by (induction xs arbitrary: i) (auto simp: add.assoc)

lemma undo_segs_append: "undo_segs lg i (xs @ ys) m = undo_segs lg i xs (undo_segs lg (i + segs_len xs) ys m)"
  by (induction xs arbitrary: i) (auto simp: add.assoc)

subsection \<open>The recovery\<close>

lemma LOGENTRY_pos [simp]: "LOGENTRY_SIZE \<noteq> 0" "0 < LOGENTRY_SIZE"
  by (simp_all add: LOGENTRY_SIZE_def)

lemma prev_entry: "0 < q \<Longrightarrow> LOGENTRY_SIZE * q < 2 ^ 32 \<Longrightarrow> prev_log_entry jsize (LOGENTRY_SIZE * q) = LOGENTRY_SIZE * (q - 1)"
proof -
  assume q: "0 < q" "LOGENTRY_SIZE * q < 2 ^ 32"
  then have "(int (64 * q) - 64) mod 2 ^ 32 = int (64 * (q - 1))"
    by (subst mod_pos_pos_trivial) (auto simp: LOGENTRY_SIZE_def)
  with q show ?thesis
    by (simp add: prev_log_entry_def u32_sub_def LOGENTRY_SIZE_def)
qed

text \<open>From an entry of a transaction the scan goes back to its first entry.\<close>

lemma recover_scan_seg:
  assumes x: "seg_at (j_log s) gen i x" and k: "k < seg_used x" "num + k < 2 ^ 16 - 1" and h: "h \<le> i" "LOGENTRY_SIZE * (i + k) < 2 ^ 32"
  shows "recover_scan s gen tid (LOGENTRY_SIZE * h) (LOGENTRY_SIZE * (i + k)) (i + k) num fin =
    Some (LOGENTRY_SIZE * i, i, num + k + 1, fin \<or> seg_fin x \<and> Suc k = seg_used x, True)"
  using k h(2)
proof (induction k arbitrary: num fin)
  case 0
  then show ?case
    using x unfolding recover_scan.simps [of s gen tid _ _ "i + 0"] by (auto simp: seg_at_def Let_def)
next
  case (Suc k)
  have e: "\<not> begins gen (j_log s (i + Suc k))" "\<not> finishes gen (j_log s (i + k))"
    "finishes gen (j_log s (i + Suc k)) \<longleftrightarrow> seg_fin x \<and> Suc (Suc k) = seg_used x"
    using x Suc.prems(1) by (auto simp: seg_at_def)
  have "prev_log_entry (j_jsize s) (LOGENTRY_SIZE * (i + Suc k)) = LOGENTRY_SIZE * (i + k)"
    using prev_entry [of "i + Suc k" "j_jsize s"] Suc.prems(3) by simp
  moreover have "LOGENTRY_SIZE * (i + Suc k) \<noteq> LOGENTRY_SIZE * h" "LOGENTRY_SIZE * (i + Suc k) \<noteq> 0"
    using h(1) by (simp_all add: LOGENTRY_SIZE_def)
  moreover have "recover_scan s gen tid (LOGENTRY_SIZE * h) (LOGENTRY_SIZE * (i + k)) (i + k) (num + 1) (fin \<or> finishes gen (j_log s (i + Suc k))) =
      Some (LOGENTRY_SIZE * i, i, num + 1 + k + 1, (fin \<or> finishes gen (j_log s (i + Suc k))) \<or> seg_fin x \<and> Suc k = seg_used x, True)"
    by (rule Suc.IH) (use Suc.prems in \<open>simp_all add: LOGENTRY_SIZE_def\<close>)
  moreover have "(num + 1) mod 2 ^ 16 = num + 1" "Suc k \<noteq> seg_used x"
    using Suc.prems by simp_all
  ultimately show ?case
    using e unfolding recover_scan.simps [of s gen tid _ _ "i + Suc k"] by (simp add: Let_def)
qed

lemma recover_transaction_seg:
  assumes x: "seg_at (j_log s) gen i x" and u: "seg_used x = Suc k" and h: "h \<le> i" "LOGENTRY_SIZE * (i + Suc k) < 2 ^ 32" and g: "gen \<noteq> MAX_GEN_ID"
  shows "pmfs_recover_transaction s (LOGENTRY_SIZE * h) (LOGENTRY_SIZE * (i + k)) (i + k) =
    Some (LOGENTRY_SIZE * i, s\<lparr>dev := undo_seg (j_log s) i x (dev s)\<rparr>)"
proof -
  have k: "k < seg_used x" "0 + k < 2 ^ 16 - 1" "LOGENTRY_SIZE * (i + k) < 2 ^ 32"
    using x u h(2) by (auto simp: seg_at_def)
  have gen: "le_gen (j_log s (i + k)) = gen"
    using x k(1) by (auto simp: seg_at_def)
  note sc = recover_scan_seg [OF x k(1,2) h(1) k(3), of _ False]
  have "undo_entries s i gen (Suc k) = Some (s\<lparr>dev := foldr put_le (entries_at (j_log s) i (seg_used x)) (dev s)\<rparr>)"
    unfolding u by (rule undo_entries_eq) (use x u in \<open>auto simp: seg_at_def\<close>)
  with sc gen g u show ?thesis
    by (simp add: pmfs_recover_transaction_def Let_def pmfs_undo_transaction_def undo_seg_def del: undo_entries.simps entries_at_simps)
qed

text \<open>Entries that are not valid are passed over.\<close>

lemma recover_loop_skip:
  assumes "\<forall>k<n. le_gen (j_log s (i + k)) \<noteq> gen" "h \<le> i" "LOGENTRY_SIZE * (i + n) < 2 ^ 32" "gen \<noteq> MAX_GEN_ID"
  shows "recover_undo_loop s gen (LOGENTRY_SIZE * h) (LOGENTRY_SIZE * (i + n)) = recover_undo_loop s gen (LOGENTRY_SIZE * h) (LOGENTRY_SIZE * i)"
  using assms(1,3)
proof (induction n)
  case (Suc n)
  have "LOGENTRY_SIZE * (i + Suc n) \<noteq> 0" "LOGENTRY_SIZE * h \<noteq> LOGENTRY_SIZE * (i + Suc n)" "LOGENTRY_SIZE * (i + n) div LOGENTRY_SIZE = i + n"
    using assms(2) by (simp_all add: LOGENTRY_SIZE_def)
  moreover have "prev_log_entry (j_jsize s) (LOGENTRY_SIZE * (i + Suc n)) = LOGENTRY_SIZE * (i + n)"
    using prev_entry [of "i + Suc n" "j_jsize s"] Suc.prems(2) by simp
  moreover have "le_gen (j_log s (i + n)) \<noteq> gen"
    using Suc.prems(1) by simp
  ultimately have "recover_undo_loop s gen (LOGENTRY_SIZE * h) (LOGENTRY_SIZE * (i + Suc n)) =
      recover_undo_loop s gen (LOGENTRY_SIZE * h) (LOGENTRY_SIZE * (i + n))"
    using assms(4) unfolding recover_undo_loop.simps [of s gen _ "LOGENTRY_SIZE * (i + Suc n)"] Let_def by simp
  with Suc show ?case by (simp add: LOGENTRY_SIZE_def)
qed simp

lemma recover_loop_segs:
  assumes "segs_at (j_log s) gen h xs" "LOGENTRY_SIZE * (h + segs_len xs) < 2 ^ 32" "gen \<noteq> MAX_GEN_ID"
  shows "recover_undo_loop s gen (LOGENTRY_SIZE * h) (LOGENTRY_SIZE * (h + segs_len xs)) =
    Some (s\<lparr>dev := undo_segs (j_log s) h xs (dev s)\<rparr>)"
  using assms(1,2)
proof (induction xs arbitrary: s rule: rev_induct)
  case Nil
  then show ?case
    unfolding recover_undo_loop.simps [of s] by simp
next
  case (snoc x xs)
  let ?i = "h + segs_len xs" and ?h = "LOGENTRY_SIZE * h"
  have x: "seg_at (j_log s) gen ?i x" and xs: "segs_at (j_log s) gen h xs"
    using snoc.prems(1) by (simp_all add: segs_at_append)
  have len: "seg_used x \<le> seg_len x" "LOGENTRY_SIZE * (?i + seg_len x) < 2 ^ 32"
    using x snoc.prems(2) by (simp_all add: seg_at_def add.assoc)
  have un: "\<forall>k < seg_len x - seg_used x. le_gen (j_log s ((?i + seg_used x) + k)) \<noteq> gen"
    using x by (simp add: seg_at_def add.assoc)
  have skip: "recover_undo_loop s gen ?h (LOGENTRY_SIZE * (h + segs_len (xs @ [x]))) = recover_undo_loop s gen ?h (LOGENTRY_SIZE * (?i + seg_used x))"
    using recover_loop_skip [OF un, of h] len assms(3) by (simp add: add.assoc)
  show ?case
  proof (cases "seg_used x = 0")
    case True
    then have "undo_seg (j_log s) ?i x m = m" for m
      by (simp add: undo_seg_def)
    moreover have "LOGENTRY_SIZE * (h + segs_len xs) < 2 ^ 32"
      using len(2) by (simp add: LOGENTRY_SIZE_def)
    ultimately show ?thesis
      using skip True snoc.IH [OF xs] by (simp add: undo_segs_append)
  next
    case False
    then obtain k where k: "seg_used x = Suc k" by (cases "seg_used x") auto
    let ?s = "s\<lparr>dev := undo_seg (j_log s) ?i x (dev s)\<rparr>"
    have l: "LOGENTRY_SIZE * (?i + Suc k) < 2 ^ 32" "LOGENTRY_SIZE * ?i < 2 ^ 32"
      using len k by (simp_all add: LOGENTRY_SIZE_def)
    have "LOGENTRY_SIZE * (?i + Suc k) \<noteq> 0" "?h \<noteq> LOGENTRY_SIZE * (?i + Suc k)" "LOGENTRY_SIZE * (?i + k) div LOGENTRY_SIZE = ?i + k"
      by (simp_all add: LOGENTRY_SIZE_def)
    moreover have "prev_log_entry (j_jsize s) (LOGENTRY_SIZE * (?i + Suc k)) = LOGENTRY_SIZE * (?i + k)"
      using prev_entry [of "?i + Suc k" "j_jsize s"] l(1) by simp
    moreover have "le_gen (j_log s (?i + k)) = gen"
      using x k by (simp add: seg_at_def)
    moreover have "pmfs_recover_transaction s ?h (LOGENTRY_SIZE * (?i + k)) (?i + k) = Some (LOGENTRY_SIZE * ?i, ?s)"
      by (rule recover_transaction_seg [OF x k _ l(1) assms(3)]) simp
    ultimately have "recover_undo_loop s gen ?h (LOGENTRY_SIZE * (?i + Suc k)) = recover_undo_loop ?s gen ?h (LOGENTRY_SIZE * ?i)"
      unfolding recover_undo_loop.simps [of s gen _ "LOGENTRY_SIZE * (?i + Suc k)"] Let_def by (simp only: if_False bind.simps prod.case if_True simp_thms)
    moreover have "recover_undo_loop ?s gen ?h (LOGENTRY_SIZE * ?i) = Some (?s\<lparr>dev := undo_segs (j_log ?s) h xs (dev ?s)\<rparr>)"
      by (rule snoc.IH) (use xs l(2) in simp_all)
    ultimately show ?thesis
      using skip k by (simp add: undo_segs_append)
  qed
qed

subsection \<open>Ending a transaction\<close>

lemma flush_undo:
  "\<not> redo_log s \<Longrightarrow> \<forall>k<n. le_ok (j_log s (i + k)) \<Longrightarrow> flush_entries s i n = Some s"
proof (induction n arbitrary: i)
  case (Suc n)
  have "le_ok (j_log s i)"
    using Suc.prems(2) by (auto dest: spec [of _ 0])
  moreover have "flush_entries s (Suc i) n = Some s"
    by (rule Suc.IH) (use Suc.prems in auto)
  ultimately show ?case
    using Suc.prems(1) by (auto simp: le_ok_def pmfs_get_block_def)
qed simp

text \<open>A commit or abort entry, which holds no bytes.\<close>

definition end_le :: "pmfs_sb \<Rightarrow> pmfs_transaction \<Rightarrow> nat \<Rightarrow> pmfs_logentry" where
  "end_le s t type = (new_le s t True 0 0 type)\<lparr>le_type := if num_used t = 0 then type OR LE_START else type, le_gen := t_gen t\<rparr>"

lemma end_le_ok:
  assumes "type = LE_COMMIT \<or> type = LE_ABORT"
  shows "le_gen (end_le s t type) = t_gen t" "le_ok (end_le s t type)" "finishes (t_gen t) (end_le s t type)"
    "begins (t_gen t) (end_le s t type) \<longleftrightarrow> num_used t = 0"
  using assms by (auto simp: end_le_def new_le_def Let_def le_ok_def finishes_def begins_def LE_COMMIT_def LE_ABORT_def LE_START_def)

lemma commit_eq:
  assumes inv: "txn_inv s0 s t" and redo: "\<not> redo_log s" and room: "num_used t < num_entries t"
  shows "\<exists>s'. pmfs_commit_transaction s (Some t) = Some (0, s') \<and> dev s' = dev s \<and>
    j_log s' = (j_log s)(start_addr t + num_used t := end_le s t LE_COMMIT) \<and> j_desc s' = j_desc s \<and> j_jsize s' = j_jsize s \<and> redo_log s' = redo_log s"
proof -
  let ?i = "start_addr t + num_used t" and ?e = "new_le s t True 0 0 LE_COMMIT" and ?t = "t\<lparr>num_used := num_used t + 1\<rparr>"
  have u: "(num_used t + 1) mod 2 ^ 16 = num_used t + 1" "num_used t + 1 \<le> num_entries t"
    using inv room by (auto simp: txn_inv_def)
  have "\<forall>k<num_used t + 1. le_ok (j_log (set_le s ?i ?e) (start_addr t + k))"
    using inv by (auto simp: txn_inv_def Let_def set_le_def less_Suc_eq new_le_def le_ok_def)
  then have f: "pmfs_flush_transaction (set_le s ?i ?e) ?t = Some (set_le s ?i ?e)"
    using redo flush_undo [of "set_le s ?i ?e" "num_used t + 1" "start_addr t"] by (simp add: pmfs_flush_transaction_def set_le_def)
  have ty: "le_type ?e OR LE_COMMIT = (if num_used t = 0 then LE_COMMIT OR LE_START else LE_COMMIT)"
    by (simp add: new_le_def Let_def LE_COMMIT_def LE_START_def)
  have "pmfs_commit_logentry (set_le s ?i ?e) ?t ?i = Some (set_le s ?i (end_le s t LE_COMMIT))"
    using f redo ty by (simp add: pmfs_commit_logentry_def Let_def set_le_def end_le_def)
  then have "pmfs_add_logentry s t 0 0 LE_COMMIT = Some (0, ?t, set_le s ?i (end_le s t LE_COMMIT))"
    using u by (simp add: pmfs_add_logentry_def num_les_def le_types Let_def)
  then show ?thesis
    by (auto simp: pmfs_commit_transaction_def set_le_def)
qed

lemma add_abort:
  "pmfs_add_logentry s t 0 0 LE_ABORT =
    (if num_entries t < num_used t + 1 then Some (- ENOMEM, t, s)
     else Some (0, t\<lparr>num_used := (num_used t + 1) mod 2 ^ 16\<rparr>, set_le s (start_addr t + num_used t) (end_le s t LE_ABORT)))"
proof -
  have "num_les 0 LE_ABORT = 1" "LE_ABORT AND LE_COMMIT = 0"
    by (simp_all add: num_les_def LE_ABORT_def LE_COMMIT_def)
  moreover have "(new_le s t True 0 0 LE_ABORT)\<lparr>le_gen := t_gen t\<rparr> = end_le s t LE_ABORT"
    by (simp add: end_le_def new_le_def Let_def)
  ultimately show ?thesis
    by (simp add: pmfs_add_logentry_def Let_def)
qed

lemma abort_eq:
  assumes inv: "txn_inv s0 s t" and redo: "\<not> redo_log s"
  shows "\<exists>s'. pmfs_abort_transaction s (Some t) = Some (0, s') \<and> dev s' = dev s0"
proof -
  have "pmfs_undo_transaction s t = Some (s\<lparr>dev := dev s0\<rparr>)"
    unfolding pmfs_undo_transaction_def
    by (subst undo_entries_eq) (use inv in \<open>auto simp: txn_inv_def Let_def\<close>)
  with redo show ?thesis
    by (simp add: pmfs_abort_transaction_def add_abort set_le_def)
qed

subsection \<open>Recovery of a log with one running transaction\<close>

definition log_segs :: "pmfs_sb \<Rightarrow> nat \<Rightarrow> seg list \<Rightarrow> bool" where
  "log_segs s h xs \<longleftrightarrow> \<not> redo_log s \<and> j_gen (j_desc s) \<noteq> MAX_GEN_ID \<and> j_head (j_desc s) = LOGENTRY_SIZE * h \<and>
    j_tail (j_desc s) = LOGENTRY_SIZE * (h + segs_len xs) \<and> j_tail (j_desc s) < 2 ^ 32 \<and> segs_at (j_log s) (j_gen (j_desc s)) h xs"

lemma recover_segs:
  assumes "log_segs s h xs"
  shows "\<exists>s'. pmfs_recover_journal s = Some (0, s') \<and> dev s' = undo_segs (j_log s) h xs (dev s) \<and> j_head (j_desc s') = j_tail (j_desc s')"
proof (cases "segs_len xs = 0")
  case True
  have "undo_segs (j_log s) h xs (dev s) = dev s"
  proof -
    have "\<forall>x\<in>set xs. seg_len x = 0"
      using True by (simp add: segs_len_def)
    moreover have "segs_at lg gen i ys \<Longrightarrow> \<forall>x\<in>set ys. seg_len x = 0 \<Longrightarrow> undo_segs lg i ys m = m" for lg gen i ys m
      by (induction ys arbitrary: i) (auto simp: undo_seg_def seg_at_def)
    ultimately show ?thesis
      using assms unfolding log_segs_def by blast
  qed
  with True assms show ?thesis
    by (simp add: pmfs_recover_journal_def log_segs_def)
next
  case False
  let ?gen = "j_gen (j_desc s)"
  have "recover_undo_loop s ?gen (LOGENTRY_SIZE * h) (LOGENTRY_SIZE * (h + segs_len xs)) = Some (s\<lparr>dev := undo_segs (j_log s) h xs (dev s)\<rparr>)"
    by (rule recover_loop_segs) (use assms in \<open>auto simp: log_segs_def\<close>)
  with False assms show ?thesis
    by (simp add: pmfs_recover_journal_def log_segs_def pmfs_recover_undo_journal_def pmfs_forward_journal_def Let_def)
qed

text \<open>Finished transactions are left alone.\<close>

lemma undo_finished: "\<forall>x\<in>set xs. seg_fin x \<Longrightarrow> undo_segs lg i xs m = m"
  by (induction xs arbitrary: i) (auto simp: undo_seg_def)

lemma seg_at_cong: "(\<And>k. k < seg_len x \<Longrightarrow> lg' (i + k) = lg (i + k)) \<Longrightarrow> seg_at lg' gen i x \<longleftrightarrow> seg_at lg gen i x"
  by (simp add: seg_at_def cong: conj_cong imp_cong)

lemma segs_at_cong: "(\<And>j. i \<le> j \<Longrightarrow> j < i + segs_len xs \<Longrightarrow> lg' j = lg j) \<Longrightarrow> segs_at lg' gen i xs \<longleftrightarrow> segs_at lg gen i xs"
proof (induction xs arbitrary: i)
  case (Cons x xs)
  have "seg_at lg' gen i x \<longleftrightarrow> seg_at lg gen i x"
    by (rule seg_at_cong) (use Cons.prems in simp)
  moreover have "segs_at lg' gen (i + seg_len x) xs \<longleftrightarrow> segs_at lg gen (i + seg_len x) xs"
    by (rule Cons.IH) (use Cons.prems in simp)
  ultimately show ?case by simp
qed simp

subsection \<open>A new transaction\<close>

text \<open>A log without a running transaction: the entries between head and tail are those of finished transactions, and no entry behind the
  tail is valid.\<close>

definition log_idle :: "pmfs_sb \<Rightarrow> bool" where
  "log_idle s \<longleftrightarrow> (\<exists>h xs. log_segs s h xs \<and> (\<forall>x\<in>set xs. seg_fin x)) \<and>
    (\<forall>i. j_tail (j_desc s) div LOGENTRY_SIZE \<le> i \<and> i < j_jsize s div LOGENTRY_SIZE \<longrightarrow> le_gen (j_log s i) \<noteq> j_gen (j_desc s))"

text \<open>A transaction of \<open>m\<close> entries and the one for the commit fits behind the tail.\<close>

definition log_room :: "pmfs_sb \<Rightarrow> nat \<Rightarrow> bool" where
  "log_room s m \<longleftrightarrow> m + 1 < 2 ^ 16 \<and> j_tail (j_desc s) + LOGENTRY_SIZE * (m + 2) \<le> j_jsize s \<and> j_jsize s < 2 ^ 32"

lemma new_transaction_fits:
  assumes "log_segs s h xs" "log_room s m"
  shows "pmfs_new_transaction True s m =
    Some (Inr \<lparr>transaction_id = next_transaction_id s, num_entries = m + 1, num_used = 0, t_gen = j_gen (j_desc s),
        start_addr = h + segs_len xs, t_parent = journal_info s\<rparr>,
      s\<lparr>next_transaction_id := u32_add (next_transaction_id s) 1,
        j_desc := (j_desc s)\<lparr>j_tail := LOGENTRY_SIZE * (h + segs_len xs + (m + 1))\<rparr>, journal_info := Some (next_transaction_id s)\<rparr>)"
proof -
  let ?head = "64 * h" and ?tail = "64 * (h + segs_len xs)" and ?req = "64 * (m + 1)"
  have r: "\<not> redo_log s" "j_head (j_desc s) = ?head" "j_tail (j_desc s) = ?tail" "?tail + ?req + 64 \<le> j_jsize s" "j_jsize s < 2 ^ 32" "m + 1 < 2 ^ 16"
    using assms by (auto simp: log_segs_def log_room_def LOGENTRY_SIZE_def)
  have sub: "u32_sub a b = a - b" if "b \<le> a" "a < 2 ^ 32" for a b
    using that by (simp add: u32_sub_def flip: of_nat_diff)
  have "u32_sub (u32_sub (j_jsize s) (u32_sub ?tail ?head)) 64 = j_jsize s - (?tail - ?head) - 64"
  proof -
    have "u32_sub ?tail ?head = ?tail - ?head"
      by (rule sub) (use r in simp_all)
    moreover have "u32_sub (j_jsize s) (?tail - ?head) = j_jsize s - (?tail - ?head)"
      by (rule sub) (use r in simp_all)
    moreover have "u32_sub (j_jsize s - (?tail - ?head)) 64 = j_jsize s - (?tail - ?head) - 64"
      by (rule sub) (use r in simp_all)
    ultimately show ?thesis by simp
  qed
  moreover have "\<not> j_jsize s - (?tail - ?head) - 64 < ?req" "?head \<le> ?tail"
    using r by simp_all
  moreover have "u32_add ?tail ?req = ?tail + ?req" "\<not> j_jsize s \<le> ?tail + ?req" "((m + 1) * 2 ^ 6) mod 2 ^ 32 = ?req"
    using r by (simp_all add: u32_add_def)
  moreover have "?tail div 64 = h + segs_len xs" "?tail + ?req = 64 * (h + segs_len xs + (m + 1))" by simp_all
  moreover have "(m + 1) mod 2 ^ 16 = m + 1"
    using r(6) by simp
  ultimately show ?thesis
    using r(1-3) unfolding pmfs_new_transaction_def Let_def reserve_log.simps [of "s\<lparr>next_transaction_id := u32_add (next_transaction_id s) 1\<rparr>"] LOGENTRY_SIZE_def
    by (simp add: mult.commute [of m])
qed

text \<open>The part of the log that belongs to a transaction, running or committed.\<close>

lemma txn_seg:
  assumes inv: "txn_inv s0 s t" and free: "\<forall>k<num_entries t. le_gen (j_log s0 (start_addr t + k)) \<noteq> t_gen t"
  shows "seg_at (j_log s) (t_gen t) (start_addr t) \<lparr>seg_len = num_entries t, seg_used = num_used t, seg_fin = False\<rparr>"
    "num_used t < num_entries t \<Longrightarrow> seg_at ((j_log s)(start_addr t + num_used t := end_le s t LE_COMMIT)) (t_gen t) (start_addr t)
       \<lparr>seg_len = num_entries t, seg_used = num_used t + 1, seg_fin = True\<rparr>"
proof -
  have e: "le_gen (j_log s (start_addr t + k)) = t_gen t \<and> le_ok (j_log s (start_addr t + k)) \<and>
      (begins (t_gen t) (j_log s (start_addr t + k)) \<longleftrightarrow> k = 0) \<and> \<not> finishes (t_gen t) (j_log s (start_addr t + k))" if "k < num_used t" for k
  proof -
    have "LE_START AND LE_START \<noteq> 0" "LE_START AND LE_COMMIT = 0" "LE_START AND LE_ABORT = 0" "LE_DATA AND LE_START = 0"
      by (simp_all add: LE_START_def LE_COMMIT_def LE_ABORT_def LE_DATA_def)
    with inv that show ?thesis
      by (simp add: txn_inv_def Let_def begins_def finishes_def le_types)
  qed
  have u: "num_used t \<le> num_entries t" "num_entries t < 2 ^ 16" "\<And>k. num_used t \<le> k \<Longrightarrow> j_log s (start_addr t + k) = j_log s0 (start_addr t + k)"
    using inv by (simp_all add: txn_inv_def)
  show "seg_at (j_log s) (t_gen t) (start_addr t) \<lparr>seg_len = num_entries t, seg_used = num_used t, seg_fin = False\<rparr>"
    using e u free by (simp add: seg_at_def)
  show "seg_at ((j_log s)(start_addr t + num_used t := end_le s t LE_COMMIT)) (t_gen t) (start_addr t)
       \<lparr>seg_len = num_entries t, seg_used = num_used t + 1, seg_fin = True\<rparr>" if "num_used t < num_entries t"
    using e u free that end_le_ok [where type = LE_COMMIT and s = s and t = t] by (auto simp: seg_at_def less_Suc_eq)
qed

subsection \<open>Transactions are atomic\<close>

lemma log_segs_snoc:
  assumes s0: "log_segs s0 h xs" and t: "t_gen t = j_gen (j_desc s0)" "start_addr t = h + segs_len xs"
    and s: "redo_log s = redo_log s0" "j_desc s = (j_desc s0)\<lparr>j_tail := LOGENTRY_SIZE * (h + segs_len xs + num_entries t)\<rparr>"
      "LOGENTRY_SIZE * (h + segs_len xs + num_entries t) < 2 ^ 32" "\<And>i. i < start_addr t \<Longrightarrow> j_log s i = j_log s0 i"
    and x: "seg_at (j_log s) (t_gen t) (start_addr t) x" "seg_len x = num_entries t"
  shows "log_segs s h (xs @ [x])"
proof -
  have "segs_at (j_log s) (t_gen t) h xs"
    using s0 t s(4) segs_at_cong [of h xs "j_log s" "j_log s0"] by (simp add: log_segs_def)
  with s0 t s x show ?thesis
    by (simp add: log_segs_def segs_at_append add.assoc)
qed

definition running_seg :: "pmfs_transaction \<Rightarrow> seg" where
  "running_seg t = \<lparr>seg_len = num_entries t, seg_used = num_used t, seg_fin = False\<rparr>"

definition finished_seg :: "pmfs_transaction \<Rightarrow> seg" where
  "finished_seg t = \<lparr>seg_len = num_entries t, seg_used = num_used t + 1, seg_fin = True\<rparr>"

text \<open>The log while a transaction runs, and after it is committed.\<close>

lemma txn_log:
  assumes h: "log_segs s0 h xs" and room: "log_room s0 m"
    and free: "\<forall>i. j_tail (j_desc s0) div LOGENTRY_SIZE \<le> i \<and> i < j_jsize s0 div LOGENTRY_SIZE \<longrightarrow> le_gen (j_log s0 i) \<noteq> j_gen (j_desc s0)"
    and new: "pmfs_new_transaction True s0 m = Some (Inr t0, s1)" and run: "txn_run s1 t0 s t"
  shows "txn_inv s1 s t" "dev s1 = dev s0" "\<not> redo_log s" "start_addr t = h + segs_len xs" "num_entries t = m + 1" "log_segs s h (xs @ [running_seg t])"
    and "num_used t < num_entries t \<Longrightarrow> \<exists>s2. pmfs_commit_transaction s (Some t) = Some (0, s2) \<and> dev s2 = dev s \<and>
      j_log s2 = (j_log s)(start_addr t + num_used t := end_le s t LE_COMMIT) \<and> j_jsize s2 = j_jsize s \<and> j_gen (j_desc s2) = j_gen (j_desc s0) \<and>
      log_segs s2 h (xs @ [finished_seg t])"
proof -
  have s1: "dev s1 = dev s0" "j_log s1 = j_log s0" "redo_log s1 = redo_log s0" "num_used t0 = 0" "num_entries t0 = m + 1"
      "j_desc s1 = (j_desc s0)\<lparr>j_tail := LOGENTRY_SIZE * (h + segs_len xs + num_entries t0)\<rparr>"
      "t_gen t0 = j_gen (j_desc s0)" "start_addr t0 = h + segs_len xs"
    using new_transaction_fits [OF h room, unfolded new] by simp_all
  have lim: "num_entries t0 < 2 ^ 16" "LOGENTRY_SIZE * (h + segs_len xs + num_entries t0) < 2 ^ 32"
    using room h s1(5) by (auto simp: log_room_def log_segs_def algebra_simps)
  obtain n where inv: "txn_inv s1 s t" and t: "t = t0\<lparr>num_used := n\<rparr>"
    using txn_run_inv [OF run s1(4) lim(1)] by blast
  have tf: "num_entries t = num_entries t0" "t_gen t = j_gen (j_desc s0)" "start_addr t = h + segs_len xs"
    using t s1(7,8) by simp_all
  have sf: "redo_log s = redo_log s0" "j_desc s = (j_desc s0)\<lparr>j_tail := LOGENTRY_SIZE * (h + segs_len xs + num_entries t)\<rparr>"
    "\<And>i. i < start_addr t \<Longrightarrow> j_log s i = j_log s0 i" "\<not> redo_log s"
    using inv s1 tf(1) h by (auto simp: txn_inv_def log_segs_def)
  have fr: "\<forall>k<num_entries t. le_gen (j_log s1 (start_addr t + k)) \<noteq> t_gen t"
  proof -
    have "h + segs_len xs + k < j_jsize s0 div LOGENTRY_SIZE" if "k < num_entries t" for k
      using that h room s1(5) tf(1) by (simp add: log_segs_def log_room_def LOGENTRY_SIZE_def less_eq_div_iff_mult_less_eq flip: Suc_le_eq)
    moreover have "j_tail (j_desc s0) div LOGENTRY_SIZE = h + segs_len xs"
      using h by (simp add: log_segs_def LOGENTRY_SIZE_def)
    ultimately show ?thesis
      using free s1(2) tf(2,3) by simp
  qed
  note lim2 = lim(2) [folded tf(1)]
  show "txn_inv s1 s t" "dev s1 = dev s0" "\<not> redo_log s" "start_addr t = h + segs_len xs" "num_entries t = m + 1"
    using inv s1(1,5) sf(4) tf by simp_all
  show "log_segs s h (xs @ [running_seg t])"
    unfolding running_seg_def by (rule log_segs_snoc [OF h tf(2,3) sf(1,2) lim2 sf(3) txn_seg(1) [OF inv fr]]) simp_all
  assume used: "num_used t < num_entries t"
  obtain s2 where s2: "pmfs_commit_transaction s (Some t) = Some (0, s2)" "dev s2 = dev s"
    "j_log s2 = (j_log s)(start_addr t + num_used t := end_le s t LE_COMMIT)" "j_desc s2 = j_desc s" "redo_log s2 = redo_log s" "j_jsize s2 = j_jsize s"
    using commit_eq [OF inv sf(4) used] by blast
  have "log_segs s2 h (xs @ [finished_seg t])"
    unfolding finished_seg_def
    by (rule log_segs_snoc [OF h tf(2,3) _ _ lim2 _ txn_seg(2) [OF inv fr used, folded s2(3)]]) (use s2(3-5) sf in simp_all)
  with s2 sf(2) show "\<exists>s2. pmfs_commit_transaction s (Some t) = Some (0, s2) \<and> dev s2 = dev s \<and>
      j_log s2 = (j_log s)(start_addr t + num_used t := end_le s t LE_COMMIT) \<and> j_jsize s2 = j_jsize s \<and> j_gen (j_desc s2) = j_gen (j_desc s0) \<and>
      log_segs s2 h (xs @ [finished_seg t])"
    by auto
qed

text \<open>C7: PMFS transactions are atomic. From a log without a running transaction and with room behind its tail, \<open>pmfs_new_transaction\<close> starts a
  transaction, and then logging of ranges with \<open>pmfs_add_logentry\<close> and changes of bytes inside logged
  ranges follow in any number and order. If the system crashes between two of these steps, \<open>pmfs_recover_journal\<close> ends and the device holds
  the bytes from before the transaction; if the transaction is aborted, it holds them as well. If there is an entry left, which
  \<open>pmfs_new_transaction\<close> has reserved, then after \<open>pmfs_commit_transaction\<close> the device holds the changed bytes and recovery
  keeps them.\<close>

theorem pmfs_transaction_atomic:
  assumes "log_idle s0" "log_room s0 m" "pmfs_new_transaction True s0 m = Some (Inr t0, s1)" "txn_run s1 t0 s t"
  shows "(\<exists>s'. pmfs_recover_journal s = Some (0, s') \<and> dev s' = dev s0) \<and>
    (\<exists>s'. pmfs_abort_transaction s (Some t) = Some (0, s') \<and> dev s' = dev s0) \<and>
    (num_used t < num_entries t \<longrightarrow> (\<exists>s2 s'. pmfs_commit_transaction s (Some t) = Some (0, s2) \<and> dev s2 = dev s \<and>
       pmfs_recover_journal s2 = Some (0, s') \<and> dev s' = dev s))"
proof -
  obtain h xs where h: "log_segs s0 h xs" "\<forall>x\<in>set xs. seg_fin x"
    and free: "\<forall>i. j_tail (j_desc s0) div LOGENTRY_SIZE \<le> i \<and> i < j_jsize s0 div LOGENTRY_SIZE \<longrightarrow> le_gen (j_log s0 i) \<noteq> j_gen (j_desc s0)"
    using assms(1) unfolding log_idle_def by blast
  note l = txn_log [OF h(1) assms(2) free assms(3,4)]
  have "undo_segs (j_log s) h (xs @ [running_seg t]) (dev s) = dev s0"
    using l(1,2,4) h(2) by (simp add: undo_segs_append undo_finished undo_seg_def txn_inv_def running_seg_def)
  then have 1: "\<exists>s'. pmfs_recover_journal s = Some (0, s') \<and> dev s' = dev s0"
    using recover_segs [OF l(6)] by auto
  have 2: "\<exists>s'. pmfs_abort_transaction s (Some t) = Some (0, s') \<and> dev s' = dev s0"
    using abort_eq [OF l(1,3)] l(2) by simp
  have 3: "\<exists>s2 s'. pmfs_commit_transaction s (Some t) = Some (0, s2) \<and> dev s2 = dev s \<and>
       pmfs_recover_journal s2 = Some (0, s') \<and> dev s' = dev s" if used: "num_used t < num_entries t"
  proof -
    obtain s2 where s2: "pmfs_commit_transaction s (Some t) = Some (0, s2)" "dev s2 = dev s" "log_segs s2 h (xs @ [finished_seg t])"
      using l(7) [OF used] by blast
    moreover have "undo_segs (j_log s2) h (xs @ [finished_seg t]) m = m" for m
      using h(2) by (intro undo_finished) (auto simp: finished_seg_def)
    ultimately show ?thesis
      using recover_segs [OF s2(3)] by auto
  qed
  show ?thesis
    using 1 2 3 by blast
qed

definition log_example :: pmfs_sb where
  "log_example = \<lparr>dev = \<lambda>_. 1, block_inuse_head = [], block_start = 0, block_end = 2000, num_free_blocks = 0, num_blocknode_allocated = 0,
     s_blocksize_bits = 12, errors_panic = False, errors_ro = False, s_rdonly = False,
     j_desc = \<lparr>j_base = 4096, j_size = 65536, j_head = 0, j_tail = 0, j_gen = 1, redo_logging = 0\<rparr>,
     j_log = \<lambda>_. \<lparr>addr_offset = 0, le_tid = 0, le_gen = 0, le_type = 0, le_size = 0, le_data = []\<rparr>,
     next_transaction_id = 0, j_jsize = 65536, redo_log = False, journal_info = None\<rparr>"

lemma log_example_idle: "log_idle log_example" "log_room log_example 2"
proof -
  have "log_segs log_example 0 []"
    by (simp add: log_segs_def log_example_def MAX_GEN_ID_def LOGENTRY_SIZE_def)
  then show "log_idle log_example"
    unfolding log_idle_def by (auto simp: log_example_def intro!: exI [of _ 0] exI [of _ "[]"])
  show "log_room log_example 2"
    by (simp add: log_room_def log_example_def LOGENTRY_SIZE_def)
qed

theorem pmfs_transaction_atomic_witness:
  "\<exists>t0 s1 s t. log_idle log_example \<and> log_room log_example 2 \<and> pmfs_new_transaction True log_example 2 = Some (Inr t0, s1) \<and>
    txn_run s1 t0 s t \<and> dev s 8200 = 7 \<and> num_used t = 2 \<and> num_entries t = 3 \<and>
    (\<exists>s'. pmfs_recover_journal s = Some (0, s') \<and> dev s' 8200 = 1) \<and>
    (\<exists>s2 s'. pmfs_commit_transaction s (Some t) = Some (0, s2) \<and> pmfs_recover_journal s2 = Some (0, s') \<and> dev s' 8200 = 7)"
proof -
  obtain t0 s1 where n: "pmfs_new_transaction True log_example 2 = Some (Inr t0, s1)" "num_used t0 = 0" "num_entries t0 = 3"
      "dev s1 = dev log_example"
    using new_transaction_fits [of log_example 0 "[]" 2] log_example_idle(2)
    by (simp add: log_segs_def log_example_def MAX_GEN_ID_def LOGENTRY_SIZE_def)
  have "txn_inv s1 s1 t0"
    using txn_run_inv [OF txn_run.start] n(2,3) by simp
  from add_logentry_ok [OF this, of 8192 60] obtain r t s
    where l: "pmfs_add_logentry s1 t0 8192 60 LE_DATA = Some (r, t, s)" "dev s = dev s1" "\<exists>n. t = t0\<lparr>num_used := n\<rparr>"
      "r = 0 \<longrightarrow> (\<forall>a. logged s t a \<longleftrightarrow> logged s1 t0 a \<or> 8192 \<le> a \<and> a < 8192 + 60)"
    by auto
  have r: "r = 0" "num_used t = 2" "num_entries t = 3"
  proof -
    have "num_les 60 LE_DATA = Suc (Suc 0)"
      by (simp add: num_les_def)
    then show "r = 0" "num_used t = 2" "num_entries t = 3"
      using l(1) n(2,3) by (auto simp: pmfs_add_logentry_def Let_def le_types simp del: fun_upd_apply)
  qed
  let ?s = "s\<lparr>dev := (dev s)(8200 := 7)\<rparr>"
  have run: "txn_run s1 t0 ?s t"
    using txn_run.log [OF txn_run.start _ _ l(1)] l(4) r(1) by (intro txn_run.change) simp_all
  show ?thesis
    using pmfs_transaction_atomic [OF log_example_idle n(1) run] log_example_idle n(1) run r
    by (intro exI [of _ t0] exI [of _ s1] exI [of _ ?s] exI [of _ t]) (auto simp: log_example_def)
qed

end
