(* ===== verification/Pmfs_Log_Full.thy ===== *)
theory Pmfs_Log_Full
  imports Pmfs_Undo
begin

text \<open>
  A full log of PMFS (\<open>src/pmfs/journal.c\<close>). \<open>pmfs_new_transaction\<close> reads the head of the log once, before it calls the cleaner, and
  \<open>pmfs_clean_journal\<close> counts the entries of a running transaction, at which it stops, as freed. When the log has to wrap around to make room, a new
  transaction is then given entries of one that is still running.
\<close>

subsection \<open>The cleaner\<close>









subsection \<open>A new transaction on a full log\<close>






end
