(* ===== verification/Spec2Isabelle.thy ===== *)
theory Spec2Isabelle
  imports Mount Lib_Read Unlink Pmfs_Bbuild Pmfs_Log_Full
begin

text \<open>
  This library is a verification of SlotFS (\<open>src/slotfs\<close>), a file system for persistent memory that runs in user space, and of the block allocator and
  the journal of PMFS (\<open>src/pmfs\<close>), a kernel file system that the repository compares it with.

  \<^bold>\<open>The program.\<close> A process that is linked with SlotFS calls \<open>open\<close>, \<open>read\<close>, \<open>fopen\<close> and so on. \<open>lib.c\<close> puts itself in front of the C library and
  passes the calls on paths and descriptors of SlotFS to \<open>slotfs_func.c\<close> (streams by way of \<open>glibc/ffile.c\<close>), and all others to the C library.
  \<open>slotfs_func.c\<close> resolves paths with \<open>slot_vfs.c\<close> and works on inodes with \<open>inode.c\<close>; \<open>runtime.c\<close> is the table of open files of the process.
  The media hold a super block, tables of inodes, directory entries and file entries (the slots), journal pages and data blocks. An inode has a log, a
  chain of slots; \<open>inode.c\<close> keeps an index of the log in memory: a red-black tree by name hash for a directory (\<open>rbtree.c\<close>, \<open>list.h\<close>), a radix
  tree by block number for a file (\<open>btree.c\<close>). Slots are allocated from bitmaps (\<open>slot.c\<close>, \<open>bitops.h\<close>), objects in memory from
  arenas (\<open>arena.c\<close>) and a heap (\<open>heap/\<close>), which lie in memory shared by the processes (\<open>shm.c\<close>). Ranges of a file are locked with
  \<open>lock.c\<close>. \<open>mkfs.c\<close> formats the media, \<open>recover.c\<close> and \<open>journal.c\<close> repair them after a crash, and \<open>slotfs.c\<close> mounts.

  \<^bold>\<open>Conventions.\<close> State is passed explicitly: a record per component, and \<open>fs\<close> (\<open>Fs_State\<close>) for the memory shared by the processes, \<open>sys\<close> for one
  process with it. Pointers are positions in a store of nodes or objects, \<open>None\<close> or the value of the C code for a null pointer. \<open>size_t\<close> and 64-bit
  numbers are \<open>nat\<close> with \<open>size_add\<close>, \<open>size_sub\<close> and \<open>size_mul\<close> modulo \<open>2 ^ 64\<close>, bytes are 8-bit words, \<open>int\<close> results are \<open>int\<close>. The result
  \<open>None\<close> of an operation is a fault, an assertion that fails, a lock that is never released to the caller, a loop that does not end, or an access to device memory outside the table it
  belongs to, whose effect on the other areas of the device is not described; errors of the code are values
  (negative numbers, \<open>-1\<close> with \<open>errno\<close>, or the left summand of a sum). Loops are structural recursion where the number of rounds is known from the data, \<open>function\<close>
  with a measure where it is not, and \<open>partial_function (option)\<close> where a loop need not end: then ending is part of the property. Where the code holds a lock around an
  operation, the operation is one step. The CPU and the time at which a call runs are fields of the state; the results of \<open>malloc\<close>, the functions of the C library found by \<open>dlsym\<close> and the
  kernel's \<open>mmap\<close> are arguments.

  \<^bold>\<open>Theories and what they show.\<close>

  \<^item> \<open>Slot_Prelude\<close>: machine numbers and lists of bits, and the lemmas on them that the components share. \<open>C_Float\<close>: the single-precision arithmetic that
    \<open>filent_dispatch\<close> uses.
  \<^item> \<open>Bitops\<close> (\<open>bitops.h\<close>): every bitmap primitive, against sets of bit positions; \<open>set_bit_range\<close> loses bits of its last byte, \<open>count_bits\<close> is exact.
  \<^item> \<open>Slot_Alloc\<close> (\<open>slot.c\<close>): the allocator of slots over one bitmap per CPU. The locale \<open>slot_allocator\<close> is the contract of an allocator (a set of used
    slots, allocation takes a free one, freeing gives it back), interpreted for single slots, for the best-effort variant and, in \<open>Fs_Calls\<close>, for descriptors. Range
    allocation has the exact effect stated, which includes handing out a used slot.
  \<^item> \<open>Range_Lock\<close> (\<open>lock.c\<close>): a step relation of lockers; no two held ranges overlap, and a locker waits only for an overlap or a full table.
  \<^item> \<open>Arena\<close> (\<open>arena.c\<close>): the locale \<open>object_pool\<close>, interpreted for the abstract pool and for the arena in memory, which refines it.
  \<^item> \<open>Btree\<close> (\<open>btree.c\<close>): growing, setting, getting, ranges with callback, over a store of nodes from an object pool; a get after a set, and the range update as a fold.
  \<^item> \<open>List_Head\<close> (\<open>list.h\<close>): every operation on a store of links, refined to lists.
  \<^item> \<open>Rb_Tree\<close> (\<open>rbtree.c\<close>, \<open>rbtree_augmented.h\<close>): insertion, deletion and walks over a store of nodes. \<open>Rb_Rep\<close> relates the store with an abstract tree with a hole;
    \<open>Rb_Insert\<close>, \<open>Rb_Erase\<close> and \<open>Rb_Walk\<close> show that insertion and deletion keep the red-black invariant and insert into and take out of the in-order sequence, and that the walks follow it.
  \<^item> \<open>Heap_Alloc\<close> (\<open>heap/\<close>): the model of the heap, used by \<open>Fs_State\<close>.
  \<^item> \<open>Pm_Layout\<close> (\<open>mkfs.c\<close>, \<open>shm.c\<close>): the media, their areas and formatting; the areas are inside the device and disjoint, and the maps loaded after formatting are well formed.
  \<^item> \<open>Fs_State\<close> (\<open>slotfs.h\<close>, \<open>inode.h\<close>, \<open>entry.h\<close>): the shared state. \<open>Dir_Ops\<close>, \<open>File_Ops\<close> (\<open>inode.c\<close>), \<open>Journal\<close> (\<open>journal.c\<close>), \<open>Vfs\<close> (\<open>slot_vfs.c\<close>), \<open>Fs_Func\<close> (\<open>runtime.c\<close>,
    \<open>slotfs_func.c\<close>), \<open>Recover\<close> (\<open>recover.c\<close>), \<open>Glibc_File\<close> (\<open>glibc/ffile.c\<close>) and \<open>Lib_Calls\<close> (\<open>lib.c\<close>) hold the operations.
  \<^item> \<open>Dir_Index\<close>: the locale \<open>keyed_index\<close> is the contract of an index by key, interpreted for the index of a directory. \<open>Dir_Log\<close> and \<open>Dir_Remove\<close>: the invariant \<open>dir_ok\<close> of a directory
    (index, list, chain of log slots, ghost slot) is kept by appending and removing an entry, and lookups change at that name only.
  \<^item> \<open>File_Read\<close>, \<open>File_Resize\<close>: a read of a file of whole extents and holes returns its content; reads across overwritten blocks are stale; shrinking over a hole does not end.
  \<^item> \<open>Vfs_Locks\<close>: path resolution gives back every inode lock but that of its result. \<open>Fs_Calls\<close>, \<open>Unlink\<close>: descriptors, \<open>open\<close>, \<open>unlink\<close> and \<open>symlink\<close> on the invariants of
    locks, cache, process table and directories.
  \<^item> \<open>Journal_Replay\<close>, \<open>Recover\<close>, \<open>Mount\<close>: undo records, recovery, and mounting: from any device content the first process gets a file system in which the invariants of all components hold.
  \<^item> \<open>Lib_Read\<close>: through all layers, a program that opens a file with \<open>open\<close> and reads it piece by piece with \<open>read\<close> gets the content of the file, and the C library is not called.
    \<open>Lib_Calls\<close>: \<open>fopen\<close> for writing appends.
  \<^item> \<open>Pmfs_State\<close>, \<open>Pmfs_Balloc\<close> (\<open>balloc.c\<close>), \<open>Pmfs_Bbuild\<close> (\<open>bbuild.c\<close>): the list of runs of used blocks. The locale \<open>run_allocator\<close> is the contract of an allocator of aligned runs,
    interpreted for \<open>pmfs_new_block\<close>; freeing and the rebuilding of the map from bitmaps are exact.
  \<^item> \<open>Pmfs_Journal\<close>, \<open>Pmfs_Undo\<close>, \<open>Pmfs_Log_Full\<close> (\<open>journal.c\<close>): the whole log. \<open>txn_run\<close> is the step relation of a transaction; crash, abort and commit are atomic when the log has room. \<open>Pmfs_Log_Full\<close>
    describes a log as a sequence of finished and running transactions and what the cleaner counts on it: when the log wraps around, a new transaction can be given the entries of a running one.

  \<^bold>\<open>Bounds.\<close> No operation is cut off by fuel. Sizes of the media are those of \<open>config.h\<close>; counters that are 16 or 32 bits wide in PMFS wrap around.

  \<^bold>\<open>Not modelled.\<close> Cache flushes, fences and the order in which stores become persistent: a crash falls between two operations. Interleavings inside an operation: the eight threads of
  \<open>recover.c\<close> are one thread that does all the work (\<open>rc_free\<close>, which releases memory, is left out). \<open>dax_map\<close>, \<open>shm_map\<close> and \<open>shm_create\<close>, which only map memory through the kernel. \<open>inode_write_fake\<close>, a stub
  without a caller. \<open>debug.c\<close>, which prints. \<open>gather.c\<close>: the thread that calls it is never started, and what it does depends on reading file entries as directory entries.
  Of PMFS, all that works on inodes of the Linux VFS. NOVA, SplitFS and MadFS, file systems compared with SlotFS that are built on the kernel or on ext4-DAX. Benchmarks, tools and test programs.
\<close>

end
